(* ===== verification/Gv_Prelude.thy ===== *)
theory Gv_Prelude
  imports Main "HOL-Library.Word" "HOL-Library.Multiset"
begin

text \<open>
  Shared vocabulary of the development: the machine types of the C and C++ sources, the C
  operators whose result is undefined outside a range (shifts), the pointer-chasing insertion
  loop that every time-ordered intrusive list of the engine uses, and the generic lemmas about
  lists and words on which the component theories rest.
\<close>

section \<open>Machine types\<close>

type_synonym u8 = "8 word"
type_synonym u16 = "16 word"
type_synonym u32 = "32 word"
type_synonym u64 = "64 word"

unbundle bit_operations_syntax

named_theorems cop_defs \<open>definitions of the C operators\<close>
named_theorems te_defs \<open>operations of the time engine\<close>
named_theorems ce_defs \<open>operations of the clock engine\<close>

section \<open>The ordered insertion loop\<close>

text \<open>
  \<^verbatim>\<open>while (current && current->key < k) { prev = current; current = current->next; }\<close>
  followed by linking the new element between \<^verbatim>\<open>prev\<close> and \<^verbatim>\<open>current\<close>. The chain of
  \<^verbatim>\<open>next\<close> pointers is a list; the loop stops at the first element whose key is not below
  \<open>k\<close>, so the new element goes in front of the elements with an equal key.
\<close>

fun ins_lt :: "('a \<Rightarrow> 'k::linorder) \<Rightarrow> 'k \<Rightarrow> 'a \<Rightarrow> 'a list \<Rightarrow> 'a list" where
  "ins_lt key k x [] = [x]"
| "ins_lt key k x (y # ys) = (if key y < k then y # ins_lt key k x ys else x # y # ys)"

lemma set_ins_lt [simp]: "set (ins_lt key k x ys) = insert x (set ys)"
  by (induction ys) auto

lemma mset_ins_lt [simp]: "mset (ins_lt key k x ys) = add_mset x (mset ys)"
  by (induction ys) auto

lemma length_ins_lt [simp]: "length (ins_lt key k x ys) = Suc (length ys)"
  by (induction ys) auto

lemma ins_lt_not_Nil [simp]: "ins_lt key k x ys \<noteq> []"
  by (cases ys) auto

lemma distinct_ins_lt [simp]: "distinct (ins_lt key k x ys) \<longleftrightarrow> x \<notin> set ys \<and> distinct ys"
  by (induction ys) auto

lemma sorted_ins_lt:
  "sorted (map key ys) \<Longrightarrow> key x = k \<Longrightarrow> sorted (map key (ins_lt key k x ys))"
  by (induction ys) (auto simp: not_less intro: less_imp_le order_trans)

lemma ins_lt_front: "\<forall>y\<in>set ys. k \<le> key y \<Longrightarrow> ins_lt key k x ys = x # ys"
  by (cases ys) auto

lemma ins_lt_back: "\<forall>y\<in>set ys. key y < k \<Longrightarrow> ins_lt key k x ys = ys @ [x]"
  by (induction ys) auto

lemma ins_lt_cong:
  "(\<And>y. y \<in> set ys \<Longrightarrow> key y = key' y) \<Longrightarrow> ins_lt key k x ys = ins_lt key' k x ys"
  by (induction ys) auto

lemma map_ins_lt:
  "(\<And>y. y \<in> set ys \<Longrightarrow> key' (f y) = key y) \<Longrightarrow>
     map f (ins_lt key k x ys) = ins_lt key' k (f x) (map f ys)"
  by (induction ys) auto

text \<open>The loop splits the sorted list into the keys below \<open>k\<close> and the rest.\<close>

lemma ins_lt_split:
  "ins_lt key k x ys = takeWhile (\<lambda>y. key y < k) ys @ x # dropWhile (\<lambda>y. key y < k) ys"
  by (induction ys) auto

lemma sorted_map_congI:
  "sorted (map f xs) \<Longrightarrow> (\<And>x. x \<in> set xs \<Longrightarrow> g x = f x) \<Longrightarrow> sorted (map g xs)"
  by (metis map_cong)

lemma sorted_hd_le: "sorted (map f xs) \<Longrightarrow> x \<in> set xs \<Longrightarrow> f (hd xs) \<le> f x"
  by (cases xs) auto

section \<open>C integer division\<close>

text \<open>C truncates towards zero.\<close>

definition cdiv :: "int \<Rightarrow> int \<Rightarrow> int" where
  [cop_defs]: "cdiv a b = sgn a * sgn b * (\<bar>a\<bar> div \<bar>b\<bar>)"

lemma cdiv_nonneg [simp]: "0 \<le> a \<Longrightarrow> 0 < b \<Longrightarrow> cdiv a b = a div b"
  by (cases "a = 0") (simp_all add: cdiv_def)

section \<open>Arrays of lists\<close>

text \<open>The elements of the first \<open>n\<close> lists of an array of intrusive lists.\<close>

abbreviation slots :: "(nat \<Rightarrow> 'a list) \<Rightarrow> nat \<Rightarrow> 'a list" where
  "slots q n \<equiv> concat (map q [0..<n])"

lemma slots_upd_beyond [simp]: "n \<le> i \<Longrightarrow> slots (q(i := xs)) n = slots q n"
  by (induction n) auto

lemma mset_slots_push: "i < n \<Longrightarrow> mset (slots (q(i := x # q i)) n) = add_mset x (mset (slots q n))"
  by (induction n) (auto simp: less_Suc_eq)

lemma mset_slots_remove:
  "i < n \<Longrightarrow> x \<in> set (q i) \<Longrightarrow>
     add_mset x (mset (slots (q(i := remove1 x (q i))) n)) = mset (slots q n)"
  by (induction n) (auto simp: less_Suc_eq)

lemma set_slots: "set (slots q n) = (\<Union>i<n. set (q i))"
  by (induction n) (auto simp: lessThan_Suc)

lemma slots_empty: "slots q n = [] \<longleftrightarrow> (\<forall>i<n. q i = [])"
  by (induction n) (auto simp: less_Suc_eq)

lemma slots_unique:
  "distinct (slots q n) \<Longrightarrow> i < n \<Longrightarrow> j < n \<Longrightarrow> x \<in> set (q i) \<Longrightarrow> x \<in> set (q j) \<Longrightarrow> i = j"
proof (induction n)
  case (Suc n)
  then show ?case by (cases "i = n"; cases "j = n") (force simp: set_slots)+
qed simp

end
