(* ===== verification/Time_Engine.thy ===== *)
theory Time_Engine
  imports Gv_Prelude
begin

text \<open>
  The time engine (\<^verbatim>\<open>engine/include/vp/time/time_engine.hpp\<close>, \<^verbatim>\<open>engine/src/vp.cpp\<close>,
  \<^verbatim>\<open>engine/vp/time_engine.cpp\<close>): the list of clients ordered by the time of their next event,
  the operations that insert and remove a client, and the scheduling loop that runs the
  earliest client and puts it back. The \<^verbatim>\<open>vp_assert\<close> checks, which release builds compile
  out, are not branches of the definitions: the conditions they check are proved.
\<close>

section \<open>State\<close>

type_synonym cid = nat

record tclient =
  next_event_time :: int
  cl_running :: bool
  is_enqueued :: bool

record time_engine =
  clients :: "cid \<Rightarrow> tclient"
  first_client :: "cid list"
  te_time :: int
  run_req :: bool
  stop_req :: bool
  pause_req :: bool
  locked :: bool
  locked_run_req :: bool
  te_finished :: bool
  te_running :: bool
  stop_status :: "32 word"
  engine_has_been_stopped :: bool
  retain_count :: int
  no_exit :: bool
  stop_retain_count :: int

text \<open>A field update of one client object, reached through its pointer.\<close>

definition upd_client :: "cid \<Rightarrow> (tclient \<Rightarrow> tclient) \<Rightarrow> time_engine \<Rightarrow> time_engine" where
  "upd_client c f s = s\<lparr>clients := (clients s)(c := f (clients s c))\<rparr>"

abbreviation net :: "time_engine \<Rightarrow> cid \<Rightarrow> int" where
  "net s c \<equiv> next_event_time (clients s c)"

text \<open>The state the constructors and field initialisers set up: no client enqueued, time 0.\<close>

definition te_init :: time_engine where
  "te_init =
     \<lparr>clients = (\<lambda>_. \<lparr>next_event_time = 0, cl_running = False, is_enqueued = False\<rparr>),
      first_client = [], te_time = 0, run_req = False, stop_req = False, pause_req = False,
      locked = False, locked_run_req = False, te_finished = False, te_running = False,
      stop_status = -1, engine_has_been_stopped = False, retain_count = 0, no_exit = False,
      stop_retain_count = 0\<rparr>"

section \<open>Client queue\<close>

definition te_get_next_event_time :: "time_engine \<Rightarrow> int" where
  "te_get_next_event_time s =
     (case first_client s of [] \<Rightarrow> te_time s | c # _ \<Rightarrow> net s c)"

definition te_dequeue :: "cid \<Rightarrow> time_engine \<Rightarrow> bool \<times> time_engine" where
  "te_dequeue c s =
     (if \<not> is_enqueued (clients s c) then (False, s)
      else (True, (upd_client c (is_enqueued_update (\<lambda>_. False)) s)
                    \<lparr>first_client := remove1 c (first_client s)\<rparr>))"

text \<open>The block of \<^verbatim>\<open>time_engine::enqueue\<close> that links a client at an absolute time.\<close>

definition te_link :: "cid \<Rightarrow> int \<Rightarrow> time_engine \<Rightarrow> time_engine" where
  "te_link c full_time s =
     (let s1 = upd_client c (\<lambda>cl. cl\<lparr>is_enqueued := True, next_event_time := full_time\<rparr>) s
      in s1\<lparr>first_client := ins_lt (net s1) full_time c (first_client s1)\<rparr>)"

definition te_enqueue :: "cid \<Rightarrow> int \<Rightarrow> time_engine \<Rightarrow> bool \<times> time_engine" where
  "te_enqueue c t s =
     (let full_time = te_time s + t in
      if cl_running (clients s c) then (False, s)
      else if is_enqueued (clients s c) \<and> net s c \<le> full_time then (False, s)
      else (True, te_link c full_time
                    (if is_enqueued (clients s c) then snd (te_dequeue c s) else s)))"

definition te_update :: "int \<Rightarrow> time_engine \<Rightarrow> time_engine" where
  "te_update t s = (if t > te_time s then s\<lparr>te_time := t\<rparr> else s)"

section \<open>Scheduling loop\<close>

text \<open>
  The virtual method \<^verbatim>\<open>exec\<close> of a client is a parameter: it runs on the state \<open>'s\<close> of the
  clients and on the engine (it may enqueue other clients) and gives the delay to its next
  event, or \<open>None\<close> when it does not return. \<open>run_pop\<close> takes the first client off the list and
  moves the engine time to it; \<open>run_resume\<close> is the part of the loop body after \<^verbatim>\<open>exec\<close>, with
  its shortcut for a client that is still the earliest; \<open>run_body\<close> is one round of the loop,
  \<open>Some c\<close> when it goes on with client \<open>c\<close> and \<open>None\<close> when it breaks out.
\<close>

type_synonym 's exec_meth = "cid \<Rightarrow> 's \<times> time_engine \<Rightarrow> (int \<times> 's \<times> time_engine) option"

definition run_pop :: "time_engine \<Rightarrow> cid option \<times> time_engine" where
  "run_pop s =
     (case first_client s of
        [] \<Rightarrow> (None, s)
      | d # ds \<Rightarrow>
          (Some d, (upd_client d (is_enqueued_update (\<lambda>_. False)) s)
                     \<lparr>first_client := ds, te_time := net s d\<rparr>))"

definition run_resume :: "cid \<Rightarrow> int \<Rightarrow> time_engine \<Rightarrow> cid option \<times> time_engine" where
  "run_resume current t s =
     (let next = first_client s;
          time = (if t > 0 then t + te_time s else t)
      in
      if t > 0 \<and> (next = [] \<or> net s (hd next) \<ge> time) then
        if run_req s then (Some current, s\<lparr>te_time := time\<rparr>)
        else (None,
               (upd_client current
                 (\<lambda>cl. cl\<lparr>is_enqueued := True, next_event_time := time, cl_running := False\<rparr>) s)
                 \<lparr>first_client := current # first_client s\<rparr>)
      else
        let s1 = (if time > 0 then
                    let s' = upd_client current
                               (\<lambda>cl. cl\<lparr>is_enqueued := True, next_event_time := time\<rparr>) s
                    in s'\<lparr>first_client := hd next # ins_lt (net s') time current (tl next)\<rparr>
                  else s);
            s2 = upd_client current (cl_running_update (\<lambda>_. False)) s1
        in if \<not> run_req s2 then (None, s2) else run_pop s2)"

definition run_body ::
    "'s exec_meth \<Rightarrow> cid \<Rightarrow> 's \<times> time_engine \<Rightarrow> (cid option \<times> 's \<times> time_engine) option" where
  "run_body exec current w =
     (case exec current (fst w, upd_client current (cl_running_update (\<lambda>_. True)) (snd w)) of
        None \<Rightarrow> None
      | Some (t, x, s) \<Rightarrow> (case run_resume current t s of (c, s') \<Rightarrow> Some (c, x, s')))"

fun run_inner ::
    "'s exec_meth \<Rightarrow> nat \<Rightarrow> cid \<Rightarrow> 's \<times> time_engine \<Rightarrow> (cid option \<times> 's \<times> time_engine) option" where
  "run_inner exec 0 current w = Some (Some current, w)"
| "run_inner exec (Suc n) current w =
     (case run_body exec current w of
        None \<Rightarrow> None
      | Some (None, w') \<Rightarrow> Some (None, w')
      | Some (Some c, w') \<Rightarrow> run_inner exec n c w')"

section \<open>Run control\<close>

text \<open>
  The operations other threads call under the engine's mutex. An operation that waits on the
  condition variable is its update together with the condition it waits for: \<open>te_run\<close> is
  \<open>None\<close> while the engine is locked, and \<open>te_lock\<close> and \<open>te_pause\<close> return once \<open>te_running\<close> is
  false.
\<close>

definition te_run :: "time_engine \<Rightarrow> time_engine option" where
  "te_run s = (if locked s then None else Some (s\<lparr>run_req := True, pause_req := False\<rparr>))"

definition te_stop_engine :: "32 word \<Rightarrow> bool \<Rightarrow> bool \<Rightarrow> time_engine \<Rightarrow> time_engine" where
  "te_stop_engine status force no_retain s =
     (let s1 = (if \<not> engine_has_been_stopped s
                then s\<lparr>engine_has_been_stopped := True, stop_status := status\<rparr>
                else s\<lparr>stop_status := stop_status s OR status\<rparr>)
      in if (no_retain \<or> stop_retain_count s1 = 0 \<or> stop_status s1 \<noteq> 0) \<and> (force \<or> \<not> no_exit s1)
         then s1\<lparr>stop_req := True, run_req := False\<rparr> else s1)"

definition te_stop_retain :: "int \<Rightarrow> time_engine \<Rightarrow> time_engine" where
  "te_stop_retain n s = s\<lparr>stop_retain_count := stop_retain_count s + n\<rparr>"

definition te_pause :: "time_engine \<Rightarrow> time_engine" where
  "te_pause s = s\<lparr>run_req := False\<rparr>"

definition te_lock_step :: "time_engine \<Rightarrow> time_engine" where
  "te_lock_step s =
     (if \<not> locked s then s\<lparr>locked := True, locked_run_req := run_req s, run_req := False\<rparr> else s)"

definition te_lock_step_cancel :: "time_engine \<Rightarrow> time_engine" where
  "te_lock_step_cancel s =
     (if locked s then s\<lparr>run_req := locked_run_req s, locked := False\<rparr> else s)"

definition te_lock :: "time_engine \<Rightarrow> time_engine" where
  "te_lock s =
     (if \<not> locked s then s\<lparr>locked_run_req := run_req s, run_req := False, locked := True\<rparr> else s)"

definition te_unlock :: "time_engine \<Rightarrow> time_engine" where
  "te_unlock s = s\<lparr>run_req := locked_run_req s, locked := False\<rparr>"

definition te_stop_exec :: "time_engine \<Rightarrow> time_engine" where
  "te_stop_exec s = s\<lparr>pause_req := True, run_req := False\<rparr>"

section \<open>Invariant\<close>

text \<open>
  The list holds exactly the clients whose flag says so, once each, in the order of their
  times, none of them in the past and none of them running.
\<close>

definition te_inv :: "time_engine \<Rightarrow> bool" where
  "te_inv s \<longleftrightarrow>
     distinct (first_client s) \<and>
     sorted (map (net s) (first_client s)) \<and>
     (\<forall>c. is_enqueued (clients s c) \<longleftrightarrow> c \<in> set (first_client s)) \<and>
     (\<forall>c\<in>set (first_client s). te_time s \<le> net s c \<and> \<not> cl_running (clients s c))"

lemma upd_client_simps [simp]:
  "clients (upd_client c f s) = (clients s)(c := f (clients s c))"
  "first_client (upd_client c f s) = first_client s"
  "te_time (upd_client c f s) = te_time s"
  "run_req (upd_client c f s) = run_req s"
  by (simp_all add: upd_client_def)

lemmas te_ops [te_defs] = te_dequeue_def te_enqueue_def run_pop_def te_update_def

lemma te_invI:
  assumes "distinct (first_client s)" "sorted (map (net s) (first_client s))"
    "\<And>c. is_enqueued (clients s c) \<longleftrightarrow> c \<in> set (first_client s)"
    "\<And>c. c \<in> set (first_client s) \<Longrightarrow> te_time s \<le> net s c"
    "\<And>c. c \<in> set (first_client s) \<Longrightarrow> \<not> cl_running (clients s c)"
  shows "te_inv s"
  using assms by (auto simp: te_inv_def)

lemma te_invD:
  assumes "te_inv s"
  shows "distinct (first_client s)" "sorted (map (net s) (first_client s))"
    "is_enqueued (clients s c) \<longleftrightarrow> c \<in> set (first_client s)"
    "c \<in> set (first_client s) \<Longrightarrow> te_time s \<le> net s c"
    "c \<in> set (first_client s) \<Longrightarrow> \<not> cl_running (clients s c)"
  using assms by (auto simp: te_inv_def)

lemma map_net_upd_other:
  "c \<notin> set xs \<Longrightarrow> map (net (upd_client c f s)) xs = map (net s) xs"
  by auto

lemma te_inv_dequeue: "te_inv s \<Longrightarrow> te_inv (snd (te_dequeue c s))"
proof (cases "is_enqueued (clients s c)")
  case True
  assume inv: "te_inv s"
  note D = te_invD [OF inv]
  show ?thesis
  proof (rule te_invI, goal_cases)
    case 2
    have "sorted (map (net s) (remove1 c (first_client s)))"
      using D(2) by (rule sorted_map_remove1)
    then show ?case
      using True by (auto simp: te_dequeue_def elim!: sorted_map_congI)
  qed (use True D in \<open>auto simp: te_dequeue_def\<close>)
qed (simp add: te_dequeue_def)

lemma te_dequeue_simps [simp]:
  "te_time (snd (te_dequeue c s)) = te_time s"
  "run_req (snd (te_dequeue c s)) = run_req s"
  "net (snd (te_dequeue c s)) d = net s d"
  "cl_running (clients (snd (te_dequeue c s)) d) = cl_running (clients s d)"
  by (auto simp: te_dequeue_def)

lemma te_dequeue_not_in:
  "te_inv s \<Longrightarrow> c \<notin> set (first_client (snd (te_dequeue c s)))"
  by (auto simp: te_dequeue_def te_inv_def)

lemma set_te_dequeue:
  "te_inv s \<Longrightarrow> set (first_client (snd (te_dequeue c s))) = set (first_client s) - {c}"
  by (auto simp: te_dequeue_def te_inv_def)

lemma te_link_simps [simp]:
  "te_time (te_link c t s) = te_time s"
  "run_req (te_link c t s) = run_req s"
  "clients (te_link c t s) =
     (clients s)(c := (clients s c)\<lparr>is_enqueued := True, next_event_time := t\<rparr>)"
  "set (first_client (te_link c t s)) = insert c (set (first_client s))"
  by (auto simp: te_link_def)

lemma first_client_te_link:
  "c \<notin> set (first_client s) \<Longrightarrow>
     first_client (te_link c t s) = ins_lt (net s) t c (first_client s)"
  by (auto simp: te_link_def intro!: ins_lt_cong)

lemma te_inv_link:
  assumes inv: "te_inv s" and c: "c \<notin> set (first_client s)" and t: "te_time s \<le> t"
    and r: "\<not> cl_running (clients s c)"
  shows "te_inv (te_link c t s)"
proof (rule te_invI, goal_cases)
  case 1
  show ?case using te_invD(1) [OF inv] c by (simp add: te_link_def)
next
  case 2
  let ?s = "upd_client c (\<lambda>cl. cl\<lparr>is_enqueued := True, next_event_time := t\<rparr>) s"
  have "sorted (map (net ?s) (first_client s))"
    using te_invD(2) [OF inv] c by (auto elim!: sorted_map_congI)
  then have "sorted (map (net ?s) (ins_lt (net ?s) t c (first_client s)))"
    by (rule sorted_ins_lt) simp
  then show ?case by (simp add: te_link_def Let_def)
qed (use assms te_invD [OF inv] in \<open>auto split: if_splits\<close>)

lemma te_inv_enqueue: "te_inv s \<Longrightarrow> 0 \<le> t \<Longrightarrow> te_inv (snd (te_enqueue c t s))"
  by (auto simp: te_enqueue_def Let_def te_dequeue_not_in te_invD(3)
      intro!: te_inv_link te_inv_dequeue)

section \<open>The scheduling step against its specification\<close>

text \<open>
  The engine seen from outside is the agenda: the pending (time, client) pairs in the order
  they will run. The specification of one round is to insert the client that has just run at
  its new time, if it has one, and to take the first entry of the agenda.
\<close>

definition agenda :: "time_engine \<Rightarrow> (int \<times> cid) list" where
  "agenda s = map (\<lambda>c. (net s c, c)) (first_client s)"

definition schedule_next ::
    "int \<Rightarrow> cid \<Rightarrow> int \<Rightarrow> (int \<times> cid) list \<Rightarrow> (int \<times> cid \<times> (int \<times> cid) list) option" where
  "schedule_next now current delay ag =
     (case (if delay > 0 then ins_lt fst (now + delay) (now + delay, current) ag else ag) of
        [] \<Rightarrow> None
      | (t, c) # rest \<Rightarrow> Some (t, c, rest))"

text \<open>What the scheduling loop relies on while \<open>current\<close> is off the list.\<close>

definition run_inv :: "cid \<Rightarrow> time_engine \<Rightarrow> bool" where
  "run_inv current s \<longleftrightarrow> te_inv s \<and> current \<notin> set (first_client s) \<and> 0 \<le> te_time s \<and>
     (\<forall>d. d \<noteq> current \<longrightarrow> \<not> cl_running (clients s d))"

lemma agenda_upd_other:
  "c \<notin> set (first_client s) \<Longrightarrow> agenda (upd_client c f s) = agenda s"
  by (auto simp: agenda_def)

lemma sorted_agenda: "te_inv s \<Longrightarrow> sorted (map fst (agenda s))"
  by (simp add: agenda_def comp_def te_invD(2))

lemma agenda_te_link:
  assumes "c \<notin> set (first_client s)"
  shows "agenda (te_link c t s) = ins_lt fst t (t, c) (agenda s)"
proof -
  have "agenda (te_link c t s) =
          map (\<lambda>d. (net (te_link c t s) d, d)) (ins_lt (net s) t c (first_client s))"
    by (simp add: agenda_def first_client_te_link assms)
  also have "\<dots> = ins_lt fst t (t, c) (map (\<lambda>d. (net (te_link c t s) d, d)) (first_client s))"
    using assms by (subst map_ins_lt [where key' = fst]) auto
  finally show ?thesis using assms by (auto simp: agenda_def intro: arg_cong [where f = "ins_lt fst t (t, c)"])
qed

text \<open>The slow path links the client behind the head it already knows to be earlier.\<close>

lemma run_resume_slow:
  assumes "\<not> (t > 0 \<and> (first_client s = [] \<or> net s (hd (first_client s)) \<ge> t + te_time s))"
    and "0 \<le> te_time s" and "current \<notin> set (first_client s)"
    and "s2 = upd_client current (cl_running_update (\<lambda>_. False))
                (if t > 0 then te_link current (te_time s + t) s else s)"
  shows "run_resume current t s = (if run_req s then run_pop s2 else (None, s2))"
proof (cases "t > 0")
  case True
  with assms(1) obtain d ds where q: "first_client s = d # ds" and lt: "net s d < te_time s + t"
    by (cases "first_client s") (auto simp: add.commute)
  with assms(3) have "d \<noteq> current" by auto
  with True q lt assms show ?thesis
    by (simp add: run_resume_def te_link_def Let_def add.commute)
qed (use assms in \<open>auto simp: run_resume_def Let_def\<close>)

lemma run_pop_agenda:
  assumes "te_inv s" and "run_pop s = (c, s')"
  shows "map_option (\<lambda>d. (te_time s', d, agenda s')) c =
           (case agenda s of [] \<Rightarrow> None | (t, d) # rest \<Rightarrow> Some (t, d, rest))"
proof (cases "first_client s")
  case Nil
  with assms show ?thesis by (simp add: run_pop_def agenda_def)
next
  case (Cons d ds)
  with assms(1) have "d \<notin> set ds" by (simp add: te_inv_def)
  with Cons assms(2) show ?thesis by (auto simp: run_pop_def agenda_def)
qed

lemma run_pop_inv:
  assumes inv: "te_inv s" and "run_pop s = (Some d, s')" and "0 \<le> te_time s"
    and idle: "\<And>e. \<not> cl_running (clients s e)"
  shows "run_inv d s' \<and> te_time s \<le> te_time s'"
proof -
  from assms(2) obtain ds where q: "first_client s = d # ds"
    and s': "s' = (upd_client d (is_enqueued_update (\<lambda>_. False)) s)
                    \<lparr>first_client := ds, te_time := net s d\<rparr>"
    by (auto simp: run_pop_def split: list.splits)
  have "te_inv s'"
    using te_invD [OF inv] q unfolding s'
    by (intro te_invI) (auto elim!: sorted_map_congI)
  moreover have "0 \<le> net s d" using te_invD(4) [OF inv, of d] q assms(3) by simp
  ultimately show ?thesis
    using te_invD [OF inv] q idle by (auto simp: run_inv_def s')
qed

lemma te_link_idle:
  "upd_client c (cl_running_update (\<lambda>_. False)) (te_link c t s) =
     te_link c t (upd_client c (cl_running_update (\<lambda>_. False)) s)"
  by (cases "clients s c", rule time_engine.equality)
     (auto simp: te_link_def Let_def upd_client_def fun_eq_iff intro!: ins_lt_cong)

lemma te_inv_idle: "te_inv s \<Longrightarrow> te_inv (upd_client c (cl_running_update (\<lambda>_. False)) s)"
  by (rule te_invI) (auto simp: te_inv_def elim!: sorted_map_congI)

text \<open>The state in which the slow path takes the next client.\<close>

lemma resume_state_inv:
  assumes "run_inv current s"
  shows "te_inv (upd_client current (cl_running_update (\<lambda>_. False))
                   (if t > 0 then te_link current (te_time s + t) s else s))"
  using assms by (auto simp: te_link_idle run_inv_def intro!: te_inv_link te_inv_idle)

text \<open>The shortcut and the slow path of the loop both compute the specified next step.\<close>

lemma run_resume_refines:
  assumes inv: "run_inv current s" and rr: "run_req s"
    and res: "run_resume current t s = (c, s')"
  shows "map_option (\<lambda>d. (te_time s', d, agenda s')) c = schedule_next (te_time s) current t (agenda s)"
proof (cases "t > 0 \<and> (first_client s = [] \<or> net s (hd (first_client s)) \<ge> t + te_time s)")
  case True
  then have c: "c = Some current" and s': "s' = s\<lparr>te_time := t + te_time s\<rparr>"
    using res rr by (auto simp: run_resume_def)
  have "\<forall>p\<in>set (agenda s). te_time s + t \<le> fst p"
    using True inv sorted_hd_le [of "net s" "first_client s"]
    by (force simp: agenda_def run_inv_def te_inv_def)
  then have "ins_lt fst (te_time s + t) (te_time s + t, current) (agenda s) =
               (te_time s + t, current) # agenda s"
    by (rule ins_lt_front)
  with True c s' show ?thesis by (simp add: schedule_next_def agenda_def add.commute)
next
  case False
  let ?s = "if t > 0 then te_link current (te_time s + t) s else s"
  let ?s2 = "upd_client current (cl_running_update (\<lambda>_. False)) ?s"
  have pop: "run_pop ?s2 = (c, s')"
    using run_resume_slow [OF False _ _ refl] inv rr res by (simp add: run_inv_def)
  have ag: "agenda ?s2 = (if t > 0 then ins_lt fst (te_time s + t) (te_time s + t, current) (agenda s)
                          else agenda s)"
    using inv by (auto simp: run_inv_def agenda_upd_other agenda_te_link [symmetric])
       (auto simp: agenda_def)
  from run_pop_agenda [OF resume_state_inv [OF inv] pop] show ?thesis
    by (simp add: schedule_next_def ag split: list.splits)
qed

lemma run_resume_inv:
  assumes inv: "run_inv current s" and res: "run_resume current t s = (Some d, s')"
  shows "run_inv d s' \<and> te_time s \<le> te_time s' \<and> run_req s"
proof (cases "t > 0 \<and> (first_client s = [] \<or> net s (hd (first_client s)) \<ge> t + te_time s)")
  case True
  then have rr: "run_req s" and d: "d = current" and s': "s' = s\<lparr>te_time := t + te_time s\<rparr>"
    using res by (auto simp: run_resume_def Let_def split: if_splits)
  have "\<forall>c\<in>set (first_client s). t + te_time s \<le> net s c"
    using True inv sorted_hd_le [of "net s" "first_client s"]
    by (force simp: run_inv_def te_inv_def)
  with inv True d s' rr show ?thesis by (auto simp: run_inv_def te_inv_def)
next
  case False
  define s2 where "s2 = upd_client current (cl_running_update (\<lambda>_. False))
      (if t > 0 then te_link current (te_time s + t) s else s)"
  have inv2: "te_inv s2" and idle: "\<And>e. \<not> cl_running (clients s2 e)" and "te_time s2 = te_time s"
    using resume_state_inv [OF inv, of t] inv by (auto simp: s2_def run_inv_def)
  moreover have rr: "run_req s" and pop: "run_pop s2 = (Some d, s')"
    using run_resume_slow [OF False _ _ s2_def] inv res by (auto simp: run_inv_def split: if_splits)
  ultimately show ?thesis
    using run_pop_inv [OF inv2 pop] inv by (auto simp: run_inv_def)
qed

lemma run_resume_break_inv:
  assumes inv: "run_inv current s" and res: "run_resume current t s = (None, s')"
  shows "te_inv s' \<and> (\<forall>e. \<not> cl_running (clients s' e)) \<and> te_time s' = te_time s"
proof (cases "t > 0 \<and> (first_client s = [] \<or> net s (hd (first_client s)) \<ge> t + te_time s)")
  case True
  then have "\<not> run_req s" using res by (auto simp: run_resume_def)
  have "\<forall>c\<in>set (first_client s). t + te_time s \<le> net s c"
    using True inv sorted_hd_le [of "net s" "first_client s"]
    by (force simp: run_inv_def te_inv_def)
  then have "ins_lt (net (upd_client current (\<lambda>cl. cl\<lparr>is_enqueued := True, next_event_time := t + te_time s\<rparr>) s))
       (te_time s + t) current (first_client s) = current # first_client s"
    using inv by (intro ins_lt_front) (auto simp: run_inv_def add.commute)
  then have "s' = upd_client current (cl_running_update (\<lambda>_. False)) (te_link current (te_time s + t) s)"
    using res True \<open>\<not> run_req s\<close>
    by (intro time_engine.equality)
       (auto simp: run_resume_def te_link_def Let_def upd_client_def add.commute)
  with resume_state_inv [OF inv, of t] True inv show ?thesis by (auto simp: run_inv_def)
next
  case False
  define s2 where "s2 = upd_client current (cl_running_update (\<lambda>_. False))
      (if t > 0 then te_link current (te_time s + t) s else s)"
  have inv2: "te_inv s2" and idle: "\<And>e. \<not> cl_running (clients s2 e)" and "te_time s2 = te_time s"
    using resume_state_inv [OF inv, of t] inv by (auto simp: s2_def run_inv_def)
  moreover have "s' = s2"
    using run_resume_slow [OF False _ _ s2_def] inv res
    by (auto simp: run_inv_def run_pop_def split: if_splits list.splits)
  ultimately show ?thesis by simp
qed

text \<open>What a round leaves of the clients, for the clients' own invariants.\<close>

definition resumed :: "cid \<Rightarrow> int \<Rightarrow> cid \<Rightarrow> time_engine \<Rightarrow> time_engine \<Rightarrow> bool" where
  "resumed c t d s s' \<longleftrightarrow>
     (\<forall>f. f \<noteq> c \<longrightarrow> net s' f = net s f) \<and>
     (\<forall>f. f \<noteq> c \<longrightarrow> f \<noteq> d \<longrightarrow> is_enqueued (clients s' f) = is_enqueued (clients s f)) \<and>
     (d = c \<longrightarrow> t > 0 \<and> te_time s' = te_time s + t) \<and>
     (d \<noteq> c \<longrightarrow> is_enqueued (clients s d) \<and> te_time s' = net s d) \<and>
     (d \<noteq> c \<longrightarrow> t > 0 \<longrightarrow>
        is_enqueued (clients s' c) \<and> net s' c = te_time s + t \<and> te_time s' \<le> te_time s + t) \<and>
     (\<forall>f. is_enqueued (clients s f) \<longrightarrow> te_time s' \<le> net s f)"

lemma run_resume_resumed:
  assumes inv: "run_inv c s" and res: "run_resume c t s = (Some d, s')"
  shows "resumed c t d s s'"
proof (cases "t > 0 \<and> (first_client s = [] \<or> net s (hd (first_client s)) \<ge> t + te_time s)")
  case True
  then have "d = c" "s' = s\<lparr>te_time := t + te_time s\<rparr>"
    using res by (auto simp: run_resume_def Let_def split: if_splits)
  moreover have "\<forall>c\<in>set (first_client s). t + te_time s \<le> net s c"
    using True inv sorted_hd_le [of "net s" "first_client s"]
    by (force simp: run_inv_def te_inv_def)
  ultimately show ?thesis
    using inv True by (auto simp: resumed_def run_inv_def te_inv_def)
next
  case False
  define s2 where "s2 = upd_client c (cl_running_update (\<lambda>_. False))
      (if t > 0 then te_link c (te_time s + t) s else s)"
  have inv2: "te_inv s2" using resume_state_inv [OF inv] by (simp add: s2_def)
  have "run_pop s2 = (Some d, s')"
    using run_resume_slow [OF False _ _ s2_def] inv res by (auto simp: run_inv_def split: if_splits)
  then obtain ds where q: "first_client s2 = d # ds"
    and s': "s' = (upd_client d (is_enqueued_update (\<lambda>_. False)) s2)\<lparr>first_client := ds, te_time := net s2 d\<rparr>"
    by (auto simp: run_pop_def split: list.splits)
  have min: "net s2 d \<le> net s2 f" if "f \<in> set (first_client s2)" for f
    using sorted_hd_le [OF te_invD(2) [OF inv2] that] q by simp
  have "d \<noteq> c"
  proof (cases "t > 0")
    case True
    with False obtain e es where "first_client s = e # es" "net s e < te_time s + t"
      by (cases "first_client s") (auto simp: add.commute)
    with True q inv show ?thesis
      by (auto simp: s2_def te_link_def Let_def run_inv_def)
  qed (use q inv in \<open>auto simp: s2_def run_inv_def\<close>)
  moreover have "set (first_client s2) = (if t > 0 then insert c (set (first_client s)) else set (first_client s))"
    by (auto simp: s2_def)
  moreover have "d \<in> set (first_client s2)" using q by simp
  moreover have oth: "net s2 f = net s f" if "f \<noteq> c" for f using that by (auto simp: s2_def)
  moreover have "net s d \<le> net s f" if "f \<in> set (first_client s)" for f
    using min [of f] oth [of f] oth [of d] that \<open>d \<noteq> c\<close> inv
    by (auto simp: s2_def run_inv_def split: if_splits)
  ultimately show ?thesis
    using inv min [of c]
    by (auto simp: resumed_def s' run_inv_def te_inv_def s2_def split: if_splits)
qed

lemma te_inv_init: "te_inv te_init"
  by (simp add: te_inv_def te_init_def)

lemma remove1_filter: "distinct xs \<Longrightarrow> remove1 x xs = filter (\<lambda>y. y \<noteq> x) xs"
  by (induction xs) (auto intro!: filter_True [symmetric])

lemma agenda_dequeue:
  assumes "te_inv s"
  shows "agenda (snd (te_dequeue c s)) = filter (\<lambda>p. snd p \<noteq> c) (agenda s)"
proof (cases "is_enqueued (clients s c)")
  case True
  have "agenda (snd (te_dequeue c s)) = map (\<lambda>d. (net s d, d)) (remove1 c (first_client s))"
    using True te_invD(1) [OF assms] by (auto simp: te_dequeue_def agenda_def)
  then show ?thesis
    by (simp add: agenda_def remove1_filter [OF te_invD(1) [OF assms]] filter_map comp_def)
next
  case False
  then have "\<forall>p\<in>set (agenda s). snd p \<noteq> c"
    using te_invD(3) [OF assms] by (auto simp: agenda_def)
  with False show ?thesis by (auto simp: te_dequeue_def intro!: filter_True [symmetric])
qed

section \<open>The interface between the loop and its clients\<close>

text \<open>
  What a client's \<^verbatim>\<open>exec\<close> owes the loop: it leaves the list in order and the time alone, and
  re-establishes, together with the loop's own bookkeeping, the clients' invariant \<open>cinv\<close> for
  whichever client runs next.
\<close>

locale engine_client =
  fixes exec :: "'s exec_meth"
    and cinv :: "cid \<Rightarrow> 's \<Rightarrow> time_engine \<Rightarrow> bool"
    and cpost :: "cid \<Rightarrow> int \<Rightarrow> 's \<Rightarrow> time_engine \<Rightarrow> bool"
  assumes exec_keeps: "\<lbrakk>cinv c x s; run_inv c s; cl_running (clients s c);
      exec c (x, s) = Some (t, x', s')\<rbrakk> \<Longrightarrow> run_inv c s' \<and> te_time s' = te_time s \<and> cpost c t x' s'"
    and resume_keeps: "\<lbrakk>cpost c t x s; run_inv c s; run_resume c t s = (Some d, s')\<rbrakk> \<Longrightarrow> cinv d x s'"
    and cinv_start: "cinv c x s \<Longrightarrow> cinv c x (upd_client c (cl_running_update (\<lambda>_. True)) s)"
begin

lemma run_body_step:
  assumes "cinv c x s" "run_inv c s" "run_body exec c (x, s) = Some (Some d, x', s')"
  shows "cinv d x' s' \<and> run_inv d s' \<and> te_time s \<le> te_time s'"
proof -
  let ?s = "upd_client c (cl_running_update (\<lambda>_. True)) s"
  from assms(3) obtain t s1 where ex: "exec c (x, ?s) = Some (t, x', s1)"
    and res: "run_resume c t s1 = (Some d, s')"
    by (auto simp: run_body_def split: option.splits prod.splits)
  have "run_inv c ?s"
    using assms(2) by (auto simp: run_inv_def te_inv_def elim!: sorted_map_congI)
  then have "run_inv c s1 \<and> te_time s1 = te_time s \<and> cpost c t x' s1"
    using exec_keeps [OF cinv_start [OF assms(1)] _ _ ex] by simp
  with run_resume_inv [OF _ res] resume_keeps [OF _ _ res] show ?thesis by auto
qed

lemma run_body_break:
  assumes "cinv c x s" "run_inv c s" "run_body exec c (x, s) = Some (None, x', s')"
  shows "te_inv s' \<and> te_time s' = te_time s"
proof -
  let ?s = "upd_client c (cl_running_update (\<lambda>_. True)) s"
  from assms(3) obtain t s1 where ex: "exec c (x, ?s) = Some (t, x', s1)"
    and res: "run_resume c t s1 = (None, s')"
    by (auto simp: run_body_def split: option.splits prod.splits)
  have "run_inv c ?s"
    using assms(2) by (auto simp: run_inv_def te_inv_def elim!: sorted_map_congI)
  then have "run_inv c s1 \<and> te_time s1 = te_time s"
    using exec_keeps [OF cinv_start [OF assms(1)] _ _ ex] by simp
  with run_resume_break_inv [OF _ res] show ?thesis by auto
qed

lemma run_inner_keeps:
  "\<lbrakk>cinv c x s; run_inv c s; run_inner exec n c (x, s) = Some (r, x', s')\<rbrakk> \<Longrightarrow>
     te_inv s' \<and> te_time s \<le> te_time s' \<and> (\<forall>d. r = Some d \<longrightarrow> cinv d x' s' \<and> run_inv d s')"
proof (induction n arbitrary: c x s)
  case 0
  then show ?case by (auto simp: run_inv_def)
next
  case (Suc n)
  from Suc.prems(3) obtain r1 x1 s1 where b: "run_body exec c (x, s) = Some (r1, x1, s1)"
    by (auto split: option.splits)
  show ?case
  proof (cases r1)
    case None
    with b Suc.prems run_body_break [OF Suc.prems(1,2)] show ?thesis by auto
  next
    case (Some d)
    with b Suc.prems have "run_inner exec n d (x1, s1) = Some (r, x', s')" by simp
    with Suc.IH run_body_step [OF Suc.prems(1,2), of d x1 s1] b Some show ?thesis by force
  qed
qed

end

section \<open>Properties\<close>

text \<open>
  C29. Enqueueing a client at a delay that is not negative and dequeueing a client keep the
  engine's list well formed: ordered by time, each enqueued client in it exactly once, no entry
  in the past and no running client in it.
\<close>

theorem te_queue_ops_keep_inv:
  assumes "te_inv s" and "0 \<le> t"
  shows "te_inv (snd (te_enqueue c t s)) \<and> te_inv (snd (te_dequeue d s))"
  using assms by (simp add: te_inv_enqueue te_inv_dequeue)

theorem te_queue_ops_keep_inv_witness:
  "te_inv (snd (te_enqueue 1 5 (snd (te_enqueue 0 7 te_init)))) \<and>
     te_inv (snd (te_dequeue 0 (snd (te_enqueue 0 7 te_init))))"
proof -
  have "te_inv (snd (te_enqueue 0 7 te_init))"
    using te_queue_ops_keep_inv [OF te_inv_init, of 7 0 0] by simp
  from te_queue_ops_keep_inv [OF this, of 5 1 0] show ?thesis by simp
qed

text \<open>
  C4. What \<^verbatim>\<open>time_engine::enqueue\<close> does to the agenda, on every branch: nothing when the client
  is running or already enqueued at an earlier or equal time; otherwise the client's old entry
  goes away and a new one appears at the current time plus the delay, in front of the entries
  with the same time. The result tells which of the two happened.
\<close>

theorem te_enqueue_agenda:
  assumes "te_inv s"
  shows "agenda (snd (te_enqueue c t s)) =
           (if cl_running (clients s c) \<or> is_enqueued (clients s c) \<and> net s c \<le> te_time s + t
            then agenda s
            else ins_lt fst (te_time s + t) (te_time s + t, c) (filter (\<lambda>p. snd p \<noteq> c) (agenda s)))
         \<and> (fst (te_enqueue c t s) \<longleftrightarrow>
              \<not> cl_running (clients s c) \<and>
              (is_enqueued (clients s c) \<longrightarrow> te_time s + t < net s c))"
proof -
  have "agenda (te_link c T s) = ins_lt fst T (T, c) (filter (\<lambda>p. snd p \<noteq> c) (agenda s))"
    if "\<not> is_enqueued (clients s c)" for T
    using agenda_te_link [of c s T] agenda_dequeue [OF assms, of c] te_invD(3) [OF assms, of c] that
    by (simp add: te_dequeue_def)
  then show ?thesis
    using agenda_te_link [OF te_dequeue_not_in [OF assms], of c "te_time s + t"]
    by (auto simp: te_enqueue_def Let_def agenda_dequeue [OF assms])
qed

theorem te_enqueue_agenda_witness:
  "agenda (snd (te_enqueue 3 4 (snd (te_enqueue 2 4 te_init)))) = [(4, 3), (4, 2)]"
proof -
  have i: "te_inv (snd (te_enqueue 2 4 te_init))" by (rule te_inv_enqueue [OF te_inv_init]) simp
  have "agenda (snd (te_enqueue 2 4 te_init)) = [(4, 2)]"
    using te_enqueue_agenda [OF te_inv_init, of 2 4] by (simp add: te_init_def agenda_def)
  with te_enqueue_agenda [OF i, of 3 4] show ?thesis
    by (simp add: te_enqueue_def te_link_def te_init_def upd_client_def agenda_def Let_def)
qed

text \<open>
  C1. The scheduling loop after a client's \<^verbatim>\<open>exec\<close>, with its shortcut for a client that stays the
  earliest and its insertion that starts behind the known head, computes the specified step:
  the client is put back at its new time, before the entries of the same time, and the first
  entry of the resulting agenda runs next, at its own time.
\<close>

theorem run_loop_refines_agenda:
  assumes "run_inv current s" and "run_req s" and "run_resume current t s = (c, s')"
  shows "map_option (\<lambda>d. (te_time s', d, agenda s')) c =
           schedule_next (te_time s) current t (agenda s)"
  using assms by (rule run_resume_refines)

theorem run_loop_refines_agenda_witness:
  "map_option (\<lambda>d. (te_time (snd (run_resume 0 9 ((snd (te_enqueue 1 5 te_init))\<lparr>run_req := True\<rparr>))), d,
        agenda (snd (run_resume 0 9 ((snd (te_enqueue 1 5 te_init))\<lparr>run_req := True\<rparr>)))))
      (fst (run_resume 0 9 ((snd (te_enqueue 1 5 te_init))\<lparr>run_req := True\<rparr>))) = Some (5, 1, [(9, 0)])"
proof -
  let ?s = "(snd (te_enqueue 1 5 te_init))\<lparr>run_req := True\<rparr>"
  have "te_inv ?s" using te_inv_enqueue [OF te_inv_init, of 5 1] by (simp add: te_inv_def)
  then have "run_inv 0 ?s"
    by (auto simp: run_inv_def te_enqueue_def te_link_def te_init_def upd_client_def Let_def)
  from run_loop_refines_agenda [OF this, of 9 "fst (run_resume 0 9 ?s)" "snd (run_resume 0 9 ?s)"]
  show ?thesis
    by (simp add: schedule_next_def agenda_def te_enqueue_def te_link_def te_init_def upd_client_def Let_def)
qed

end
