(* ===== verification/Time_Scheduler.thy ===== *)
theory Time_Scheduler
  imports Time_Engine
begin

text \<open>
  The time scheduler (\<^verbatim>\<open>engine/include/vp/time/time_scheduler.hpp\<close> and the end of
  \<^verbatim>\<open>engine/src/vp.cpp\<close>): a client of the time engine that keeps a time-ordered list of events and
  runs the ones that are due. The stop event with which \<^verbatim>\<open>time_engine::step\<close> bounds a run
  (\<^verbatim>\<open>engine/vp/time_engine.cpp\<close>) is the scheduler the engine itself instantiates.
\<close>

section \<open>State and operations\<close>

type_synonym teid = nat

text \<open>The schedulers, by client, and the time field of the event objects.\<close>

record sched_world =
  first_event :: "cid \<Rightarrow> teid list"
  tev_time :: "teid \<Rightarrow> int"

type_synonym event_meth = "teid \<Rightarrow> sched_world \<times> time_engine \<Rightarrow> (sched_world \<times> time_engine) option"

definition sched_enqueue ::
    "cid \<Rightarrow> teid \<Rightarrow> int \<Rightarrow> sched_world \<times> time_engine \<Rightarrow> sched_world \<times> time_engine" where
  "sched_enqueue c e t w =
     (let (x, s) = w;
          full_time = t + te_time s;
          x' = x\<lparr>first_event := (first_event x)(c := ins_lt (tev_time x) full_time e (first_event x c)),
                 tev_time := (tev_time x)(e := full_time)\<rparr>
      in (x', snd (te_enqueue c t s)))"

text \<open>
  The loop of \<^verbatim>\<open>time_scheduler::exec\<close>. A handler may enqueue events that are due at once, so
  the loop need not end: \<open>None\<close> is a run that does not return.
\<close>

partial_function (option) sched_loop ::
    "event_meth \<Rightarrow> cid \<Rightarrow> sched_world \<times> time_engine \<Rightarrow> (sched_world \<times> time_engine) option" where
  "sched_loop meth c w =
     (case first_event (fst w) c of
        [] \<Rightarrow> Some w
      | e # es \<Rightarrow>
          if tev_time (fst w) e = te_time (snd w) then
            Option.bind (meth e ((fst w)\<lparr>first_event := (first_event (fst w))(c := es)\<rparr>, snd w))
              (sched_loop meth c)
          else Some w)"

definition sched_exec :: "event_meth \<Rightarrow> sched_world exec_meth" where
  "sched_exec meth c w =
     (case sched_loop meth c w of
        None \<Rightarrow> None
      | Some (x, s) \<Rightarrow>
          Some (case first_event x c of [] \<Rightarrow> -1 | e # _ \<Rightarrow> tev_time x e - te_time s, x, s))"

definition stop_event_handler :: event_meth where
  "stop_event_handler e w = Some (fst w, te_stop_exec (snd w))"

text \<open>
  \<^verbatim>\<open>time_engine::step\<close>, with the client of the stop event and the event object it allocates.
  \<open>None\<close> is a call that waits in \<^verbatim>\<open>run\<close>.
\<close>

definition te_step ::
    "cid \<Rightarrow> teid \<Rightarrow> int \<Rightarrow> sched_world \<times> time_engine \<Rightarrow> (int \<times> sched_world \<times> time_engine) option" where
  "te_step stop_event e duration w =
     (let (x, s) = w;
          s1 = te_lock s;
          timestamp = te_time s1;
          (x2, s2) = (if duration > 0 then sched_enqueue stop_event e duration (x, s1) else (x, s1))
      in case te_run (te_unlock s2) of
           None \<Rightarrow> None
         | Some s3 \<Rightarrow> Some (timestamp + duration, x2, s3))"

section \<open>Invariants\<close>

text \<open>
  A scheduler that is not running is enqueued at the time of its first event: this is what
  makes the test \<^verbatim>\<open>current->time == get_time()\<close> of the loop sound, since an event whose time
  the engine has passed would never run.
\<close>

definition sched_ready :: "sched_world \<Rightarrow> time_engine \<Rightarrow> cid \<Rightarrow> bool" where
  "sched_ready x s d \<longleftrightarrow> (first_event x d \<noteq> [] \<longrightarrow>
     is_enqueued (clients s d) \<and> net s d = tev_time x (hd (first_event x d)))"

definition sched_lists :: "sched_world \<Rightarrow> int \<Rightarrow> bool" where
  "sched_lists x now \<longleftrightarrow>
     (\<forall>d. sorted (map (tev_time x) (first_event x d)) \<and> distinct (first_event x d) \<and>
          (\<forall>e\<in>set (first_event x d). now \<le> tev_time x e)) \<and>
     (\<forall>d d'. d \<noteq> d' \<longrightarrow> set (first_event x d) \<inter> set (first_event x d') = {})"

definition sched_ok :: "cid \<Rightarrow> sched_world \<Rightarrow> time_engine \<Rightarrow> bool" where
  "sched_ok c x s \<longleftrightarrow> sched_lists x (te_time s) \<and> (\<forall>d. d \<noteq> c \<longrightarrow> sched_ready x s d)"

definition sched_cinv :: "cid \<Rightarrow> sched_world \<Rightarrow> time_engine \<Rightarrow> bool" where
  "sched_cinv c x s \<longleftrightarrow> sched_ok c x s \<and>
     (first_event x c \<noteq> [] \<longrightarrow> tev_time x (hd (first_event x c)) = te_time s)"

definition sched_cpost :: "cid \<Rightarrow> int \<Rightarrow> sched_world \<Rightarrow> time_engine \<Rightarrow> bool" where
  "sched_cpost c t x s \<longleftrightarrow> sched_ok c x s \<and>
     (case first_event x c of [] \<Rightarrow> t = -1 | e # _ \<Rightarrow> t = tev_time x e - te_time s \<and> t > 0)"

lemma sched_listsD:
  assumes "sched_lists x now"
  shows "sorted (map (tev_time x) (first_event x d))" "distinct (first_event x d)"
    "e \<in> set (first_event x d) \<Longrightarrow> now \<le> tev_time x e"
    "d \<noteq> d' \<Longrightarrow> e \<in> set (first_event x d) \<Longrightarrow> e \<notin> set (first_event x d')"
  using assms unfolding sched_lists_def by blast+

lemma sched_lists_later:
  "sched_lists x now \<Longrightarrow> (\<And>d. first_event x d \<noteq> [] \<Longrightarrow> now' \<le> tev_time x (hd (first_event x d))) \<Longrightarrow>
     sched_lists x now'"
  unfolding sched_lists_def using sorted_hd_le by (metis list.set_cases list.distinct(1) order_trans)

lemma sched_lists_pop:
  "sched_lists x now \<Longrightarrow> first_event x c = e # es \<Longrightarrow>
     sched_lists (x\<lparr>first_event := (first_event x)(c := es)\<rparr>) now"
  unfolding sched_lists_def by (simp add: fun_upd_def) (metis disjoint_insert(1) disjoint_insert(2)
      distinct.simps(2) inf_commute list.simps(15) list.simps(9) list.set_intros(2) sorted_simps(2))

lemma sched_ok_pop:
  "sched_ok c x s \<Longrightarrow> first_event x c = e # es \<Longrightarrow>
     sched_ok c (x\<lparr>first_event := (first_event x)(c := es)\<rparr>) s"
  by (auto simp: sched_ok_def sched_ready_def intro: sched_lists_pop)

lemma te_run_inv_running:
  "run_inv c s \<Longrightarrow> run_inv c (upd_client c (cl_running_update f) s)"
  by (auto simp: run_inv_def te_inv_def elim!: sorted_map_congI)

text \<open>The round of the time engine that follows \<^verbatim>\<open>exec\<close> keeps every scheduler ready.\<close>

lemma sched_resume_keeps:
  assumes post: "sched_cpost c t x s" and inv: "run_inv c s"
    and res: "run_resume c t s = (Some d, s')"
  shows "sched_cinv d x s'"
proof -
  note R = run_resume_resumed [OF inv res, unfolded resumed_def]
  have ok: "sched_ok c x s" and lists: "sched_lists x (te_time s)"
    using post by (auto simp: sched_cpost_def sched_ok_def)
  have c: "first_event x c \<noteq> [] \<Longrightarrow> t > 0 \<and> tev_time x (hd (first_event x c)) = te_time s + t"
    using post by (cases "first_event x c") (auto simp: sched_cpost_def)
  have rd: "f \<noteq> c \<Longrightarrow> first_event x f \<noteq> [] \<Longrightarrow>
      is_enqueued (clients s f) \<and> net s f = tev_time x (hd (first_event x f))" for f
    using ok by (auto simp: sched_ok_def sched_ready_def)
  have "sched_lists x (te_time s')"
    using lists by (rule sched_lists_later) (use R c rd in \<open>metis order_refl\<close>)
  moreover have "sched_ready x s' f" if "f \<noteq> d" for f
    using R c rd that unfolding sched_ready_def by metis
  moreover have "first_event x d \<noteq> [] \<Longrightarrow> tev_time x (hd (first_event x d)) = te_time s'"
    using R c rd by metis
  ultimately show ?thesis by (simp add: sched_cinv_def sched_ok_def)
qed

section \<open>Handlers\<close>

text \<open>
  What the scheduler asks of an event handler: while client \<open>c\<close> runs, it keeps the engine's
  list, the event lists and the readiness of the other schedulers, and does not move the time.
\<close>

locale sched_handler =
  fixes meth :: event_meth
  assumes meth_keeps: "\<lbrakk>sched_ok c x s; run_inv c s; cl_running (clients s c);
      meth e (x, s) = Some (x', s')\<rbrakk> \<Longrightarrow>
      sched_ok c x' s' \<and> run_inv c s' \<and> cl_running (clients s' c) \<and> te_time s' = te_time s"
begin

definition loop_pre :: "cid \<Rightarrow> sched_world \<times> time_engine \<Rightarrow> bool" where
  "loop_pre c w \<longleftrightarrow> sched_ok c (fst w) (snd w) \<and> run_inv c (snd w) \<and> cl_running (clients (snd w) c)"

definition loop_post :: "cid \<Rightarrow> sched_world \<times> time_engine \<Rightarrow> sched_world \<times> time_engine \<Rightarrow> bool" where
  "loop_post c w w' \<longleftrightarrow> loop_pre c w' \<and> te_time (snd w') = te_time (snd w) \<and>
     (first_event (fst w') c \<noteq> [] \<longrightarrow>
        te_time (snd w') < tev_time (fst w') (hd (first_event (fst w') c)))"

lemma sched_loop_round:
  assumes pre: "loop_pre c w"
    and eq: "(case first_event (fst w) c of
        [] \<Rightarrow> Some w
      | e # es \<Rightarrow>
          if tev_time (fst w) e = te_time (snd w) then
            Option.bind (meth e ((fst w)\<lparr>first_event := (first_event (fst w))(c := es)\<rparr>, snd w)) f
          else Some w) = Some w'"
    and IH: "\<And>v. f v = Some w' \<Longrightarrow> loop_pre c v \<Longrightarrow> loop_post c v w'"
  shows "loop_post c w w'"
proof (cases "first_event (fst w) c")
  case Nil
  with eq pre show ?thesis by (simp add: loop_post_def)
next
  case (Cons e es)
  have ge: "te_time (snd w) \<le> tev_time (fst w) e"
    using sched_listsD(3) [of "fst w" "te_time (snd w)" e c] pre Cons
    by (simp add: loop_pre_def sched_ok_def)
  show ?thesis
  proof (cases "tev_time (fst w) e = te_time (snd w)")
    case False
    with eq Cons pre ge show ?thesis by (auto simp: loop_post_def)
  next
    case True
    let ?x = "(fst w)\<lparr>first_event := (first_event (fst w))(c := es)\<rparr>"
    obtain v where m: "meth e (?x, snd w) = Some v" and r: "f v = Some w'"
      using eq Cons True by (auto split: bind_splits)
    have "loop_pre c v \<and> te_time (snd v) = te_time (snd w)"
      using meth_keeps [of c ?x "snd w" e "fst v" "snd v"] sched_ok_pop [OF _ Cons] m pre
      by (auto simp: loop_pre_def)
    with IH [OF r] show ?thesis by (auto simp: loop_post_def)
  qed
qed

lemma sched_loop_keeps:
  assumes "sched_loop meth c w = Some w'" and "loop_pre c w"
  shows "loop_post c w w'"
proof -
  have "m = meth \<longrightarrow> loop_pre d v \<longrightarrow> loop_post d v v'" if "sched_loop m d v = Some v'" for m d v v'
    by (rule sched_loop.raw_induct [where P = "\<lambda>m d v v'. m = meth \<longrightarrow> loop_pre d v \<longrightarrow> loop_post d v v'",
          OF _ that]) (blast intro: sched_loop_round)
  with assms show ?thesis by blast
qed

sublocale engine_client "sched_exec meth" sched_cinv sched_cpost
proof (unfold_locales, goal_cases)
  case (1 c x s t x' s')
  then obtain w' where l: "sched_loop meth c (x, s) = Some w'" and w': "w' = (x', s')"
    and t: "t = (case first_event x' c of [] \<Rightarrow> -1 | e # _ \<Rightarrow> tev_time x' e - te_time s')"
    by (auto simp: sched_exec_def split: option.splits)
  with 1 sched_loop_keeps [OF l] show ?case
    by (cases "first_event x' c")
       (auto simp: sched_cpost_def sched_cinv_def loop_pre_def loop_post_def)
next
  case (2 c t x s d s')
  then show ?case by (rule sched_resume_keeps)
next
  case (3 c x s)
  then show ?case by (auto simp: sched_cinv_def sched_ok_def sched_ready_def)
qed

lemmas run_keeps = run_inner_keeps

end

text \<open>The handler of the stop event only writes the run flags.\<close>

interpretation stop: sched_handler stop_event_handler
  by unfold_locales
     (auto simp: stop_event_handler_def te_stop_exec_def sched_ok_def sched_ready_def run_inv_def te_inv_def)

section \<open>Runs of the stop event\<close>

lemma sched_loop_stop:
  "sched_loop stop_event_handler c (x, s) =
     Some (x\<lparr>first_event := (first_event x)(c := dropWhile (\<lambda>e. tev_time x e = te_time s) (first_event x c))\<rparr>,
           if first_event x c \<noteq> [] \<and> tev_time x (hd (first_event x c)) = te_time s
           then te_stop_exec s else s)"
proof (induction "first_event x c" arbitrary: x s)
  case Nil
  then have "first_event x c = []" by simp
  then show ?case by (subst sched_loop.simps) (auto simp: fun_upd_idem)
next
  case (Cons e es)
  then have q: "first_event x c = e # es" by simp
  show ?case
  proof (cases "tev_time x e = te_time s")
    case False
    with q show ?thesis by (subst sched_loop.simps) (auto simp: fun_upd_idem)
  next
    case True
    have "te_stop_exec (te_stop_exec s) = te_stop_exec s" by (simp add: te_stop_exec_def)
    with True q Cons.hyps(1) [of "x\<lparr>first_event := (first_event x)(c := es)\<rparr>" "te_stop_exec s"]
    show ?thesis
      by (subst sched_loop.simps)
         (auto simp: stop_event_handler_def te_stop_exec_def)
  qed
qed

lemma sched_enqueue_cinv:
  assumes "te_inv s" and "\<forall>p\<in>set (agenda s). te_time s + d \<le> fst p" and "0 < d"
    and idle: "\<not> cl_running (clients s c)" and "c \<notin> set (first_client s)"
  shows "first_client (snd (te_enqueue c d s)) = c # first_client s"
    and "net (snd (te_enqueue c d s)) c = te_time s + d"
proof -
  have nq: "\<not> is_enqueued (clients s c)" using assms(1,5) by (simp add: te_inv_def)
  then have "snd (te_enqueue c d s) = te_link c (te_time s + d) s"
    using idle by (simp add: te_enqueue_def)
  then show "first_client (snd (te_enqueue c d s)) = c # first_client s"
    and "net (snd (te_enqueue c d s)) c = te_time s + d"
    using assms(2,5) by (auto simp: first_client_te_link agenda_def intro!: ins_lt_front)
qed

section \<open>Properties\<close>

text \<open>
  C3. Runs of the engine over schedulers, for any event handlers that respect the scheduler's
  contract: however many rounds the loop makes, the engine's list stays well formed, the time
  never goes back, and the scheduler that runs next runs exactly at the time of its first event
  while every other scheduler with events waits in the list at the time of its own first event,
  so no event is ever passed over.
\<close>

theorem sched_run_never_skips:
  assumes "sched_handler meth" and "sched_cinv c x s" and "run_inv c s"
    and "run_inner (sched_exec meth) n c (x, s) = Some (r, x', s')"
  shows "te_inv s' \<and> te_time s \<le> te_time s' \<and> (\<forall>d. r = Some d \<longrightarrow>
           (first_event x' d \<noteq> [] \<longrightarrow> tev_time x' (hd (first_event x' d)) = te_time s') \<and>
           (\<forall>f. f \<noteq> d \<and> first_event x' f \<noteq> [] \<longrightarrow>
              is_enqueued (clients s' f) \<and> net s' f = tev_time x' (hd (first_event x' f))))"
  using sched_handler.run_keeps [OF assms]
  by (auto simp: sched_cinv_def sched_ok_def sched_ready_def)

text \<open>A scheduler with two events, at the times 4 and 6, about to run at time 4.\<close>

definition demo_sched :: "sched_world \<times> time_engine" where
  "demo_sched = (\<lparr>first_event = (\<lambda>c. if c = 0 then [0, 1] else []),
                  tev_time = (\<lambda>e. if e = 0 then 4 else 6)\<rparr>, te_init\<lparr>te_time := 4, run_req := True\<rparr>)"

theorem sched_run_never_skips_witness:
  "te_inv (snd (snd (the (run_inner (sched_exec stop_event_handler) 3 0 demo_sched)))) \<and>
     te_time (snd demo_sched) \<le>
       te_time (snd (snd (the (run_inner (sched_exec stop_event_handler) 3 0 demo_sched))))"
proof -
  have c: "sched_cinv 0 (fst demo_sched) (snd demo_sched)"
    by (auto simp: demo_sched_def sched_cinv_def sched_ok_def sched_lists_def sched_ready_def)
  have r: "run_inv 0 (snd demo_sched)"
    by (simp add: demo_sched_def run_inv_def te_inv_def te_init_def)
  have "\<exists>y. run_inner (sched_exec stop_event_handler) 3 0 (fst demo_sched, snd demo_sched) = Some y"
    by (simp add: numeral_3_eq_3 run_body_def sched_exec_def sched_loop_stop demo_sched_def
        run_resume_def run_pop_def te_init_def te_stop_exec_def Let_def)
  then obtain q y t where
    e: "run_inner (sched_exec stop_event_handler) 3 0 (fst demo_sched, snd demo_sched) = Some (q, y, t)"
    by auto
  from sched_run_never_skips [OF stop.sched_handler_axioms c r e] e show ?thesis by simp
qed

text \<open>
  C31. \<^verbatim>\<open>time_scheduler::exec\<close> with the stop handler returns, whatever the event list: it takes the
  events that are due now off the list and no others, requests the pause if and only if one was
  due, and returns the delay to the first event that is left, or -1 when none is.
\<close>

theorem stop_exec_total:
  "sched_exec stop_event_handler c (x, s) =
     (let rest = dropWhile (\<lambda>e. tev_time x e = te_time s) (first_event x c);
          due = first_event x c \<noteq> [] \<and> tev_time x (hd (first_event x c)) = te_time s
      in Some (case rest of [] \<Rightarrow> -1 | e # _ \<Rightarrow> tev_time x e - te_time s,
               x\<lparr>first_event := (first_event x)(c := rest)\<rparr>,
               if due then s\<lparr>pause_req := True, run_req := False\<rparr> else s))"
  by (cases "dropWhile (\<lambda>e. tev_time x e = te_time s) (first_event x c)")
     (simp_all add: sched_exec_def sched_loop_stop te_stop_exec_def Let_def del: dropWhile_eq_Nil_conv)



end
