(* ===== verification/Clock_Engine.thy ===== *)
theory Clock_Engine
  imports Time_Engine
begin

text \<open>
  The clock engine (\<^verbatim>\<open>engine/include/vp/clock/clock_engine.hpp\<close>, \<^verbatim>\<open>implementation.hpp\<close> and
  \<^verbatim>\<open>engine/src/vp.cpp\<close>): a client of the time engine that executes clock events cycle by cycle. Events
  that are close are kept in a circular buffer of 32 slots, the others in a delayed queue ordered
  by cycle, from which they are moved to the buffer in time.
\<close>

section \<open>State\<close>

type_synonym eid = nat

record clock_event =
  ev_enqueued :: bool
  ev_cycle :: int

record clock_engine =
  self :: cid
  event_queue :: "nat \<Rightarrow> eid list"
  delayed_queue :: "eid list"
  current_cycle :: nat
  period :: int
  freq :: int
  ce_cycles :: int
  nb_enqueued_to_cycle :: int
  stop_time :: int
  must_flush_delayed_queue :: bool
  events :: "eid \<Rightarrow> clock_event"

type_synonym cworld = "clock_engine \<times> time_engine"

definition ce_init :: "cid \<Rightarrow> clock_engine" where
  "ce_init c = \<lparr>self = c, event_queue = (\<lambda>_. []), delayed_queue = [], current_cycle = 0, period = 0,
     freq = 0, ce_cycles = 0, nb_enqueued_to_cycle = 0, stop_time = 0,
     must_flush_delayed_queue = True, events = (\<lambda>_. \<lparr>ev_enqueued = False, ev_cycle = 0\<rparr>)\<rparr>"

definition upd_event :: "eid \<Rightarrow> (clock_event \<Rightarrow> clock_event) \<Rightarrow> clock_engine \<Rightarrow> clock_engine" where
  "upd_event e f k = k\<lparr>events := (events k)(e := f (events k e))\<rparr>"

abbreviation cyc :: "clock_engine \<Rightarrow> eid \<Rightarrow> int" where
  "cyc k e \<equiv> ev_cycle (events k e)"

abbreviation ce_running :: "cworld \<Rightarrow> bool" where
  "ce_running w \<equiv> cl_running (clients (snd w) (self (fst w)))"

section \<open>Operations\<close>

definition has_events :: "clock_engine \<Rightarrow> bool" where
  "has_events k \<longleftrightarrow> nb_enqueued_to_cycle k \<noteq> 0 \<or> delayed_queue k \<noteq> []"

text \<open>\<^verbatim>\<open>& CLOCK_EVENT_QUEUE_MASK\<close> on a two's complement number is the residue modulo 32.\<close>

definition enqueue_to_cycle :: "eid \<Rightarrow> int \<Rightarrow> clock_engine \<Rightarrow> clock_engine" where
  "enqueue_to_cycle e c k =
     (let cycle = nat ((int (current_cycle k) + c) mod 32)
      in upd_event e (ev_cycle_update (\<lambda>_. c + ce_cycles k))
           (k\<lparr>event_queue := (event_queue k)(cycle := e # event_queue k cycle),
              nb_enqueued_to_cycle := nb_enqueued_to_cycle k + 1\<rparr>))"

definition enqueue_other :: "eid \<Rightarrow> int \<Rightarrow> cworld \<Rightarrow> cworld" where
  "enqueue_other e c w =
     (let (k, s) = w;
          s' = (if period k \<noteq> 0 then snd (te_enqueue (self k) (c * period k) s) else s);
          full_cycle = c + ce_cycles k
      in (upd_event e (ev_cycle_update (\<lambda>_. full_cycle))
            (k\<lparr>must_flush_delayed_queue := True,
               delayed_queue := ins_lt (cyc k) full_cycle e (delayed_queue k)\<rparr>), s'))"

definition ce_update :: "cworld \<Rightarrow> cworld" where
  "ce_update w =
     (let (k, s) = w; diff = te_time s - stop_time k in
      if period k = 0 then w
      else if diff > 0 then
        let c = cdiv (diff + period k - 1) (period k)
        in (k\<lparr>stop_time := stop_time k + c * period k, ce_cycles := ce_cycles k + c\<rparr>, s)
      else w)"

definition ce_sync :: "cworld \<Rightarrow> cworld" where
  "ce_sync w = (if \<not> ce_running w \<and> nb_enqueued_to_cycle (fst w) = 0 then ce_update w else w)"

definition ce_enqueue :: "eid \<Rightarrow> int \<Rightarrow> cworld \<Rightarrow> cworld" where
  "ce_enqueue e c w =
     (let w1 = (upd_event e (ev_enqueued_update (\<lambda>_. True)) (fst w), snd w);
          w2 = (if \<not> ce_running w1 then ce_sync w1 else w1)
      in if ce_running w2 \<and> c < 32 then (enqueue_to_cycle e c (fst w2), snd w2)
         else enqueue_other e c w2)"

definition ce_enqueue_ext :: "eid \<Rightarrow> int \<Rightarrow> cworld \<Rightarrow> cworld" where
  "ce_enqueue_ext e c w = ce_enqueue e c (ce_sync w)"

definition ce_dequeue_from_engine :: "cworld \<Rightarrow> bool \<times> cworld" where
  "ce_dequeue_from_engine w =
     (if ce_running w \<or> \<not> is_enqueued (clients (snd w) (self (fst w))) then (False, w)
      else (True, (fst w, snd (te_dequeue (self (fst w)) (snd w)))))"

definition get_next_event :: "clock_engine \<Rightarrow> eid option" where
  "get_next_event k =
     (case (if nb_enqueued_to_cycle k \<noteq> 0
            then map (\<lambda>i. event_queue k ((current_cycle k + i) mod 32)) [0..<32]
            else []) of
        qs \<Rightarrow> (case find (\<lambda>q. q \<noteq> []) qs of
                 Some q \<Rightarrow> Some (hd q)
               | None \<Rightarrow> (case delayed_queue k of [] \<Rightarrow> None | e # _ \<Rightarrow> Some e)))"

definition ce_cancel :: "eid \<Rightarrow> cworld \<Rightarrow> cworld" where
  "ce_cancel e w =
     (let (k, s) = w in
      if \<not> ev_enqueued (events k e) then w
      else
        let k1 = (if e \<in> set (delayed_queue k) then k\<lparr>delayed_queue := remove1 e (delayed_queue k)\<rparr>
                  else case find (\<lambda>i. e \<in> set (event_queue k i)) [0..<32] of
                         None \<Rightarrow> k
                       | Some i \<Rightarrow> k\<lparr>event_queue := (event_queue k)(i := remove1 e (event_queue k i)),
                                     nb_enqueued_to_cycle := nb_enqueued_to_cycle k - 1\<rparr>);
            k2 = upd_event e (ev_enqueued_update (\<lambda>_. False)) k1
        in if \<not> has_events k2 then snd (ce_dequeue_from_engine (k2, s)) else (k2, s))"

definition ce_reenqueue :: "eid \<Rightarrow> int \<Rightarrow> cworld \<Rightarrow> cworld" where
  "ce_reenqueue e c w =
     (let cycles = ce_cycles (fst w) + c in
      if ev_enqueued (events (fst w) e) \<and> cycles \<ge> cyc (fst w) e then w
      else
        let w1 = (if ev_enqueued (events (fst w) e) then ce_cancel e w else w);
            w2 = ce_enqueue e c w1
        in (upd_event e (ev_cycle_update (\<lambda>_. cycles)) (fst w2), snd w2))"

definition ce_reenqueue_ext :: "eid \<Rightarrow> int \<Rightarrow> cworld \<Rightarrow> cworld" where
  "ce_reenqueue_ext e c w = ce_reenqueue e c (ce_sync w)"

text \<open>
  The flush loop, over the events of the delayed queue. \<^verbatim>\<open>cycle_diff\<close> is unsigned in the source,
  so a negative difference leaves the loop like a large one.
\<close>

primrec flush_loop :: "eid list \<Rightarrow> clock_engine \<Rightarrow> clock_engine" where
  "flush_loop [] k = k\<lparr>delayed_queue := []\<rparr>"
| "flush_loop (e # es) k =
     (let k1 = (if nb_enqueued_to_cycle k = 0 then k\<lparr>ce_cycles := cyc k e\<rparr> else k);
          cycle_diff = cyc k1 e - ce_cycles k1
      in if cycle_diff < 0 \<or> cycle_diff \<ge> 32 then k1\<lparr>delayed_queue := e # es\<rparr>
         else flush_loop es (enqueue_to_cycle e cycle_diff k1))"

definition flush_delayed_queue :: "clock_engine \<Rightarrow> clock_engine" where
  "flush_delayed_queue k = flush_loop (delayed_queue k) (k\<lparr>must_flush_delayed_queue := False\<rparr>)"

text \<open>
  The callbacks of the events run on the state \<open>'c\<close> of the components that own them and on the
  engines; \<open>None\<close> is a callback, or a cycle, that does not return.
\<close>

type_synonym 'c clock_meth = "eid \<Rightarrow> 'c \<times> cworld \<Rightarrow> ('c \<times> cworld) option"

partial_function (option) exec_loop :: "'c clock_meth \<Rightarrow> 'c \<times> cworld \<Rightarrow> ('c \<times> cworld) option" where
  "exec_loop meth w =
     (let k = fst (snd w) in
      case event_queue k (current_cycle k) of
        [] \<Rightarrow> Some w
      | e # es \<Rightarrow>
          Option.bind
            (meth e (fst w,
               upd_event e (ev_enqueued_update (\<lambda>_. False))
                 (k\<lparr>event_queue := (event_queue k)(current_cycle k := es),
                    nb_enqueued_to_cycle := nb_enqueued_to_cycle k - 1\<rparr>),
               snd (snd w)))
            (exec_loop meth))"

definition ce_exec_end :: "cworld \<Rightarrow> int \<times> cworld" where
  "ce_exec_end w =
     (let (k, s) = w in
      if nb_enqueued_to_cycle k \<noteq> 0 then
        let cc = (current_cycle k + 1) mod 32
        in (period k,
            k\<lparr>ce_cycles := ce_cycles k + 1, current_cycle := cc,
              must_flush_delayed_queue := must_flush_delayed_queue k \<or> cc = 0\<rparr>, s)
      else
        (case delayed_queue k of [] \<Rightarrow> -1 | e # _ \<Rightarrow> (cyc k e - ce_cycles k) * period k,
         k\<lparr>must_flush_delayed_queue := True, stop_time := te_time s\<rparr>, s))"

definition ce_exec :: "'c clock_meth \<Rightarrow> 'c \<times> cworld \<Rightarrow> (int \<times> 'c \<times> cworld) option" where
  "ce_exec meth w =
     (let (x, k, s) = w;
          k1 = (if must_flush_delayed_queue k then flush_delayed_queue k else k)
      in case exec_loop meth (x, k1, s) of
           None \<Rightarrow> None
         | Some (x', w') \<Rightarrow> (case ce_exec_end w' of (t, w'') \<Rightarrow> Some (t, x', w'')))"

text \<open>
  \<^verbatim>\<open>1e12 / freq\<close> is a double division whose truncation equals the integer quotient for the
  frequencies an \<^verbatim>\<open>int\<close> can hold.
\<close>

definition apply_frequency :: "int \<Rightarrow> cworld \<Rightarrow> cworld" where
  "apply_frequency frequency w =
     (if frequency > 0 then
        let (reenqueue, k, s) = ce_dequeue_from_engine w;
            old = period k;
            k1 = k\<lparr>freq := frequency, period := cdiv (10 ^ 12) frequency\<rparr>
        in if reenqueue \<and> old > 0 then
             let c = cdiv (net s (self k) - te_time s) old;
                 t = c * period k1;
                 s1 = upd_client (self k) (next_event_time_update (\<lambda>_. t)) s
             in (k1, snd (te_enqueue (self k) t s1))
           else if old = 0 \<and> has_events k1 then
             (case get_next_event k1 of
                None \<Rightarrow> (k1, s)
              | Some e \<Rightarrow>
                  let t = (cyc k1 e - ce_cycles k1) * period k1;
                      s1 = upd_client (self k) (next_event_time_update (\<lambda>_. t)) s
                  in (k1, snd (te_enqueue (self k) t s1)))
           else (k1, s)
      else if frequency = 0 then
        (case ce_dequeue_from_engine w of (_, k, s) \<Rightarrow> (k\<lparr>period := 0\<rparr>, s))
      else w)"

lemmas ce_ops [ce_defs] = enqueue_to_cycle_def enqueue_other_def ce_update_def ce_sync_def
  ce_enqueue_def ce_enqueue_ext_def ce_dequeue_from_engine_def ce_cancel_def ce_reenqueue_def
  ce_reenqueue_ext_def flush_delayed_queue_def ce_exec_end_def ce_exec_def apply_frequency_def
  upd_event_def has_events_def

section \<open>Invariants\<close>

definition ring :: "clock_engine \<Rightarrow> eid list" where
  "ring k = slots (event_queue k) 32"

text \<open>
  The structural invariant, with a set \<open>X\<close> of events that are marked enqueued but are between
  two queues: no event is in two places, the flag of an event says whether it is enqueued, the
  counter counts the buffer, an event in the buffer sits in the slot of its cycle, and the
  delayed queue is ordered.
\<close>

definition ce_base :: "eid set \<Rightarrow> clock_engine \<Rightarrow> bool" where
  "ce_base X k \<longleftrightarrow>
     current_cycle k < 32 \<and>
     nb_enqueued_to_cycle k = int (length (ring k)) \<and>
     distinct (ring k @ delayed_queue k) \<and>
     X \<inter> (set (ring k) \<union> set (delayed_queue k)) = {} \<and>
     (\<forall>e. ev_enqueued (events k e) \<longleftrightarrow> e \<in> set (ring k) \<union> set (delayed_queue k) \<union> X) \<and>
     (\<forall>i<32. \<forall>e\<in>set (event_queue k i).
        cyc k e = ce_cycles k + int ((i + 32 - current_cycle k) mod 32)) \<and>
     sorted (map (cyc k) (delayed_queue k))"

text \<open>No delayed event is late: its cycle lies at or after the next point where the queue is flushed.\<close>

definition next_flush :: "clock_engine \<Rightarrow> int" where
  "next_flush k = ce_cycles k + 32 - int (current_cycle k)"

definition ce_inv :: "clock_engine \<Rightarrow> bool" where
  "ce_inv k \<longleftrightarrow> ce_base {} k \<and>
     (\<forall>e\<in>set (delayed_queue k).
        (if must_flush_delayed_queue k then ce_cycles k else next_flush k) \<le> cyc k e)"

text \<open>The invariant while the events of a cycle execute.\<close>

definition ce_run_inv :: "clock_engine \<Rightarrow> bool" where
  "ce_run_inv k \<longleftrightarrow> ce_base {} k \<and> (\<forall>e\<in>set (delayed_queue k). next_flush k \<le> cyc k e)"

lemma ring_simps [simp]:
  "ring (k\<lparr>delayed_queue := d\<rparr>) = ring k"
  "ring (k\<lparr>ce_cycles := n\<rparr>) = ring k"
  "ring (k\<lparr>must_flush_delayed_queue := b\<rparr>) = ring k"
  "ring (k\<lparr>stop_time := n\<rparr>) = ring k"
  "ring (k\<lparr>current_cycle := c\<rparr>) = ring k"
  "ring (k\<lparr>period := p\<rparr>) = ring k"
  "ring (k\<lparr>freq := p\<rparr>) = ring k"
  "ring (k\<lparr>nb_enqueued_to_cycle := p\<rparr>) = ring k"
  "ring (upd_event e f k) = ring k"
  by (simp_all add: ring_def upd_event_def)

lemma upd_event_simps [simp]:
  "events (upd_event e f k) = (events k)(e := f (events k e))"
  "event_queue (upd_event e f k) = event_queue k"
  "delayed_queue (upd_event e f k) = delayed_queue k"
  "current_cycle (upd_event e f k) = current_cycle k"
  "ce_cycles (upd_event e f k) = ce_cycles k"
  "nb_enqueued_to_cycle (upd_event e f k) = nb_enqueued_to_cycle k"
  "must_flush_delayed_queue (upd_event e f k) = must_flush_delayed_queue k"
  "self (upd_event e f k) = self k"
  "period (upd_event e f k) = period k"
  "stop_time (upd_event e f k) = stop_time k"
  by (simp_all add: upd_event_def)

lemma in_slot_in_ring: "i < 32 \<Longrightarrow> e \<in> set (event_queue k i) \<Longrightarrow> e \<in> set (ring k)"
  by (auto simp: ring_def set_slots)

lemma in_ring_slot: "e \<in> set (ring k) \<Longrightarrow> \<exists>i<32. e \<in> set (event_queue k i)"
  by (auto simp: ring_def set_slots)

lemma enqueue_to_cycle_simps [simp]:
  "delayed_queue (enqueue_to_cycle e c k) = delayed_queue k"
  "current_cycle (enqueue_to_cycle e c k) = current_cycle k"
  "ce_cycles (enqueue_to_cycle e c k) = ce_cycles k"
  "self (enqueue_to_cycle e c k) = self k"
  "period (enqueue_to_cycle e c k) = period k"
  "stop_time (enqueue_to_cycle e c k) = stop_time k"
  "must_flush_delayed_queue (enqueue_to_cycle e c k) = must_flush_delayed_queue k"
  "nb_enqueued_to_cycle (enqueue_to_cycle e c k) = nb_enqueued_to_cycle k + 1"
  "events (enqueue_to_cycle e c k) = (events k)(e := (events k e)\<lparr>ev_cycle := c + ce_cycles k\<rparr>)"
  by (simp_all add: enqueue_to_cycle_def Let_def)

lemma mset_ring_enqueue_to_cycle:
  "mset (ring (enqueue_to_cycle e c k)) = add_mset e (mset (ring k))"
proof -
  have "nat ((int (current_cycle k) + c) mod 32) < 32" by simp
  from mset_slots_push [OF this, of "event_queue k" e] show ?thesis
    by (simp add: enqueue_to_cycle_def Let_def ring_def)
qed

lemma set_ring_enqueue_to_cycle [simp]:
  "set (ring (enqueue_to_cycle e c k)) = insert e (set (ring k))"
  using mset_ring_enqueue_to_cycle [of e c k] by (metis set_mset_add_mset_insert set_mset_mset)

lemma slot_offset:
  assumes "cc < (32::nat)" "0 \<le> c" "c < 32"
  shows "int ((nat ((int cc + c) mod 32) + 32 - cc) mod 32) = c"
proof -
  obtain d where d: "c = int d" "d < 32" using assms by (metis nat_eq_iff nat_less_iff zero_le_numeral of_nat_numeral zless_nat_eq_int_zless)
  have "nat ((int cc + c) mod 32) = (cc + d) mod 32"
    by (simp add: d nat_mod_as_int)
  then show ?thesis using assms(1) d by (auto simp: mod_if split: if_splits)
qed

lemma ce_base_enqueue_to_cycle:
  assumes b: "ce_base X k" and e: "e \<in> X" and c: "0 \<le> c" "c < 32"
  shows "ce_base (X - {e}) (enqueue_to_cycle e c k)"
proof -
  let ?k = "enqueue_to_cycle e c k"
  have fresh: "e \<notin> set (ring k)" "e \<notin> set (delayed_queue k)"
    using b e by (auto simp: ce_base_def)
  have slot: "cyc ?k f = ce_cycles k + int ((i + 32 - current_cycle k) mod 32)"
    if "i < 32" "f \<in> set (event_queue ?k i)" for i f
  proof (cases "f = e")
    case True
    with that fresh in_slot_in_ring [of i e k] have "i = nat ((int (current_cycle k) + c) mod 32)"
      by (auto simp: enqueue_to_cycle_def Let_def split: if_splits)
    with True slot_offset [OF _ c, of "current_cycle k"] b show ?thesis by (simp add: ce_base_def)
  next
    case False
    with that b show ?thesis
      by (auto simp: enqueue_to_cycle_def Let_def ce_base_def split: if_splits)
  qed
  have dist: "distinct (ring ?k @ delayed_queue k)"
    using b fresh mset_eq_imp_distinct_iff [of "ring ?k" "e # ring k"] mset_ring_enqueue_to_cycle [of e c k]
    by (auto simp: ce_base_def)
  have len: "length (ring ?k) = Suc (length (ring k))"
    using mset_ring_enqueue_to_cycle [of e c k] by (metis size_add_mset size_mset)
  have sor: "sorted (map (cyc ?k) (delayed_queue k))"
    using b fresh by (auto simp: ce_base_def elim!: sorted_map_congI)
  have flag: "ev_enqueued (events ?k f) \<longleftrightarrow> f \<in> set (ring ?k) \<union> set (delayed_queue k) \<union> (X - {e})" for f
    using b e by (auto simp: ce_base_def)
  show ?thesis
    using b e fresh slot dist len sor flag by (simp add: ce_base_def) blast
qed

lemma ce_base_delayed:
  assumes b: "ce_base X k" and e: "e \<in> X"
    and k': "k' = upd_event e (ev_cycle_update (\<lambda>_. c))
                (k\<lparr>must_flush_delayed_queue := True, delayed_queue := ins_lt (cyc k) c e (delayed_queue k)\<rparr>)"
  shows "ce_base (X - {e}) k'"
proof -
  have fresh: "e \<notin> set (ring k)" "e \<notin> set (delayed_queue k)"
    using b e by (auto simp: ce_base_def)
  have key: "ins_lt (cyc k) c e (delayed_queue k) = ins_lt (cyc k') c e (delayed_queue k)"
    using fresh by (intro ins_lt_cong) (auto simp: k')
  have "sorted (map (cyc k') (delayed_queue k))"
    using b fresh by (auto simp: k' ce_base_def elim!: sorted_map_congI)
  then have "sorted (map (cyc k') (ins_lt (cyc k) c e (delayed_queue k)))"
    unfolding key by (rule sorted_ins_lt) (simp add: k')
  moreover have "cyc k' f = cyc k f" if "i < 32" "f \<in> set (event_queue k i)" for i f
    using that fresh in_slot_in_ring by (auto simp: k')
  ultimately show ?thesis
    using b e fresh by (auto simp: ce_base_def k')
qed

lemma ce_base_take:
  assumes "ce_base X (k\<lparr>delayed_queue := e # es\<rparr>)"
  shows "ce_base (insert e X) (k\<lparr>delayed_queue := es\<rparr>)" "e \<notin> X"
  using assms by (auto simp: ce_base_def)

lemma ce_base_empty_ring:
  assumes "ce_base X (k\<lparr>delayed_queue := es\<rparr>)" "nb_enqueued_to_cycle k = 0"
  shows "ce_base X (k\<lparr>ce_cycles := c, delayed_queue := es\<rparr>)"
proof -
  have nil: "ring k = []" using assms by (simp add: ce_base_def)
  then have "event_queue k i = []" if "i < 32" for i
    using in_slot_in_ring [OF that, of _ k] by (cases "event_queue k i") auto
  with assms nil show ?thesis by (simp add: ce_base_def)
qed

lemma enqueue_to_cycle_delayed:
  "enqueue_to_cycle e c (k\<lparr>delayed_queue := es\<rparr>) = (enqueue_to_cycle e c k)\<lparr>delayed_queue := es\<rparr>"
  by (cases k) (simp add: enqueue_to_cycle_def Let_def upd_event_def)

definition flush_post :: "clock_engine \<Rightarrow> clock_engine \<Rightarrow> bool" where
  "flush_post k k' \<longleftrightarrow> ce_base {} k' \<and>
     (\<forall>e\<in>set (delayed_queue k'). ce_cycles k' + 32 \<le> cyc k' e) \<and>
     events k' = events k \<and> current_cycle k' = current_cycle k \<and> ce_cycles k \<le> ce_cycles k' \<and>
     (nb_enqueued_to_cycle k \<noteq> 0 \<longrightarrow> ce_cycles k' = ce_cycles k) \<and>
     must_flush_delayed_queue k' = must_flush_delayed_queue k \<and>
     self k' = self k \<and> period k' = period k \<and> stop_time k' = stop_time k"

lemma flush_post_step:
  assumes "flush_post k2 k'" "nb_enqueued_to_cycle k2 \<noteq> 0" "events k2 = events k"
    "current_cycle k2 = current_cycle k" "ce_cycles k \<le> ce_cycles k2"
    "nb_enqueued_to_cycle k \<noteq> 0 \<longrightarrow> ce_cycles k2 = ce_cycles k"
    "must_flush_delayed_queue k2 = must_flush_delayed_queue k"
    "self k2 = self k" "period k2 = period k" "stop_time k2 = stop_time k"
  shows "flush_post k k'"
  using assms by (auto simp: flush_post_def)

lemma flush_loop_post:
  assumes "ce_base {} (k\<lparr>delayed_queue := es\<rparr>)" "\<forall>e\<in>set es. ce_cycles k \<le> cyc k e"
  shows "flush_post k (flush_loop es k)"
  using assms
proof (induction es arbitrary: k)
  case Nil
  then show ?case by (simp add: flush_post_def)
next
  case (Cons e es)
  define k1 where "k1 = (if nb_enqueued_to_cycle k = 0 then k\<lparr>ce_cycles := cyc k e\<rparr> else k)"
  have k1: "events k1 = events k" "current_cycle k1 = current_cycle k" "nb_enqueued_to_cycle k1 = nb_enqueued_to_cycle k"
     "must_flush_delayed_queue k1 = must_flush_delayed_queue k" "self k1 = self k" "period k1 = period k"
     "stop_time k1 = stop_time k" "ce_cycles k \<le> ce_cycles k1" "nb_enqueued_to_cycle k \<noteq> 0 \<longrightarrow> ce_cycles k1 = ce_cycles k"
    using Cons.prems(2) by (auto simp: k1_def)
  have base: "ce_base {} (k1\<lparr>delayed_queue := e # es\<rparr>)"
    using Cons.prems(1) ce_base_empty_ring [where k=k and c="cyc k e"] by (simp add: k1_def)
  have ge: "cyc k e \<le> cyc k f" if "f \<in> set es" for f
    using Cons.prems(1) that by (auto simp: ce_base_def)
  have le: "ce_cycles k1 \<le> cyc k1 e" using Cons.prems(2) by (auto simp: k1_def)
  show ?case
  proof (cases "cyc k1 e - ce_cycles k1 \<ge> 32")
    case True
    then have "flush_loop (e # es) k = k1\<lparr>delayed_queue := e # es\<rparr>"
      by (simp add: k1_def [symmetric] Let_def)
    moreover have "ce_cycles k1 + 32 \<le> cyc k1 f" if "f \<in> set (e # es)" for f
      using True ge that k1(1) by force
    ultimately show ?thesis using base k1 by (auto simp: flush_post_def)
  next
    case False
    let ?k2 = "enqueue_to_cycle e (cyc k1 e - ce_cycles k1) k1"
    have step: "flush_loop (e # es) k = flush_loop es ?k2"
      using False le by (simp add: k1_def [symmetric] Let_def)
    have "ce_base {} (?k2\<lparr>delayed_queue := es\<rparr>)"
      using ce_base_enqueue_to_cycle [OF ce_base_take(1) [OF base], of e "cyc k1 e - ce_cycles k1"] False le
      by (simp add: enqueue_to_cycle_delayed)
    moreover have ev: "events ?k2 = events k" by (simp add: k1)
    moreover have "\<forall>f\<in>set es. ce_cycles ?k2 \<le> cyc ?k2 f"
      unfolding ev using le ge k1(1) by fastforce
    ultimately have "flush_post ?k2 (flush_loop es ?k2)" using Cons.IH by blast
    moreover have "nb_enqueued_to_cycle ?k2 \<noteq> 0"
      using base by (simp add: ce_base_def)
    ultimately show ?thesis unfolding step using ev k1
      by (elim flush_post_step) (simp_all add: ev del: enqueue_to_cycle_simps(9))
  qed
qed

lemma flush_delayed_queue_run_inv:
  assumes "ce_inv k" "must_flush_delayed_queue k"
  shows "ce_run_inv (flush_delayed_queue k)" "flush_post (k\<lparr>must_flush_delayed_queue := False\<rparr>) (flush_delayed_queue k)"
proof -
  have b: "ce_base {} (k\<lparr>must_flush_delayed_queue := False, delayed_queue := delayed_queue k\<rparr>)"
    using assms by (simp add: ce_inv_def ce_base_def)
  show f: "flush_post (k\<lparr>must_flush_delayed_queue := False\<rparr>) (flush_delayed_queue k)"
    unfolding flush_delayed_queue_def by (rule flush_loop_post [OF b]) (use assms in \<open>simp add: ce_inv_def\<close>)
  show "ce_run_inv (flush_delayed_queue k)"
    using f by (auto simp: ce_run_inv_def flush_post_def next_flush_def)
qed

lemma ce_base_mark:
  assumes "ce_base {} k" "\<not> ev_enqueued (events k e)"
  shows "ce_base {e} (upd_event e (ev_enqueued_update (\<lambda>_. True)) k)"
proof -
  have fresh: "e \<notin> set (ring k)" "e \<notin> set (delayed_queue k)"
    using assms by (auto simp: ce_base_def)
  let ?k = "upd_event e (ev_enqueued_update (\<lambda>_. True)) k"
  have c: "cyc ?k f = cyc k f" for f by simp
  have m: "map (cyc ?k) (delayed_queue k) = map (cyc k) (delayed_queue k)" by simp
  show ?thesis using assms fresh unfolding ce_base_def ring_simps upd_event_simps(2-) c m
    by auto
qed

lemma ce_base_unmark:
  assumes "ce_base {e} k"
  shows "ce_base {} (upd_event e (ev_enqueued_update (\<lambda>_. False)) k)"
proof -
  let ?k = "upd_event e (ev_enqueued_update (\<lambda>_. False)) k"
  have c: "cyc ?k f = cyc k f" for f by simp
  have m: "map (cyc ?k) (delayed_queue k) = map (cyc k) (delayed_queue k)" by simp
  show ?thesis using assms unfolding ce_base_def ring_simps upd_event_simps(2-) c m
    by auto
qed

lemma ce_base_extract:
  assumes b: "ce_base {} k" and i: "i < 32" and e: "e \<in> set (event_queue k i)"
  shows "ce_base {e} (k\<lparr>event_queue := (event_queue k)(i := remove1 e (event_queue k i)),
                         nb_enqueued_to_cycle := nb_enqueued_to_cycle k - 1\<rparr>)" (is "ce_base _ ?k")
proof -
  have m: "mset (ring k) = add_mset e (mset (ring ?k))"
    using mset_slots_remove [of i 32 e "event_queue k"] i e by (simp add: ring_def)
  then have s: "set (ring k) = insert e (set (ring ?k))" and d: "e \<notin> set (ring ?k)"
    and dr: "distinct (ring ?k)" and l: "length (ring k) = Suc (length (ring ?k))"
    using b mset_eq_imp_distinct_iff [of "ring k" "e # ring ?k"]
    by (auto simp: ce_base_def dest: arg_cong [where f=set_mset] arg_cong [where f=size])
  have q: "set (event_queue ?k j) \<subseteq> set (event_queue k j)" for j
    using set_remove1_subset [of e "event_queue k i"] by simp
  have slot: "\<forall>j<32. \<forall>f\<in>set (event_queue ?k j). cyc ?k f = ce_cycles ?k + int ((j + 32 - current_cycle ?k) mod 32)"
    using b q by (fastforce simp: ce_base_def)
  show ?thesis
    unfolding ce_base_def using b s d dr l slot by (auto simp: ce_base_def)
qed

lemma ce_base_undelay:
  assumes b: "ce_base {} k" and e: "e \<in> set (delayed_queue k)"
  shows "ce_base {e} (k\<lparr>delayed_queue := remove1 e (delayed_queue k)\<rparr>)"
  using assms sorted_map_remove1 [of "cyc k" "delayed_queue k" e] by (auto simp: ce_base_def)

lemma ce_pop_run_inv:
  assumes "ce_run_inv k" "event_queue k (current_cycle k) = e # es"
    and k': "k' = upd_event e (ev_enqueued_update (\<lambda>_. False))
                 (k\<lparr>event_queue := (event_queue k)(current_cycle k := es),
                    nb_enqueued_to_cycle := nb_enqueued_to_cycle k - 1\<rparr>)"
  shows "ce_run_inv k'" "cyc k' e = ce_cycles k'" "\<not> ev_enqueued (events k' e)"
proof -
  have i: "current_cycle k < 32" using assms(1) by (simp add: ce_run_inv_def ce_base_def)
  have "ce_base {} k'"
    unfolding k' using ce_base_unmark [OF ce_base_extract [of k "current_cycle k" e]] assms i
    by (simp add: ce_run_inv_def)
  then show "ce_run_inv k'"
    using assms by (simp add: ce_run_inv_def k' next_flush_def)
  show "cyc k' e = ce_cycles k'" "\<not> ev_enqueued (events k' e)"
    using assms(1,2) i by (auto simp: k' ce_run_inv_def ce_base_def)
qed

lemma ce_enqueue_running:
  assumes "ce_run_inv k" "ce_running (k, s)" "\<not> ev_enqueued (events k e)" "0 \<le> c"
    "ce_enqueue e c (k, s) = (k', s')"
  shows "ce_run_inv k'" "s' = s" "cyc k' e = ce_cycles k + c" "ev_enqueued (events k' e)"
     "\<And>f. f \<noteq> e \<Longrightarrow> events k' f = events k f"
     "current_cycle k' = current_cycle k" "ce_cycles k' = ce_cycles k" "self k' = self k"
     "period k' = period k" 
     "0 < c \<Longrightarrow> event_queue k' (current_cycle k) = event_queue k (current_cycle k)"
proof -
  let ?k = "upd_event e (ev_enqueued_update (\<lambda>_. True)) k"
  have b: "ce_base {e} ?k" and fl: "\<forall>e\<in>set (delayed_queue k). next_flush k \<le> cyc k e"
    and cc: "current_cycle k < 32" and fresh: "e \<notin> set (delayed_queue k)"
    using assms(1,3) ce_base_mark by (auto simp: ce_run_inv_def ce_base_def)
  have eq: "(k', s') = (if c < 32 then (enqueue_to_cycle e c ?k, s)
      else (upd_event e (ev_cycle_update (\<lambda>_. c + ce_cycles k))
              (?k\<lparr>must_flush_delayed_queue := True,
                  delayed_queue := ins_lt (cyc ?k) (c + ce_cycles k) e (delayed_queue k)\<rparr>), s))"
    using assms(2,5) by (simp add: ce_enqueue_def enqueue_other_def te_enqueue_def Let_def split: if_splits)
  have "ce_base ({e} - {e}) k'"
    using eq ce_base_enqueue_to_cycle [OF b _ assms(4)] ce_base_delayed [OF b]
    by (auto split: if_splits)
  moreover have "\<forall>f\<in>set (delayed_queue k'). next_flush k' \<le> cyc k' f"
    using eq fl assms(4) cc fresh by (auto simp: next_flush_def split: if_splits)
  ultimately show "ce_run_inv k'" by (simp add: ce_run_inv_def)
  show "s' = s" "cyc k' e = ce_cycles k + c" "ev_enqueued (events k' e)"
     "\<And>f. f \<noteq> e \<Longrightarrow> events k' f = events k f"
     "current_cycle k' = current_cycle k" "ce_cycles k' = ce_cycles k" "self k' = self k"
     "period k' = period k" 
    using eq by (auto split: if_splits)
  show "event_queue k' (current_cycle k) = event_queue k (current_cycle k)" if "0 < c"
  proof (cases "c < 32")
    case True
    obtain d where d: "c = int d" using assms(4) zero_le_imp_eq_int by blast
    have "nat ((int (current_cycle k) + c) mod 32) = (current_cycle k + d) mod 32"
      by (simp add: d nat_mod_as_int)
    then have "nat ((int (current_cycle k) + c) mod 32) \<noteq> current_cycle k"
      using that True d cc by (auto simp: mod_if split: if_splits)
    with True eq show ?thesis by (simp add: enqueue_to_cycle_def Let_def)
  qed (use eq in simp)
qed

lemma ce_cancel_removed:
  assumes "ce_base {} k" "ev_enqueued (events k e)"
  obtains k2 where "ce_base {} k2" "\<not> ev_enqueued (events k2 e)"
    "\<And>f. f \<noteq> e \<Longrightarrow> events k2 f = events k f"
    "set (delayed_queue k2) = set (delayed_queue k) - {e}"
    "set (ring k2) = set (ring k) - {e}"
    "current_cycle k2 = current_cycle k" "ce_cycles k2 = ce_cycles k"
    "must_flush_delayed_queue k2 = must_flush_delayed_queue k" "self k2 = self k" "period k2 = period k"
    "ce_cancel e (k, s) = (if \<not> has_events k2 then snd (ce_dequeue_from_engine (k2, s)) else (k2, s))"
proof (cases "e \<in> set (delayed_queue k)")
  case True
  let ?k = "upd_event e (ev_enqueued_update (\<lambda>_. False)) (k\<lparr>delayed_queue := remove1 e (delayed_queue k)\<rparr>)"
  show ?thesis
  proof (rule that [of ?k])
    show "ce_base {} ?k" using ce_base_unmark [OF ce_base_undelay] assms True by blast
    show "ce_cancel e (k, s) = (if \<not> has_events ?k then snd (ce_dequeue_from_engine (?k, s)) else (?k, s))"
      using True assms(2) by (simp add: ce_cancel_def Let_def)
  qed (use assms True in \<open>auto simp: ce_base_def\<close>)
next
  case False
  then have r: "e \<in> set (ring k)" using assms by (auto simp: ce_base_def)
  obtain i where f: "find (\<lambda>i. e \<in> set (event_queue k i)) [0..<32] = Some i"
    using in_ring_slot [OF r] by (cases "find (\<lambda>i. e \<in> set (event_queue k i)) [0..<32]") (auto simp: find_None_iff)
  then have i: "i < 32" "e \<in> set (event_queue k i)" by (auto simp: find_Some_iff)
  let ?k1 = "k\<lparr>event_queue := (event_queue k)(i := remove1 e (event_queue k i)),
               nb_enqueued_to_cycle := nb_enqueued_to_cycle k - 1\<rparr>"
  let ?k = "upd_event e (ev_enqueued_update (\<lambda>_. False)) ?k1"
  have b: "ce_base {e} ?k1" using ce_base_extract [OF assms(1) i] .
  show ?thesis
  proof (rule that [of ?k])
    show "ce_base {} ?k" using ce_base_unmark [OF b] .
    have "mset (ring k) = add_mset e (mset (ring ?k))"
      using mset_slots_remove [of i 32 e "event_queue k"] i by (simp add: ring_def upd_event_def)
    then have "set (ring k) = insert e (set (ring ?k))"
      by (metis set_mset_add_mset_insert set_mset_mset)
    moreover have "e \<notin> set (ring ?k)" using b unfolding ce_base_def by auto
    ultimately show "set (ring ?k) = set (ring k) - {e}" by blast
    show "ce_cancel e (k, s) = (if \<not> has_events ?k then snd (ce_dequeue_from_engine (?k, s)) else (?k, s))"
      using False assms(2) f by (simp add: ce_cancel_def Let_def)
  qed (use False in auto)
qed

text \<open>No delayed event of an idle engine is overdue.\<close>

definition ce_timely :: "cworld \<Rightarrow> bool" where
  "ce_timely w \<longleftrightarrow> (let (k, s) = w in nb_enqueued_to_cycle k = 0 \<longrightarrow> period k > 0 \<longrightarrow>
     (\<forall>e\<in>set (delayed_queue k). te_time s \<le> stop_time k + (cyc k e - ce_cycles k) * period k))"

lemma ceil_div_le:
  assumes "0 < (p::int)" "0 < d" "d \<le> n * p"
  shows "cdiv (d + p - 1) p \<le> n"
proof -
  have "(d + p - 1) div p * p \<le> d + p - 1"
    using assms(1) div_mult_mod_eq [of "d + p - 1" p] pos_mod_sign [of p "d + p - 1"] by linarith
  then have "(d + p - 1) div p * p < (n + 1) * p"
    using assms(3) by (simp add: distrib_right)
  then have "(d + p - 1) div p < n + 1"
    using assms(1) by (simp add: mult_less_cancel_right)
  then show ?thesis using assms by simp
qed

lemma ce_update_inv:
  assumes "ce_inv k" "ce_timely (k, s)" "nb_enqueued_to_cycle k = 0" "0 \<le> period k"
    "must_flush_delayed_queue k" "ce_update (k, s) = (k', s')"
  shows "ce_inv k'" "s' = s" "events k' = events k" "self k' = self k" "period k' = period k"
    "ce_cycles k \<le> ce_cycles k'"
    "delayed_queue k' = delayed_queue k" "nb_enqueued_to_cycle k' = 0"
proof -
  let ?d = "te_time s - stop_time k"
  show s: "s' = s" "events k' = events k" "self k' = self k" "period k' = period k" 
     "delayed_queue k' = delayed_queue k" "nb_enqueued_to_cycle k' = 0"
    using assms(3,6) by (auto simp: ce_update_def Let_def split: if_splits)
  show "ce_cycles k \<le> ce_cycles k'"
    using assms(4,6) by (auto simp: ce_update_def Let_def pos_imp_zdiv_nonneg_iff split: if_splits)
  have "ce_cycles k' \<le> cyc k e" if e: "e \<in> set (delayed_queue k)" for e
  proof (cases "period k = 0 \<or> ?d \<le> 0")
    case True
    with assms e show ?thesis by (auto simp: ce_update_def Let_def ce_inv_def split: if_splits)
  next
    case False
    with assms e have "?d \<le> (cyc k e - ce_cycles k) * period k"
      by (auto simp: ce_timely_def)
    with False assms(4) ceil_div_le [of "period k" ?d "cyc k e - ce_cycles k"]
    show ?thesis using assms(6) by (auto simp: ce_update_def Let_def)
  qed
  moreover have "ce_base {} (k\<lparr>stop_time := t, ce_cycles := c\<rparr>)" for t c
  proof -
    have "ce_base {} (k\<lparr>delayed_queue := delayed_queue k\<rparr>)"
      using assms(1) by (simp add: ce_inv_def)
    from ce_base_empty_ring [OF this assms(3), of c] show ?thesis by (simp add: ce_base_def)
  qed
  then have "ce_base {} k'"
    using assms(1,6) by (auto simp: ce_inv_def ce_update_def Let_def split: if_splits)
  moreover have "must_flush_delayed_queue k'"
    using assms(5,6) by (auto simp: ce_update_def Let_def split: if_splits)
  ultimately show "ce_inv k'" using s by (simp add: ce_inv_def)
qed

lemma ce_inv_delayed:
  assumes i: "ce_inv k" and n: "\<not> ev_enqueued (events k e)" and c: "0 \<le> c"
    and w: "enqueue_other e c (upd_event e (ev_enqueued_update (\<lambda>_. True)) k, s) = (k', s')"
  shows "ce_inv k'" "cyc k' e = ce_cycles k + c" "ev_enqueued (events k' e)"
    "\<And>f. f \<noteq> e \<Longrightarrow> events k' f = events k f" "ce_cycles k' = ce_cycles k" "self k' = self k"
proof -
  let ?k = "upd_event e (ev_enqueued_update (\<lambda>_. True)) k"
  have b: "ce_base {e} ?k" using i n ce_base_mark by (simp add: ce_inv_def)
  have k': "k' = upd_event e (ev_cycle_update (\<lambda>_. c + ce_cycles k))
     (?k\<lparr>must_flush_delayed_queue := True, delayed_queue := ins_lt (cyc ?k) (c + ce_cycles k) e (delayed_queue ?k)\<rparr>)"
    using w by (simp add: enqueue_other_def Let_def)
  have "current_cycle k < 32" using i by (simp add: ce_inv_def ce_base_def)
  then have "\<forall>f\<in>set (delayed_queue k). ce_cycles k \<le> cyc k f"
    using i by (auto simp: ce_inv_def next_flush_def split: if_splits)
  then show "ce_inv k'"
    using ce_base_delayed [OF b _ k'] c by (auto simp: ce_inv_def k')
  show "cyc k' e = ce_cycles k + c" "ev_enqueued (events k' e)"
    "\<And>f. f \<noteq> e \<Longrightarrow> events k' f = events k f" "ce_cycles k' = ce_cycles k" "self k' = self k"
    by (auto simp: k')
qed

lemma ce_sync_mark:
  "ce_update (upd_event e (ev_enqueued_update (\<lambda>_. True)) k, s) =
     (upd_event e (ev_enqueued_update (\<lambda>_. True)) (fst (ce_update (k, s))), s)"
  by (simp add: ce_update_def Let_def upd_event_def)

lemma ce_update_simps [simp]:
  "events (fst (ce_update (k, s))) = events k" "self (fst (ce_update (k, s))) = self k"
  "period (fst (ce_update (k, s))) = period k"
  by (simp_all add: ce_update_def Let_def)

lemma ce_enqueue_idle:
  assumes i: "ce_inv k" and r: "\<not> ce_running (k, s)" and n: "\<not> ev_enqueued (events k e)" and c: "0 \<le> c"
    and t: "ce_timely (k, s)" and p: "0 \<le> period k"
    and f: "nb_enqueued_to_cycle k = 0 \<Longrightarrow> must_flush_delayed_queue k"
    and w: "ce_enqueue e c (k, s) = (k', s')"
  shows "ce_inv k'" "cyc k' e = ce_cycles k' + c" "ev_enqueued (events k' e)"
    "\<And>f. f \<noteq> e \<Longrightarrow> events k' f = events k f" "ce_cycles k \<le> ce_cycles k'" "self k' = self k"
    "s' = (if period k \<noteq> 0 then snd (te_enqueue (self k) (c * period k) s) else s)"
proof -
  define k1 where "k1 = (if nb_enqueued_to_cycle k = 0 then fst (ce_update (k, s)) else k)"
  have k1: "ce_inv k1" "events k1 = events k" "ce_cycles k \<le> ce_cycles k1" "self k1 = self k" "period k1 = period k"
    using ce_update_inv [OF i t _ p f surjective_pairing] i by (auto simp: k1_def)
  have w': "enqueue_other e c (upd_event e (ev_enqueued_update (\<lambda>_. True)) k1, s) = (k', s')"
    using w r by (auto simp: ce_enqueue_def ce_sync_def Let_def k1_def ce_sync_mark split: if_splits)
  note d = ce_inv_delayed [OF k1(1) _ c w']
  show "ce_inv k'" "cyc k' e = ce_cycles k' + c" "ev_enqueued (events k' e)"
    "\<And>f. f \<noteq> e \<Longrightarrow> events k' f = events k f" "ce_cycles k \<le> ce_cycles k'" "self k' = self k"
    using d n k1 by auto
  show "s' = (if period k \<noteq> 0 then snd (te_enqueue (self k) (c * period k) s) else s)"
    using w' k1 by (auto simp: enqueue_other_def Let_def)
qed

lemma ce_cancel_keeps:
  assumes b: "ce_base {} k" and e: "ev_enqueued (events k e)"
    and w: "ce_cancel e (k, s) = (k', s')"
  shows "ce_inv k \<Longrightarrow> ce_inv k'" "ce_run_inv k \<Longrightarrow> ce_run_inv k'" "\<not> ev_enqueued (events k' e)"
    "\<And>f. f \<noteq> e \<Longrightarrow> events k' f = events k f"
    "set (ring k') = set (ring k) - {e}" "set (delayed_queue k') = set (delayed_queue k) - {e}"
    "ce_cycles k' = ce_cycles k"
    "s' = (if has_events k' \<or> cl_running (clients s (self k)) \<or> \<not> is_enqueued (clients s (self k)) then s
           else snd (te_dequeue (self k) s))"
proof -
  obtain k2 where k2: "ce_base {} k2" "\<not> ev_enqueued (events k2 e)"
    "\<And>f. f \<noteq> e \<Longrightarrow> events k2 f = events k f"
    "set (delayed_queue k2) = set (delayed_queue k) - {e}"
    "set (ring k2) = set (ring k) - {e}"
    "current_cycle k2 = current_cycle k" "ce_cycles k2 = ce_cycles k"
    "must_flush_delayed_queue k2 = must_flush_delayed_queue k" "self k2 = self k" "period k2 = period k"
    "ce_cancel e (k, s) = (if \<not> has_events k2 then snd (ce_dequeue_from_engine (k2, s)) else (k2, s))"
    using ce_cancel_removed [OF b e] by metis
  have eq: "k' = k2" using w k2(11) by (auto simp: ce_dequeue_from_engine_def split: if_splits)
  show "ce_inv k'" if "ce_inv k" using that k2 by (auto simp: eq ce_inv_def next_flush_def)
  show "ce_run_inv k'" if "ce_run_inv k" using that k2 by (auto simp: eq ce_run_inv_def next_flush_def)
  show "\<not> ev_enqueued (events k' e)" "\<And>f. f \<noteq> e \<Longrightarrow> events k' f = events k f"
    "set (ring k') = set (ring k) - {e}" "set (delayed_queue k') = set (delayed_queue k) - {e}"
    "ce_cycles k' = ce_cycles k"
    using k2 by (auto simp: eq)
  show "s' = (if has_events k' \<or> cl_running (clients s (self k)) \<or> \<not> is_enqueued (clients s (self k)) then s
           else snd (te_dequeue (self k) s))"
    using w k2(9,11) by (auto simp: eq ce_dequeue_from_engine_def split: if_splits)
qed

lemma find_first_slot:
  assumes "\<exists>i<n. f i \<noteq> []"
  obtains i where "i < n" "find (\<lambda>q. q \<noteq> []) (map f [0..<n]) = Some (f i)" "f i \<noteq> []"
    "\<forall>j<i. f j = []"
proof -
  obtain q where q: "find (\<lambda>q. q \<noteq> []) (map f [0..<n]) = Some q"
    using assms by (cases "find (\<lambda>q. q \<noteq> []) (map f [0..<n])") (auto simp: find_None_iff)
  then obtain i where "i < n" "f i \<noteq> []" "q = f i" "\<forall>j<i. f j = []"
    by (auto simp: find_Some_iff)
  with q that show ?thesis by blast
qed

lemma ring_offset:
  assumes b: "ce_base {} k" and j: "j < 32" and g: "g \<in> set (event_queue k j)"
  obtains d where "d < 32" "j = (current_cycle k + d) mod 32" "cyc k g = ce_cycles k + int d"
proof -
  let ?d = "(j + 32 - current_cycle k) mod 32"
  have cc: "current_cycle k < 32" using b by (simp add: ce_base_def)
  then have "(current_cycle k + ?d) mod 32 = (current_cycle k + (j + 32 - current_cycle k)) mod 32"
    by (simp add: mod_add_right_eq)
  also have "\<dots> = j" using cc j by simp
  finally show ?thesis using that [of ?d] b j g by (auto simp: ce_base_def)
qed

lemma cyc_at_offset:
  assumes b: "ce_base {} k" and i: "i < 32" and e: "e \<in> set (event_queue k ((current_cycle k + i) mod 32))"
  shows "cyc k e = ce_cycles k + int i"
proof -
  have "int (((current_cycle k + i) mod 32 + 32 - current_cycle k) mod 32) = int i"
    using slot_offset [of "current_cycle k" "int i"] b i by (simp add: ce_base_def nat_mod_as_int)
  moreover have "cyc k e = ce_cycles k + int (((current_cycle k + i) mod 32 + 32 - current_cycle k) mod 32)"
    using b e by (simp add: ce_base_def)
  ultimately show ?thesis by simp
qed

lemma get_next_event_first:
  assumes b: "ce_base {} k" and h: "has_events k"
  shows "\<exists>e. get_next_event k = Some e \<and> ev_enqueued (events k e) \<and>
           (if ring k \<noteq> [] then e \<in> set (ring k) \<and> (\<forall>g\<in>set (ring k). cyc k e \<le> cyc k g)
            else \<forall>g\<in>set (delayed_queue k). cyc k e \<le> cyc k g)"
proof (cases "ring k = []")
  case True
  then show ?thesis using assms
    by (cases "delayed_queue k") (auto simp: get_next_event_def has_events_def ce_base_def)
next
  case False
  let ?f = "\<lambda>i. event_queue k ((current_cycle k + i) mod 32)"
  have "\<exists>i<32. ?f i \<noteq> []"
  proof -
    from False obtain g where "g \<in> set (ring k)" by (cases "ring k") auto
    then obtain j where "j < 32" "g \<in> set (event_queue k j)" using in_ring_slot by blast
    then show ?thesis by (metis b ring_offset list.set_cases list.discI)
  qed
  then obtain i where i: "i < 32" "find (\<lambda>q. q \<noteq> []) (map ?f [0..<32]) = Some (?f i)" "?f i \<noteq> []"
    "\<forall>j<i. ?f j = []" by (rule find_first_slot)
  let ?e = "hd (?f i)"
  have n: "get_next_event k = Some ?e"
    using False b i(2) by (simp add: get_next_event_def ce_base_def)
  have e: "?e \<in> set (?f i)" using i(3) by simp
  then have r: "?e \<in> set (ring k)" by (rule in_slot_in_ring [rotated]) simp
  have "cyc k ?e \<le> cyc k g" if g: "g \<in> set (ring k)" for g
  proof -
    from in_ring_slot [OF g] obtain j where j: "j < 32" "g \<in> set (event_queue k j)" by blast
    from ring_offset [OF b this] obtain d where d: "d < 32" "j = (current_cycle k + d) mod 32" "cyc k g = ce_cycles k + int d" .
    have "\<not> d < i" using i(4) j d by auto
    with cyc_at_offset [OF b i(1) e] d show ?thesis by simp
  qed
  with n r False b show ?thesis by (auto simp: ce_base_def)
qed

lemma ce_exec_end_inv:
  assumes r: "ce_run_inv k" and q: "event_queue k (current_cycle k) = []"
    and w: "ce_exec_end (k, s) = (t, k', s')"
  shows "ce_inv k'" "s' = s" "events k' = events k" "ring k' = ring k" "delayed_queue k' = delayed_queue k"
    "t = (if ring k \<noteq> [] then period k
          else if delayed_queue k = [] then -1 else (cyc k (hd (delayed_queue k)) - ce_cycles k) * period k)"
    "ce_cycles k' = ce_cycles k + (if ring k \<noteq> [] then 1 else 0)"
    "ring k = [] \<longrightarrow> must_flush_delayed_queue k' \<and> stop_time k' = te_time s"
proof -
  have b: "ce_base {} k" and cc: "current_cycle k < 32"
    and d: "\<forall>e\<in>set (delayed_queue k). next_flush k \<le> cyc k e"
    and nb: "nb_enqueued_to_cycle k = 0 \<longleftrightarrow> ring k = []"
    using r by (auto simp: ce_run_inv_def ce_base_def)
  have k': "k' = (if ring k \<noteq> [] then
        k\<lparr>ce_cycles := ce_cycles k + 1, current_cycle := (current_cycle k + 1) mod 32,
              must_flush_delayed_queue := must_flush_delayed_queue k \<or> (current_cycle k + 1) mod 32 = 0\<rparr>
      else k\<lparr>must_flush_delayed_queue := True, stop_time := te_time s\<rparr>)"
    using w nb by (auto simp: ce_exec_end_def Let_def split: if_splits list.splits)
  show fr: "s' = s" "events k' = events k" "ring k' = ring k" "delayed_queue k' = delayed_queue k"
    "ce_cycles k' = ce_cycles k + (if ring k \<noteq> [] then 1 else 0)"
    "ring k = [] \<longrightarrow> must_flush_delayed_queue k' \<and> stop_time k' = te_time s"
    "t = (if ring k \<noteq> [] then period k
          else if delayed_queue k = [] then -1 else (cyc k (hd (delayed_queue k)) - ce_cycles k) * period k)"
    using w nb by (auto simp: k' ce_exec_end_def Let_def split: if_splits list.splits)
  show "ce_inv k'"
  proof (cases "ring k = []")
    case True
    then show ?thesis using b d cc by (auto simp: k' ce_inv_def ce_base_def next_flush_def)
  next
    case False
    have slot: "cyc k e = ce_cycles k + 1 + int ((i + 32 - (current_cycle k + 1) mod 32) mod 32)"
      if "i < 32" "e \<in> set (event_queue k i)" for i e
    proof -
      have "i \<noteq> current_cycle k" using q that(2) by auto
      then have "int ((i + 32 - current_cycle k) mod 32) = 1 + int ((i + 32 - (current_cycle k + 1) mod 32) mod 32)"
        using that(1) cc by (auto simp: mod_if split: if_splits)
      with b that show ?thesis by (simp add: ce_base_def)
    qed
    have "ce_base {} k'" using b False slot by (simp add: k' ce_base_def)
    moreover have "(if must_flush_delayed_queue k' then ce_cycles k' else next_flush k') \<le> cyc k e"
      if "e \<in> set (delayed_queue k)" for e
      using bspec [OF d that] cc False by (auto simp: k' next_flush_def mod_if split: if_splits)
    ultimately show ?thesis using fr(2,4) by (simp add: ce_inv_def)
  qed
qed

text \<open>
  What the engine relies on when it calls an event back: the callback may enqueue, cancel and
  move events through the operations of the running engine, which keep \<open>ce_run_inv\<close>, but it
  leaves the cycle where it is.
\<close>

definition meth_frame :: "cworld \<Rightarrow> cworld \<Rightarrow> bool" where
  "meth_frame w w' \<longleftrightarrow> ce_run_inv (fst w') \<and> ce_running w' \<and> ce_cycles (fst w') = ce_cycles (fst w) \<and>
     current_cycle (fst w') = current_cycle (fst w) \<and> self (fst w') = self (fst w)"

lemma meth_frame_trans: "meth_frame a b \<Longrightarrow> meth_frame b c \<Longrightarrow> meth_frame a c"
  by (auto simp: meth_frame_def)

definition due_only :: "'c clock_meth \<Rightarrow> 'c clock_meth" where
  "due_only meth e w = (if cyc (fst (snd w)) e = ce_cycles (fst (snd w)) then meth e w else None)"

locale clock_client =
  fixes meth :: "'c clock_meth"
  assumes meth_keeps: "\<lbrakk>meth e (x, w) = Some (x', w'); ce_run_inv (fst w); ce_running w;
     \<not> ev_enqueued (events (fst w) e); cyc (fst w) e = ce_cycles (fst w)\<rbrakk> \<Longrightarrow> meth_frame w w'"
begin

lemma exec_loop_due:
  assumes "exec_loop meth u = Some v" "ce_run_inv (fst (snd u))" "ce_running (snd u)"
  shows "meth_frame (snd u) (snd v) \<and>
     event_queue (fst (snd v)) (current_cycle (fst (snd v))) = [] \<and>
     exec_loop (due_only meth) u = Some v"
proof -
  have "m = meth \<longrightarrow> ce_run_inv (fst (snd u)) \<longrightarrow> ce_running (snd u) \<longrightarrow>
     meth_frame (snd u) (snd v) \<and>
     event_queue (fst (snd v)) (current_cycle (fst (snd v))) = [] \<and>
     exec_loop (due_only meth) u = Some v" if "exec_loop m u = Some v" for m
  proof (rule exec_loop.raw_induct [OF _ that], intro impI, goal_cases)
    case (1 f m u v)
    obtain x k s where u: "u = (x, k, s)" by (metis surj_pair)
    show ?case
    proof (cases "event_queue k (current_cycle k)")
      case Nil
      with 1(2) have v: "v = (x, k, s)" by (simp add: u Let_def)
      have "exec_loop (due_only meth) u = Some v"
        using Nil by (subst exec_loop.simps) (simp add: u v Let_def)
      with 1(4,5) Nil show ?thesis by (simp add: u v meth_frame_def)
    next
      case (Cons e es)
      define k1 where "k1 = upd_event e (ev_enqueued_update (\<lambda>_. False))
                 (k\<lparr>event_queue := (event_queue k)(current_cycle k := es),
                    nb_enqueued_to_cycle := nb_enqueued_to_cycle k - 1\<rparr>)"
      from 1(2-) Cons obtain y where y: "meth e (x, k1, s) = Some y" "f meth y = Some v"
        by (auto simp: u Let_def k1_def bind_eq_Some_conv)
      note pop = ce_pop_run_inv [OF _ Cons k1_def]
      have fr: "meth_frame (k1, s) (snd y)"
        using meth_keeps [of e x "(k1, s)" "fst y" "snd y"] y(1) 1(4,5) pop by (simp add: u k1_def)
      then have ih: "meth_frame (snd y) (snd v)" "event_queue (fst (snd v)) (current_cycle (fst (snd v))) = []"
         "exec_loop (due_only meth) y = Some v"
        using 1(1) [OF y(2)] by (auto simp: meth_frame_def)
      have "meth_frame (k, s) (snd v)"
        using meth_frame_trans [OF fr ih(1)] by (auto simp: meth_frame_def k1_def)
      moreover have "cyc k e = ce_cycles k" using pop(2) 1(4) by (simp add: u k1_def)
      then have "exec_loop (due_only meth) u = Some v"
        using y(1) ih(3) pop 1(4) Cons
        by (subst exec_loop.simps) (simp add: u Let_def k1_def [symmetric] due_only_def)
      ultimately show ?thesis using ih(2) by (simp add: u)
    qed
  qed
  with assms show ?thesis by blast
qed

lemma ce_exec_due:
  assumes e: "ce_exec meth (x, k, s) = Some (t, x', k', s')" and i: "ce_inv k" and r: "ce_running (k, s)"
  shows "ce_inv k'" "ce_exec (due_only meth) (x, k, s) = Some (t, x', k', s')"
    "ce_running (k', s')" "self k' = self k" "ce_cycles k \<le> ce_cycles k'"
    "t = (if ring k' \<noteq> [] then period k'
          else if delayed_queue k' = [] then -1 else (cyc k' (hd (delayed_queue k')) - ce_cycles k') * period k')"
proof -
  define k1 where "k1 = (if must_flush_delayed_queue k then flush_delayed_queue k else k)"
  have k1: "ce_run_inv k1" "self k1 = self k" "ce_cycles k \<le> ce_cycles k1"
    using flush_delayed_queue_run_inv [OF i] i
    by (auto simp: k1_def ce_inv_def ce_run_inv_def flush_post_def)
  obtain y k2 s2 where l: "exec_loop meth (x, k1, s) = Some (y, k2, s2)" "ce_exec_end (k2, s2) = (t, k', s')" "y = x'"
    using e by (auto simp: ce_exec_def k1_def split: option.splits prod.splits)
  have d: "meth_frame (k1, s) (k2, s2)" "event_queue k2 (current_cycle k2) = []"
     "exec_loop (due_only meth) (x, k1, s) = Some (y, k2, s2)"
    using exec_loop_due [OF l(1)] k1 r by auto
  note en = ce_exec_end_inv [OF _ d(2) l(2)]
  show "ce_inv k'" using en(1) d(1) by (simp add: meth_frame_def)
  show "ce_exec (due_only meth) (x, k, s) = Some (t, x', k', s')"
    using d(3) l by (simp add: ce_exec_def k1_def)
  have "self k' = self k2" "period k' = period k2"
    using l(2) by (auto simp: ce_exec_end_def Let_def split: if_splits)
  then show "ce_running (k', s')" "self k' = self k" "ce_cycles k \<le> ce_cycles k'"
    "t = (if ring k' \<noteq> [] then period k'
          else if delayed_queue k' = [] then -1 else (cyc k' (hd (delayed_queue k')) - ce_cycles k') * period k')"
    using en d(1) k1 by (auto simp: meth_frame_def)
qed

end

locale clock_client_total = clock_client +
  assumes meth_returns: "\<lbrakk>ce_run_inv (fst w); ce_running w; \<not> ev_enqueued (events (fst w) e);
     cyc (fst w) e = ce_cycles (fst w)\<rbrakk> \<Longrightarrow> \<exists>x' w'. meth e (x, w) = Some (x', w') \<and>
     event_queue (fst w') (current_cycle (fst w)) = event_queue (fst w) (current_cycle (fst w))"
begin

lemma exec_loop_returns:
  assumes "ce_run_inv (fst w)" "ce_running w"
  shows "\<exists>v. exec_loop meth (x, w) = Some v"
  using assms
proof (induction "event_queue (fst w) (current_cycle (fst w))" arbitrary: x w)
  case Nil
  then show ?case by (subst exec_loop.simps) (simp add: Let_def flip: Nil(1))
next
  case (Cons e es)
  define k1 where "k1 = upd_event e (ev_enqueued_update (\<lambda>_. False))
                 ((fst w)\<lparr>event_queue := (event_queue (fst w))(current_cycle (fst w) := es),
                    nb_enqueued_to_cycle := nb_enqueued_to_cycle (fst w) - 1\<rparr>)"
  note pop = ce_pop_run_inv [OF Cons(3) Cons(2) [symmetric] k1_def]
  have run: "ce_running (k1, snd w)" using Cons(4) by (simp add: k1_def)
  obtain x' w' where m: "meth e (x, k1, snd w) = Some (x', w')"
    "event_queue (fst w') (current_cycle k1) = event_queue k1 (current_cycle k1)"
    using meth_returns [of "(k1, snd w)" e x] pop run by auto
  have fr: "meth_frame (k1, snd w) w'"
    using meth_keeps [OF m(1)] pop run by simp
  have "es = event_queue (fst w') (current_cycle (fst w'))"
    using m(2) fr by (simp add: meth_frame_def k1_def)
  from Cons(1) [OF this, of x'] fr obtain v where "exec_loop meth (x', w') = Some v"
    by (auto simp: meth_frame_def)
  with m show ?case
    by (subst exec_loop.simps) (cases v, simp add: Let_def k1_def flip: Cons(2))
qed

lemma ce_exec_returns:
  assumes "ce_inv k" "ce_running (k, s)"
  shows "\<exists>v. ce_exec meth (x, k, s) = Some v"
proof -
  define k1 where "k1 = (if must_flush_delayed_queue k then flush_delayed_queue k else k)"
  have "ce_run_inv k1" "self k1 = self k"
    using flush_delayed_queue_run_inv [OF assms(1)] assms(1)
    by (auto simp: k1_def ce_inv_def ce_run_inv_def flush_post_def)
  then obtain v where "exec_loop meth (x, k1, s) = Some v"
    using exec_loop_returns [of "(k1, s)" x] assms(2) by auto
  then show ?thesis by (auto simp: ce_exec_def k1_def split: prod.splits)
qed

end

section \<open>Properties\<close>

lemma ring_ce_init [simp]: "ring (ce_init c) = []"
  by (simp add: ring_def ce_init_def slots_empty)

lemma ce_init_inv: "ce_inv (ce_init c)"
  using ring_ce_init by (simp add: ce_inv_def ce_base_def) (simp add: ce_init_def)

lemma ce_init_run_inv: "ce_run_inv (ce_init c)"
  using ring_ce_init by (simp add: ce_run_inv_def ce_base_def) (simp add: ce_init_def)

text \<open>
  C27. While the engine runs, \<^verbatim>\<open>enqueue\<close> of a free event keeps the invariant, does not touch the time
  engine, and schedules the event exactly \<open>c\<close> cycles ahead, whichever of the two queues takes it;
  no other event moves, and for \<open>c > 0\<close> the slot under execution is left alone.
\<close>

theorem ce_enqueue_in_callback:
  assumes "ce_run_inv k" "ce_running (k, s)" "\<not> ev_enqueued (events k e)" "0 \<le> c"
    "ce_enqueue e c (k, s) = (k', s')"
  shows "ce_run_inv k' \<and> s' = s \<and> events k' e = \<lparr>ev_enqueued = True, ev_cycle = ce_cycles k + c\<rparr> \<and>
     (\<forall>f. f \<noteq> e \<longrightarrow> events k' f = events k f) \<and> ce_cycles k' = ce_cycles k \<and>
     (0 < c \<longrightarrow> event_queue k' (current_cycle k) = event_queue k (current_cycle k))"
  using ce_enqueue_running [OF assms] by (cases "events k' e") auto

definition running_te :: time_engine where
  "running_te = upd_client 0 (cl_running_update (\<lambda>_. True)) te_init"

theorem ce_enqueue_in_callback_witness:
  "cyc (fst (ce_enqueue 3 40 (ce_init 0, running_te))) 3 = 40 \<and>
   ce_run_inv (fst (ce_enqueue 3 40 (ce_init 0, running_te)))"
proof -
  have r: "ce_running (ce_init 0, running_te)" by (simp add: ce_init_def running_te_def upd_client_def)
  show ?thesis
    using ce_enqueue_in_callback [OF ce_init_run_inv r _ _ surjective_pairing, of 3 40]
    by (simp add: ce_init_def)
qed


definition idle_ce :: clock_engine where
  "idle_ce = (ce_init 0)\<lparr>period := 10, stop_time := 0\<rparr>"

lemma idle_ce_inv: "ce_inv idle_ce"
  using ring_ce_init by (simp add: idle_ce_def ce_inv_def ce_base_def) (simp add: ce_init_def)

lemma te_init_at_inv: "te_inv (te_init\<lparr>te_time := t\<rparr>)"
  by (simp add: te_inv_def te_init_def)


text \<open>
  C28. \<^verbatim>\<open>cancel\<close> takes exactly the given event out of whichever queue holds it and keeps the
  invariant of an idle and of a running engine; the engine leaves the time engine exactly when
  it was the last event and it is idle there. A free event is left alone.
\<close>

theorem ce_cancel_exact:
  assumes "ce_base {} k" "ce_cancel e (k, s) = (k', s')"
  shows "if ev_enqueued (events k e) then
       (ce_inv k \<longrightarrow> ce_inv k') \<and> (ce_run_inv k \<longrightarrow> ce_run_inv k') \<and> \<not> ev_enqueued (events k' e) \<and>
       (\<forall>f. f \<noteq> e \<longrightarrow> events k' f = events k f) \<and>
       set (ring k') = set (ring k) - {e} \<and> set (delayed_queue k') = set (delayed_queue k) - {e} \<and>
       s' = (if has_events k' \<or> cl_running (clients s (self k)) \<or> \<not> is_enqueued (clients s (self k)) then s
             else snd (te_dequeue (self k) s))
     else k' = k \<and> s' = s"
proof (cases "ev_enqueued (events k e)")
  case True
  from ce_cancel_keeps [OF assms(1) True assms(2)] True show ?thesis by auto
next
  case False
  with assms(2) show ?thesis by (simp add: ce_cancel_def)
qed

theorem ce_cancel_exact_witness:
  "ce_run_inv (fst (ce_cancel 3 (ce_enqueue 3 4 (ce_init 0, running_te)))) \<and>
   ring (fst (ce_cancel 3 (ce_enqueue 3 4 (ce_init 0, running_te)))) = []"
proof -
  have r: "ce_running (ce_init 0, running_te)" by (simp add: ce_init_def running_te_def upd_client_def)
  define w where "w = ce_enqueue 3 4 (ce_init 0, running_te)"
  have n: "\<not> ev_enqueued (events (ce_init 0) 3)" by (simp add: ce_init_def)
  have eq: "ce_enqueue 3 4 (ce_init 0, running_te) = (fst w, snd w)" by (simp add: w_def)
  have "ce_run_inv (fst w)" "ev_enqueued (events (fst w) 3)"
    using ce_enqueue_running(1,4) [OF ce_init_run_inv r _ _ eq] n by simp_all
  moreover have "set (ring (fst w)) = {3}"
    using r by (simp add: w_def ce_enqueue_def Let_def)
  ultimately have w: "ce_run_inv (fst w)" "ev_enqueued (events (fst w) 3)" "set (ring (fst w)) = {3}" .
  then have "ce_base {} (fst w)" by (simp add: ce_run_inv_def)
  with w ce_cancel_exact [of "fst w" 3 "snd w" "fst (ce_cancel 3 w)" "snd (ce_cancel 3 w)"]
  show ?thesis by (simp flip: w_def)
qed

text \<open>
  \<^verbatim>\<open>get_next_event\<close> finds an event whenever there is one (its assertion cannot fire): the
  earliest of the circular buffer, or the earliest delayed one when the buffer is empty.
\<close>

theorem get_next_event_found:
  assumes "ce_base {} k" "has_events k"
  shows "\<exists>e. get_next_event k = Some e \<and> ev_enqueued (events k e) \<and>
           (if ring k \<noteq> [] then e \<in> set (ring k) \<and> (\<forall>g\<in>set (ring k). cyc k e \<le> cyc k g)
            else \<forall>g\<in>set (delayed_queue k). cyc k e \<le> cyc k g)"
  using assms by (rule get_next_event_first)

theorem get_next_event_found_witness:
  "\<exists>e. get_next_event (fst (ce_enqueue 3 4 (ce_init 0, running_te))) = Some e"
proof -
  have r: "ce_running (ce_init 0, running_te)" by (simp add: ce_init_def running_te_def upd_client_def)
  have "ce_run_inv (fst (ce_enqueue 3 4 (ce_init 0, running_te)))"
    using ce_enqueue_running(1) [OF ce_init_run_inv r _ _ surjective_pairing, of 3 4] by (simp add: ce_init_def)
  with get_next_event_found [of "fst (ce_enqueue 3 4 (ce_init 0, running_te))"] r show ?thesis
    by (auto simp: ce_run_inv_def has_events_def ce_enqueue_def ce_init_def)
qed

end
