(* ===== verification/Clock_Gen.thy ===== *)
theory Clock_Gen
  imports Clock_Engine Complex_Main
begin

text \<open>
  The clock generator (\<^verbatim>\<open>models/utils/clock_impl.cpp\<close>): a component that toggles a wire on every
  cycle of its clock engine. Its edge handler is the callback of a clock event, so the model
  discharges here the contract \<open>clock_client_total\<close> that the clock engine states for callbacks.
  The engine holds the events of any number of generators; \<open>gs e\<close> is the one that owns event
  \<open>e\<close>. What goes out on the two clock ports is recorded in order; the single-precision values of
  the source are reals.
\<close>

record clock_gen =
  clk_value :: int
  target_frequency :: real
  frequency :: real
  powerup_time :: real
  powered_on :: bool
  start_time :: int
  sync_bound :: bool
  ctrl_bound :: bool
  sync_out :: "int list"
  sync_freq_out :: "int list"
  ctrl_out :: "real list"

definition ramp_frequency :: "int \<Rightarrow> clock_gen \<Rightarrow> clock_gen" where
  "ramp_frequency now g =
     (if target_frequency g \<noteq> 0 \<and> ctrl_bound g then
        let diff_time = now - start_time g in
        if real_of_int diff_time \<ge> powerup_time g then
          g\<lparr>ctrl_out := ctrl_out g @ [target_frequency g], target_frequency := 0\<rparr>
        else
          g\<lparr>ctrl_out := ctrl_out g @
              [target_frequency g * (1/10 + 9/10 * real_of_int diff_time / powerup_time g)]\<rparr>
      else g)"

definition raise_edge :: "eid \<Rightarrow> clock_gen \<times> cworld \<Rightarrow> clock_gen \<times> cworld" where
  "raise_edge e gw =
     (let (g, w) = gw in
      if sync_bound g then
        let g1 = ramp_frequency (te_time (snd w)) g;
            g2 = g1\<lparr>sync_out := sync_out g1 @ [clk_value g1], clk_value := clk_value g1 XOR 1\<rparr>
        in (g2, ce_enqueue e 1 w)
      else (g, w))"

definition edge_handler :: "(eid \<Rightarrow> clock_gen) clock_meth" where
  "edge_handler e gw =
     (let (gs, w) = gw; (g, w') = raise_edge e (gs e, w) in Some (gs(e := g), w'))"

definition power_sync :: "eid \<Rightarrow> bool \<Rightarrow> clock_gen \<times> cworld \<Rightarrow> clock_gen \<times> cworld" where
  "power_sync e active gw =
     (let (g, w) = gw;
          (g1, w1) =
            (if active \<noteq> powered_on g then
               if active then
                 (g\<lparr>target_frequency := frequency g, start_time := te_time (snd w)\<rparr>, ce_enqueue e 1 w)
               else (g, if ev_enqueued (events (fst w) e) then ce_cancel e w else w)
             else (g, w))
      in (g1\<lparr>powered_on := active\<rparr>, w1))"

definition gen_reset :: "eid \<Rightarrow> bool \<Rightarrow> clock_gen \<times> cworld \<Rightarrow> clock_gen \<times> cworld" where
  "gen_reset e active gw =
     (let (g, w) = gw in
      if \<not> active then
        let f = real_of_int (freq (fst w));
            g1 = g\<lparr>frequency := f, sync_freq_out := sync_freq_out g @ [cdiv (freq (fst w)) 2]\<rparr>
        in (g1, if powered_on g1 \<and> \<not> ev_enqueued (events (fst w) e) then ce_enqueue e 1 w else w)
      else (g, w))"

section \<open>The contract of a clock callback\<close>

lemma edge_handler_eq:
  "edge_handler e (gs, w) =
     Some (gs(e := fst (raise_edge e (gs e, w))), if sync_bound (gs e) then ce_enqueue e 1 w else w)"
  by (simp add: edge_handler_def raise_edge_def Let_def)

interpretation edge: clock_client_total edge_handler
proof
  fix e gs and w :: cworld and gs' w'
  assume m: "edge_handler e (gs, w) = Some (gs', w')" and i: "ce_run_inv (fst w)" "ce_running w"
     "\<not> ev_enqueued (events (fst w) e)"
  show "meth_frame w w'"
  proof (cases "sync_bound (gs e)")
    case True
    then have "ce_enqueue e 1 (fst w, snd w) = (fst w', snd w')" using m by (simp add: edge_handler_eq)
    from ce_enqueue_running [OF i(1) _ i(3) _ this] i(2) show ?thesis by (simp add: meth_frame_def)
  next
    case False
    with m i show ?thesis by (simp add: edge_handler_eq meth_frame_def)
  qed
next
  fix e gs and w :: cworld
  assume i: "ce_run_inv (fst w)" "ce_running w" "\<not> ev_enqueued (events (fst w) e)"
  have "event_queue (fst (ce_enqueue e 1 w)) (current_cycle (fst w)) = event_queue (fst w) (current_cycle (fst w))"
    using ce_enqueue_running(10) [of "fst w" "snd w" e 1 "fst (ce_enqueue e 1 w)" "snd (ce_enqueue e 1 w)"] i
    by simp
  then show "\<exists>gs' w'. edge_handler e (gs, w) = Some (gs', w') \<and>
     event_queue (fst w') (current_cycle (fst w)) = event_queue (fst w) (current_cycle (fst w))"
    by (auto simp: edge_handler_eq intro!: exI [of _ "fst (ce_enqueue e 1 w)"])
qed

section \<open>Properties\<close>

lemma ce_inv_not_late:
  assumes "ce_inv k" "ev_enqueued (events k e)"
  shows "ce_cycles k \<le> cyc k e"
proof -
  have b: "ce_base {} k" and cc: "current_cycle k < 32" using assms(1) by (auto simp: ce_inv_def ce_base_def)
  consider "e \<in> set (ring k)" | "e \<in> set (delayed_queue k)" using b assms(2) by (auto simp: ce_base_def)
  then show ?thesis
  proof cases
    case 1
    then obtain i where "i < 32" "e \<in> set (event_queue k i)" using in_ring_slot by blast
    with b show ?thesis by (simp add: ce_base_def)
  next
    case 2
    with assms(1) cc show ?thesis by (auto simp: ce_inv_def next_flush_def split: if_splits)
  qed
qed

text \<open>
  C2. One step of the clock engine, with any callbacks that keep the engine's contract: every
  callback it makes is for an event whose cycle is the current one (running with callbacks that
  are refused at any other cycle gives the same result), afterwards the invariant holds and no
  event is late, the cycle count does not go back, and the delay handed to the time engine is one
  period while the circular buffer is not empty, else the distance to the first delayed event,
  else the value that says there is nothing left.
\<close>

theorem ce_exec_events_on_time:
  assumes "clock_client meth" "ce_inv k" "ce_running (k, s)"
    "ce_exec meth (x, k, s) = Some (t, x', k', s')"
  shows "ce_exec (due_only meth) (x, k, s) = Some (t, x', k', s') \<and> ce_inv k' \<and>
     (\<forall>e. ev_enqueued (events k' e) \<longrightarrow> ce_cycles k' \<le> cyc k' e) \<and> ce_cycles k \<le> ce_cycles k' \<and>
     t = (if ring k' \<noteq> [] then period k'
          else if delayed_queue k' = [] then -1
          else (cyc k' (hd (delayed_queue k')) - ce_cycles k') * period k')"
  using clock_client.ce_exec_due [OF assms(1,4,2,3)] ce_inv_not_late by blast

definition demo_gen :: clock_gen where
  "demo_gen = \<lparr>clk_value = 0, target_frequency = 0, frequency = 0, powerup_time = 0, powered_on = True,
     start_time = 0, sync_bound = True, ctrl_bound = False, sync_out = [], sync_freq_out = [], ctrl_out = []\<rparr>"

theorem ce_exec_events_on_time_witness:
  "\<exists>t gs k s. ce_exec edge_handler (\<lambda>_. demo_gen, ce_init 0, running_te) = Some (t, gs, k, s) \<and> ce_inv k"
proof -
  have r: "ce_running (ce_init 0, running_te)" by (simp add: ce_init_def running_te_def upd_client_def)
  obtain t gs k s where e: "ce_exec edge_handler (\<lambda>_. demo_gen, ce_init 0, running_te) = Some (t, gs, k, s)"
    using edge.ce_exec_returns [OF ce_init_inv r, of "\<lambda>_. demo_gen"] by (metis surj_pair)
  with ce_exec_events_on_time [OF edge.clock_client_axioms ce_init_inv r e] show ?thesis by blast
qed

text \<open>
  C32. A cycle whose events are the edges of clock generators always returns, whatever is queued,
  and keeps the engine's invariant.
\<close>

theorem clock_gen_cycle_returns:
  assumes "ce_inv k" "ce_running (k, s)"
  shows "\<exists>t gs' k' s'. ce_exec edge_handler (gs, k, s) = Some (t, gs', k', s') \<and> ce_inv k'"
  using edge.ce_exec_returns [OF assms, of gs] edge.ce_exec_due(1) [OF _ assms] by (metis surj_pair)

theorem clock_gen_cycle_returns_witness:
  "\<exists>t gs k s. ce_exec edge_handler (\<lambda>_. demo_gen, ce_init 1,
      upd_client 1 (cl_running_update (\<lambda>_. True)) te_init) = Some (t, gs, k, s) \<and> ce_inv k"
  using clock_gen_cycle_returns [OF ce_init_inv, of 1 "upd_client 1 (cl_running_update (\<lambda>_. True)) te_init"]
  by (simp add: ce_init_def upd_client_def)

lemma ramp_bounds:
  assumes "0 \<le> (f::real)" "0 \<le> d" "d < p"
  shows "f / 10 \<le> f * (1/10 + 9/10 * d / p)" "f * (1/10 + 9/10 * d / p) \<le> f"
proof -
  have r: "9/10 * d / p = 9/10 * (d / p)" "0 \<le> d / p" "d / p \<le> 1" using assms by auto
  have "f * (1/10) \<le> f * (1/10 + 9/10 * (d / p))" "f * (1/10 + 9/10 * (d / p)) \<le> f * 1"
    using assms(1) r(2,3) by (intro mult_left_mono; linarith)+
  then show "f / 10 \<le> f * (1/10 + 9/10 * d / p)" "f * (1/10 + 9/10 * d / p) \<le> f"
    unfolding r(1) by simp_all
qed



section \<open>A cycle count that is counted twice\<close>

text \<open>
  \<^verbatim>\<open>stop_time\<close> is only set when a cycle ends with an empty circular buffer. When the last buffered
  event is cancelled from outside between two cycles, it still holds the older stop, and the next
  synchronization adds again the cycles that have been executed since.
\<close>

declare exec_loop.simps [code]

definition exec_at :: "int \<Rightarrow> (eid \<Rightarrow> clock_gen) \<times> cworld \<Rightarrow> (eid \<Rightarrow> clock_gen) \<times> cworld" where
  "exec_at t u =
     (let (gs, k, s) = u in
      case ce_exec edge_handler (gs, k, upd_client 0 (cl_running_update (\<lambda>_. True)) (s\<lparr>te_time := t\<rparr>)) of
        None \<Rightarrow> u
      | Some (_, gs', k', s') \<Rightarrow> (gs', k', upd_client 0 (cl_running_update (\<lambda>_. False)) s'))"

definition three_cycles :: "(eid \<Rightarrow> clock_gen) \<times> cworld" where
  "three_cycles = exec_at 30 (exec_at 20 (exec_at 10 (\<lambda>_. demo_gen, ce_enqueue 3 1 (idle_ce, te_init))))"

theorem cancel_then_sync_counts_twice:
  "ce_cycles (fst (snd three_cycles)) = 4 \<and>
   ce_cycles (fst (ce_sync (ce_cancel 3 (snd three_cycles)))) = 7"
  by code_simp

end
