(* ===== verification/Isa_Lanes.thy ===== *)
theory Isa_Lanes
  imports Gv_Prelude
begin

text \<open>
  Packed vectors: the C code reads and writes the lanes of a 32-bit register through a pointer to
  the element type (\<^verbatim>\<open>(int8_t*)&a\<close>), or with shifts and masks inside a byte. \<open>lanes\<close> and \<open>unlanes\<close>
  are that view, least significant lane first, for any element width; the locale \<open>lane_view\<close>
  states what the vector operations rely on and is interpreted for the four widths in use.
\<close>

definition lanes :: "'a::len word \<Rightarrow> 'e::len word list" where
  "lanes a = map (\<lambda>i. ucast (drop_bit (i * LENGTH('e)) a)) [0..<LENGTH('a) div LENGTH('e)]"

primrec unlanes :: "'e::len word list \<Rightarrow> 'a::len word" where
  "unlanes [] = 0"
| "unlanes (x # xs) = ucast x OR push_bit LENGTH('e) (unlanes xs)"

lemma length_lanes [simp]: "length (lanes (a :: 'a::len word) :: 'e::len word list) = LENGTH('a) div LENGTH('e)"
  by (simp add: lanes_def)

lemma nth_lanes:
  "i < LENGTH('a) div LENGTH('e) \<Longrightarrow> (lanes (a :: 'a::len word) :: 'e::len word list) ! i = ucast (drop_bit (i * LENGTH('e)) a)"
  by (simp add: lanes_def)

lemma bit_unlanes:
  "bit (unlanes (xs :: 'e::len word list) :: 'a::len word) i \<longleftrightarrow>
     i < LENGTH('a) \<and> i div LENGTH('e) < length xs \<and> bit (xs ! (i div LENGTH('e))) (i mod LENGTH('e))"
proof (induction xs arbitrary: i)
  case Nil
  then show ?case by simp
next
  case (Cons x xs)
  show ?case
  proof (cases "i < LENGTH('e)")
    case True
    then show ?thesis by (auto simp: bit_simps)
  next
    case False
    then have d: "i div LENGTH('e) = Suc ((i - LENGTH('e)) div LENGTH('e))" "i mod LENGTH('e) = (i - LENGTH('e)) mod LENGTH('e)"
      by (simp_all add: div_if le_mod_geq)
    from False show ?thesis unfolding d by (auto simp: bit_simps Cons.IH dest: bit_imp_le_length)
  qed
qed

lemma bit_lanes:
  assumes "i < LENGTH('a) div LENGTH('e)"
  shows "bit ((lanes (a :: 'a::len word) :: 'e::len word list) ! i) j \<longleftrightarrow> j < LENGTH('e) \<and> bit a (i * LENGTH('e) + j)"
  using assms by (auto simp: nth_lanes bit_simps ac_simps)

lemma lane_index:
  assumes "LENGTH('e::len) dvd LENGTH('a::len)" "i < LENGTH('a) div LENGTH('e)" "j < LENGTH('e)"
  shows "i * LENGTH('e) + j < LENGTH('a)"
proof -
  from assms(1) obtain k where k: "LENGTH('a) = LENGTH('e) * k" by blast
  have "k \<noteq> 0" using k len_gt_0 [where 'a='a] by (cases k) simp_all
  with assms(2) k have "Suc i \<le> k" by simp
  then have "Suc i * LENGTH('e) \<le> k * LENGTH('e)" by (rule mult_le_mono1)
  then show ?thesis using assms(3) k by (simp add: mult.commute)
qed

lemma lanes_unlanes:
  assumes "LENGTH('e::len) dvd LENGTH('a::len)" "length xs = LENGTH('a) div LENGTH('e)"
  shows "lanes (unlanes (xs :: 'e word list) :: 'a word) = xs"
proof (rule nth_equalityI)
  fix i assume "i < length (lanes (unlanes xs :: 'a word) :: 'e word list)"
  then have i: "i < LENGTH('a) div LENGTH('e)" by simp
  show "lanes (unlanes xs :: 'a word) ! i = xs ! i"
  proof (rule bit_word_eqI)
    fix j assume j: "j < LENGTH('e)"
    then have d: "(i * LENGTH('e) + j) div LENGTH('e) = i" "(i * LENGTH('e) + j) mod LENGTH('e) = j" by auto
    have "bit (lanes (unlanes xs :: 'a word) ! i :: 'e word) j \<longleftrightarrow> j < LENGTH('e) \<and> bit (unlanes xs :: 'a word) (i * LENGTH('e) + j)"
      by (rule bit_lanes [OF i])
    also have "\<dots> \<longleftrightarrow> bit (xs ! i) j"
      unfolding bit_unlanes d using i j assms lane_index [OF assms(1) i j] by simp
    finally show "bit (lanes (unlanes xs :: 'a word) ! i :: 'e word) j = bit (xs ! i) j" .
  qed
qed (use assms in simp)

lemma unlanes_lanes:
  assumes "LENGTH('e::len) dvd LENGTH('a::len)"
  shows "unlanes (lanes (a :: 'a word) :: 'e word list) = a"
proof (rule bit_word_eqI)
  fix i assume i: "i < LENGTH('a)"
  from assms obtain k where k: "LENGTH('a) = LENGTH('e) * k" by blast
  have "i div LENGTH('e) < k" using i k by (simp add: less_mult_imp_div_less mult.commute)
  then show "bit (unlanes (lanes a :: 'e word list) :: 'a word) i = bit a i"
    using i k by (simp add: bit_unlanes bit_lanes)
qed

lemma lanes_eqI:
  fixes a b :: "'a::len word"
  assumes "LENGTH('e::len) dvd LENGTH('a)" "(lanes a :: 'e word list) = lanes b"
  shows "a = b"
  by (metis assms unlanes_lanes)

locale lane_view =
  fixes get :: "u32 \<Rightarrow> 'e list" and put :: "'e list \<Rightarrow> u32" and n :: nat
  assumes length_get: "length (get a) = n"
    and put_get: "put (get a) = a"
    and get_put: "length xs = n \<Longrightarrow> get (put xs) = xs"
begin

lemma get_inject: "get a = get b \<longleftrightarrow> a = b"
  using put_get by metis

lemma get_map2: "get (put (map2 f (get a) (get b))) = map2 f (get a) (get b)"
  by (simp add: get_put length_get)

lemma get_map: "get (put (map f (get a))) = map f (get a)"
  by (simp add: get_put length_get)

lemma nth_map2: "i < n \<Longrightarrow> get (put (map2 f (get a) (get b))) ! i = f (get a ! i) (get b ! i)"
  by (simp add: get_put length_get)

lemma all2_nth: "list_all2 P (get a) (get b) \<longleftrightarrow> (\<forall>i<n. P (get a ! i) (get b ! i))"
  by (simp add: list_all2_conv_all_nth length_get)

end

interpretation bytes: lane_view "lanes :: u32 \<Rightarrow> u8 list" unlanes 4
  by unfold_locales (simp, rule unlanes_lanes, simp, rule lanes_unlanes, simp_all)

interpretation halves: lane_view "lanes :: u32 \<Rightarrow> u16 list" unlanes 2
  by unfold_locales (simp, rule unlanes_lanes, simp, rule lanes_unlanes, simp_all)

interpretation nibbles: lane_view "lanes :: u32 \<Rightarrow> 4 word list" unlanes 8
  by unfold_locales (simp, rule unlanes_lanes, simp, rule lanes_unlanes, simp_all)

interpretation crumbs: lane_view "lanes :: u32 \<Rightarrow> 2 word list" unlanes 16
  by unfold_locales (simp, rule unlanes_lanes, simp, rule lanes_unlanes, simp_all)

text \<open>The nibbles and crumbs of a register are those of its bytes, in order.\<close>

lemma concat_upt_mult:
  "concat (map (\<lambda>i. map (\<lambda>j. f (i * k + j)) [0..<k]) [0..<m]) = map f [0..<m * (k::nat)]"
proof (induction m)
  case (Suc m)
  have "[0..<Suc m * k] = [0..<m * k] @ map (\<lambda>j. m * k + j) [0..<k]"
    using upt_add_eq_append [of 0 "m * k" k] by (simp add: map_add_upt add.commute)
  then show ?case using Suc by simp
qed simp

lemma lanes_of_bytes:
  fixes a :: u32
  assumes "8 = LENGTH('e::len) * k"
  shows "(lanes a :: 'e word list) = concat (map lanes (lanes a :: u8 list))"
proof -
  have k: "32 div LENGTH('e) = 4 * k" "8 div LENGTH('e) = k"
  proof -
    have "32 = LENGTH('e) * (4 * k)" by (simp only: mult.left_commute [of _ 4] flip: assms)
    then show "32 div LENGTH('e) = 4 * k" by (metis len_gt_0 nonzero_mult_div_cancel_left not_gr0)
    show "8 div LENGTH('e) = k" by (metis assms len_gt_0 nonzero_mult_div_cancel_left not_gr0)
  qed
  have "(ucast (drop_bit (j * LENGTH('e)) (ucast (drop_bit (i * 8) a) :: u8)) :: 'e word) =
      ucast (drop_bit ((i * k + j) * LENGTH('e)) a)" if "j < k" for i j
  proof (rule bit_word_eqI)
    fix b assume "b < LENGTH('e)"
    moreover have "Suc j * LENGTH('e) \<le> k * LENGTH('e)" using that by (intro mult_le_mono1) simp
    ultimately have "j * LENGTH('e) + b < 8" using assms by (simp add: mult.commute)
    then show "bit (ucast (drop_bit (j * LENGTH('e)) (ucast (drop_bit (i * 8) a) :: u8)) :: 'e word) b =
      bit (ucast (drop_bit ((i * k + j) * LENGTH('e)) a) :: 'e word) b"
      using assms by (simp add: bit_simps algebra_simps)
  qed
  then have "concat (map lanes (lanes a :: u8 list)) =
      concat (map (\<lambda>i. map (\<lambda>j. (ucast (drop_bit ((i * k + j) * LENGTH('e)) a) :: 'e word)) [0..<k]) [0..<4])"
    by (auto simp: lanes_def k intro!: arg_cong [where f=concat] map_cong)
  then show ?thesis
    using concat_upt_mult [of "\<lambda>i. (ucast (drop_bit (i * LENGTH('e)) a) :: 'e word)" k 4]
    by (simp add: lanes_def k)
qed

end
