(* ===== verification/Isa_Scalar.thy ===== *)
theory Isa_Scalar
  imports Isa_Lanes "HOL-Library.Signed_Division"
begin

text \<open>
  The scalar operations of the instruction set library (\<^verbatim>\<open>models/cpu/iss/include/isa_lib/int.h\<close>)
  that the instruction handlers call. \<^verbatim>\<open>int\<close> and \<^verbatim>\<open>unsigned int\<close> are both \<open>u32\<close> with two's complement
  wrap-around; signed readings go through \<open>sint\<close>. A shift by the width or more is undefined in C
  and is \<open>None\<close> here. The cpu state argument is only there where an operation uses it. Families of
  one-line functions that differ in which half of an operand they take are one definition with
  the half as argument.
\<close>

section \<open>Fields\<close>

definition shl32 :: "u32 \<Rightarrow> nat \<Rightarrow> u32 option" where
  "shl32 a n = (if n < 32 then Some (push_bit n a) else None)"

definition shr32 :: "u32 \<Rightarrow> nat \<Rightarrow> u32 option" where
  "shr32 a n = (if n < 32 then Some (drop_bit n a) else None)"

definition sar32 :: "u32 \<Rightarrow> nat \<Rightarrow> u32 option" where
  "sar32 a n = (if n < 32 then Some (signed_drop_bit n a) else None)"

definition DoExtend :: "u32 \<Rightarrow> u32 \<Rightarrow> u32 \<Rightarrow> u32 option" where
  "DoExtend R e m =
     (if m + e = 31 then Some R
      else if unat (e + m) < 32 then
        let S = drop_bit (unat (e + m)) R AND 1;
            Mask = (if S \<noteq> 0 then push_bit (unat (e + m)) (- 1) else 0)
        in Some (R OR Mask)
      else None)"

definition getField :: "u32 \<Rightarrow> nat \<Rightarrow> nat \<Rightarrow> u32 option" where
  "getField val shift bits =
     (case (shr32 val shift, shl32 1 bits) of
        (Some v, Some m) \<Rightarrow> Some (v AND (m - 1))
      | _ \<Rightarrow> None)"

definition getSignedValue :: "u32 \<Rightarrow> nat \<Rightarrow> u32 option" where
  "getSignedValue val bits =
     (case shl32 val (32 - bits) of None \<Rightarrow> None | Some v \<Rightarrow> sar32 v (32 - bits))"

definition getSignedField :: "u32 \<Rightarrow> nat \<Rightarrow> nat \<Rightarrow> u32 option" where
  "getSignedField val shift bits =
     (case getField val shift bits of None \<Rightarrow> None | Some v \<Rightarrow> getSignedValue v bits)"

section \<open>Logical operations\<close>

definition lib_SLL :: "u32 \<Rightarrow> u32 \<Rightarrow> u32 option" where "lib_SLL a b = shl32 a (unat b)"
definition lib_SRL :: "u32 \<Rightarrow> u32 \<Rightarrow> u32 option" where "lib_SRL a b = shr32 a (unat b)"
definition lib_SRA :: "u32 \<Rightarrow> u32 \<Rightarrow> u32 option" where "lib_SRA a b = sar32 a (unat b)"

definition lib_ROR :: "u32 \<Rightarrow> u32 \<Rightarrow> u32 option" where
  "lib_ROR a b =
     (case (shr32 a (unat b), shl32 a (unat (32 - b))) of (Some x, Some y) \<Rightarrow> Some (x OR y) | _ \<Rightarrow> None)"

definition lib_XOR :: "u32 \<Rightarrow> u32 \<Rightarrow> u32" where "lib_XOR a b = a XOR b"
definition lib_OR :: "u32 \<Rightarrow> u32 \<Rightarrow> u32" where "lib_OR a b = a OR b"
definition lib_AND :: "u32 \<Rightarrow> u32 \<Rightarrow> u32" where "lib_AND a b = a AND b"

definition lib_SLL_64 :: "u64 \<Rightarrow> u64 \<Rightarrow> u64 option" where
  "lib_SLL_64 a b = (if b < 64 then Some (push_bit (unat b) a) else None)"
definition lib_SRL_64 :: "u64 \<Rightarrow> u64 \<Rightarrow> u64 option" where
  "lib_SRL_64 a b = (if b < 64 then Some (drop_bit (unat b) a) else None)"
definition lib_SRA_64 :: "u64 \<Rightarrow> u64 \<Rightarrow> u64 option" where
  "lib_SRA_64 a b = (if b < 64 then Some (signed_drop_bit (unat b) a) else None)"

definition lib_ROR_64 :: "u64 \<Rightarrow> u64 \<Rightarrow> u64 option" where
  "lib_ROR_64 a b =
     (case (lib_SRL_64 a b, lib_SLL_64 a (32 - b)) of (Some x, Some y) \<Rightarrow> Some (x OR y) | _ \<Rightarrow> None)"

definition lib_XOR_64 :: "u64 \<Rightarrow> u64 \<Rightarrow> u64" where "lib_XOR_64 a b = a XOR b"
definition lib_OR_64 :: "u64 \<Rightarrow> u64 \<Rightarrow> u64" where "lib_OR_64 a b = a OR b"
definition lib_AND_64 :: "u64 \<Rightarrow> u64 \<Rightarrow> u64" where "lib_AND_64 a b = a AND b"

section \<open>Arithmetic\<close>

text \<open>The part of the cpu state the library touches: the flags of the or1k cores and the two
  Viterbi flags.\<close>

record iss_flags =
  carry :: bool
  overflow :: bool
  vf0 :: bool
  vf1 :: bool

definition set_add_flags :: "u64 \<Rightarrow> u32 \<Rightarrow> iss_flags \<Rightarrow> iss_flags" where
  "set_add_flags result a s =
     s\<lparr>carry := result AND 0x100000000 \<noteq> 0,
       overflow := (result AND 0x80000000) XOR ucast (a AND 0x80000000) \<noteq> 0\<rparr>"

definition add :: "iss_flags \<Rightarrow> u32 \<Rightarrow> u32 \<Rightarrow> u32 \<times> iss_flags" where
  "add s a b = (let result = ucast a + ucast b :: u64 in (ucast result, set_add_flags result a s))"

definition addWithCarry :: "iss_flags \<Rightarrow> u32 \<Rightarrow> u32 \<Rightarrow> u32 \<times> iss_flags" where
  "addWithCarry s a b =
     (let result = ucast a + ucast b + of_bool (carry s) :: u64 in (ucast result, set_add_flags result a s))"

definition lib_ADD_C :: "iss_flags \<Rightarrow> u32 \<Rightarrow> u32 \<Rightarrow> u32 \<times> iss_flags" where "lib_ADD_C = add"
definition lib_ADDC_C :: "iss_flags \<Rightarrow> u32 \<Rightarrow> u32 \<Rightarrow> u32 \<times> iss_flags" where "lib_ADDC_C = addWithCarry"
definition lib_ADD :: "u32 \<Rightarrow> u32 \<Rightarrow> u32" where "lib_ADD a b = a + b"
definition lib_ADD_64 :: "u64 \<Rightarrow> u64 \<Rightarrow> u64" where "lib_ADD_64 a b = a + b"
definition lib_SUB :: "u32 \<Rightarrow> u32 \<Rightarrow> u32" where "lib_SUB a b = a - b"
definition lib_SUB_64 :: "u64 \<Rightarrow> u64 \<Rightarrow> u64" where "lib_SUB_64 a b = a - b"

definition lib_SUB_C :: "iss_flags \<Rightarrow> u32 \<Rightarrow> u32 \<Rightarrow> u32 \<times> iss_flags" where
  "lib_SUB_C s a b =
     (let result = a - b;
          ov = (sint a < 0 \<and> sint b \<ge> 0 \<and> sint result \<ge> 0) \<or> (sint a \<ge> 0 \<and> sint b < 0 \<and> sint result < 0)
      in (result, s\<lparr>carry := ov, overflow := ov\<rparr>))"

definition lib_MAC :: "u32 \<Rightarrow> u32 \<Rightarrow> u32 \<Rightarrow> u32" where "lib_MAC a b c = a + b * c"
definition lib_MAC_C :: "iss_flags \<Rightarrow> u32 \<Rightarrow> u32 \<Rightarrow> u32 \<Rightarrow> u32 \<times> iss_flags" where
  "lib_MAC_C s a b c = add s a (b * c)"
definition lib_MACC :: "iss_flags \<Rightarrow> u32 \<Rightarrow> u32 \<Rightarrow> u32 \<Rightarrow> u32 \<times> iss_flags" where
  "lib_MACC s a b c = addWithCarry s a (b * c)"
definition lib_MSU :: "u32 \<Rightarrow> u32 \<Rightarrow> u32 \<Rightarrow> u32" where "lib_MSU a b c = a - b * c"
definition lib_MMUL :: "u32 \<Rightarrow> u32 \<Rightarrow> u32 \<Rightarrow> u32" where "lib_MMUL a b c = - b * c"

definition lib_MACS_64 :: "u64 \<Rightarrow> u32 \<Rightarrow> u32 \<Rightarrow> u64" where "lib_MACS_64 a b c = a + scast b * scast c"
definition lib_MSUS_64 :: "u64 \<Rightarrow> u32 \<Rightarrow> u32 \<Rightarrow> u64" where "lib_MSUS_64 a b c = a - scast b * scast c"
definition lib_MACU_64 :: "u64 \<Rightarrow> u32 \<Rightarrow> u32 \<Rightarrow> u64" where "lib_MACU_64 a b c = a + ucast b * ucast c"
definition lib_MSUU_64 :: "u64 \<Rightarrow> u32 \<Rightarrow> u32 \<Rightarrow> u64" where "lib_MSUU_64 a b c = a - ucast b * ucast c"

section \<open>Products of halves\<close>

datatype half = SL | SH | ZL | ZH

fun half_val :: "half \<Rightarrow> u32 \<Rightarrow> u32" where
  "half_val SL v = scast (ucast (v AND 0xffff) :: u16)"
| "half_val SH v = scast (ucast (drop_bit 16 v AND 0xffff) :: u16)"
| "half_val ZL v = ucast (ucast (v AND 0xffff) :: u16)"
| "half_val ZH v = ucast (ucast (drop_bit 16 v AND 0xffff) :: u16)"

fun signed_half :: "half \<Rightarrow> bool" where
  "signed_half SL = True" | "signed_half SH = True" | "signed_half ZL = False" | "signed_half ZH = False"

definition lib_MAC_half :: "half \<Rightarrow> half \<Rightarrow> u32 \<Rightarrow> u32 \<Rightarrow> u32 \<Rightarrow> u32" where
  "lib_MAC_half h g a b c = a + half_val h b * half_val g c"

definition norm :: "half \<Rightarrow> u32 \<Rightarrow> nat \<Rightarrow> u32 option" where
  "norm h v shift = (if signed_half h then sar32 v shift else shr32 v shift)"

definition lib_MAC_NR :: "half \<Rightarrow> u32 \<Rightarrow> u32 \<Rightarrow> u32 \<Rightarrow> u32 \<Rightarrow> u32 option" where
  "lib_MAC_NR h a b c shift = norm h (a + half_val h b * half_val h c) (unat shift)"

definition norm_round :: "half \<Rightarrow> u32 \<Rightarrow> nat \<Rightarrow> u32 option" where
  "norm_round h result shift =
     (if shift > 0 then
        (case shl32 1 (shift - 1) of None \<Rightarrow> None | Some r \<Rightarrow> norm h (result + r) shift)
      else Some result)"

definition lib_MAC_NR_R :: "half \<Rightarrow> u32 \<Rightarrow> u32 \<Rightarrow> u32 \<Rightarrow> u32 \<Rightarrow> u32 option" where
  "lib_MAC_NR_R h a b c shift = norm_round h (a + half_val h b * half_val h c) (unat shift)"

definition lib_MAC_C_half :: "half \<Rightarrow> half \<Rightarrow> iss_flags \<Rightarrow> u32 \<Rightarrow> u32 \<Rightarrow> u32 \<Rightarrow> u32 \<times> iss_flags" where
  "lib_MAC_C_half h g s a b c = add s a (half_val h b * half_val g c)"

definition lib_MACC_half :: "half \<Rightarrow> half \<Rightarrow> iss_flags \<Rightarrow> u32 \<Rightarrow> u32 \<Rightarrow> u32 \<Rightarrow> u32 \<times> iss_flags" where
  "lib_MACC_half h g s a b c = addWithCarry s a (half_val h b * half_val g c)"

definition lib_MSU_half :: "half \<Rightarrow> half \<Rightarrow> u32 \<Rightarrow> u32 \<Rightarrow> u32 \<Rightarrow> u32" where
  "lib_MSU_half h g a b c = a - half_val h b * half_val g c"

definition lib_MUL_half :: "half \<Rightarrow> half \<Rightarrow> u32 \<Rightarrow> u32 \<Rightarrow> u32" where
  "lib_MUL_half h g b c = half_val h b * half_val g c"

definition lib_MUL_NR :: "half \<Rightarrow> u32 \<Rightarrow> u32 \<Rightarrow> u32 \<Rightarrow> u32 option" where
  "lib_MUL_NR h b c shift = norm h (half_val h b * half_val h c) (unat shift)"

definition lib_MUL_NR_R :: "half \<Rightarrow> u32 \<Rightarrow> u32 \<Rightarrow> u32 \<Rightarrow> u32 option" where
  "lib_MUL_NR_R h b c shift = norm_round h (half_val h b * half_val h c) (unat shift)"

definition lib_MMUL_half :: "half \<Rightarrow> half \<Rightarrow> u32 \<Rightarrow> u32 \<Rightarrow> u32" where
  "lib_MMUL_half h g b c = - half_val h b * half_val g c"

section \<open>Multiplication, division, minimum and maximum\<close>

definition lib_MULS :: "u32 \<Rightarrow> u32 \<Rightarrow> u32" where "lib_MULS a b = a * b"
definition lib_MULU :: "u32 \<Rightarrow> u32 \<Rightarrow> u32" where "lib_MULU a b = a * b"
definition lib_MULS_64 :: "u32 \<Rightarrow> u32 \<Rightarrow> u64" where "lib_MULS_64 a b = scast a * scast b"
definition lib_MULU_64 :: "u64 \<Rightarrow> u64 \<Rightarrow> u64" where "lib_MULU_64 a b = a * b"

text \<open>The quotient of the least integer by -1 does not fit: undefined in C.\<close>

definition lib_DIVS :: "u32 \<Rightarrow> u32 \<Rightarrow> u32 option" where
  "lib_DIVS a b =
     (if b = 0 then Some 0
      else if sint a = - (2 ^ 31) \<and> sint b = - 1 then None
      else Some (word_of_int (sint a sdiv sint b)))"

definition lib_DIVU :: "u32 \<Rightarrow> u32 \<Rightarrow> u32" where "lib_DIVU a b = (if b = 0 then 0 else a div b)"
definition lib_MINU :: "u32 \<Rightarrow> u32 \<Rightarrow> u32" where "lib_MINU a b = (if a < b then a else b)"
definition lib_MINS :: "u32 \<Rightarrow> u32 \<Rightarrow> u32" where "lib_MINS a b = (if sint a < sint b then a else b)"
definition lib_MAXU :: "u32 \<Rightarrow> u32 \<Rightarrow> u32" where "lib_MAXU a b = (if a > b then a else b)"
definition lib_MAXS :: "u32 \<Rightarrow> u32 \<Rightarrow> u32" where "lib_MAXS a b = (if sint a > sint b then a else b)"
definition lib_ABS :: "u32 \<Rightarrow> u32" where "lib_ABS a = (if sint a \<ge> 0 then a else - a)"
definition lib_AVGU :: "u32 \<Rightarrow> u32 \<Rightarrow> u32" where "lib_AVGU a b = drop_bit 1 (a + b)"
definition lib_AVGS :: "u32 \<Rightarrow> u32 \<Rightarrow> u32" where "lib_AVGS a b = signed_drop_bit 1 (a + b)"
definition lib_MINU_64 :: "u64 \<Rightarrow> u64 \<Rightarrow> u64" where "lib_MINU_64 a b = (if a < b then a else b)"
definition lib_MINS_64 :: "u64 \<Rightarrow> u64 \<Rightarrow> u64" where "lib_MINS_64 a b = (if sint a < sint b then a else b)"
definition lib_MAXU_64 :: "u64 \<Rightarrow> u64 \<Rightarrow> u64" where "lib_MAXU_64 a b = (if a > b then a else b)"
definition lib_MAXS_64 :: "u64 \<Rightarrow> u64 \<Rightarrow> u64" where "lib_MAXS_64 a b = (if sint a > sint b then a else b)"
definition lib_ABS_64 :: "u64 \<Rightarrow> u64" where "lib_ABS_64 a = (if sint a < 0 then - a else a)"
definition lib_CMOV :: "u32 \<Rightarrow> u32 \<Rightarrow> u32 \<Rightarrow> u32" where "lib_CMOV flag a b = (if flag \<noteq> 0 then a else b)"

section \<open>Bit manipulation\<close>

text \<open>\<^verbatim>\<open>ffs\<close>, \<^verbatim>\<open>__builtin_popcount\<close> and \<^verbatim>\<open>__builtin_clrsb\<close>: one plus the index of the least bit set
  (0 when there is none), the number of bits set, and the number of bits below the sign bit that
  repeat it.\<close>

definition ffs :: "u32 \<Rightarrow> nat" where
  "ffs a = (case find (bit a) [0..<32] of None \<Rightarrow> 0 | Some i \<Rightarrow> i + 1)"

definition popcount :: "u32 \<Rightarrow> nat" where
  "popcount a = length (filter (bit a) [0..<32])"

definition clrsb :: "u32 \<Rightarrow> nat" where
  "clrsb a = length (takeWhile (\<lambda>i. bit a (30 - i) = bit a 31) [0..<31])"

definition reverse_word :: "u32 \<Rightarrow> u32" where
  "reverse_word t =
     (let t = drop_bit 1 (t AND 0xaaaaaaaa) OR push_bit 1 (t AND 0x55555555);
          t = drop_bit 2 (t AND 0xcccccccc) OR push_bit 2 (t AND 0x33333333);
          t = drop_bit 4 (t AND 0xf0f0f0f0) OR push_bit 4 (t AND 0x0f0f0f0f);
          t = drop_bit 8 (t AND 0xff00ff00) OR push_bit 8 (t AND 0x00ff00ff)
      in drop_bit 16 t OR push_bit 16 t)"

definition lib_FF1_or1k :: "u32 \<Rightarrow> nat" where "lib_FF1_or1k a = ffs a"
definition lib_FL1_or1k :: "u32 \<Rightarrow> nat" where
  "lib_FL1_or1k t = (let r = ffs (reverse_word t) in if r = 0 then r else 33 - r)"
definition lib_FF1 :: "u32 \<Rightarrow> nat" where
  "lib_FF1 a = (let result = ffs a in if result = 0 then 32 else result - 1)"
definition lib_FL1 :: "u32 \<Rightarrow> nat" where
  "lib_FL1 t = (let r = ffs (reverse_word t) in if r = 0 then 32 else 32 - r)"
definition lib_CNT :: "u32 \<Rightarrow> nat" where "lib_CNT t = popcount t"
definition lib_CNT_64 :: "u64 \<Rightarrow> nat" where
  "lib_CNT_64 t = popcount (ucast (drop_bit 32 t AND (push_bit 32 1 - 1))) +
     popcount (ucast (t AND (push_bit 32 1 - 1)))"
definition lib_CLB :: "u32 \<Rightarrow> nat" where "lib_CLB t = (if t = 0 then 0 else clrsb t)"
definition lib_BSET :: "u32 \<Rightarrow> u32 \<Rightarrow> u32" where "lib_BSET val msk = val OR msk"
definition lib_BCLR :: "u32 \<Rightarrow> u32 \<Rightarrow> u32" where "lib_BCLR val msk = val AND NOT msk"
definition lib_BEXTRACT :: "u32 \<Rightarrow> nat \<Rightarrow> nat \<Rightarrow> u32 option" where
  "lib_BEXTRACT val bits shift =
     (let bits = (if shift + bits > 32 then 32 - shift else bits) in getSignedField val shift bits)"
definition lib_BEXTRACTU :: "u32 \<Rightarrow> u32 \<Rightarrow> u32 \<Rightarrow> u32 option" where
  "lib_BEXTRACTU val msk shift = shr32 (val AND msk) (unat shift)"
definition lib_BINSERT :: "u32 \<Rightarrow> u32 \<Rightarrow> u32 \<Rightarrow> u32 \<Rightarrow> u32 option" where
  "lib_BINSERT a b msk shift =
     (case shl32 a (unat shift) of None \<Rightarrow> None | Some x \<Rightarrow> Some ((b AND NOT msk) OR (x AND msk)))"

section \<open>Addition, multiplication and accumulation with normalization and rounding\<close>

definition imm5 :: "u32 \<Rightarrow> nat" where "imm5 shift = unat (shift AND 0x1f)"

definition round_bit :: "nat \<Rightarrow> u32" where "round_bit n = push_bit (n - 1) 1"

definition lib_ADD_NR :: "u32 \<Rightarrow> u32 \<Rightarrow> u32 \<Rightarrow> u32" where
  "lib_ADD_NR a b shift = signed_drop_bit (imm5 shift) (a + b)"
definition lib_ADD_NRU :: "u32 \<Rightarrow> u32 \<Rightarrow> u32 \<Rightarrow> u32" where
  "lib_ADD_NRU a b shift = drop_bit (imm5 shift) (a + b)"
definition lib_ADD_NL :: "u32 \<Rightarrow> u32 \<Rightarrow> u32 \<Rightarrow> u32" where
  "lib_ADD_NL a b shift = push_bit (imm5 shift) (a + b)"
definition lib_ADD_NR_R :: "u32 \<Rightarrow> u32 \<Rightarrow> u32 \<Rightarrow> u32" where
  "lib_ADD_NR_R a b shift =
     (let n = imm5 shift in if n > 0 then signed_drop_bit n (a + b + round_bit n) else a + b)"
definition lib_ADD_NR_RU :: "u32 \<Rightarrow> u32 \<Rightarrow> u32 \<Rightarrow> u32" where
  "lib_ADD_NR_RU a b shift =
     (let n = imm5 shift in if n > 0 then drop_bit n (a + b + round_bit n) else a + b)"

definition lib_SUB_NR :: "u32 \<Rightarrow> u32 \<Rightarrow> u32 \<Rightarrow> u32" where
  "lib_SUB_NR a b shift = signed_drop_bit (imm5 shift) (a - b)"
definition lib_SUB_NRU :: "u32 \<Rightarrow> u32 \<Rightarrow> u32 \<Rightarrow> u32" where
  "lib_SUB_NRU a b shift = drop_bit (imm5 shift) (a - b)"
definition lib_SUB_NL :: "u32 \<Rightarrow> u32 \<Rightarrow> u32 \<Rightarrow> u32" where
  "lib_SUB_NL a b shift = push_bit (imm5 shift) (a - b)"
definition lib_SUB_NR_R :: "u32 \<Rightarrow> u32 \<Rightarrow> u32 \<Rightarrow> u32" where
  "lib_SUB_NR_R a b shift =
     (let n = imm5 shift in if n > 0 then signed_drop_bit n (a - b + round_bit n) else a - b)"
definition lib_SUB_NR_RU :: "u32 \<Rightarrow> u32 \<Rightarrow> u32 \<Rightarrow> u32" where
  "lib_SUB_NR_RU a b shift =
     (let n = imm5 shift in if n > 0 then drop_bit n (a - b + round_bit n) else a - b)"

definition lib_MULS_NL :: "u32 \<Rightarrow> u32 \<Rightarrow> u32 \<Rightarrow> u32 option" where
  "lib_MULS_NL a b shift = shl32 (a * b) (unat shift)"
definition lib_MULU_NL :: "u32 \<Rightarrow> u32 \<Rightarrow> u32 \<Rightarrow> u32 option" where
  "lib_MULU_NL a b shift = shl32 (a * b) (unat shift)"
definition lib_MULUS_NL :: "u32 \<Rightarrow> u32 \<Rightarrow> u32 \<Rightarrow> u32 option" where
  "lib_MULUS_NL a b shift = shl32 (a * b) (unat shift)"
definition lib_MULS_NR :: "u32 \<Rightarrow> u32 \<Rightarrow> u32 \<Rightarrow> u32 option" where
  "lib_MULS_NR a b shift = norm SL (a * b) (unat shift)"
definition lib_MULU_NR :: "u32 \<Rightarrow> u32 \<Rightarrow> u32 \<Rightarrow> u32 option" where
  "lib_MULU_NR a b shift = norm ZL (a * b) (unat shift)"
definition lib_MULUS_NR :: "u32 \<Rightarrow> u32 \<Rightarrow> u32 \<Rightarrow> u32 option" where
  "lib_MULUS_NR a b shift = norm SL (a * b) (unat shift)"
definition lib_MULS_NR_R :: "u32 \<Rightarrow> u32 \<Rightarrow> u32 \<Rightarrow> u32 option" where
  "lib_MULS_NR_R a b shift = norm_round SL (a * b) (unat shift)"
definition lib_MULU_NR_R :: "u32 \<Rightarrow> u32 \<Rightarrow> u32 \<Rightarrow> u32 option" where
  "lib_MULU_NR_R a b shift = norm_round ZL (a * b) (unat shift)"
definition lib_MULUS_NR_R :: "u32 \<Rightarrow> u32 \<Rightarrow> u32 \<Rightarrow> u32 option" where
  "lib_MULUS_NR_R a b shift = norm_round SL (a * b) (unat shift)"

definition lib_MACS_NL :: "u32 \<Rightarrow> u32 \<Rightarrow> u32 \<Rightarrow> u32 \<Rightarrow> u32 option" where
  "lib_MACS_NL a b c shift = shl32 (a + b * c) (unat shift)"
definition lib_MACU_NL :: "u32 \<Rightarrow> u32 \<Rightarrow> u32 \<Rightarrow> u32 \<Rightarrow> u32 option" where
  "lib_MACU_NL a b c shift = shl32 (a + b * c) (unat shift)"
definition lib_MACUS_NL :: "u32 \<Rightarrow> u32 \<Rightarrow> u32 \<Rightarrow> u32 \<Rightarrow> u32 option" where
  "lib_MACUS_NL a b c shift = shl32 (a + b * c) (unat shift)"
definition lib_MACS_NR :: "u32 \<Rightarrow> u32 \<Rightarrow> u32 \<Rightarrow> u32 \<Rightarrow> u32 option" where
  "lib_MACS_NR a b c shift = norm SL (a + b * c) (unat shift)"
definition lib_MACU_NR :: "u32 \<Rightarrow> u32 \<Rightarrow> u32 \<Rightarrow> u32 \<Rightarrow> u32 option" where
  "lib_MACU_NR a b c shift = norm ZL (a + b * c) (unat shift)"
definition lib_MACUS_NR :: "u32 \<Rightarrow> u32 \<Rightarrow> u32 \<Rightarrow> u32 \<Rightarrow> u32 option" where
  "lib_MACUS_NR a b c shift = norm SL (a + b * c) (unat shift)"
definition lib_MACS_NR_R :: "u32 \<Rightarrow> u32 \<Rightarrow> u32 \<Rightarrow> u32 \<Rightarrow> u32 option" where
  "lib_MACS_NR_R a b c shift = norm_round SL (a + b * c) (unat shift)"
definition lib_MACU_NR_R :: "u32 \<Rightarrow> u32 \<Rightarrow> u32 \<Rightarrow> u32 \<Rightarrow> u32 option" where
  "lib_MACU_NR_R a b c shift = norm_round ZL (a + b * c) (unat shift)"
definition lib_MACUS_NR_R :: "u32 \<Rightarrow> u32 \<Rightarrow> u32 \<Rightarrow> u32 \<Rightarrow> u32 option" where
  "lib_MACUS_NR_R a b c shift = norm_round SL (a + b * c) (unat shift)"

section \<open>Clipping\<close>

definition lib_CLIP :: "u32 \<Rightarrow> u32 \<Rightarrow> u32 \<Rightarrow> u32" where
  "lib_CLIP a low high =
     (if sint a < sint low then low else if sint a > sint high then high else a)"

definition lib_CLIPU :: "u32 \<Rightarrow> u32 \<Rightarrow> u32" where
  "lib_CLIPU a high = (if sint a > sint high then high else if sint a \<le> 0 then 0 else a)"

section \<open>Complex numbers: imaginary part in the high half, real part in the low half\<close>

definition im16 :: "u32 \<Rightarrow> int" where "im16 a = sint (ucast (drop_bit 16 a) :: u16)"
definition re16 :: "u32 \<Rightarrow> int" where "re16 a = sint (ucast (a AND 0xffff) :: u16)"

text \<open>\<^verbatim>\<open>(uint16_t)(x >> n)\<close> of a \<^verbatim>\<open>long long\<close>.\<close>

definition half_of :: "int \<Rightarrow> nat \<Rightarrow> u32" where
  "half_of x n = ucast (word_of_int (drop_bit n x) :: u16)"

definition cplx_im :: "u32 \<Rightarrow> u32 \<Rightarrow> int" where "cplx_im a b = im16 a * re16 b + re16 a * im16 b"
definition cplx_re :: "u32 \<Rightarrow> u32 \<Rightarrow> int" where "cplx_re a b = re16 a * re16 b - im16 a * im16 b"

definition lib_CPLXMUL_H_I :: "u32 \<Rightarrow> u32 \<Rightarrow> u32 \<Rightarrow> nat \<Rightarrow> u32" where
  "lib_CPLXMUL_H_I a b c dv = push_bit 16 (half_of (cplx_im a b) (15 + dv)) OR (c AND 0xffff)"
definition lib_CPLXMUL_H_R :: "u32 \<Rightarrow> u32 \<Rightarrow> u32 \<Rightarrow> nat \<Rightarrow> u32" where
  "lib_CPLXMUL_H_R a b c dv = (c AND 0xffff0000) OR half_of (cplx_re a b) (15 + dv)"
definition lib_CPLXMULS :: "u32 \<Rightarrow> u32 \<Rightarrow> u32" where
  "lib_CPLXMULS a b = push_bit 16 (half_of (cplx_im a b) 15) OR half_of (cplx_re a b) 15"
definition lib_CPLXMULS_DIV2 :: "u32 \<Rightarrow> u32 \<Rightarrow> u32" where
  "lib_CPLXMULS_DIV2 a b = push_bit 16 (half_of (cplx_im a b) 16) OR half_of (cplx_re a b) 16"
definition lib_CPLXMULS_DIV4 :: "u32 \<Rightarrow> u32 \<Rightarrow> u32" where
  "lib_CPLXMULS_DIV4 a b = push_bit 16 (half_of (cplx_im a b) 17) OR half_of (cplx_re a b) 17"

text \<open>Here the arithmetic is on \<^verbatim>\<open>int\<close>, and the real part is not cut to 16 bits.\<close>

definition lib_CPLXMULS_SC :: "u32 \<Rightarrow> u32 \<Rightarrow> u32" where
  "lib_CPLXMULS_SC a b =
     (let a_imm = word_of_int (im16 a) :: u32; a_re = word_of_int (re16 a) :: u32
      in push_bit 16 (ucast (ucast (signed_drop_bit 15 (a_imm * b + a_re * b)) :: u16)) OR
         signed_drop_bit 15 (a_re * b - a_imm * b))"

definition lib_CPLX_CONJ_16 :: "u32 \<Rightarrow> u32" where
  "lib_CPLX_CONJ_16 a = push_bit 16 (half_of (- im16 a) 0) OR half_of (re16 a) 0"

text \<open>The rotation: \<^verbatim>\<open>(int16_t)x >> n\<close>, moved to the high half or cut to the low half.\<close>

definition sar16 :: "int \<Rightarrow> nat \<Rightarrow> u32" where
  "sar16 x n = scast (signed_drop_bit n (word_of_int x :: u16))"

definition rotmj :: "nat \<Rightarrow> u32 \<Rightarrow> u32 \<Rightarrow> u32" where
  "rotmj n a b = push_bit 16 (sar16 (re16 b - re16 a) n) OR (sar16 (im16 a - im16 b) n AND 0xffff)"

definition lib_VEC_ADD_16_ROTMJ :: "u32 \<Rightarrow> u32 \<Rightarrow> u32" where
  "lib_VEC_ADD_16_ROTMJ a b =
     push_bit 16 (sar16 (re16 b - re16 a) 0) OR (word_of_int (im16 a - im16 b) AND 0x0ffff)"
definition lib_VEC_ADD_16_ROTMJ_DIV2 :: "u32 \<Rightarrow> u32 \<Rightarrow> u32" where "lib_VEC_ADD_16_ROTMJ_DIV2 = rotmj 1"
definition lib_VEC_ADD_16_ROTMJ_DIV4 :: "u32 \<Rightarrow> u32 \<Rightarrow> u32" where "lib_VEC_ADD_16_ROTMJ_DIV4 = rotmj 2"
definition lib_VEC_ADD_16_ROTMJ_DIV8 :: "u32 \<Rightarrow> u32 \<Rightarrow> u32" where "lib_VEC_ADD_16_ROTMJ_DIV8 = rotmj 3"

section \<open>Bit reversal\<close>

fun bitrev_loop :: "nat \<Rightarrow> nat \<Rightarrow> u32 \<Rightarrow> u32 \<Rightarrow> u32 \<Rightarrow> u32" where
  "bitrev_loop 0 radix msk input rv = rv"
| "bitrev_loop (Suc n) radix msk input rv =
     (let input = drop_bit radix input
      in bitrev_loop n radix msk input (push_bit radix rv OR (input AND msk)))"

definition lib_BITREV :: "u32 \<Rightarrow> nat \<Rightarrow> nat \<Rightarrow> u32 option" where
  "lib_BITREV input points radix =
     (if points \<le> 32 \<and> 0 < radix \<and> radix < 32 then
        let points = 32 - points;
            rv = bitrev_loop (points div radix - 1) radix (push_bit radix 1 - 1) input input
        in Some (if points < 32 then rv AND (push_bit points 1 - 1) else rv)
      else None)"

section \<open>Viterbi\<close>

definition lib_VITOP_MAX :: "iss_flags \<Rightarrow> u32 \<Rightarrow> u32 \<Rightarrow> u32 \<times> iss_flags" where
  "lib_VITOP_MAX s a b =
     (let ah = im16 a; al = re16 a; bh = im16 b; bl = re16 b
      in (push_bit 16 (word_of_int (if ah \<ge> bh then ah else bh)) OR
            (word_of_int (if al \<ge> bl then al else bl) AND 0xffff),
          s\<lparr>vf0 := ah \<le> bh, vf1 := al \<le> bl\<rparr>))"

definition lib_VITOP_SEL :: "iss_flags \<Rightarrow> u32 \<Rightarrow> u32 \<Rightarrow> u32" where
  "lib_VITOP_SEL s a b =
     (let ah = im16 a; al = re16 a; bh = im16 b; bl = re16 b;
          res = push_bit 17 (word_of_int (if vf0 s then bh else ah)) :: u32;
          res = res OR push_bit 16 (of_bool (vf0 s));
          res = res OR ucast (push_bit 1 (word_of_int (if vf1 s then bl else al) :: u16))
      in res OR of_bool (vf1 s))"

definition lib_VEC_PACK_SC_H_16 :: "u32 \<Rightarrow> u32 \<Rightarrow> u32" where
  "lib_VEC_PACK_SC_H_16 a b = drop_bit 16 b OR (a AND 0xffff0000)"
definition lib_VEC_PACK_SC_HL_16 :: "u32 \<Rightarrow> u32 \<Rightarrow> u32" where
  "lib_VEC_PACK_SC_HL_16 a b = (b AND 0xffff) OR push_bit 16 a"

section \<open>Hyperbolic tangent and sigmoid\<close>

definition lut_Tanh_m :: "int list" where
  "lut_Tanh_m = [4021, 3563, 2835, 2070, 1418, 929, 592, 370, 228, 140, 86, 52, 32, 19, 12, 7]"
definition lut_Tanh_q :: "int list" where
  "lut_Tanh_q = [17060, 512067, 2012407, 4361003, 7021506, 9510743, 11575189, 13158594, 14311861,
     15123015, 15679911, 16055709, 16306104, 16471340, 16579558, 16650000]"
definition lut_sig_m :: "int list" where
  "lut_sig_m = [1019, 988, 930, 850, 758, 660, 563, 472, 391, 319, 258, 207, 165, 131, 104, 82]"
definition lut_sig_q :: "int list" where
  "lut_sig_q = [8389671, 8423495, 8544906, 8789991, 9169470, 9670607, 10264318, 10914030, 11583389,
     12241371, 12864661, 13437943, 13952921, 14406803, 14800713, 15138308]"

text \<open>The computation is on \<^verbatim>\<open>int\<close>; \<open>TANHorSIG_no_overflow\<close> below shows that it stays in range. The
  result is the bit pattern of the integer.\<close>

definition TANHorSIG :: "u32 \<Rightarrow> bool \<Rightarrow> int" where
  "TANHorSIG a isSig =
     (let neg = bit a 31;
          abs_a = (if neg then sint (NOT a) else sint a);
          tmp = drop_bit (13 - 3) abs_a
      in if tmp \<ge> 16 then
           if \<not> isSig then (if neg then - 4096 else 4096) else (if neg then 0 else 4096)
         else
           let m = (if isSig then lut_sig_m else lut_Tanh_m) ! nat tmp;
               q = (if isSig then lut_sig_q else lut_Tanh_q) ! nat tmp;
               mac_result = drop_bit 12 (m * abs_a + q);
               mac_result_signed = (if neg then NOT mac_result else mac_result)
           in if isSig \<and> neg then 4095 + mac_result_signed else mac_result_signed)"

definition lib_TANHorSIG :: "u32 \<Rightarrow> bool \<Rightarrow> u32" where
  "lib_TANHorSIG a isSig = word_of_int (TANHorSIG a isSig)"
definition lib_TANH :: "u32 \<Rightarrow> u32" where "lib_TANH a = lib_TANHorSIG a False"
definition lib_SIG :: "u32 \<Rightarrow> u32" where "lib_SIG a = lib_TANHorSIG a True"

section \<open>Lemmas\<close>

lemma lt32_cases:
  assumes "i < (32::nat)" shows "i \<in> set [0,1,2,3,4,5,6,7,8,9,10,11,12,13,14,15,16,17,18,19,20,21,22,23,24,25,26,27,28,29,30,31]"
  using assms by (simp add: numeral_eq_Suc less_Suc_eq)

lemma xor_lt32:
  assumes "i < (32::nat)" "k < 32" shows "i XOR k < 32"
proof -
  have "i XOR k = take_bit 5 (i XOR k)" using assms by (simp add: take_bit_nat_eq_self)
  also have "\<dots> < 2 ^ 5" by (rule take_bit_nat_less_exp)
  finally show ?thesis by simp
qed

lemma swap_step1:
  "i < 32 \<Longrightarrow> bit (drop_bit 1 (t AND 0xaaaaaaaa) OR push_bit 1 (t AND 0x55555555) :: u32) i = bit t (i XOR 1)"
  unfolding bit_or_iff bit_push_bit_iff bit_drop_bit_eq bit_and_iff comp_def
  by (drule lt32_cases) (auto simp: bit_simps simp flip: numeral_2_eq_2 numeral_3_eq_3)

lemma swap_step2:
  "i < 32 \<Longrightarrow> bit (drop_bit 2 (t AND 0xcccccccc) OR push_bit 2 (t AND 0x33333333) :: u32) i = bit t (i XOR 2)"
  by (drule lt32_cases) (auto simp: bit_simps simp flip: numeral_2_eq_2 numeral_3_eq_3)

lemma swap_step4:
  "i < 32 \<Longrightarrow> bit (drop_bit 4 (t AND 0xf0f0f0f0) OR push_bit 4 (t AND 0x0f0f0f0f) :: u32) i = bit t (i XOR 4)"
  by (drule lt32_cases) (auto simp: bit_simps simp flip: numeral_2_eq_2 numeral_3_eq_3)

lemma swap_step8:
  "i < 32 \<Longrightarrow> bit (drop_bit 8 (t AND 0xff00ff00) OR push_bit 8 (t AND 0x00ff00ff) :: u32) i = bit t (i XOR 8)"
  by (drule lt32_cases) (auto simp: bit_simps simp flip: numeral_2_eq_2 numeral_3_eq_3)

lemma swap_step16:
  "i < 32 \<Longrightarrow> bit (drop_bit 16 t OR push_bit 16 t :: u32) i = bit t (i XOR 16)"
  by (drule lt32_cases) (auto simp: bit_simps simp flip: numeral_2_eq_2 numeral_3_eq_3 dest: bit_imp_le_length)

lemma xor_31: "i < (32::nat) \<Longrightarrow> i XOR 31 = 31 - i"
  by (drule lt32_cases) auto

lemma bit_reverse_word: "i < 32 \<Longrightarrow> bit (reverse_word t) i = bit t (31 - i)"
proof -
  assume i: "i < 32"
  have x: "((((i XOR 16) XOR 8) XOR 4) XOR 2) XOR 1 = i XOR 31" by (simp add: xor.assoc)
  have lt: "i XOR 16 < 32" "(i XOR 16) XOR 8 < 32" "((i XOR 16) XOR 8) XOR 4 < 32"
    "(((i XOR 16) XOR 8) XOR 4) XOR 2 < 32"
    using i by (intro xor_lt32; simp)+
  show ?thesis
    by (simp only: reverse_word_def Let_def swap_step1 swap_step2 swap_step4 swap_step8 swap_step16
        i lt x xor_31)
qed

lemma ffs_eq: "ffs a = (if a = 0 then 0 else Suc (LEAST i. bit a i))"
proof (cases "a = 0")
  case True
  then show ?thesis by (simp add: ffs_def find_None_iff option.case_eq_if)
next
  case False
  then obtain j where j: "bit a j" by (auto simp: bit_eq_iff)
  then have j32: "j < 32" using bit_imp_le_length [OF j] by simp
  obtain i where f: "find (bit a) [0..<32] = Some i"
    using j j32 by (cases "find (bit a) [0..<32]") (auto simp: find_None_iff)
  then have i: "bit a i" "\<forall>k<i. \<not> bit a k" by (auto simp: find_Some_iff)
  have "(LEAST i. bit a i) = i" using i by (intro Least_equality) (auto simp: not_less[symmetric])
  with False f show ?thesis by (simp add: ffs_def)
qed


lemma FL1_FF1:
  "lib_FF1 a = (if a = 0 then 32 else LEAST i. bit a i)"
  by (simp add: lib_FF1_def ffs_eq Let_def)

lemma ffs_reverse:
  assumes "a \<noteq> 0"
  shows "ffs (reverse_word a) = 32 - (GREATEST i. bit a i)" "bit a (GREATEST i. bit a i)" "(GREATEST i. bit a i) < 32"
proof -
  obtain j where j: "bit a j" using assms by (auto simp: bit_eq_iff)
  have lt: "bit a i \<Longrightarrow> i < 32" for i using bit_imp_le_length [of a i] by simp
  define g where "g = (GREATEST i. bit a i)"
  have g: "bit a g" unfolding g_def by (rule GreatestI_nat [where P="bit a" and k=j and b=32]) (use j lt in \<open>auto intro: less_imp_le\<close>)
  have le: "bit a i \<Longrightarrow> i \<le> g" for i unfolding g_def by (rule Greatest_le_nat [of _ _ 32]) (use lt in \<open>auto intro: less_imp_le\<close>)
  have g32: "g < 32" using lt g by blast
  have r: "bit (reverse_word a) i \<longleftrightarrow> i < 32 \<and> bit a (31 - i)" for i
    using bit_reverse_word [of i a] bit_imp_le_length [of "reverse_word a" i] by auto
  have "(LEAST i. bit (reverse_word a) i) = 31 - g"
  proof (rule Least_equality)
    show "bit (reverse_word a) (31 - g)" using g g32 by (simp add: r)
    fix y assume "bit (reverse_word a) y"
    then show "31 - g \<le> y" using le [of "31 - y"] by (auto simp: r)
  qed
  moreover have "reverse_word a \<noteq> 0" using r [of "31 - g"] g g32 by auto
  ultimately show "ffs (reverse_word a) = 32 - (GREATEST i. bit a i)" using g32 by (simp add: ffs_eq g_def [symmetric])
  show "bit a (GREATEST i. bit a i)" "(GREATEST i. bit a i) < 32" using g g32 by (simp_all add: g_def)
qed

lemma reverse_word_0: "reverse_word 0 = 0" by (simp add: reverse_word_def)

lemma FL1_highest: "lib_FL1 a = (if a = 0 then 32 else GREATEST i. bit a i)"
  using ffs_reverse [of a] by (auto simp: lib_FL1_def Let_def reverse_word_0 ffs_eq)

text \<open>The carry chain.\<close>

lemma carry_bit:
  assumes "r < 2 ^ 33" shows "(word_of_nat r :: u64) AND 0x100000000 \<noteq> 0 \<longleftrightarrow> 2 ^ 32 \<le> r"
proof -
  have "(word_of_nat r :: u64) AND 0x100000000 \<noteq> 0 \<longleftrightarrow> bit (word_of_nat r :: u64) 32"
    using and_exp_eq_0_iff_not_bit [of "word_of_nat r :: u64" 32] by simp
  also have "\<dots> \<longleftrightarrow> odd (r div 2 ^ 32)" by (simp add: bit_simps) (simp add: bit_iff_odd)
  also have "\<dots> \<longleftrightarrow> 2 ^ 32 \<le> r"
  proof (cases "2 ^ 32 \<le> r")
    case True
    then have "r div 2 ^ 32 = 1" using assms by (intro div_nat_eqI) auto
    with True show ?thesis by simp
  qed simp
  finally show ?thesis .
qed

lemma add_flags_carry:
  assumes "r < 2 ^ 33"
  shows "carry (set_add_flags (word_of_nat r) a s) \<longleftrightarrow> 2 ^ 32 \<le> r"
    "unat (ucast (word_of_nat r :: u64) :: u32) = r mod 2 ^ 32"
  using carry_bit [OF assms] by (simp_all add: set_add_flags_def unat_of_nat unsigned_ucast_eq take_bit_eq_mod mod_mod_cancel)

lemma add_sum: "add s a b = (ucast (word_of_nat (unat a + unat b) :: u64), set_add_flags (word_of_nat (unat a + unat b)) a s)"
  by (simp add: add_def Let_def unsigned_of_nat)

lemma addWithCarry_sum:
  "addWithCarry s a b =
     (ucast (word_of_nat (unat a + unat b + of_bool (carry s)) :: u64),
      set_add_flags (word_of_nat (unat a + unat b + of_bool (carry s))) a s)"
  by (simp add: addWithCarry_def Let_def)

lemma carry_chain:
  assumes lo: "add s al bl = (l, s1)" and hi: "addWithCarry s1 ah bh = (h, s2)"
  shows "unat h * 2 ^ 32 + unat l + of_bool (carry s2) * 2 ^ 64 =
     (unat ah * 2 ^ 32 + unat al) + (unat bh * 2 ^ 32 + unat bl)"
proof -
  let ?x = "unat al + unat bl" and ?c = "of_bool (carry s1) :: nat"
  let ?y = "unat ah + unat bh + ?c"
  have b: "unat al < 2 ^ 32" "unat bl < 2 ^ 32" "unat ah < 2 ^ 32" "unat bh < 2 ^ 32"
    using unsigned_less [where 'a=nat and 'b=32] by (simp_all add: )
  then have x: "?x < 2 ^ 33" and y: "?y < 2 ^ 33" by auto
  have l: "unat l = ?x mod 2 ^ 32" "carry s1 \<longleftrightarrow> 2 ^ 32 \<le> ?x"
    using lo add_flags_carry [OF x] by (auto simp: add_sum)
  have h: "unat h = ?y mod 2 ^ 32" "carry s2 \<longleftrightarrow> 2 ^ 32 \<le> ?y"
    using hi add_flags_carry [OF y] by (auto simp: addWithCarry_sum)
  have m: "z mod 2 ^ 32 + of_bool (2 ^ 32 \<le> z) * 2 ^ 32 = z" if "z < 2 ^ 33" for z :: nat
    using that by (auto simp: le_mod_geq)
  show ?thesis using m [OF x] m [OF y] l h by (auto simp: algebra_simps)
qed

lemma lib_ROR_rotates:
  assumes "0 < b" "b < 32" shows "lib_ROR a b = Some (word_rotr (unat b) a)"
proof -
  have b: "0 < unat b" "unat b < 32" using assms by (simp_all add: word_less_nat_alt unat_gt_0)
  have d: "unat (32 - b) = 32 - unat b"
    using assms by (simp add: unat_sub word_le_nat_alt word_less_nat_alt)
  have "drop_bit (unat b) a OR push_bit (32 - unat b) a = word_rotr (unat b) a"
  proof (rule bit_word_eqI)
    fix n assume n: "n < LENGTH(32)"
    then have "(n + unat b) mod 32 = (if n + unat b < 32 then n + unat b else n + unat b - 32)"
      using b by (simp add: le_mod_geq)
    with n b show "bit (drop_bit (unat b) a OR push_bit (32 - unat b) a) n = bit (word_rotr (unat b) a) n"
      by (auto simp: bit_simps add.commute dest: bit_imp_le_length)
  qed
  then show ?thesis using b by (simp add: lib_ROR_def shr32_def shl32_def d)
qed

lemma lib_ROR_undefined: "lib_ROR a 0 = None"
  by (simp add: lib_ROR_def shr32_def shl32_def)

lemma mask_word: "push_bit n 1 - 1 = (mask n :: 'a::len word)"
  by (simp add: mask_eq_exp_minus_1 push_bit_eq_mult)

lemma lib_BEXTRACT_bits:
  assumes "0 < bits" "bits < 32" "shift + bits \<le> 32"
  obtains r where "lib_BEXTRACT val bits shift = Some r"
    "\<And>i. i < 32 \<Longrightarrow> bit r i \<longleftrightarrow> bit val (shift + min i (bits - 1))"
proof -
  let ?v = "drop_bit shift val AND mask bits"
  let ?r = "signed_drop_bit (32 - bits) (push_bit (32 - bits) ?v)"
  have "lib_BEXTRACT val bits shift = Some ?r"
    using assms by (simp add: lib_BEXTRACT_def getSignedField_def getField_def getSignedValue_def
        shl32_def shr32_def sar32_def mask_eq_exp_minus_1)
  moreover have "bit ?r i \<longleftrightarrow> bit val (shift + min i (bits - 1))" if "i < 32" for i
    using that assms by (auto simp: bit_simps min_def)
  ultimately show ?thesis using that by blast
qed

lemma lib_BINSERT_bits:
  assumes "shift < 32" "shift + bits \<le> 32"
  obtains r where "lib_BINSERT a b (push_bit shift (mask bits)) (word_of_nat shift) = Some r"
    "\<And>i. i < 32 \<Longrightarrow> bit r i \<longleftrightarrow> (if shift \<le> i \<and> i < shift + bits then bit a (i - shift) else bit b i)"
proof -
  have "unat (word_of_nat shift :: u32) = shift" using assms(1) by (simp add: unat_of_nat)
  then have "lib_BINSERT a b (push_bit shift (mask bits)) (word_of_nat shift) =
      Some ((b AND NOT (push_bit shift (mask bits))) OR (push_bit shift a AND push_bit shift (mask bits)))"
    using assms(1) by (simp add: lib_BINSERT_def shl32_def)
  then show ?thesis by (rule that) (use assms in \<open>auto simp: bit_simps\<close>)
qed

lemma low_half: "(0xffff :: u32) = mask 16"
  by (simp add: mask_eq_exp_minus_1)

fun half_int :: "half \<Rightarrow> u32 \<Rightarrow> int" where
  "half_int SL v = sint (ucast v :: u16)"
| "half_int SH v = sint (ucast (drop_bit 16 v) :: u16)"
| "half_int ZL v = uint (ucast v :: u16)"
| "half_int ZH v = uint (ucast (drop_bit 16 v) :: u16)"

lemma cut_low_half: "ucast (v AND 0xffff) = (ucast v :: u16)" for v :: u32
  by (rule bit_word_eqI) (auto simp: bit_simps low_half)

lemma half_val_int: "half_val h v = word_of_int (half_int h v)"
  by (cases h) (simp_all only: half_val.simps half_int.simps cut_low_half, simp_all)

lemma half_int_bounds:
  "signed_half h \<Longrightarrow> - (2 ^ 15) \<le> half_int h v \<and> half_int h v < 2 ^ 15"
  "\<not> signed_half h \<Longrightarrow> 0 \<le> half_int h v \<and> half_int h v < 2 ^ 16"
  using sint_ge [where 'a=16] sint_lt [where 'a=16] unsigned_less [where 'a=int and 'b=16]
  by (cases h; simp)+

lemma half_product:
  "lib_MUL_half h g b c = word_of_int (half_int h b * half_int g c)"
  by (simp add: lib_MUL_half_def half_val_int)

lemma half_product_bounds:
  assumes "signed_half h \<or> signed_half g"
  shows "\<bar>half_int h b * half_int g c\<bar> \<le> 2 ^ 31 - 2 ^ 15"
proof -
  have b: "\<bar>half_int h v\<bar> \<le> (if signed_half h then 2 ^ 15 else 2 ^ 16 - 1)" for h v
    using half_int_bounds [of h v] by (cases "signed_half h") auto
  have "\<bar>half_int h b\<bar> * \<bar>half_int g c\<bar> \<le>
      (if signed_half h then 2 ^ 15 else 2 ^ 16 - 1) * (if signed_half g then 2 ^ 15 else 2 ^ 16 - 1)"
    by (intro mult_mono b) auto
  also have "\<dots> \<le> 2 ^ 31 - 2 ^ 15" using assms by auto
  finally show ?thesis by (simp add: abs_mult)
qed

lemma sint_word_of_int_small:
  assumes "- (2 ^ 31) \<le> x" "x < 2 ^ 31" shows "sint (word_of_int x :: u32) = x"
  using assms by (simp add: signed_of_int signed_take_bit_int_eq_self)

lemma uint_word_of_int_small:
  assumes "0 \<le> x" "x < 2 ^ 32" shows "uint (word_of_int x :: u32) = x"
  using assms by (simp add: unsigned_of_int take_bit_int_eq_self)

text \<open>Bit reversal.\<close>

lemma bitrev_loop_bits:
  assumes r: "0 < r" "r < 32"
    and inv: "\<And>i. i < 32 \<Longrightarrow> i < (k + 1) * r \<Longrightarrow> bit rv i \<longleftrightarrow> bit x0 ((k - i div r) * r + i mod r)"
    and input: "input = drop_bit (k * r) x0"
    and i: "i < 32" "i < (k + n + 1) * r"
  shows "bit (bitrev_loop n r (mask r) input rv) i \<longleftrightarrow> bit x0 ((k + n - i div r) * r + i mod r)"
  using inv input i
proof (induction n arbitrary: k input rv i)
  case 0
  then show ?case by simp
next
  case (Suc n)
  let ?in = "drop_bit r input" and ?rv = "push_bit r rv OR (drop_bit r input AND mask r)"
  have step: "bit ?rv j \<longleftrightarrow> bit x0 ((Suc k - j div r) * r + j mod r)" if j: "j < 32" "j < (Suc k + 1) * r" for j
  proof (cases "j < r")
    case True
    then show ?thesis using j by (simp add: bit_simps Suc.prems(2) algebra_simps)
  next
    case False
    then have d: "j div r = Suc ((j - r) div r)" "j mod r = (j - r) mod r"
      using r by (simp_all add: div_if le_mod_geq)
    have "bit ?rv j \<longleftrightarrow> bit rv (j - r)" using False j by (auto simp: bit_simps)
    also have "\<dots> \<longleftrightarrow> bit x0 ((k - (j - r) div r) * r + (j - r) mod r)"
      using j False by (intro Suc.prems(1)) auto
    finally show ?thesis unfolding d by simp
  qed
  have "?in = drop_bit (Suc k * r) x0" by (simp add: Suc.prems(2) add.commute)
  from Suc.IH [of "Suc k" ?rv, OF step this, of i] Suc.prems(3,4) show ?case by (simp add: Let_def)
qed

lemma lib_BITREV_groups:
  assumes r: "0 < radix" "radix < 32" and p: "points < 32" "32 - points = g * radix"
  obtains y where "lib_BITREV x points radix = Some y"
    "\<And>i. i < 32 \<Longrightarrow> bit y i \<longleftrightarrow> i < g * radix \<and> bit x ((g - 1 - i div radix) * radix + i mod radix)"
proof -
  have g: "0 < g" using p by (cases g) auto
  have q: "(32 - points) div radix = g" using p(2) r by simp
  let ?rv = "bitrev_loop (g - 1) radix (mask radix) x x"
  have b: "bit ?rv i \<longleftrightarrow> bit x ((g - 1 - i div radix) * radix + i mod radix)" if "i < 32" "i < g * radix" for i
  proof -
    have "bit ?rv i \<longleftrightarrow> bit x ((0 + (g - 1) - i div radix) * radix + i mod radix)"
      by (rule bitrev_loop_bits [OF r]) (use g that in auto)
    then show ?thesis by simp
  qed
  let ?y = "if 32 - points < 32 then ?rv AND mask (32 - points) else ?rv"
  have "lib_BITREV x points radix = Some ?y"
    using p(1) r by (simp add: lib_BITREV_def Let_def q mask_eq_exp_minus_1)
  moreover have "bit ?y i \<longleftrightarrow> i < g * radix \<and> bit x ((g - 1 - i div radix) * radix + i mod radix)" if "i < 32" for i
    using b [OF that] that p by (auto simp: bit_simps)
  ultimately show ?thesis using that by blast
qed

text \<open>The activation functions.\<close>

lemma drop_bit_le: "drop_bit n (x::int) \<le> y \<longleftrightarrow> x < (y + 1) * 2 ^ n"
proof -
  let ?q = "x div 2 ^ n"
  have p: "(0::int) < 2 ^ n" by simp
  have x: "?q * 2 ^ n \<le> x" "x < (?q + 1) * 2 ^ n"
    using div_mult_mod_eq [of x "2 ^ n"] pos_mod_bound [OF p, of x] pos_mod_sign [OF p, of x]
    unfolding distrib_right by linarith+
  show ?thesis
  proof (cases "?q \<le> y")
    case True
    then have "(?q + 1) * 2 ^ n \<le> (y + 1) * 2 ^ n" by (intro mult_right_mono) auto
    then have "x < (y + 1) * 2 ^ n" using x(2) by linarith
    with True show ?thesis by (simp add: drop_bit_eq_div)
  next
    case False
    then have "(y + 1) * 2 ^ n \<le> ?q * 2 ^ n" by (intro mult_right_mono) auto
    then have "\<not> x < (y + 1) * 2 ^ n" using x(1) by linarith
    with False show ?thesis by (simp add: drop_bit_eq_div)
  qed
qed

lemma le_drop_bit: "y \<le> drop_bit n (x::int) \<longleftrightarrow> y * 2 ^ n \<le> x"
  using drop_bit_le [of n x "y - 1"] by (metis diff_add_cancel linorder_not_less zle_diff1_eq)

lemma sint_not: "sint (NOT a) = - sint a - 1" for a :: u32
proof -
  have "NOT a = word_of_int (- sint a - 1)" by (simp add: not_eq_complement)
  then show ?thesis using sint_ge [of a] sint_lt [of a] by (simp only:) (rule sint_word_of_int_small, simp_all)
qed

lemma sign_bit: "sint a < 0 \<longleftrightarrow> bit a 31" for a :: u32
  by (simp add: bit_last_iff [symmetric])

lemma abs_input:
  fixes a :: u32
  defines "v \<equiv> (if bit a 31 then sint (NOT a) else sint a)"
  shows "0 \<le> v" "v < 2 ^ 31"
  using sint_ge [of a] sint_lt [of a] sign_bit [of a] by (auto simp: v_def sint_not)

lemma lt16_cases: "0 \<le> t \<Longrightarrow> t < 16 \<Longrightarrow> t \<in> {0,1,2,3,4,5,6,7,8,9,10,11,12,13,14,15::int}" by simp presburger

definition mac_result :: "u32 \<Rightarrow> bool \<Rightarrow> int" where
  "mac_result a isSig =
     (let v = (if bit a 31 then sint (NOT a) else sint a)
      in (if isSig then lut_sig_m else lut_Tanh_m) ! nat (drop_bit 10 v) * v +
         (if isSig then lut_sig_q else lut_Tanh_q) ! nat (drop_bit 10 v))"

lemma mac_result_bounds:
  assumes "drop_bit 10 (if bit a 31 then sint (NOT a) else sint a) < 16"
  shows "0 \<le> mac_result a isSig" "mac_result a isSig < 4094 * 2 ^ 12" "isSig \<Longrightarrow> 2 ^ 23 \<le> mac_result a isSig"
proof -
  define v where "v = (if bit a 31 then sint (NOT a) else sint a)"
  have v: "0 \<le> v" using abs_input(1) by (simp add: v_def)
  define t where "t = drop_bit 10 v"
  have t: "t * 2 ^ 10 \<le> v" "v < (t + 1) * 2 ^ 10"
    using le_drop_bit [of t 10 v] drop_bit_le [of 10 v t] by (simp_all add: t_def)
  have "0 \<le> t" "t < 16" using assms v by (simp_all add: t_def v_def)
  from lt16_cases [OF this] t
  have "0 \<le> mac_result a isSig \<and> mac_result a isSig < 4094 * 2 ^ 12 \<and> (isSig \<longrightarrow> 2 ^ 23 \<le> mac_result a isSig)"
    unfolding mac_result_def v_def [symmetric] Let_def t_def [symmetric]
    by (auto simp: lut_sig_m_def lut_sig_q_def lut_Tanh_m_def lut_Tanh_q_def)
  then show "0 \<le> mac_result a isSig" "mac_result a isSig < 4094 * 2 ^ 12" "isSig \<Longrightarrow> 2 ^ 23 \<le> mac_result a isSig" by auto
qed

lemma TANHorSIG_eq:
  "TANHorSIG a isSig =
     (if drop_bit 10 (if bit a 31 then sint (NOT a) else sint a) \<ge> 16 then
        if \<not> isSig then (if bit a 31 then - 4096 else 4096) else (if bit a 31 then 0 else 4096)
      else if bit a 31 then
        if isSig then 4094 - drop_bit 12 (mac_result a isSig) else - 1 - drop_bit 12 (mac_result a isSig)
      else drop_bit 12 (mac_result a isSig))"
  by (simp add: TANHorSIG_def mac_result_def Let_def not_int_def del: drop_bit_of_nat)

lemma mac_result_not: "mac_result (NOT a) isSig = mac_result a isSig"
  by (auto simp: mac_result_def Let_def bit_not_iff)

lemma TANHorSIG_bounds:
  "isSig \<Longrightarrow> 0 \<le> TANHorSIG a isSig \<and> TANHorSIG a isSig \<le> 4096"
  "- 4096 \<le> TANHorSIG a isSig \<and> TANHorSIG a isSig \<le> 4096"
proof -
  define d where "d = drop_bit 12 (mac_result a isSig)"
  have b: "0 \<le> d" "d \<le> 4093"
    if "\<not> drop_bit 10 (if bit a 31 then sint (NOT a) else sint a) \<ge> 16"
    using mac_result_bounds(1,2) [OF that [unfolded not_le], of isSig]
    by (simp_all add: drop_bit_le d_def)
  show "isSig \<Longrightarrow> 0 \<le> TANHorSIG a isSig \<and> TANHorSIG a isSig \<le> 4096"
    "- 4096 \<le> TANHorSIG a isSig \<and> TANHorSIG a isSig \<le> 4096"
    unfolding TANHorSIG_eq d_def [symmetric] using b by (auto split: if_splits)
qed

lemma TANHorSIG_mirror:
  "TANHorSIG (NOT a) False = (if \<bar>TANHorSIG a False\<bar> = 4096 then - TANHorSIG a False else - 1 - TANHorSIG a False)"
  "TANHorSIG a True \<notin> {0, 4096} \<Longrightarrow> TANHorSIG (NOT a) True = 4094 - TANHorSIG a True"
proof -
  let ?v = "if bit a 31 then sint (NOT a) else sint a"
  have v: "(if bit (NOT a) 31 then sint (NOT (NOT a)) else sint (NOT a)) = ?v" by (simp add: bit_not_iff)
  define d where "d = drop_bit 12 (mac_result a False)"
  have b: "0 \<le> d" "d \<le> 4093" if "\<not> drop_bit 10 ?v \<ge> 16"
    using mac_result_bounds(1,2) [OF that [unfolded not_le], of False] by (simp_all add: drop_bit_le d_def)
  have n: "bit (NOT a) 31 \<longleftrightarrow> \<not> bit a 31" by (simp add: bit_not_iff)
  show "TANHorSIG (NOT a) False = (if \<bar>TANHorSIG a False\<bar> = 4096 then - TANHorSIG a False else - 1 - TANHorSIG a False)"
    unfolding TANHorSIG_eq mac_result_not v n d_def [symmetric] using b by auto
  show "TANHorSIG a True \<notin> {0, 4096} \<Longrightarrow> TANHorSIG (NOT a) True = 4094 - TANHorSIG a True"
    unfolding TANHorSIG_eq mac_result_not v n by (auto split: if_splits)
qed

lemma im_re_bounds: "- (2 ^ 15) \<le> im16 a" "im16 a < 2 ^ 15" "- (2 ^ 15) \<le> re16 a" "re16 a < 2 ^ 15"
  using sint_ge [where 'a=16] sint_lt [where 'a=16] by (simp_all add: im16_def re16_def)

lemma abs_prod_le: "\<bar>x\<bar> \<le> (m::int) \<Longrightarrow> \<bar>y\<bar> \<le> m \<Longrightarrow> \<bar>x * y\<bar> \<le> m * m"
  by (simp add: abs_mult mult_mono)

lemma cplx_bounds: "\<bar>cplx_im a b\<bar> \<le> 2 ^ 31" "\<bar>cplx_re a b\<bar> \<le> 2 ^ 31"
proof -
  have m: "\<bar>im16 c\<bar> \<le> 2 ^ 15" "\<bar>re16 c\<bar> \<le> 2 ^ 15" for c using im_re_bounds [of c] by auto
  note p = abs_prod_le [OF m(1) [of a] m(1) [of b]] abs_prod_le [OF m(1) [of a] m(2) [of b]]
    abs_prod_le [OF m(2) [of a] m(1) [of b]] abs_prod_le [OF m(2) [of a] m(2) [of b]]
  show "\<bar>cplx_im a b\<bar> \<le> 2 ^ 31" "\<bar>cplx_re a b\<bar> \<le> 2 ^ 31"
    using p unfolding cplx_im_def cplx_re_def by (simp_all add: abs_le_iff)
qed

lemma halves_of_pair:
  fixes x y :: u16
  shows "ucast (drop_bit 16 (push_bit 16 (ucast x) OR ucast y :: u32)) = x"
    "ucast (push_bit 16 (ucast x) OR ucast y :: u32) = y"
  by (rule bit_word_eqI; auto simp: bit_simps dest: bit_imp_le_length)+

lemma im16_pair: "im16 (push_bit 16 (half_of x n) OR half_of y m) = sint (word_of_int (drop_bit n x) :: u16)"
  by (simp only: im16_def half_of_def halves_of_pair)

lemma re16_pair: "re16 (push_bit 16 (half_of x n) OR half_of y m) = sint (word_of_int (drop_bit m y) :: u16)"
  by (simp only: re16_def half_of_def cut_low_half halves_of_pair)

lemma sint16_small: "- (2 ^ 15) \<le> x \<Longrightarrow> x < 2 ^ 15 \<Longrightarrow> sint (word_of_int x :: u16) = x"
  by (simp add: signed_of_int signed_take_bit_int_eq_self)

lemma div4_small: "\<bar>x\<bar> \<le> 2 ^ 31 \<Longrightarrow> sint (word_of_int (drop_bit 17 x) :: u16) = drop_bit 17 x"
  by (rule sint16_small) (auto simp: le_drop_bit less_le_not_le drop_bit_le)

lemma CPLXMULS_DIV4_parts:
  "im16 (lib_CPLXMULS_DIV4 a b) = cplx_im a b div 2 ^ 17" "re16 (lib_CPLXMULS_DIV4 a b) = cplx_re a b div 2 ^ 17"
  by (simp_all only: lib_CPLXMULS_DIV4_def im16_pair re16_pair div4_small [OF cplx_bounds(1)] div4_small [OF cplx_bounds(2)])
    (simp_all only: drop_bit_eq_div)

section \<open>Properties\<close>

text \<open>
  C35. \<^verbatim>\<open>lib_FF1\<close> is the index of the lowest and \<^verbatim>\<open>lib_FL1\<close>, which reverses the word by masked shifts
  and scans it from the other end, the index of the highest bit set; both give 32 for zero.
\<close>

theorem bit_scans_exact:
  "lib_FF1 a = (if a = 0 then 32 else LEAST i. bit a i) \<and>
   lib_FL1 a = (if a = 0 then 32 else GREATEST i. bit a i)"
  by (simp add: FL1_FF1 FL1_highest)

text \<open>
  An \<^verbatim>\<open>add\<close> of the low words followed by an \<^verbatim>\<open>addWithCarry\<close> of the high words is the exact
  64-bit sum, with the bit that does not fit left in the carry flag.
\<close>

theorem add_carry_chain_exact:
  assumes "add s al bl = (l, s1)" "addWithCarry s1 ah bh = (h, s2)"
  shows "unat h * 2 ^ 32 + unat l + of_bool (carry s2) * 2 ^ 64 =
     (unat ah * 2 ^ 32 + unat al) + (unat bh * 2 ^ 32 + unat bl)"
  using assms by (rule carry_chain)

definition no_flags :: iss_flags where
  "no_flags = \<lparr>carry = False, overflow = False, vf0 = False, vf1 = False\<rparr>"

theorem add_carry_chain_exact_witness:
  "unat (fst (addWithCarry (snd (add no_flags 0xffffffff 1)) 2 3)) = 6"
proof -
  have "unat (fst (addWithCarry (snd (add no_flags 0xffffffff 1)) 2 3)) * 2 ^ 32 +
      unat (fst (add no_flags 0xffffffff 1)) +
      of_bool (carry (snd (addWithCarry (snd (add no_flags 0xffffffff 1)) 2 3))) * 2 ^ 64 =
      (unat (2::u32) * 2 ^ 32 + unat (0xffffffff::u32)) + (unat (3::u32) * 2 ^ 32 + unat (1::u32))"
    by (rule add_carry_chain_exact) (rule surjective_pairing)+
  moreover have "fst (add no_flags 0xffffffff 1) = 0" by code_simp
  moreover have "\<not> carry (snd (addWithCarry (snd (add no_flags 0xffffffff 1)) 2 3))" by code_simp
  ultimately show ?thesis by simp
qed

text \<open>
  C37. Bit fields: \<^verbatim>\<open>lib_BINSERT\<close> with the mask of a field writes exactly that field, and
  \<^verbatim>\<open>lib_BEXTRACT\<close> of the same field gives back the inserted value, sign-extended.
\<close>

theorem insert_extract_roundtrip:
  assumes "0 < bits" "bits < 32" "shift < 32" "shift + bits \<le> 32"
  shows "\<exists>r v. lib_BINSERT a b (push_bit shift (mask bits)) (word_of_nat shift) = Some r \<and>
     (\<forall>i<32. i < shift \<or> shift + bits \<le> i \<longrightarrow> bit r i = bit b i) \<and>
     lib_BEXTRACT r bits shift = Some v \<and> (\<forall>i<32. bit v i = bit a (min i (bits - 1)))"
proof -
  obtain r where r: "lib_BINSERT a b (push_bit shift (mask bits)) (word_of_nat shift) = Some r"
    "\<And>i. i < 32 \<Longrightarrow> bit r i \<longleftrightarrow> (if shift \<le> i \<and> i < shift + bits then bit a (i - shift) else bit b i)"
    using lib_BINSERT_bits [OF assms(3,4), of a b] by blast
  obtain v where v: "lib_BEXTRACT r bits shift = Some v"
    "\<And>i. i < 32 \<Longrightarrow> bit v i \<longleftrightarrow> bit r (shift + min i (bits - 1))"
    using lib_BEXTRACT_bits [OF assms(1,2,4), of r] by blast
  have "bit v i = bit a (min i (bits - 1))" if "i < 32" for i
  proof -
    have "min i (bits - 1) < bits" using assms(1) by auto
    then show ?thesis using v(2) [OF that] r(2) [of "shift + min i (bits - 1)"] assms(4) by simp
  qed
  with r v show ?thesis by auto
qed

theorem insert_extract_roundtrip_witness:
  "\<exists>r v. lib_BINSERT 0x2d 0xffffffff (push_bit 8 (mask 6)) (word_of_nat 8) = Some r \<and>
     lib_BEXTRACT r 6 8 = Some v \<and> (\<forall>i<32. bit v i = bit (0x2d :: u32) (min i 5))"
  using insert_extract_roundtrip [of 6 8 "0x2d" "0xffffffff"] by auto

text \<open>
  The product of two 16-bit halves is exact: as a signed number when at least one half is
  read as signed, as an unsigned number when both are unsigned.
\<close>

theorem half_products_exact:
  "if signed_half h \<or> signed_half g then sint (lib_MUL_half h g b c) = half_int h b * half_int g c
   else uint (lib_MUL_half h g b c) = half_int h b * half_int g c"
proof (cases "signed_half h \<or> signed_half g")
  case True
  have "sint (lib_MUL_half h g b c) = half_int h b * half_int g c"
    unfolding half_product
    by (rule sint_word_of_int_small) (use half_product_bounds [OF True, of b c] in \<open>auto simp: abs_le_iff\<close>)
  with True show ?thesis by simp
next
  case False
  have "0 \<le> half_int h b" "half_int h b \<le> 2 ^ 16 - 1" "0 \<le> half_int g c" "half_int g c \<le> 2 ^ 16 - 1"
    using False half_int_bounds(2) [of h b] half_int_bounds(2) [of g c] by auto
  then have "0 \<le> half_int h b * half_int g c \<and> half_int h b * half_int g c \<le> (2 ^ 16 - 1) * (2 ^ 16 - 1)"
    by (intro conjI mult_nonneg_nonneg mult_mono) auto
  then have "uint (lib_MUL_half h g b c) = half_int h b * half_int g c"
    unfolding half_product by (intro uint_word_of_int_small) auto
  with False show ?thesis by simp
qed

text \<open>
  The bit reversal instruction on \<open>32 - points\<close> bits in groups of \<open>radix\<close> bits gives the groups
  in reverse order, each kept as it is, and zeros above.
\<close>

theorem bitrev_reverses_groups:
  assumes "0 < radix" "radix < 32" "points < 32" "32 - points = g * radix"
  shows "\<exists>y. lib_BITREV x points radix = Some y \<and>
     (\<forall>i<32. bit y i \<longleftrightarrow> i < g * radix \<and> bit x ((g - 1 - i div radix) * radix + i mod radix))"
  using lib_BITREV_groups [OF assms, of x] by metis

theorem bitrev_reverses_groups_witness:
  "\<exists>y. lib_BITREV 0b0001 28 1 = Some y \<and> bit y 3"
  using bitrev_reverses_groups [of 1 28 4 "0b0001"] by force


text \<open>
  The complex product scaled by four never overflows its 16-bit halves: both parts are the
  exact values of the product, rounded down.
\<close>

theorem cplxmuls_div4_exact:
  "im16 (lib_CPLXMULS_DIV4 a b) = (im16 a * re16 b + re16 a * im16 b) div 2 ^ 17 \<and>
   re16 (lib_CPLXMULS_DIV4 a b) = (re16 a * re16 b - im16 a * im16 b) div 2 ^ 17"
  by (simp only: CPLXMULS_DIV4_parts cplx_im_def cplx_re_def)

section \<open>Where the code departs from what it means\<close>

text \<open>A rotation by zero shifts by 32; the 64-bit rotation completes the word at bit 32; a 32-bit
  extraction shifts 1 by 32.\<close>

theorem rotations_and_full_extract:
  "lib_ROR a 0 = None \<and> lib_BEXTRACT a 32 0 = None \<and>
   lib_ROR_64 1 1 = Some 0x80000000 \<and> word_rotr 1 (1 :: u64) = 0x8000000000000000"
proof -
  have "lib_ROR_64 1 1 = Some 0x80000000" by code_simp
  moreover have "word_rotr 1 (1 :: u64) = 0x8000000000000000" by code_simp
  moreover have "lib_BEXTRACT a 32 0 = None"
    by (simp add: lib_BEXTRACT_def getSignedField_def getField_def shl32_def shr32_def)
  ultimately show ?thesis by (simp add: lib_ROR_undefined)
qed

text \<open>The product of \<open>j\<close> and \<open>1 + j\<close> (scaled) is \<open>-1 + j\<close>, but the real part is not cut to its half and
  overwrites the imaginary part with its sign.\<close>

theorem cplxmuls_sc_clobbers_imaginary:
  "im16 (lib_CPLXMULS_SC 0x00010000 0x8000) = - 1 \<and> im16 0x00010000 * 0x8000 div 2 ^ 15 = 1"
  by code_simp

text \<open>One minus the sigmoid is 4096 minus the value; the code gives two less.\<close>

theorem sig_mirror_off_by_two:
  "TANHorSIG a True \<notin> {0, 4096} \<Longrightarrow> TANHorSIG (NOT a) True = (4096 - TANHorSIG a True) - 2"
  using TANHorSIG_mirror(2) [of a] by simp

text \<open>The unsigned average loses the carry of the sum.\<close>

theorem avgu_wraps: "lib_AVGU 0x80000000 0x80000000 = 0"
  by code_simp

end
