(* ===== verification/Isa_Vector.thy ===== *)
theory Isa_Vector
  imports Isa_Scalar
begin

text \<open>
  The packed operations on four bytes or two half-words of a register
  (\<^verbatim>\<open>models/cpu/iss/include/isa_lib/int.h\<close>). The macros of the source are higher-order definitions
  over the element width (\<^verbatim>\<open>VEC_OP\<close>, \<^verbatim>\<open>VEC_EXPR\<close>, \<^verbatim>\<open>VEC_CMP\<close>, \<^verbatim>\<open>VEC_ALL\<close>, \<^verbatim>\<open>VEC_ANY\<close>, \<^verbatim>\<open>VEC_DOTP\<close>,
  \<^verbatim>\<open>VEC_SDOT\<close>); the lists of their instances are datatypes of operator names, each with its meaning on
  one element, and one definition per element width.
\<close>

section \<open>The macros\<close>

definition VEC_OP :: "('e::len word \<Rightarrow> 'e word \<Rightarrow> 'e word) \<Rightarrow> u32 \<Rightarrow> u32 \<Rightarrow> u32" where
  "VEC_OP oper a b = unlanes (map2 oper (lanes a) (lanes b))"

definition VEC_OP_SC :: "('e::len word \<Rightarrow> 'e word \<Rightarrow> 'e word) \<Rightarrow> u32 \<Rightarrow> 'e word \<Rightarrow> u32" where
  "VEC_OP_SC oper a b = unlanes (map (\<lambda>x. oper x b) (lanes a))"

definition VEC_OP_DIV :: "nat \<Rightarrow> ('e::len word \<Rightarrow> 'e word \<Rightarrow> 'e word) \<Rightarrow> u32 \<Rightarrow> u32 \<Rightarrow> u32" where
  "VEC_OP_DIV n oper a b = unlanes (map2 (\<lambda>x y. signed_drop_bit n (oper x y)) (lanes a) (lanes b))"

definition VEC_EXPR :: "('e::len word \<Rightarrow> 'e word \<Rightarrow> 'e word) \<Rightarrow> u32 \<Rightarrow> u32 \<Rightarrow> u32" where
  "VEC_EXPR expr a b = unlanes (map2 expr (lanes a) (lanes b))"

definition VEC_EXPR_SC :: "('e::len word \<Rightarrow> 'e word \<Rightarrow> 'e word) \<Rightarrow> u32 \<Rightarrow> 'e word \<Rightarrow> u32" where
  "VEC_EXPR_SC expr a b = unlanes (map (\<lambda>x. expr x b) (lanes a))"

definition VEC_CMP :: "('e::len word \<Rightarrow> 'e word \<Rightarrow> bool) \<Rightarrow> u32 \<Rightarrow> u32 \<Rightarrow> u32" where
  "VEC_CMP (oper :: 'e::len word \<Rightarrow> 'e word \<Rightarrow> bool) a b =
     unlanes (map2 (\<lambda>x y. if oper x y then - 1 else 0 :: 'e word) (lanes a) (lanes b))"

definition VEC_CMP_SC :: "('e::len word \<Rightarrow> 'e word \<Rightarrow> bool) \<Rightarrow> u32 \<Rightarrow> 'e word \<Rightarrow> u32" where
  "VEC_CMP_SC (oper :: 'e::len word \<Rightarrow> 'e word \<Rightarrow> bool) a b =
     unlanes (map (\<lambda>x. if oper x b then - 1 else 0 :: 'e word) (lanes a))"

text \<open>The loops of \<^verbatim>\<open>VEC_ALL\<close> and \<^verbatim>\<open>VEC_ANY\<close> fill the output lanes and update the flag.\<close>

fun all_loop :: "('e::len word \<Rightarrow> 'e word \<Rightarrow> bool) \<Rightarrow> ('e word \<times> 'e word) list \<Rightarrow> bool \<Rightarrow> 'e word list \<Rightarrow> 'e word list \<times> bool" where
  "all_loop oper [] isOper out = (out, isOper)"
| "all_loop oper ((x, y) # ps) isOper out =
     (if oper x y then all_loop oper ps isOper (out @ [- 1]) else all_loop oper ps False (out @ [0]))"

fun any_loop :: "('e::len word \<Rightarrow> 'e word \<Rightarrow> bool) \<Rightarrow> ('e word \<times> 'e word) list \<Rightarrow> bool \<Rightarrow> 'e word list \<Rightarrow> 'e word list \<times> bool" where
  "any_loop oper [] isOper out = (out, isOper)"
| "any_loop oper ((x, y) # ps) isOper out =
     (if oper x y then any_loop oper ps True (out @ [- 1]) else any_loop oper ps isOper (out @ [0]))"

definition VEC_ALL :: "('e::len word \<Rightarrow> 'e word \<Rightarrow> bool) \<Rightarrow> u32 \<Rightarrow> u32 \<Rightarrow> u32 \<times> bool" where
  "VEC_ALL oper a b = (case all_loop oper (zip (lanes a) (lanes b)) True [] of (out, f) \<Rightarrow> (unlanes out, f))"

definition VEC_ALL_SC :: "('e::len word \<Rightarrow> 'e word \<Rightarrow> bool) \<Rightarrow> u32 \<Rightarrow> 'e word \<Rightarrow> u32 \<times> bool" where
  "VEC_ALL_SC oper a b =
     (case all_loop oper (map (\<lambda>x. (x, b)) (lanes a)) True [] of (out, f) \<Rightarrow> (unlanes out, f))"

definition VEC_ANY :: "('e::len word \<Rightarrow> 'e word \<Rightarrow> bool) \<Rightarrow> u32 \<Rightarrow> u32 \<Rightarrow> u32 \<times> bool" where
  "VEC_ANY oper a b = (case any_loop oper (zip (lanes a) (lanes b)) False [] of (out, f) \<Rightarrow> (unlanes out, f))"

definition VEC_ANY_SC :: "('e::len word \<Rightarrow> 'e word \<Rightarrow> bool) \<Rightarrow> u32 \<Rightarrow> 'e word \<Rightarrow> u32 \<times> bool" where
  "VEC_ANY_SC oper a b =
     (case any_loop oper (map (\<lambda>x. (x, b)) (lanes a)) False [] of (out, f) \<Rightarrow> (unlanes out, f))"

section \<open>The instances\<close>

datatype cmp = C_EQ | C_GE | C_GEU | C_GT | C_GTU | C_LE | C_LEU | C_LT | C_LTU | C_NE

fun cmp_fn :: "cmp \<Rightarrow> 'e::len word \<Rightarrow> 'e word \<Rightarrow> bool" where
  "cmp_fn C_EQ x y = (x = y)"
| "cmp_fn C_GE x y = (sint x \<ge> sint y)"
| "cmp_fn C_GEU x y = (x \<ge> y)"
| "cmp_fn C_GT x y = (sint x > sint y)"
| "cmp_fn C_GTU x y = (x > y)"
| "cmp_fn C_LE x y = (sint x \<le> sint y)"
| "cmp_fn C_LEU x y = (x \<le> y)"
| "cmp_fn C_LT x y = (sint x < sint y)"
| "cmp_fn C_LTU x y = (x < y)"
| "cmp_fn C_NE x y = (x \<noteq> y)"

definition lib_VEC_ALL_8 :: "cmp \<Rightarrow> u32 \<Rightarrow> u32 \<Rightarrow> u32 \<times> bool" where
  "lib_VEC_ALL_8 c = VEC_ALL (cmp_fn c :: u8 \<Rightarrow> u8 \<Rightarrow> bool)"
definition lib_VEC_ALL_16 :: "cmp \<Rightarrow> u32 \<Rightarrow> u32 \<Rightarrow> u32 \<times> bool" where
  "lib_VEC_ALL_16 c = VEC_ALL (cmp_fn c :: u16 \<Rightarrow> u16 \<Rightarrow> bool)"
definition lib_VEC_ANY_8 :: "cmp \<Rightarrow> u32 \<Rightarrow> u32 \<Rightarrow> u32 \<times> bool" where
  "lib_VEC_ANY_8 c = VEC_ANY (cmp_fn c :: u8 \<Rightarrow> u8 \<Rightarrow> bool)"
definition lib_VEC_ANY_16 :: "cmp \<Rightarrow> u32 \<Rightarrow> u32 \<Rightarrow> u32 \<times> bool" where
  "lib_VEC_ANY_16 c = VEC_ANY (cmp_fn c :: u16 \<Rightarrow> u16 \<Rightarrow> bool)"
definition lib_VEC_CMP_8 :: "cmp \<Rightarrow> u32 \<Rightarrow> u32 \<Rightarrow> u32" where
  "lib_VEC_CMP_8 c = VEC_CMP (cmp_fn c :: u8 \<Rightarrow> u8 \<Rightarrow> bool)"
definition lib_VEC_CMP_16 :: "cmp \<Rightarrow> u32 \<Rightarrow> u32 \<Rightarrow> u32" where
  "lib_VEC_CMP_16 c = VEC_CMP (cmp_fn c :: u16 \<Rightarrow> u16 \<Rightarrow> bool)"

datatype oper = O_ADD | O_SUB | O_MUL | O_OR | O_XOR | O_AND

fun oper_fn :: "oper \<Rightarrow> 'e::len word \<Rightarrow> 'e word \<Rightarrow> 'e word" where
  "oper_fn O_ADD x y = x + y"
| "oper_fn O_SUB x y = x - y"
| "oper_fn O_MUL x y = x * y"
| "oper_fn O_OR x y = x OR y"
| "oper_fn O_XOR x y = x XOR y"
| "oper_fn O_AND x y = x AND y"

definition lib_VEC_OP_8 :: "oper \<Rightarrow> u32 \<Rightarrow> u32 \<Rightarrow> u32" where
  "lib_VEC_OP_8 o' = VEC_OP (oper_fn o' :: u8 \<Rightarrow> u8 \<Rightarrow> u8)"
definition lib_VEC_OP_16 :: "oper \<Rightarrow> u32 \<Rightarrow> u32 \<Rightarrow> u32" where
  "lib_VEC_OP_16 o' = VEC_OP (oper_fn o' :: u16 \<Rightarrow> u16 \<Rightarrow> u16)"
definition lib_VEC_OP_8_div :: "nat \<Rightarrow> oper \<Rightarrow> u32 \<Rightarrow> u32 \<Rightarrow> u32" where
  "lib_VEC_OP_8_div n o' = VEC_OP_DIV n (oper_fn o' :: u8 \<Rightarrow> u8 \<Rightarrow> u8)"
definition lib_VEC_OP_16_div :: "nat \<Rightarrow> oper \<Rightarrow> u32 \<Rightarrow> u32 \<Rightarrow> u32" where
  "lib_VEC_OP_16_div n o' = VEC_OP_DIV n (oper_fn o' :: u16 \<Rightarrow> u16 \<Rightarrow> u16)"

datatype expr = E_AVG | E_AVGU | E_MIN | E_MINU | E_MAX | E_MAXU | E_SRL | E_SRA | E_SLL

text \<open>The shift amounts are masked with 7 for bytes and 15 for half-words: the width minus one.\<close>

fun expr_fn :: "expr \<Rightarrow> 'e::len word \<Rightarrow> 'e word \<Rightarrow> 'e word" where
  "expr_fn E_AVG x y = signed_drop_bit 1 (x + y)"
| "expr_fn E_AVGU x y = drop_bit 1 (x + y)"
| "expr_fn E_MIN x y = (if sint x > sint y then y else x)"
| "expr_fn E_MINU x y = (if x > y then y else x)"
| "expr_fn E_MAX x y = (if sint x > sint y then x else y)"
| "expr_fn E_MAXU x y = (if x > y then x else y)"
| "expr_fn E_SRL (x :: 'e word) y = drop_bit (unat (y AND word_of_nat (LENGTH('e) - 1))) x"
| "expr_fn E_SRA (x :: 'e word) y = signed_drop_bit (unat (y AND word_of_nat (LENGTH('e) - 1))) x"
| "expr_fn E_SLL (x :: 'e word) y = push_bit (unat (y AND word_of_nat (LENGTH('e) - 1))) x"

definition lib_VEC_EXPR_8 :: "expr \<Rightarrow> u32 \<Rightarrow> u32 \<Rightarrow> u32" where
  "lib_VEC_EXPR_8 e = VEC_EXPR (expr_fn e :: u8 \<Rightarrow> u8 \<Rightarrow> u8)"
definition lib_VEC_EXPR_16 :: "expr \<Rightarrow> u32 \<Rightarrow> u32 \<Rightarrow> u32" where
  "lib_VEC_EXPR_16 e = VEC_EXPR (expr_fn e :: u16 \<Rightarrow> u16 \<Rightarrow> u16)"
definition lib_VEC_EXPR_SC_8 :: "expr \<Rightarrow> u32 \<Rightarrow> u8 \<Rightarrow> u32" where
  "lib_VEC_EXPR_SC_8 e = VEC_EXPR_SC (expr_fn e)"
definition lib_VEC_EXPR_SC_16 :: "expr \<Rightarrow> u32 \<Rightarrow> u16 \<Rightarrow> u32" where
  "lib_VEC_EXPR_SC_16 e = VEC_EXPR_SC (expr_fn e)"

section \<open>Insertion, extraction, absolute value\<close>

text \<open>The lane number comes from an instruction field; a lane that is not there shifts by 32 or
  more.\<close>

definition lib_VEC_INS_8 :: "u32 \<Rightarrow> u32 \<Rightarrow> nat \<Rightarrow> u32 option" where
  "lib_VEC_INS_8 a b shift =
     (case (shl32 0xff (shift * 8), shl32 (b AND 0xff) (shift * 8)) of
        (Some msk, Some ins) \<Rightarrow> Some ((a AND NOT msk) OR ins)
      | _ \<Rightarrow> None)"

definition lib_VEC_INS_16 :: "u32 \<Rightarrow> u32 \<Rightarrow> nat \<Rightarrow> u32 option" where
  "lib_VEC_INS_16 a b shift =
     (case (shl32 0xffff (shift * 16), shl32 (b AND 0xffff) (shift * 16)) of
        (Some msk, Some ins) \<Rightarrow> Some ((a AND NOT msk) OR ins)
      | _ \<Rightarrow> None)"

definition ext_field :: "u32 \<Rightarrow> u32 \<Rightarrow> nat \<Rightarrow> u32 option" where
  "ext_field full a shift =
     (case shl32 full shift of None \<Rightarrow> None | Some msk \<Rightarrow> shr32 (a AND msk) shift)"

definition lib_VEC_EXT_8 :: "u32 \<Rightarrow> nat \<Rightarrow> u32 option" where
  "lib_VEC_EXT_8 a shift = map_option (\<lambda>v. scast (ucast v :: u8)) (ext_field 0xff a (shift * 8))"
definition lib_VEC_EXT_16 :: "u32 \<Rightarrow> nat \<Rightarrow> u32 option" where
  "lib_VEC_EXT_16 a shift = map_option (\<lambda>v. scast (ucast v :: u16)) (ext_field 0xffff a (shift * 16))"
definition lib_VEC_EXTU_8 :: "u32 \<Rightarrow> nat \<Rightarrow> u32 option" where
  "lib_VEC_EXTU_8 a shift = ext_field 0xff a (shift * 8)"
definition lib_VEC_EXTU_16 :: "u32 \<Rightarrow> nat \<Rightarrow> u32 option" where
  "lib_VEC_EXTU_16 a shift = ext_field 0xffff a (shift * 16)"

definition lib_VEC_ABS_8 :: "u32 \<Rightarrow> u32" where
  "lib_VEC_ABS_8 a = unlanes (map (\<lambda>x. if sint x > 0 then x else - x) (lanes a :: u8 list))"
definition lib_VEC_ABS_16 :: "u32 \<Rightarrow> u32" where
  "lib_VEC_ABS_16 a = unlanes (map (\<lambda>x. if sint x > 0 then x else - x) (lanes a :: u16 list))"

section \<open>Shuffling and packing\<close>

definition getShuffleHalf :: "u32 \<Rightarrow> u32 \<Rightarrow> nat \<Rightarrow> u32" where
  "getShuffleHalf a b pos =
     (let shift = push_bit 4 (drop_bit pos b AND 1)
      in push_bit pos (drop_bit (unat shift) a AND 0xffff))"

definition lib_VEC_SHUFFLE_16 :: "u32 \<Rightarrow> u32 \<Rightarrow> u32" where
  "lib_VEC_SHUFFLE_16 a b = getShuffleHalf a b 16 OR getShuffleHalf a b 0"

definition getShuffleHalfSci :: "u32 \<Rightarrow> u32 \<Rightarrow> nat \<Rightarrow> u32" where
  "getShuffleHalfSci a b pos =
     (let bitPos = pos div 16; shift = push_bit 4 (drop_bit bitPos b AND 1)
      in push_bit pos (drop_bit (unat shift) a AND 0xffff))"

definition lib_VEC_SHUFFLE_SCI_16 :: "u32 \<Rightarrow> u32 \<Rightarrow> u32" where
  "lib_VEC_SHUFFLE_SCI_16 a b = getShuffleHalfSci a b 16 OR getShuffleHalfSci a b 0"

definition getShuffleByte :: "u32 \<Rightarrow> u32 \<Rightarrow> nat \<Rightarrow> u32" where
  "getShuffleByte a b pos =
     (let shift = push_bit 3 (drop_bit pos b AND 3)
      in push_bit pos (drop_bit (unat shift) a AND 0xff))"

definition lib_VEC_SHUFFLE_8 :: "u32 \<Rightarrow> u32 \<Rightarrow> u32" where
  "lib_VEC_SHUFFLE_8 a b =
     getShuffleByte a b 24 OR getShuffleByte a b 16 OR getShuffleByte a b 8 OR getShuffleByte a b 0"

definition getShuffleByteSci :: "u32 \<Rightarrow> u32 \<Rightarrow> nat \<Rightarrow> u32" where
  "getShuffleByteSci a b pos =
     (let bitPos = pos div 4; shift = push_bit 3 (drop_bit bitPos b AND 3)
      in push_bit pos (drop_bit (unat shift) a AND 0xff))"

definition lib_VEC_SHUFFLE_SCI_8 :: "u32 \<Rightarrow> u32 \<Rightarrow> u32" where
  "lib_VEC_SHUFFLE_SCI_8 a b =
     getShuffleByteSci a b 24 OR getShuffleByteSci a b 16 OR getShuffleByteSci a b 8 OR getShuffleByteSci a b 0"

text \<open>\<^verbatim>\<open>lib_VEC_SHUFFLEI0_SCI_8\<close> to \<^verbatim>\<open>lib_VEC_SHUFFLEI3_SCI_8\<close>: the top byte is byte \<open>n\<close>.\<close>

definition lib_VEC_SHUFFLEI_SCI_8 :: "nat \<Rightarrow> u32 \<Rightarrow> u32 \<Rightarrow> u32" where
  "lib_VEC_SHUFFLEI_SCI_8 n a b =
     push_bit 24 (drop_bit (8 * n) a AND 0xff) OR
     getShuffleByteSci a b 16 OR getShuffleByteSci a b 8 OR getShuffleByteSci a b 0"

text \<open>The two-source shuffles, with \<^verbatim>\<open>RISCV\<close> defined as the build does.\<close>

definition lib_VEC_SHUFFLE2_16 :: "u32 \<Rightarrow> u32 \<Rightarrow> u32 \<Rightarrow> u32" where
  "lib_VEC_SHUFFLE2_16 a b c =
     getShuffleHalf (if b AND push_bit 17 1 \<noteq> 0 then a else c) b 16 OR
     getShuffleHalf (if b AND push_bit 1 1 \<noteq> 0 then a else c) b 0"

definition lib_VEC_SHUFFLE2_8 :: "u32 \<Rightarrow> u32 \<Rightarrow> u32 \<Rightarrow> u32" where
  "lib_VEC_SHUFFLE2_8 a b c =
     getShuffleByte (if b AND push_bit 26 1 \<noteq> 0 then a else c) b 24 OR
     getShuffleByte (if b AND push_bit 18 1 \<noteq> 0 then a else c) b 16 OR
     getShuffleByte (if b AND push_bit 10 1 \<noteq> 0 then a else c) b 8 OR
     getShuffleByte (if b AND push_bit 2 1 \<noteq> 0 then a else c) b 0"

definition lib_VEC_PACK_SC_16 :: "u32 \<Rightarrow> u32 \<Rightarrow> u32" where
  "lib_VEC_PACK_SC_16 a b = push_bit 16 (a AND 0xffff) OR (b AND 0xffff)"
definition lib_VEC_PACKHI_SC_8 :: "u32 \<Rightarrow> u32 \<Rightarrow> u32 \<Rightarrow> u32" where
  "lib_VEC_PACKHI_SC_8 a b c = push_bit 24 (a AND 0xff) OR push_bit 16 (b AND 0xff) OR (c AND 0xffff)"
definition lib_VEC_PACKLO_SC_8 :: "u32 \<Rightarrow> u32 \<Rightarrow> u32 \<Rightarrow> u32" where
  "lib_VEC_PACKLO_SC_8 a b c = push_bit 8 (a AND 0xff) OR (b AND 0xff) OR (c AND 0xffff0000)"

section \<open>Dot products\<close>

text \<open>An element is read as signed or unsigned; the accumulator is 32 bits wide.\<close>

definition elem :: "bool \<Rightarrow> 'e::len word \<Rightarrow> u32" where
  "elem signd x = (if signd then scast x else ucast x)"

fun dotp_loop :: "bool \<Rightarrow> bool \<Rightarrow> u32 \<Rightarrow> ('e::len word \<times> 'e word) list \<Rightarrow> u32" where
  "dotp_loop sa sb out [] = out"
| "dotp_loop sa sb out ((x, y) # ps) = dotp_loop sa sb (out + elem sa x * elem sb y) ps"

definition VEC_DOTP :: "'e::len itself \<Rightarrow> bool \<Rightarrow> bool \<Rightarrow> u32 \<Rightarrow> u32 \<Rightarrow> u32" where
  "VEC_DOTP (t :: 'e::len itself) sa sb a b = dotp_loop sa sb 0 (zip (lanes a :: 'e word list) (lanes b))"
definition VEC_DOTP_SC :: "'e::len itself \<Rightarrow> bool \<Rightarrow> bool \<Rightarrow> u32 \<Rightarrow> u32 \<Rightarrow> u32" where
  "VEC_DOTP_SC (t :: 'e::len itself) sa sb a b =
     dotp_loop sa sb 0 (map (\<lambda>x. (x, lanes b ! 0)) (lanes a :: 'e word list))"
definition VEC_SDOT :: "'e::len itself \<Rightarrow> bool \<Rightarrow> bool \<Rightarrow> u32 \<Rightarrow> u32 \<Rightarrow> u32 \<Rightarrow> u32" where
  "VEC_SDOT (t :: 'e::len itself) sa sb out a b = dotp_loop sa sb out (zip (lanes a :: 'e word list) (lanes b))"
definition VEC_SDOT_SC :: "'e::len itself \<Rightarrow> bool \<Rightarrow> bool \<Rightarrow> u32 \<Rightarrow> u32 \<Rightarrow> u32 \<Rightarrow> u32" where
  "VEC_SDOT_SC (t :: 'e::len itself) sa sb out a b =
     dotp_loop sa sb out (map (\<lambda>x. (x, lanes b ! 0)) (lanes a :: 'e word list))"

datatype dot = DOTSP | DOTUP | DOTUSP

fun dot_signs :: "dot \<Rightarrow> bool \<times> bool" where
  "dot_signs DOTSP = (True, True)" | "dot_signs DOTUP = (False, False)" | "dot_signs DOTUSP = (False, True)"

definition lib_VEC_DOT_8 :: "dot \<Rightarrow> u32 \<Rightarrow> u32 \<Rightarrow> u32" where
  "lib_VEC_DOT_8 d = (case dot_signs d of (sa, sb) \<Rightarrow> VEC_DOTP TYPE(8) sa sb)"
definition lib_VEC_DOT_16 :: "dot \<Rightarrow> u32 \<Rightarrow> u32 \<Rightarrow> u32" where
  "lib_VEC_DOT_16 d = (case dot_signs d of (sa, sb) \<Rightarrow> VEC_DOTP TYPE(16) sa sb)"
definition lib_VEC_SDOT_8 :: "dot \<Rightarrow> u32 \<Rightarrow> u32 \<Rightarrow> u32 \<Rightarrow> u32" where
  "lib_VEC_SDOT_8 d = (case dot_signs d of (sa, sb) \<Rightarrow> VEC_SDOT TYPE(8) sa sb)"
definition lib_VEC_SDOT_16 :: "dot \<Rightarrow> u32 \<Rightarrow> u32 \<Rightarrow> u32 \<Rightarrow> u32" where
  "lib_VEC_SDOT_16 d = (case dot_signs d of (sa, sb) \<Rightarrow> VEC_SDOT TYPE(16) sa sb)"

section \<open>Lemmas\<close>

lemma all_loop_eq:
  "all_loop oper ps f out = (out @ map (\<lambda>(x, y). if oper x y then - 1 else 0) ps, f \<and> (\<forall>(x, y)\<in>set ps. oper x y))"
  by (induction oper ps f out rule: all_loop.induct) auto

lemma any_loop_eq:
  "any_loop oper ps f out = (out @ map (\<lambda>(x, y). if oper x y then - 1 else 0) ps, f \<or> (\<exists>(x, y)\<in>set ps. oper x y))"
  by (induction oper ps f out rule: any_loop.induct) auto

lemma VEC_ALL_eq:
  "VEC_ALL oper a b = (VEC_CMP oper a b, list_all2 oper (lanes a) (lanes b))"
  by (simp add: VEC_ALL_def VEC_CMP_def all_loop_eq list_all2_iff)

lemma VEC_ANY_eq:
  "VEC_ANY oper a b = (VEC_CMP oper a b, \<not> list_all2 (\<lambda>x y. \<not> oper x y) (lanes a) (lanes b))"
  by (auto simp: VEC_ANY_def VEC_CMP_def any_loop_eq list_all2_iff)

lemma dotp_loop_eq: "dotp_loop sa sb out ps = out + (\<Sum>(x, y)\<leftarrow>ps. elem sa x * elem sb y)"
  by (induction sa sb out ps rule: dotp_loop.induct) (simp_all add: algebra_simps)

lemma lane_op:
  assumes "LENGTH('e::len) dvd 32"
  shows "(lanes (VEC_OP oper a b) :: 'e word list) = map2 oper (lanes a) (lanes b)"
  using assms by (simp add: VEC_OP_def lanes_unlanes)

text \<open>The operators that act bit by bit are the same on the whole register.\<close>

lemma unlanes_bitwise:
  fixes a b :: u32
  assumes d: "LENGTH('e::len) dvd 32"
    and f: "\<And>(x :: 'e word) y i. i < LENGTH('e) \<Longrightarrow> bit (f x y) i = P (bit x i) (bit y i)"
    and g: "\<And>i. i < 32 \<Longrightarrow> bit (g a b :: u32) i = P (bit a i) (bit b i)"
  shows "VEC_OP (f :: 'e word \<Rightarrow> 'e word \<Rightarrow> 'e word) a b = g a b"
proof (rule bit_word_eqI)
  fix i assume i: "i < LENGTH(32)"
  obtain k where k: "32 = LENGTH('e) * k" using d by blast
  have k': "32 div LENGTH('e) = k" by (metis k len_gt_0 nonzero_mult_div_cancel_left not_gr0)
  have q: "i div LENGTH('e) < 32 div LENGTH('e)"
    unfolding k' using i k by (intro less_mult_imp_div_less) (simp add: mult.commute)
  have m: "i mod LENGTH('e) < LENGTH('e)" by simp
  have l: "bit ((lanes c :: 'e word list) ! (i div LENGTH('e))) (i mod LENGTH('e)) = bit c i" for c :: u32
    using q by (simp add: bit_lanes)
  show "bit (VEC_OP f a b) i = bit (g a b) i"
    using i q by (simp add: VEC_OP_def bit_unlanes f [OF m] l g)
qed


lemma low_byte: "(0xff :: u32) = mask 8"
  by (simp add: mask_eq_exp_minus_1)

lemma ucast_cut: "ucast (ucast (v :: u32) :: u8) = v AND 0xff" "ucast (ucast (v :: u32) :: u16) = v AND 0xffff"
  by (rule bit_word_eqI; auto simp: bit_simps low_byte low_half)+

lemma and3: "(v :: 'a::len word) AND 3 = take_bit 2 v"
  by (simp add: take_bit_eq_mask mask_eq_exp_minus_1)

lemma and1: "(v :: 'a::len word) AND 1 = take_bit 1 v"
  by (simp add: take_bit_eq_mask mask_eq_exp_minus_1)

lemma take_bit_word_less: "unat (take_bit n (v :: 'a::len word)) < 2 ^ n"
  by (simp add: unsigned_take_bit_eq)

lemma unat_push_bit:
  assumes "unat (v :: u32) * 2 ^ n < 2 ^ 32" shows "unat (push_bit n v) = unat v * 2 ^ n"
  using assms unfolding unsigned_push_bit_eq by (simp add: push_bit_eq_mult take_bit_nat_eq_self)

lemma getShuffleByte_lane:
  assumes "i < 4"
  shows "getShuffleByte a b (i * 8) =
     push_bit (i * 8) (ucast ((lanes a :: u8 list) ! unat ((lanes b :: u8 list) ! i AND 3)))"
proof -
  let ?s = "(lanes b :: u8 list) ! i AND 3"
  have e: "drop_bit (i * 8) b AND 3 = ucast ?s"
    using assms unfolding and3 by (simp add: nth_lanes) (rule bit_word_eqI, auto simp: bit_simps)
  have lt: "unat ?s < 4" using take_bit_word_less [of 2 "(lanes b :: u8 list) ! i"] by (simp add: and3)
  have u: "unat (push_bit 3 (ucast ?s :: u32)) = unat ?s * 8"
    using lt by (subst unat_push_bit) (simp_all add: unsigned_ucast_eq take_bit_nat_eq_self)
  show ?thesis
    using lt by (simp add: getShuffleByte_def Let_def e u nth_lanes ucast_cut)
qed

lemma getShuffleHalf_lane:
  assumes "i < 2"
  shows "getShuffleHalf a b (i * 16) =
     push_bit (i * 16) (ucast ((lanes a :: u16 list) ! unat ((lanes b :: u16 list) ! i AND 1)))"
proof -
  let ?s = "(lanes b :: u16 list) ! i AND 1"
  have e: "drop_bit (i * 16) b AND 1 = ucast ?s"
    by (rule bit_word_eqI) (use assms in \<open>auto simp: bit_simps nth_lanes\<close>)
  have lt: "unat ?s < 2" using take_bit_word_less [of 1 "(lanes b :: u16 list) ! i"] by (simp add: and1)
  have u: "unat (push_bit 4 (ucast ?s :: u32)) = unat ?s * 16"
    using lt by (subst unat_push_bit) (simp_all add: unsigned_ucast_eq take_bit_nat_eq_self)
  show ?thesis
    using lt by (simp add: getShuffleHalf_def Let_def e u nth_lanes ucast_cut)
qed

lemma unlanes4:
  "unlanes [x0, x1, x2, x3 :: u8] =
     (push_bit 24 (ucast x3) OR push_bit 16 (ucast x2) OR push_bit 8 (ucast x1) OR ucast x0 :: u32)"
  by (rule bit_word_eqI) (auto simp: bit_simps dest: bit_imp_le_length)

lemma unlanes2: "unlanes [x0, x1 :: u16] = (push_bit 16 (ucast x1) OR ucast x0 :: u32)"
  by (rule bit_word_eqI) (auto simp: bit_simps dest: bit_imp_le_length)

lemma shuffle_8_lanes:
  "(lanes (lib_VEC_SHUFFLE_8 a b) :: u8 list) = map (\<lambda>s. (lanes a :: u8 list) ! unat (s AND 3)) (lanes b :: u8 list)"
proof -
  let ?f = "\<lambda>i. (lanes a :: u8 list) ! unat ((lanes b :: u8 list) ! i AND 3)"
  have "lib_VEC_SHUFFLE_8 a b = unlanes [?f 0, ?f 1, ?f 2, ?f 3]"
    using getShuffleByte_lane [of 0 a b] getShuffleByte_lane [of 1 a b] getShuffleByte_lane [of 2 a b]
      getShuffleByte_lane [of 3 a b]
    by (simp add: lib_VEC_SHUFFLE_8_def unlanes4 del: unlanes.simps)
  moreover have "map (\<lambda>s. (lanes a :: u8 list) ! unat (s AND 3)) (lanes b :: u8 list) = [?f 0, ?f 1, ?f 2, ?f 3]"
    by (simp add: lanes_def upt_rec)
  ultimately show ?thesis by (simp add: lanes_unlanes del: unlanes.simps)
qed

lemma shuffle_16_lanes:
  "(lanes (lib_VEC_SHUFFLE_16 a b) :: u16 list) = map (\<lambda>s. (lanes a :: u16 list) ! unat (s AND 1)) (lanes b :: u16 list)"
proof -
  let ?f = "\<lambda>i. (lanes a :: u16 list) ! unat ((lanes b :: u16 list) ! i AND 1)"
  have "lib_VEC_SHUFFLE_16 a b = unlanes [?f 0, ?f 1]"
    using getShuffleHalf_lane [of 0 a b] getShuffleHalf_lane [of 1 a b]
    by (simp add: lib_VEC_SHUFFLE_16_def unlanes2 del: unlanes.simps)
  moreover have "map (\<lambda>s. (lanes a :: u16 list) ! unat (s AND 1)) (lanes b :: u16 list) = [?f 0, ?f 1]"
    by (simp add: lanes_def upt_rec)
  ultimately show ?thesis by (simp add: lanes_unlanes del: unlanes.simps)
qed


lemma INS_8_lanes:
  assumes "i < 4"
  obtains r where "lib_VEC_INS_8 a b i = Some r" "(lanes r :: u8 list) = (lanes a)[i := ucast b]"
proof -
  have m: "NOT (push_bit (i * 8) 0xff :: u32) = NOT (push_bit (i * 8) (mask 8))" by (simp add: low_byte)
  let ?r = "(a AND NOT (push_bit (i * 8) 0xff)) OR push_bit (i * 8) (b AND 0xff)"
  have "lib_VEC_INS_8 a b i = Some ?r"
    using assms by (simp add: lib_VEC_INS_8_def shl32_def)
  moreover have "(lanes ?r :: u8 list) = (lanes a)[i := ucast b]"
  proof (rule nth_equalityI)
    fix j assume "j < length (lanes ?r :: u8 list)"
    then have j: "j < 4" by simp
    show "(lanes ?r :: u8 list) ! j = (lanes a)[i := ucast b] ! j"
    proof (rule bit_word_eqI)
      fix n assume "n < LENGTH(8)"
      then have n: "n < 8" by simp
      have "j * 8 + n < i * 8 \<longleftrightarrow> j < i" "i * 8 \<le> j * 8 + n \<longleftrightarrow> i \<le> j" "j * 8 + n - i * 8 < 8 \<longleftrightarrow> j \<le> i" if "i \<le> j" for i j
        using n that by arith+
      then show "bit ((lanes ?r :: u8 list) ! j) n = bit ((lanes a)[i := ucast b :: u8] ! j) n"
        using assms j n by (cases "i = j") (auto simp: nth_lanes bit_simps low_byte nth_list_update ac_simps)
    qed
  qed simp
  ultimately show ?thesis using that by blast
qed

lemma INS_16_lanes:
  assumes "i < 2"
  obtains r where "lib_VEC_INS_16 a b i = Some r" "(lanes r :: u16 list) = (lanes a)[i := ucast b]"
proof -
  have m: "NOT (push_bit (i * 16) 0xffff :: u32) = NOT (push_bit (i * 16) (mask 16))" by (simp add: low_half)
  let ?r = "(a AND NOT (push_bit (i * 16) 0xffff)) OR push_bit (i * 16) (b AND 0xffff)"
  have "lib_VEC_INS_16 a b i = Some ?r"
    using assms by (simp add: lib_VEC_INS_16_def shl32_def)
  moreover have "(lanes ?r :: u16 list) = (lanes a)[i := ucast b]"
  proof (rule nth_equalityI)
    fix j assume "j < length (lanes ?r :: u16 list)"
    then have j: "j < 2" by simp
    show "(lanes ?r :: u16 list) ! j = (lanes a)[i := ucast b] ! j"
    proof (rule bit_word_eqI)
      fix n assume "n < LENGTH(16)"
      then have n: "n < 16" by simp
      have "j * 16 + n < i * 16 \<longleftrightarrow> j < i" "i * 16 \<le> j * 16 + n \<longleftrightarrow> i \<le> j" "j * 16 + n - i * 16 < 16 \<longleftrightarrow> j \<le> i" if "i \<le> j" for i j
        using n that by arith+
      then show "bit ((lanes ?r :: u16 list) ! j) n = bit ((lanes a)[i := ucast b :: u16] ! j) n"
        using assms j n by (cases "i = j") (auto simp: nth_lanes bit_simps low_half nth_list_update ac_simps)
    qed
  qed simp
  ultimately show ?thesis using that by blast
qed

lemma ext_cut:
  "drop_bit k (a AND push_bit k 0xff) = ucast (ucast (drop_bit k (a :: u32)) :: u8)"
  "drop_bit k (a AND push_bit k 0xffff) = ucast (ucast (drop_bit k (a :: u32)) :: u16)"
  by (rule bit_word_eqI; auto simp: bit_simps low_byte low_half add.commute dest: bit_imp_le_length)+

lemma ucast_back: "ucast (ucast (x :: u8) :: u32) = x" "ucast (ucast (y :: u16) :: u32) = y"
  by (rule bit_word_eqI; simp add: bit_simps)+

lemma EXT_8_lane:
  assumes "i < 4" shows "lib_VEC_EXT_8 a i = Some (scast ((lanes a :: u8 list) ! i))"
    "lib_VEC_EXTU_8 a i = Some (ucast ((lanes a :: u8 list) ! i))"
proof -
  have f: "drop_bit (i * 8) (a AND push_bit (i * 8) 0xff) = ucast ((lanes a :: u8 list) ! i)"
    unfolding ext_cut using assms by (simp add: nth_lanes)
  then show "lib_VEC_EXTU_8 a i = Some (ucast ((lanes a :: u8 list) ! i))"
    "lib_VEC_EXT_8 a i = Some (scast ((lanes a :: u8 list) ! i))"
    using assms by (simp_all add: lib_VEC_EXTU_8_def lib_VEC_EXT_8_def ext_field_def shl32_def shr32_def ucast_back)
qed

lemma EXT_16_lane:
  assumes "i < 2" shows "lib_VEC_EXT_16 a i = Some (scast ((lanes a :: u16 list) ! i))"
    "lib_VEC_EXTU_16 a i = Some (ucast ((lanes a :: u16 list) ! i))"
proof -
  have f: "drop_bit (i * 16) (a AND push_bit (i * 16) 0xffff) = ucast ((lanes a :: u16 list) ! i)"
    unfolding ext_cut using assms by (simp add: nth_lanes)
  then show "lib_VEC_EXTU_16 a i = Some (ucast ((lanes a :: u16 list) ! i))"
    "lib_VEC_EXT_16 a i = Some (scast ((lanes a :: u16 list) ! i))"
    using assms by (simp_all add: lib_VEC_EXTU_16_def lib_VEC_EXT_16_def ext_field_def shl32_def shr32_def ucast_back)
qed

section \<open>Properties\<close>


fun cmp_not :: "cmp \<Rightarrow> cmp" where
  "cmp_not C_EQ = C_NE" | "cmp_not C_NE = C_EQ" | "cmp_not C_GE = C_LT" | "cmp_not C_LT = C_GE"
| "cmp_not C_GT = C_LE" | "cmp_not C_LE = C_GT" | "cmp_not C_GEU = C_LTU" | "cmp_not C_LTU = C_GEU"
| "cmp_not C_GTU = C_LEU" | "cmp_not C_LEU = C_GTU"

lemma cmp_not_fn: "cmp_fn (cmp_not c) x y \<longleftrightarrow> \<not> cmp_fn c x y"
  by (cases c) (auto simp: not_le not_less)

text \<open>
  The packed comparisons: \<^verbatim>\<open>VEC_ALL\<close> and \<^verbatim>\<open>VEC_ANY\<close> return the mask of \<^verbatim>\<open>VEC_CMP\<close>; the flag of the first
  says that every pair of elements compares, and the flag of the second is its dual, that not
  every pair satisfies the opposite comparison.
\<close>

theorem packed_comparisons:
  "lib_VEC_ALL_8 c a b = (lib_VEC_CMP_8 c a b, list_all2 (cmp_fn c) (lanes a :: u8 list) (lanes b)) \<and>
   lib_VEC_ALL_16 c a b = (lib_VEC_CMP_16 c a b, list_all2 (cmp_fn c) (lanes a :: u16 list) (lanes b)) \<and>
   fst (lib_VEC_ANY_8 c a b) = lib_VEC_CMP_8 c a b \<and>
   snd (lib_VEC_ANY_8 c a b) = (\<not> snd (lib_VEC_ALL_8 (cmp_not c) a b)) \<and>
   snd (lib_VEC_ANY_16 c a b) = (\<not> snd (lib_VEC_ALL_16 (cmp_not c) a b))"
  by (simp add: lib_VEC_ALL_8_def lib_VEC_ALL_16_def lib_VEC_ANY_8_def lib_VEC_ANY_16_def lib_VEC_CMP_8_def
      lib_VEC_CMP_16_def VEC_ALL_eq VEC_ANY_eq cmp_not_fn bytes.all2_nth halves.all2_nth)

text \<open>
  Inserting into a lane changes that lane only, extracting gives the inserted value back, and a
  shuffle picks for every lane the lane its selector names.
\<close>

theorem insert_extract_shuffle:
  assumes "i < 4" "j < 2"
  shows "\<exists>r h. lib_VEC_INS_8 a b i = Some r \<and> (lanes r :: u8 list) = (lanes a)[i := ucast b] \<and>
     lib_VEC_EXTU_8 r i = Some (b AND 0xff) \<and>
     lib_VEC_INS_16 a b j = Some h \<and> (lanes h :: u16 list) = (lanes a)[j := ucast b] \<and>
     lib_VEC_EXTU_16 h j = Some (b AND 0xffff) \<and>
     (lanes (lib_VEC_SHUFFLE_8 a b) :: u8 list) ! i = lanes a ! unat ((lanes b :: u8 list) ! i AND 3) \<and>
     (lanes (lib_VEC_SHUFFLE_16 a b) :: u16 list) ! j = lanes a ! unat ((lanes b :: u16 list) ! j AND 1)"
proof -
  obtain r where r: "lib_VEC_INS_8 a b i = Some r" "(lanes r :: u8 list) = (lanes a)[i := ucast b]"
    using INS_8_lanes [OF assms(1)] by blast
  obtain h where h: "lib_VEC_INS_16 a b j = Some h" "(lanes h :: u16 list) = (lanes a)[j := ucast b]"
    using INS_16_lanes [OF assms(2)] by blast
  have "lib_VEC_EXTU_8 r i = Some (b AND 0xff)" "lib_VEC_EXTU_16 h j = Some (b AND 0xffff)"
    using assms r(2) h(2) by (simp_all add: EXT_8_lane EXT_16_lane ucast_cut)
  with r h assms show ?thesis by (simp add: shuffle_8_lanes shuffle_16_lanes)
qed

theorem insert_extract_shuffle_witness:
  "\<exists>r. lib_VEC_INS_8 0x11223344 0x99 2 = Some r \<and> lib_VEC_EXTU_8 r 2 = Some (0x99 AND 0xff)"
  using insert_extract_shuffle [of 2 1 "0x11223344" "0x99"] by auto

text \<open>
  The accumulating dot products add the dot product to the accumulator, and the dot product of
  bytes is the exact sum of the exact products for every choice of signs.
\<close>

theorem dot_products_exact:
  "lib_VEC_SDOT_8 d acc a b = acc + lib_VEC_DOT_8 d a b \<and>
   lib_VEC_SDOT_16 d acc a b = acc + lib_VEC_DOT_16 d a b \<and>
   lib_VEC_DOT_8 d a b = word_of_int (\<Sum>(x, y)\<leftarrow>zip (lanes a :: u8 list) (lanes b :: u8 list).
      (if fst (dot_signs d) then sint x else uint x) * (if snd (dot_signs d) then sint y else uint y))"
proof -
  have e: "elem s (x :: u8) = word_of_int (if s then sint x else uint x)" for s x
    by (simp add: elem_def)
  have sum: "(\<Sum>(x, y)\<leftarrow>ps. elem s (x :: u8) * elem t (y :: u8)) =
      word_of_int (\<Sum>(x, y)\<leftarrow>ps. (if s then sint x else uint x) * (if t then sint y else uint y))" for s t ps
    by (induction ps) (auto simp: e)
  obtain s t where st: "dot_signs d = (s, t)" by (cases "dot_signs d")
  have "lib_VEC_DOT_8 d a b = (\<Sum>(x, y)\<leftarrow>zip (lanes a :: u8 list) (lanes b :: u8 list). elem s x * elem t y)"
    by (simp add: lib_VEC_DOT_8_def st VEC_DOTP_def dotp_loop_eq)
  then show ?thesis
    unfolding sum by (simp add: st lib_VEC_SDOT_8_def lib_VEC_DOT_8_def lib_VEC_SDOT_16_def lib_VEC_DOT_16_def
        VEC_SDOT_def VEC_DOTP_def dotp_loop_eq)
qed

text \<open>The packed unsigned average loses the carry of the sum of the two bytes.\<close>

theorem packed_avgu_wraps: "lib_VEC_EXPR_8 E_AVGU 0xc8 0x64 = 0x16"
  by code_simp

end
