(* ===== verification/Isa_Nn.thy ===== *)
theory Isa_Nn
  imports Isa_Vector
begin

text \<open>
  The nibble and crumb operations of the quantized neural network extension
  (\<^verbatim>\<open>models/cpu/iss/include/isa_lib/int.h\<close>, section pulpnn). C has no 4-bit or 2-bit type: the macros
  walk the four bytes of the register, pull the fields out with shifts and masks, extend them to
  8 bits, compute, and put the results back. The model follows them byte by byte; the lemmas
  relate it to the view of the register as 8 nibbles or 16 crumbs.
\<close>

section \<open>Fields of a byte\<close>

text \<open>\<^verbatim>\<open>(x >> 4k) & 0x0F\<close>, then extended: \<^verbatim>\<open>signed ? ((v & 0x08) ? (v | 0xF0) : (v & 0x0F)) : (v & 0x0F)\<close>. The
  mask removes the copies of the sign bit, so it does not matter whether the byte is an
  \<^verbatim>\<open>int8_t\<close> or a \<^verbatim>\<open>uint8_t\<close>.\<close>

definition field4 :: "bool \<Rightarrow> nat \<Rightarrow> u8 \<Rightarrow> u8" where
  "field4 signd k x =
     (let v = signed_drop_bit (4 * k) x AND 0x0F
      in if signd then (if v AND 0x08 \<noteq> 0 then v OR 0xF0 else v AND 0x0F) else v AND 0x0F)"

definition field2 :: "bool \<Rightarrow> nat \<Rightarrow> u8 \<Rightarrow> u8" where
  "field2 signd k x =
     (let v = signed_drop_bit (2 * k) x AND 0x03
      in if signd then (if v AND 0x02 \<noteq> 0 then v OR 0xFC else v AND 0x03) else v AND 0x03)"

definition pack4 :: "u8 \<Rightarrow> u8 \<Rightarrow> u8" where
  "pack4 lo hi = (lo AND 0x0F) OR push_bit 4 (hi AND 0x0F)"

definition pack2 :: "u8 \<Rightarrow> u8 \<Rightarrow> u8 \<Rightarrow> u8 \<Rightarrow> u8" where
  "pack2 o0 o1 o2 o3 =
     (o0 AND 0x03) OR push_bit 2 (o1 AND 0x03) OR push_bit 4 (o2 AND 0x03) OR push_bit 6 (o3 AND 0x03)"

text \<open>\<^verbatim>\<open>VEC_OP_NN\<close> masks after the shift instead of before.\<close>

definition pack4_op :: "u8 \<Rightarrow> u8 \<Rightarrow> u8" where
  "pack4_op lo hi = (lo AND 0x0F) OR (push_bit 4 hi AND 0xF0)"

definition pack2_op :: "u8 \<Rightarrow> u8 \<Rightarrow> u8 \<Rightarrow> u8 \<Rightarrow> u8" where
  "pack2_op o0 o1 o2 o3 =
     (o0 AND 0x03) OR (push_bit 2 o1 AND 0x0C) OR (push_bit 4 o2 AND 0x30) OR (push_bit 6 o3 AND 0xC0)"

definition bytes2 :: "(u8 \<Rightarrow> u8 \<Rightarrow> u8) \<Rightarrow> u32 \<Rightarrow> u32 \<Rightarrow> u32" where
  "bytes2 g a b = unlanes (map2 g (lanes a :: u8 list) (lanes b :: u8 list))"

definition bytes1 :: "(u8 \<Rightarrow> u8) \<Rightarrow> u32 \<Rightarrow> u32" where
  "bytes1 g a = unlanes (map g (lanes a :: u8 list))"

section \<open>The macros\<close>

definition VEC_OP_NN4 :: "(u8 \<Rightarrow> u8 \<Rightarrow> u8) \<Rightarrow> u32 \<Rightarrow> u32 \<Rightarrow> u32" where
  "VEC_OP_NN4 oper = bytes2 (\<lambda>x y.
     pack4_op (oper (field4 True 0 x) (field4 True 0 y)) (oper (field4 True 1 x) (field4 True 1 y)))"

definition VEC_OP_NN2 :: "(u8 \<Rightarrow> u8 \<Rightarrow> u8) \<Rightarrow> u32 \<Rightarrow> u32 \<Rightarrow> u32" where
  "VEC_OP_NN2 oper = bytes2 (\<lambda>x y.
     pack2_op (oper (field2 True 0 x) (field2 True 0 y)) (oper (field2 True 1 x) (field2 True 1 y))
       (oper (field2 True 2 x) (field2 True 2 y)) (oper (field2 True 3 x) (field2 True 3 y)))"

definition VEC_OP_NN4_SC :: "(u8 \<Rightarrow> u8 \<Rightarrow> u8) \<Rightarrow> u32 \<Rightarrow> u8 \<Rightarrow> u32" where
  "VEC_OP_NN4_SC oper a b = bytes1 (\<lambda>x.
     pack4_op (oper (field4 True 0 x) (field4 True 0 b)) (oper (field4 True 1 x) (field4 True 0 b))) a"

definition VEC_OP_NN2_SC :: "(u8 \<Rightarrow> u8 \<Rightarrow> u8) \<Rightarrow> u32 \<Rightarrow> u8 \<Rightarrow> u32" where
  "VEC_OP_NN2_SC oper a b = bytes1 (\<lambda>x.
     pack2_op (oper (field2 True 0 x) (field2 True 0 b)) (oper (field2 True 1 x) (field2 True 0 b))
       (oper (field2 True 2 x) (field2 True 0 b)) (oper (field2 True 3 x) (field2 True 0 b))) a"

text \<open>The fields are \<^verbatim>\<open>int8_t\<close> and are widened to \<^verbatim>\<open>int\<close> for the products.\<close>

definition wide :: "u8 \<Rightarrow> u32" where "wide x = scast x"

fun sdot4_loop :: "bool \<Rightarrow> bool \<Rightarrow> u32 \<Rightarrow> (u8 \<times> u8) list \<Rightarrow> u32" where
  "sdot4_loop s1 s2 out [] = out"
| "sdot4_loop s1 s2 out ((x, y) # ps) =
     sdot4_loop s1 s2 (out + (wide (field4 s1 1 x) * wide (field4 s2 1 y) +
                              wide (field4 s1 0 x) * wide (field4 s2 0 y))) ps"

fun sdot2_loop :: "bool \<Rightarrow> bool \<Rightarrow> u32 \<Rightarrow> (u8 \<times> u8) list \<Rightarrow> u32" where
  "sdot2_loop s1 s2 out [] = out"
| "sdot2_loop s1 s2 out ((x, y) # ps) =
     sdot2_loop s1 s2 (out + (wide (field2 s1 0 x) * wide (field2 s2 0 y) +
                              wide (field2 s1 1 x) * wide (field2 s2 1 y) +
                              wide (field2 s1 2 x) * wide (field2 s2 2 y) +
                              wide (field2 s1 3 x) * wide (field2 s2 3 y))) ps"

definition VEC_DOTP_NN4 :: "bool \<Rightarrow> bool \<Rightarrow> u32 \<Rightarrow> u32 \<Rightarrow> u32" where
  "VEC_DOTP_NN4 s1 s2 a b = sdot4_loop s1 s2 0 (zip (lanes a) (lanes b))"
definition VEC_DOTP_NN2 :: "bool \<Rightarrow> bool \<Rightarrow> u32 \<Rightarrow> u32 \<Rightarrow> u32" where
  "VEC_DOTP_NN2 s1 s2 a b = sdot2_loop s1 s2 0 (zip (lanes a) (lanes b))"
definition VEC_SDOT_NN4 :: "bool \<Rightarrow> bool \<Rightarrow> u32 \<Rightarrow> u32 \<Rightarrow> u32 \<Rightarrow> u32" where
  "VEC_SDOT_NN4 s1 s2 out a b = sdot4_loop s1 s2 out (zip (lanes a) (lanes b))"
definition VEC_SDOT_NN2 :: "bool \<Rightarrow> bool \<Rightarrow> u32 \<Rightarrow> u32 \<Rightarrow> u32 \<Rightarrow> u32" where
  "VEC_SDOT_NN2 s1 s2 out a b = sdot2_loop s1 s2 out (zip (lanes a) (lanes b))"

text \<open>The scalar versions take the lowest field of the first byte of \<open>b\<close> for every product.\<close>

fun sdot4_sc_loop :: "bool \<Rightarrow> u32 \<Rightarrow> u32 \<Rightarrow> u8 list \<Rightarrow> u32" where
  "sdot4_sc_loop s1 b0 out [] = out"
| "sdot4_sc_loop s1 b0 out (x # xs) =
     sdot4_sc_loop s1 b0 (out + (wide (field4 s1 1 x) * b0 + wide (field4 s1 0 x) * b0)) xs"

fun sdot2_sc_loop :: "bool \<Rightarrow> u32 \<Rightarrow> u32 \<Rightarrow> u8 list \<Rightarrow> u32" where
  "sdot2_sc_loop s1 b0 out [] = out"
| "sdot2_sc_loop s1 b0 out (x # xs) =
     sdot2_sc_loop s1 b0 (out + (wide (field2 s1 0 x) * b0 + wide (field2 s1 1 x) * b0 +
                                 wide (field2 s1 2 x) * b0 + wide (field2 s1 3 x) * b0)) xs"

definition VEC_SDOT_NN4_SC :: "bool \<Rightarrow> bool \<Rightarrow> u32 \<Rightarrow> u32 \<Rightarrow> u32 \<Rightarrow> u32" where
  "VEC_SDOT_NN4_SC s1 s2 out a b = sdot4_sc_loop s1 (wide (field4 s2 0 (lanes b ! 0))) out (lanes a)"
definition VEC_SDOT_NN2_SC :: "bool \<Rightarrow> bool \<Rightarrow> u32 \<Rightarrow> u32 \<Rightarrow> u32 \<Rightarrow> u32" where
  "VEC_SDOT_NN2_SC s1 s2 out a b = sdot2_sc_loop s1 (wide (field2 s2 0 (lanes b ! 0))) out (lanes a)"
definition VEC_DOTP_NN4_SC :: "bool \<Rightarrow> bool \<Rightarrow> u32 \<Rightarrow> u32 \<Rightarrow> u32" where
  "VEC_DOTP_NN4_SC s1 s2 a b = sdot4_sc_loop s1 (wide (field4 s2 0 (lanes b ! 0))) 0 (lanes a)"
definition VEC_DOTP_NN2_SC :: "bool \<Rightarrow> bool \<Rightarrow> u32 \<Rightarrow> u32 \<Rightarrow> u32" where
  "VEC_DOTP_NN2_SC s1 s2 a b = sdot2_sc_loop s1 (wide (field2 s2 0 (lanes b ! 0))) 0 (lanes a)"

text \<open>The average: the fields are small enough for the 8-bit sum not to wrap.\<close>

definition nn_avg :: "bool \<Rightarrow> u8 \<Rightarrow> u8 \<Rightarrow> u8" where
  "nn_avg signd x y = (if signd then signed_drop_bit 1 (x + y) else drop_bit 1 (x + y))"

definition VEC_EXPR_NN4_AVG :: "bool \<Rightarrow> u32 \<Rightarrow> u32 \<Rightarrow> u32" where
  "VEC_EXPR_NN4_AVG signd = bytes2 (\<lambda>x y.
     pack4 (nn_avg signd (field4 signd 0 x) (field4 signd 0 y)) (nn_avg signd (field4 signd 1 x) (field4 signd 1 y)))"
definition VEC_EXPR_NN2_AVG :: "bool \<Rightarrow> u32 \<Rightarrow> u32 \<Rightarrow> u32" where
  "VEC_EXPR_NN2_AVG signd = bytes2 (\<lambda>x y.
     pack2 (nn_avg signd (field2 signd 0 x) (field2 signd 0 y)) (nn_avg signd (field2 signd 1 x) (field2 signd 1 y))
       (nn_avg signd (field2 signd 2 x) (field2 signd 2 y)) (nn_avg signd (field2 signd 3 x) (field2 signd 3 y)))"
definition VEC_EXPR_NN4_AVG_SC :: "bool \<Rightarrow> u32 \<Rightarrow> u32 \<Rightarrow> u32" where
  "VEC_EXPR_NN4_AVG_SC signd a b =
     (let b0 = field4 signd 0 (lanes b ! 0)
      in bytes1 (\<lambda>x. pack4 (nn_avg signd (field4 signd 0 x) b0) (nn_avg signd (field4 signd 1 x) b0)) a)"
definition VEC_EXPR_NN2_AVG_SC :: "bool \<Rightarrow> u32 \<Rightarrow> u32 \<Rightarrow> u32" where
  "VEC_EXPR_NN2_AVG_SC signd a b =
     (let b0 = field2 signd 0 (lanes b ! 0)
      in bytes1 (\<lambda>x. pack2 (nn_avg signd (field2 signd 0 x) b0) (nn_avg signd (field2 signd 1 x) b0)
                          (nn_avg signd (field2 signd 2 x) b0) (nn_avg signd (field2 signd 3 x) b0)) a)"

text \<open>Maximum (\<^verbatim>\<open>oper\<close> true) and minimum: \<^verbatim>\<open>(a > b) ? (oper ? a : b) : (oper ? b : a)\<close>.\<close>

definition nn_max :: "bool \<Rightarrow> bool \<Rightarrow> u8 \<Rightarrow> u8 \<Rightarrow> u8" where
  "nn_max signd oper x y =
     (if (if signd then sint x > sint y else x > y) then (if oper then x else y) else (if oper then y else x))"

definition VEC_EXPR_NN4_MAX :: "bool \<Rightarrow> bool \<Rightarrow> u32 \<Rightarrow> u32 \<Rightarrow> u32" where
  "VEC_EXPR_NN4_MAX signd oper = bytes2 (\<lambda>x y.
     pack4 (nn_max signd oper (field4 signd 0 x) (field4 signd 0 y))
       (nn_max signd oper (field4 signd 1 x) (field4 signd 1 y)))"
definition VEC_EXPR_NN2_MAX :: "bool \<Rightarrow> bool \<Rightarrow> u32 \<Rightarrow> u32 \<Rightarrow> u32" where
  "VEC_EXPR_NN2_MAX signd oper = bytes2 (\<lambda>x y.
     pack2 (nn_max signd oper (field2 signd 0 x) (field2 signd 0 y)) (nn_max signd oper (field2 signd 1 x) (field2 signd 1 y))
       (nn_max signd oper (field2 signd 2 x) (field2 signd 2 y)) (nn_max signd oper (field2 signd 3 x) (field2 signd 3 y)))"
definition VEC_EXPR_NN4_MAX_SC :: "bool \<Rightarrow> bool \<Rightarrow> u32 \<Rightarrow> u32 \<Rightarrow> u32" where
  "VEC_EXPR_NN4_MAX_SC signd oper a b =
     (let b0 = field4 signd 0 (lanes b ! 0)
      in bytes1 (\<lambda>x. pack4 (nn_max signd oper (field4 signd 0 x) b0) (nn_max signd oper (field4 signd 1 x) b0)) a)"

text \<open>In the scalar version for crumbs the results for crumbs 2 and 3 are assigned to \<^verbatim>\<open>out0\<close> and \<^verbatim>\<open>out1\<close>,
  over those of crumbs 0 and 1, and \<^verbatim>\<open>out2\<close> and \<^verbatim>\<open>out3\<close> are never assigned: their contents
  \<open>g2\<close> and \<open>g3\<close> are arguments.\<close>

definition VEC_EXPR_NN2_MAX_SC :: "u8 \<Rightarrow> u8 \<Rightarrow> bool \<Rightarrow> bool \<Rightarrow> u32 \<Rightarrow> u32 \<Rightarrow> u32" where
  "VEC_EXPR_NN2_MAX_SC g2 g3 signd oper a b =
     (let b0 = field2 signd 0 (lanes b ! 0)
      in bytes1 (\<lambda>x. pack2 (nn_max signd oper (field2 signd 2 x) b0) (nn_max signd oper (field2 signd 3 x) b0) g2 g3) a)"

datatype nn_shift = NN_SRL | NN_SRA | NN_SLL

fun nn_shift_signed :: "nn_shift \<Rightarrow> bool" where
  "nn_shift_signed NN_SRL = False" | "nn_shift_signed NN_SRA = True" | "nn_shift_signed NN_SLL = False"

fun nn_shift_fn :: "nn_shift \<Rightarrow> u8 \<Rightarrow> nat \<Rightarrow> u8" where
  "nn_shift_fn NN_SRL x n = drop_bit n x"
| "nn_shift_fn NN_SRA x n = signed_drop_bit n x"
| "nn_shift_fn NN_SLL x n = push_bit n x"

definition VEC_EXPR_NN4_SHIFT :: "nn_shift \<Rightarrow> u32 \<Rightarrow> u32 \<Rightarrow> u32" where
  "VEC_EXPR_NN4_SHIFT s = bytes2 (\<lambda>x y.
     pack4 (nn_shift_fn s (field4 (nn_shift_signed s) 0 x) (unat (field4 False 0 y AND 3)))
       (nn_shift_fn s (field4 (nn_shift_signed s) 1 x) (unat (field4 False 1 y AND 3))))"
definition VEC_EXPR_NN2_SHIFT :: "nn_shift \<Rightarrow> u32 \<Rightarrow> u32 \<Rightarrow> u32" where
  "VEC_EXPR_NN2_SHIFT s = bytes2 (\<lambda>x y.
     pack2 (nn_shift_fn s (field2 (nn_shift_signed s) 0 x) (unat (field2 False 0 y AND 1)))
       (nn_shift_fn s (field2 (nn_shift_signed s) 1 x) (unat (field2 False 1 y AND 1)))
       (nn_shift_fn s (field2 (nn_shift_signed s) 2 x) (unat (field2 False 2 y AND 1)))
       (nn_shift_fn s (field2 (nn_shift_signed s) 3 x) (unat (field2 False 3 y AND 1))))"
definition VEC_EXPR_NN4_SHIFT_SC :: "nn_shift \<Rightarrow> u32 \<Rightarrow> u32 \<Rightarrow> u32" where
  "VEC_EXPR_NN4_SHIFT_SC s a b =
     (let n = unat (field4 False 0 (lanes b ! 0) AND 3)
      in bytes1 (\<lambda>x. pack4 (nn_shift_fn s (field4 (nn_shift_signed s) 0 x) n)
                          (nn_shift_fn s (field4 (nn_shift_signed s) 1 x) n)) a)"
definition VEC_EXPR_NN2_SHIFT_SC :: "nn_shift \<Rightarrow> u32 \<Rightarrow> u32 \<Rightarrow> u32" where
  "VEC_EXPR_NN2_SHIFT_SC s a b =
     (let n = unat (field2 False 0 (lanes b ! 0) AND 1)
      in bytes1 (\<lambda>x. pack2 (nn_shift_fn s (field2 (nn_shift_signed s) 0 x) n)
                          (nn_shift_fn s (field2 (nn_shift_signed s) 1 x) n)
                          (nn_shift_fn s (field2 (nn_shift_signed s) 2 x) n)
                          (nn_shift_fn s (field2 (nn_shift_signed s) 3 x) n)) a)"

definition nn_abs :: "u8 \<Rightarrow> u8" where "nn_abs x = (if sint x > 0 then x else - x)"

definition lib_VEC_ABS_int4 :: "u32 \<Rightarrow> u32" where
  "lib_VEC_ABS_int4 = bytes1 (\<lambda>x. pack4 (nn_abs (field4 True 0 x)) (nn_abs (field4 True 1 x)))"

text \<open>The crumb version walks an \<^verbatim>\<open>int16_t\<close> pointer over four elements: the first two are the
  halves of the argument, the other two, \<open>mem\<close>, lie behind it.\<close>

definition lib_VEC_ABS_int2 :: "u16 \<Rightarrow> u16 \<Rightarrow> u32 \<Rightarrow> u32" where
  "lib_VEC_ABS_int2 mem2 mem3 a =
     unlanes (map (\<lambda>h. let x = ucast h :: u8 in
         pack2 (nn_abs (field2 True 0 x)) (nn_abs (field2 True 1 x)) (nn_abs (field2 True 2 x)) (nn_abs (field2 True 3 x)))
       ((lanes a :: u16 list) @ [mem2, mem3]))"

section \<open>Quantization\<close>

text \<open>The search tree over the 15 thresholds of the output nibble. The input is a signed \<^verbatim>\<open>int\<close>, the
  thresholds are \<^verbatim>\<open>uint16_t\<close>: both are compared as \<^verbatim>\<open>int\<close>. \<open>pThr k\<close> is the element \<open>k\<close> of the array.\<close>

definition lib_VEC_QNT_4 :: "u32 \<Rightarrow> (nat \<Rightarrow> u16) \<Rightarrow> int" where
  "lib_VEC_QNT_4 input pThr = (let le = (\<lambda>k. sint input \<le> uint (pThr k)) in
     (if le 7 then
        if le 3 then
          if le 1 then if le 0 then - 8 else - 7
          else if le 2 then - 6 else - 5
        else
          if le 5 then if le 4 then - 4 else - 3
          else if le 6 then - 2 else - 1
      else
        if le 11 then
          if le 9 then if le 8 then 0 else 1
          else if le 10 then 2 else 3
        else
          if le 13 then if le 12 then 4 else 5
          else if le 14 then 6 else 7))"

section \<open>What the operations compute on the lanes\<close>

text \<open>A field extended to 8 bits; the maxima and shifts as operators of the packed operations on bytes;
  half the exact sum of two fields; the dot product of two lists of fields.\<close>

definition ext :: "bool \<Rightarrow> 'e::len word \<Rightarrow> u8" where "ext signd x = (if signd then scast x else ucast x)"

fun minmax_expr :: "bool \<Rightarrow> bool \<Rightarrow> expr" where
  "minmax_expr True True = E_MAX" | "minmax_expr True False = E_MIN"
| "minmax_expr False True = E_MAXU" | "minmax_expr False False = E_MINU"

definition avg_exact :: "bool \<Rightarrow> 'e::len word \<Rightarrow> 'e word \<Rightarrow> 'e word" where
  "avg_exact signd x y = word_of_int ((if signd then sint x + sint y else uint x + uint y) div 2)"

fun shift_expr :: "nn_shift \<Rightarrow> expr" where
  "shift_expr NN_SRL = E_SRL" | "shift_expr NN_SRA = E_SRA" | "shift_expr NN_SLL = E_SLL"

definition val :: "bool \<Rightarrow> 'e::len word \<Rightarrow> int" where "val signd x = (if signd then sint x else uint x)"

definition dot_val :: "bool \<Rightarrow> bool \<Rightarrow> 'e::len word list \<Rightarrow> 'e word list \<Rightarrow> int" where
  "dot_val s t xs ys = (\<Sum>(x, y)\<leftarrow>zip xs ys. val s x * val t y)"

section \<open>Fields and lanes\<close>

lemma field4_value:
  assumes "k < 2"
  shows "field4 True k x = scast (ucast (drop_bit (4 * k) x) :: 4 word)"
    "field4 False k x = ucast (ucast (drop_bit (4 * k) x) :: 4 word)"
proof -
  have m: "(0x0F :: u8) = mask 4" by (simp add: mask_eq_exp_minus_1)
  have f: "(0xF0 :: u8) = NOT (mask 4)" by (simp add: mask_eq_exp_minus_1)
  have e8: "v AND 0x08 \<noteq> 0 \<longleftrightarrow> bit v 3" for v :: u8
    using and_exp_eq_0_iff_not_bit [of v 3] by simp
  show "field4 False k x = ucast (ucast (drop_bit (4 * k) x) :: 4 word)"
    by (rule bit_word_eqI) (use assms in \<open>auto simp: field4_def Let_def bit_simps m\<close>)
  show "field4 True k x = scast (ucast (drop_bit (4 * k) x) :: 4 word)"
    unfolding field4_def Let_def e8 m f
  proof (rule bit_word_eqI, goal_cases)
    case (1 n)
    consider "n < 3" | "n = 3" | "4 \<le> n" by linarith
    then show ?case using assms by cases (auto simp: bit_simps min_def)
  qed
qed

lemma field2_value:
  assumes "k < 4"
  shows "field2 True k x = scast (ucast (drop_bit (2 * k) x) :: 2 word)"
    "field2 False k x = ucast (ucast (drop_bit (2 * k) x) :: 2 word)"
proof -
  have m: "(0x03 :: u8) = mask 2" by (simp add: mask_eq_exp_minus_1)
  have f: "(0xFC :: u8) = NOT (mask 2)" by (simp add: mask_eq_exp_minus_1)
  have e2: "v AND 0x02 \<noteq> 0 \<longleftrightarrow> bit v 1" for v :: u8
    using and_exp_eq_0_iff_not_bit [of v 1] by simp
  show "field2 False k x = ucast (ucast (drop_bit (2 * k) x) :: 2 word)"
    by (rule bit_word_eqI) (use assms in \<open>auto simp: field2_def Let_def bit_simps m\<close>)
  show "field2 True k x = scast (ucast (drop_bit (2 * k) x) :: 2 word)"
    unfolding field2_def Let_def e2 m f
  proof (rule bit_word_eqI, goal_cases)
    case (1 n)
    consider "n < 1" | "n = 1" | "2 \<le> n" by linarith
    then show ?case using assms by cases (auto simp: bit_simps min_def)
  qed
qed

lemma lanes_byte4: "(lanes (x :: u8) :: 4 word list) = [ucast x, ucast (drop_bit 4 x)]"
  by (simp add: lanes_def upt_rec)

lemma lanes_byte2: "(lanes (x :: u8) :: 2 word list) =
   [ucast x, ucast (drop_bit 2 x), ucast (drop_bit 4 x), ucast (drop_bit 6 x)]"
  by (simp add: lanes_def upt_rec)

lemma lanes_pack4:
  "(lanes (pack4 lo hi) :: 4 word list) = [ucast lo, ucast hi]"
  "(lanes (pack4_op lo hi) :: 4 word list) = [ucast lo, ucast hi]"
proof -
  have m: "(0x0F :: u8) = mask 4" "(0xF0 :: u8) = push_bit 4 (mask 4)" by (simp_all add: mask_eq_exp_minus_1)
  show "(lanes (pack4 lo hi) :: 4 word list) = [ucast lo, ucast hi]"
    "(lanes (pack4_op lo hi) :: 4 word list) = [ucast lo, ucast hi]"
    unfolding lanes_byte4 pack4_def pack4_op_def m
    by (intro arg_cong2 [where f=Cons] refl; rule bit_word_eqI; auto simp: bit_simps)+
qed

lemma lanes_pack2:
  "(lanes (pack2 a b c d) :: 2 word list) = [ucast a, ucast b, ucast c, ucast d]"
  "(lanes (pack2_op a b c d) :: 2 word list) = [ucast a, ucast b, ucast c, ucast d]"
proof -
  have m: "(0x03 :: u8) = mask 2" "(0x0C :: u8) = push_bit 2 (mask 2)" "(0x30 :: u8) = push_bit 4 (mask 2)"
    "(0xC0 :: u8) = push_bit 6 (mask 2)" by (simp_all add: mask_eq_exp_minus_1)
  show "(lanes (pack2 a b c d) :: 2 word list) = [ucast a, ucast b, ucast c, ucast d]"
    "(lanes (pack2_op a b c d) :: 2 word list) = [ucast a, ucast b, ucast c, ucast d]"
    unfolding lanes_byte2 pack2_def pack2_op_def m
    by (intro arg_cong2 [where f=Cons] refl; rule bit_word_eqI; auto simp: bit_simps)+
qed

lemma map2_concat:
  assumes "length xs = length ys" "\<And>x y. length (f x) = length (f y)"
  shows "map2 g (concat (map f xs)) (concat (map f ys)) = concat (map2 (\<lambda>x y. map2 g (f x) (f y)) xs ys)"
  using assms(1) by (induction xs ys rule: list_induct2) (use assms(2) in auto)

lemma bytes2_lanes:
  fixes f :: "'e::len word \<Rightarrow> 'e word \<Rightarrow> 'e word"
  assumes k: "8 = LENGTH('e) * k"
    and g: "\<And>x y. (lanes (g x y :: u8) :: 'e word list) = map2 f (lanes x) (lanes y)"
  shows "(lanes (bytes2 g a b) :: 'e word list) = map2 f (lanes a) (lanes b)"
proof -
  have e: "(lanes (bytes2 g a b) :: u8 list) = map2 g (lanes a) (lanes b)"
    by (simp only: bytes2_def bytes.get_map2)
  have "(lanes (bytes2 g a b) :: 'e word list) = concat (map lanes (map2 g (lanes a) (lanes b)))"
    unfolding lanes_of_bytes [OF k, of "bytes2 g a b"] e ..
  also have "\<dots> = concat (map2 (\<lambda>x y. map2 f (lanes x) (lanes y)) (lanes a :: u8 list) (lanes b :: u8 list))"
    by (simp add: g comp_def case_prod_unfold)
  also have "\<dots> = map2 f (lanes a) (lanes b)"
    unfolding lanes_of_bytes [OF k, of a] lanes_of_bytes [OF k, of b] by (subst map2_concat) simp_all
  finally show ?thesis .
qed

lemma NN4_lanes:
  assumes "\<And>(x :: 4 word) (y :: 4 word). ucast (h (scast x) (scast y) :: u8) = (f x y :: 4 word)"
  shows "(lanes (VEC_OP_NN4 h a b) :: 4 word list) = map2 f (lanes a) (lanes b)"
  unfolding VEC_OP_NN4_def
proof (rule bytes2_lanes [where k=2])
  fix x y
  show "(lanes (pack4_op (h (field4 True 0 x) (field4 True 0 y)) (h (field4 True 1 x) (field4 True 1 y))) :: 4 word list)
      = map2 f (lanes x) (lanes y)"
    unfolding lanes_pack4 lanes_byte4 [of x] lanes_byte4 [of y] by (simp add: field4_value assms)
qed simp

lemma NN2_lanes:
  assumes "\<And>(x :: 2 word) (y :: 2 word). ucast (h (scast x) (scast y) :: u8) = (f x y :: 2 word)"
  shows "(lanes (VEC_OP_NN2 h a b) :: 2 word list) = map2 f (lanes a) (lanes b)"
  unfolding VEC_OP_NN2_def
proof (rule bytes2_lanes [where k=4])
  fix x y
  show "(lanes (pack2_op (h (field2 True 0 x) (field2 True 0 y)) (h (field2 True 1 x) (field2 True 1 y))
      (h (field2 True 2 x) (field2 True 2 y)) (h (field2 True 3 x) (field2 True 3 y))) :: 2 word list)
      = map2 f (lanes x) (lanes y)"
    unfolding lanes_pack2 lanes_byte2 [of x] lanes_byte2 [of y] by (simp add: field2_value assms)
qed simp

text \<open>Narrowing the 8-bit result of an operator on extended fields gives the operator on the fields.\<close>

lemma narrow_of_int: "LENGTH('e::len) \<le> 8 \<Longrightarrow> ucast (word_of_int z :: u8) = (word_of_int z :: 'e word)"
  by (rule bit_word_eqI) (simp add: bit_simps)

lemma bit_scast_low:
  "n < LENGTH('e::len) \<Longrightarrow> n < LENGTH('a::len) \<Longrightarrow> bit (scast (x :: 'e word) :: 'a word) n = bit x n"
  by (cases "n = LENGTH('e) - 1") (auto simp: bit_simps min_def)

lemma oper_fn_narrow:
  assumes "LENGTH('e::len) \<le> 8"
  shows "ucast (oper_fn oo (scast (x :: 'e word)) (scast y) :: u8) = (oper_fn oo x y :: 'e word)"
proof -
  have s: "scast z = (word_of_int (sint z) :: u8)" for z :: "'e word" by simp
  have a: "ucast ((word_of_int m + word_of_int n) :: u8) = (word_of_int (m + n) :: 'e word)"
    "ucast ((word_of_int m - word_of_int n) :: u8) = (word_of_int (m - n) :: 'e word)"
    "ucast ((word_of_int m * word_of_int n) :: u8) = (word_of_int (m * n) :: 'e word)" for m n
    unfolding narrow_of_int [OF assms, symmetric] by simp_all
  have b: "ucast (scast x OR scast y :: u8) = x OR y" "ucast (scast x XOR scast y :: u8) = x XOR y"
    "ucast (scast x AND scast y :: u8) = x AND y"
    using assms by (auto intro!: bit_word_eqI simp: bit_scast_low bit_or_iff bit_and_iff bit_xor_iff bit_unsigned_iff)
  show ?thesis
    by (cases oo) (simp_all only: oper_fn.simps b, simp_all only: s a, simp_all)
qed

lemma fields_ext:
  "k < 2 \<Longrightarrow> field4 s k x = ext s (ucast (drop_bit (4 * k) x) :: 4 word)"
  "k < 4 \<Longrightarrow> field2 s k x = ext s (ucast (drop_bit (2 * k) x) :: 2 word)"
  by (cases s; simp add: ext_def field4_value field2_value)+

lemma pack4_lanes2:
  assumes "\<And>(x :: 4 word) (y :: 4 word). ucast (h (ext s x) (ext t y) :: u8) = f x y"
  shows "(lanes (bytes2 (\<lambda>x y. pack4 (h (field4 s 0 x) (field4 t 0 y)) (h (field4 s 1 x) (field4 t 1 y))) a b) :: 4 word list)
     = map2 f (lanes a) (lanes b)"
    "(lanes (bytes2 (\<lambda>x y. pack4_op (h (field4 s 0 x) (field4 t 0 y)) (h (field4 s 1 x) (field4 t 1 y))) a b) :: 4 word list)
     = map2 f (lanes a) (lanes b)"
  by (rule bytes2_lanes [where k=2], simp, simp only: lanes_pack4, simp add: lanes_byte4 fields_ext assms)+

lemma pack2_lanes2:
  assumes "\<And>(x :: 2 word) (y :: 2 word). ucast (h (ext s x) (ext t y) :: u8) = f x y"
  shows "(lanes (bytes2 (\<lambda>x y. pack2 (h (field2 s 0 x) (field2 t 0 y)) (h (field2 s 1 x) (field2 t 1 y))
      (h (field2 s 2 x) (field2 t 2 y)) (h (field2 s 3 x) (field2 t 3 y))) a b) :: 2 word list)
     = map2 f (lanes a) (lanes b)"
    "(lanes (bytes2 (\<lambda>x y. pack2_op (h (field2 s 0 x) (field2 t 0 y)) (h (field2 s 1 x) (field2 t 1 y))
      (h (field2 s 2 x) (field2 t 2 y)) (h (field2 s 3 x) (field2 t 3 y))) a b) :: 2 word list)
     = map2 f (lanes a) (lanes b)"
  by (rule bytes2_lanes [where k=4], simp, simp only: lanes_pack2, simp add: lanes_byte2 fields_ext assms)+

text \<open>The scalar versions are the vector versions with the scalar in every lane.\<close>

lemma bytes1_lanes:
  fixes f :: "'e::len word \<Rightarrow> 'e word"
  assumes k: "8 = LENGTH('e) * k"
    and g: "\<And>x. (lanes (g x :: u8) :: 'e word list) = map f (lanes x)"
  shows "(lanes (bytes1 g a) :: 'e word list) = map f (lanes a)"
proof -
  have e: "(lanes (bytes1 g a) :: u8 list) = map g (lanes a)"
    by (simp only: bytes1_def bytes.get_map)
  show ?thesis
    unfolding lanes_of_bytes [OF k, of "bytes1 g a"] e lanes_of_bytes [OF k, of a]
    by (simp add: g map_concat comp_def)
qed

lemma pack4_lanes1:
  assumes "\<And>x :: 4 word. ucast (h (ext s x) :: u8) = f x"
  shows "(lanes (bytes1 (\<lambda>x. pack4 (h (field4 s 0 x)) (h (field4 s 1 x))) a) :: 4 word list) = map f (lanes a)"
    "(lanes (bytes1 (\<lambda>x. pack4_op (h (field4 s 0 x)) (h (field4 s 1 x))) a) :: 4 word list) = map f (lanes a)"
  by (rule bytes1_lanes [where k=2], simp, simp only: lanes_pack4, simp add: lanes_byte4 fields_ext assms)+

lemma pack2_lanes1:
  assumes "\<And>x :: 2 word. ucast (h (ext s x) :: u8) = f x"
  shows "(lanes (bytes1 (\<lambda>x. pack2 (h (field2 s 0 x)) (h (field2 s 1 x)) (h (field2 s 2 x)) (h (field2 s 3 x))) a) :: 2 word list)
      = map f (lanes a)"
    "(lanes (bytes1 (\<lambda>x. pack2_op (h (field2 s 0 x)) (h (field2 s 1 x)) (h (field2 s 2 x)) (h (field2 s 3 x))) a) :: 2 word list)
      = map f (lanes a)"
  by (rule bytes1_lanes [where k=4], simp, simp only: lanes_pack2, simp add: lanes_byte2 fields_ext assms)+

lemma word_of_sintI: "sint (w :: 'a::len word) = k \<Longrightarrow> w = word_of_int k"
  by auto

lemma word_of_uintI: "uint (w :: 'a::len word) = k \<Longrightarrow> w = word_of_int k"
  by auto

lemma sint_ext: "LENGTH('e::len) \<le> 8 \<Longrightarrow> sint (ext True (x :: 'e word)) = sint x"
proof -
  assume "LENGTH('e) \<le> 8"
  then have "(2::int) ^ (LENGTH('e) - 1) \<le> 2 ^ 7" by (intro power_increasing) simp_all
  then have "signed_take_bit 7 (sint x) = sint x"
    using sint_ge [of x] sint_lt [of x] by (intro signed_take_bit_int_eq_self) simp_all
  then show ?thesis by (simp add: ext_def signed_scast_eq)
qed

lemma uint_ext: "LENGTH('e::len) \<le> 8 \<Longrightarrow> uint (ext False (x :: 'e word)) = uint x"
proof -
  assume "LENGTH('e) \<le> 8"
  then have "(2::int) ^ LENGTH('e) \<le> 2 ^ 8" by (intro power_increasing) simp_all
  then have "uint x < 2 ^ 8" by (rule less_le_trans [OF uint_bounded])
  then have "take_bit 8 (uint x) = uint x"
    by (intro take_bit_int_eq_self) simp_all
  then show ?thesis by (simp add: ext_def unsigned_ucast_eq)
qed

lemma ucast_ext: "LENGTH('e::len) \<le> 8 \<Longrightarrow> ucast (ext s (x :: 'e word)) = x"
  by (rule bit_word_eqI) (auto simp: ext_def bit_scast_low bit_unsigned_iff)

lemma nn_max_ext:
  "LENGTH('e::len) \<le> 8 \<Longrightarrow> ucast (nn_max s m (ext s (x :: 'e word)) (ext s y)) = expr_fn (minmax_expr s m) x y"
  by (cases s; cases m) (simp_all add: nn_max_def sint_ext uint_ext ucast_ext word_less_def)

lemma nn_avg_ext:
  assumes "LENGTH('e::len) \<le> 7"
  shows "ucast (nn_avg s (ext s (x :: 'e word)) (ext s y)) = avg_exact s x y"
proof -
  have p: "(2::int) ^ (LENGTH('e) - 1) \<le> 2 ^ 6" "(2::int) ^ LENGTH('e) \<le> 2 ^ 7"
    using assms by (intro power_increasing; simp)+
  have "sint (ext True x + ext True y) = sint x + sint y"
    using assms p sint_ge [of x] sint_lt [of x] sint_ge [of y] sint_lt [of y]
    by (simp add: sint_word_ariths sint_ext signed_take_bit_int_eq_self)
  moreover have "uint (ext False x + ext False y) = uint x + uint y"
    using assms less_le_trans [OF uint_bounded p(2), of x] less_le_trans [OF uint_bounded p(2), of y]
    by (simp add: uint_word_ariths uint_ext)
  moreover have "ucast (signed_drop_bit 1 z) = (word_of_int (sint z div 2) :: 'e word)" for z :: u8
  proof -
    have "sint (signed_drop_bit 1 z) = sint z div 2" by (simp add: sint_signed_drop_bit_eq drop_bit_eq_div)
    then have "signed_drop_bit 1 z = word_of_int (sint z div 2)" by (rule word_of_sintI)
    then show ?thesis using assms by (simp add: narrow_of_int)
  qed
  moreover have "ucast (drop_bit 1 z) = (word_of_int (uint z div 2) :: 'e word)" for z :: u8
  proof -
    have "uint (drop_bit 1 z) = uint z div 2" by (simp add: drop_bit_eq_div uint_div)
    then have "drop_bit 1 z = word_of_int (uint z div 2)" by (rule word_of_uintI)
    then show ?thesis using assms by (simp add: narrow_of_int)
  qed
  ultimately show ?thesis by (cases s) (simp_all add: nn_avg_def avg_exact_def)
qed


lemma nn_shift_ext:
  assumes "LENGTH('e::len) \<le> 8"
  shows "ucast (nn_shift_fn s (ext (nn_shift_signed s) (x :: 'e word)) n) =
    (case s of NN_SRL \<Rightarrow> drop_bit n x | NN_SRA \<Rightarrow> signed_drop_bit n x | NN_SLL \<Rightarrow> push_bit n x)"
proof (cases s)
  case NN_SRL
  have "bit x k \<Longrightarrow> k < 8" for k using assms bit_imp_le_length [of x k] by simp
  then show ?thesis using NN_SRL assms by (auto simp: ext_def bit_simps intro!: bit_word_eqI)
next
  case NN_SRA
  have "sint (signed_drop_bit n (scast x :: u8)) = sint (signed_drop_bit n x)"
    using sint_ext [OF assms, of x] by (simp add: sint_signed_drop_bit_eq ext_def)
  then have "signed_drop_bit n (scast x :: u8) = scast (signed_drop_bit n x)"
    using sint_ext [OF assms, of "signed_drop_bit n x"] unfolding ext_def
    by (metis word_of_sintI)
  then show ?thesis using NN_SRA ucast_ext [OF assms, of True "signed_drop_bit n x"] by (simp add: ext_def)
qed (use assms in \<open>auto simp: ext_def bit_simps intro!: bit_word_eqI\<close>)


lemma wide_sint: "wide z = word_of_int (sint z)"
  by (simp add: wide_def)

lemma wide_ext: "LENGTH('e::len) \<le> 7 \<Longrightarrow> wide (ext s (x :: 'e word)) = word_of_int (val s x)"
proof (cases s)
  case True
  assume "LENGTH('e) \<le> 7"
  then have "sint (ext True x) = sint x" by (intro sint_ext) simp
  then show ?thesis using True by (simp only: wide_sint val_def if_True)
next
  case False
  assume l: "LENGTH('e) \<le> 7"
  then have "(2::int) ^ LENGTH('e) \<le> 2 ^ 7" by (intro power_increasing) simp_all
  then have "uint x < 2 ^ 7" by (rule less_le_trans [OF uint_bounded])
  then have "uint x < 128" by simp
  moreover have "- 128 \<le> uint x" by (rule order_trans [OF _ uint_ge_0]) simp
  moreover have "uint (ext False x) = uint x" using l by (intro uint_ext) simp
  ultimately have "sint (ext False x) = uint x"
    by (simp add: sint_uint signed_take_bit_int_eq_self)
  then show ?thesis using False by (simp only: wide_sint val_def if_False)
qed

lemma dot_val_append: "length xs = length ys \<Longrightarrow> dot_val s t (xs @ xs') (ys @ ys') = dot_val s t xs ys + dot_val s t xs' ys'"
  by (simp add: dot_val_def)

lemma sdot4_loop_val:
  "length xs = length ys \<Longrightarrow>
   sdot4_loop s t out (zip xs ys) = out + word_of_int (dot_val s t (concat (map lanes xs) :: 4 word list) (concat (map lanes ys)))"
proof (induction xs ys arbitrary: out rule: list_induct2)
  case (Cons x xs y ys)
  then show ?case
    by (simp add: dot_val_append, simp add: dot_val_def lanes_byte4 fields_ext wide_ext)
qed (simp add: dot_val_def)

lemma sdot2_loop_val:
  "length xs = length ys \<Longrightarrow>
   sdot2_loop s t out (zip xs ys) = out + word_of_int (dot_val s t (concat (map lanes xs) :: 2 word list) (concat (map lanes ys)))"
proof (induction xs ys arbitrary: out rule: list_induct2)
  case (Cons x xs y ys)
  then show ?case
    by (simp add: dot_val_append, simp add: dot_val_def lanes_byte2 fields_ext wide_ext)
qed (simp add: dot_val_def)

section \<open>Properties\<close>

text \<open>In a sorted table the thresholds below the input are an initial segment; the tree finds its
  length.\<close>

lemma qnt_segment:
  assumes mono: "\<And>j k. j \<le> k \<Longrightarrow> k < 15 \<Longrightarrow> P k \<Longrightarrow> P j"
  shows "\<exists>n\<le>15. \<forall>k<15. P k \<longleftrightarrow> k < (n::nat)"
proof -
  let ?m = "LEAST k. k = 15 \<or> \<not> P k"
  have m: "?m = 15 \<or> \<not> P ?m" by (rule LeastI [of _ 15]) simp
  have le: "?m \<le> 15" by (rule Least_le) simp
  have "P k \<longleftrightarrow> k < ?m" if "k < 15" for k
  proof
    assume "P k"
    show "k < ?m"
    proof (rule ccontr)
      assume "\<not> k < ?m"
      then have "?m \<le> k" by simp
      with m that mono [OF this that \<open>P k\<close>] show False by simp
    qed
  qed (use not_less_Least [of k "\<lambda>k. k = 15 \<or> \<not> P k"] in simp)
  with le show ?thesis by blast
qed

lemma qnt_tree:
  assumes "n \<le> 15" "\<And>k. k < 15 \<Longrightarrow> (uint (t k) < sint i) = (k < n)"
  shows "lib_VEC_QNT_4 i t = int n - 8"
proof -
  have le: "(sint i \<le> uint (t k)) = (n \<le> k)" if "k < 15" for k
    using assms(2) [OF that] by (simp add: not_less [symmetric])
  show ?thesis
    using assms(1) by (simp add: lib_VEC_QNT_4_def Let_def le)
qed

text \<open>
  For a sorted table the quantization of an input to a nibble is the number of thresholds below it,
  counted from -8.
\<close>

theorem quantize_counts_thresholds:
  assumes "\<And>j k. j \<le> k \<Longrightarrow> k < 15 \<Longrightarrow> pThr j \<le> pThr k"
  shows "lib_VEC_QNT_4 input pThr = int (card {k. k < 15 \<and> uint (pThr k) < sint input}) - 8"
proof -
  obtain n where n: "n \<le> 15" "\<And>k. k < 15 \<Longrightarrow> (uint (pThr k) < sint input) = (k < n)"
    using qnt_segment [of "\<lambda>k. uint (pThr k) < sint input"] assms
    by (metis (no_types, lifting) order_le_less_trans word_le_def)
  then have "{k. k < 15 \<and> uint (pThr k) < sint input} = {..<n}" by auto
  then show ?thesis using qnt_tree [OF n] by simp
qed

theorem quantize_counts_thresholds_witness:
  "lib_VEC_QNT_4 5 word_of_nat = int (card {k. k < 15 \<and> uint (word_of_nat k :: u16) < sint (5 :: u32)}) - 8"
  by (rule quantize_counts_thresholds) (simp add: word_le_nat_alt unat_of_nat take_bit_nat_eq_self)

text \<open>
  C34. The arithmetic, logic, maximum and minimum operations on nibbles and crumbs act on each of the 8
  or 16 fields alone, with the wrap-around of the field's width, and the averages are half the exact
  sum: no carry leaks from one field into its neighbour.
\<close>

theorem nn_ops_lanewise:
  "(lanes (VEC_OP_NN4 (oper_fn p) a b) :: 4 word list) = map2 (oper_fn p) (lanes a) (lanes b) \<and>
   (lanes (VEC_OP_NN2 (oper_fn p) a b) :: 2 word list) = map2 (oper_fn p) (lanes a) (lanes b) \<and>
   (lanes (VEC_EXPR_NN4_MAX s m a b) :: 4 word list) = map2 (expr_fn (minmax_expr s m)) (lanes a) (lanes b) \<and>
   (lanes (VEC_EXPR_NN2_MAX s m a b) :: 2 word list) = map2 (expr_fn (minmax_expr s m)) (lanes a) (lanes b) \<and>
   (lanes (VEC_EXPR_NN4_AVG s a b) :: 4 word list) = map2 (avg_exact s) (lanes a) (lanes b) \<and>
   (lanes (VEC_EXPR_NN2_AVG s a b) :: 2 word list) = map2 (avg_exact s) (lanes a) (lanes b)"
  unfolding VEC_EXPR_NN4_MAX_def VEC_EXPR_NN2_MAX_def VEC_EXPR_NN4_AVG_def VEC_EXPR_NN2_AVG_def
  by (intro conjI NN4_lanes NN2_lanes pack4_lanes2(1) pack2_lanes2(1) oper_fn_narrow nn_max_ext nn_avg_ext) simp_all

lemma unat_ext: "LENGTH('e::len) \<le> 8 \<Longrightarrow> unat (ext False (x :: 'e word)) = unat x"
  using uint_ext [of x] unfolding unat_eq_nat_uint [of x] unat_eq_nat_uint [of "ext False x"] by simp

lemma nn_shift_lane:
  "ucast (nn_shift_fn s (ext (nn_shift_signed s) (x :: 4 word)) (unat (ext False (y :: 4 word) AND 3))) = expr_fn (shift_expr s) x y"
  "ucast (nn_shift_fn s (ext (nn_shift_signed s) (u :: 2 word)) (unat (ext False (v :: 2 word) AND 1))) = expr_fn (shift_expr s) u v"
proof -
  have e: "unat (ext False y AND 3) = unat (y AND 3)" "unat (ext False v AND 1) = unat (v AND 1)"
    unfolding unsigned_and_eq using unat_ext [of y] unat_ext [of v] by simp_all
  have w: "word_of_nat (LENGTH(4) - 1) = (3 :: 4 word)" "word_of_nat (LENGTH(2) - 1) = (1 :: 2 word)" by simp_all
  show "ucast (nn_shift_fn s (ext (nn_shift_signed s) x) (unat (ext False y AND 3))) = expr_fn (shift_expr s) x y"
    "ucast (nn_shift_fn s (ext (nn_shift_signed s) u) (unat (ext False v AND 1))) = expr_fn (shift_expr s) u v"
    unfolding e by (cases s; simp only: shift_expr.simps expr_fn.simps w; subst nn_shift_ext; simp)+
qed

text \<open>
  The shifts of nibbles and crumbs shift each field by the amount of the field at the same place,
  taken modulo the width, with the sign of the field for the arithmetic shift.
\<close>

theorem nn_shifts_lanewise:
  "(lanes (VEC_EXPR_NN4_SHIFT s a b) :: 4 word list) = map2 (expr_fn (shift_expr s)) (lanes a) (lanes b) \<and>
   (lanes (VEC_EXPR_NN2_SHIFT s a b) :: 2 word list) = map2 (expr_fn (shift_expr s)) (lanes a) (lanes b)"
  unfolding VEC_EXPR_NN4_SHIFT_def VEC_EXPR_NN2_SHIFT_def
  using pack4_lanes2(1) [where h="\<lambda>x y. nn_shift_fn s x (unat (y AND 3))", OF nn_shift_lane(1)]
    pack2_lanes2(1) [where h="\<lambda>x y. nn_shift_fn s x (unat (y AND 1))", OF nn_shift_lane(2)] by blast

text \<open>
  The dot products of nibbles and of crumbs are the sums of the exact products of the fields, for
  every choice of signs, and the accumulating versions add them to the accumulator.
\<close>

theorem nn_dot_products:
  "VEC_SDOT_NN4 s t out a b = out + VEC_DOTP_NN4 s t a b \<and>
   VEC_SDOT_NN2 s t out a b = out + VEC_DOTP_NN2 s t a b \<and>
   VEC_DOTP_NN4 s t a b = word_of_int (dot_val s t (lanes a :: 4 word list) (lanes b)) \<and>
   VEC_DOTP_NN2 s t a b = word_of_int (dot_val s t (lanes a :: 2 word list) (lanes b))"
  by (simp add: VEC_SDOT_NN4_def VEC_SDOT_NN2_def VEC_DOTP_NN4_def VEC_DOTP_NN2_def sdot4_loop_val sdot2_loop_val
      lanes_of_bytes [of 2, where 'e=4] lanes_of_bytes [of 4, where 'e=2])


text \<open>The scalar operand is the lowest field of the first byte: the lowest lane.\<close>

lemma field_first:
  "field4 s 0 (lanes b ! 0) = ext s (ucast (b :: u32) :: 4 word)"
  "field2 s 0 (lanes b ! 0) = ext s (ucast (b :: u32) :: 2 word)"
proof -
  have "ucast (ucast b :: u8) = (ucast b :: 4 word)" "ucast (ucast b :: u8) = (ucast b :: 2 word)"
    by (rule bit_word_eqI, simp add: bit_simps)+
  then show "field4 s 0 (lanes b ! 0) = ext s (ucast b :: 4 word)" "field2 s 0 (lanes b ! 0) = ext s (ucast b :: 2 word)"
    by (simp_all add: fields_ext nth_lanes)
qed

lemma oper_sc_lane:
  "ucast (oper_fn p (ext True (x :: 4 word)) (field4 True 0 c)) = oper_fn p x (ucast c)"
  "ucast (oper_fn p (ext True (y :: 2 word)) (field2 True 0 c)) = oper_fn p y (ucast c)"
  using oper_fn_narrow [of p x "ucast c"] oper_fn_narrow [of p y "ucast c"] by (simp_all add: fields_ext ext_def)

text \<open>
  The scalar versions apply the lowest field of the second operand to every field of the first.
\<close>

theorem nn_scalar_lanewise:
  "(lanes (VEC_OP_NN4_SC (oper_fn p) a c) :: 4 word list) = map (\<lambda>x. oper_fn p x (ucast c)) (lanes a) \<and>
   (lanes (VEC_OP_NN2_SC (oper_fn p) a c) :: 2 word list) = map (\<lambda>x. oper_fn p x (ucast c)) (lanes a) \<and>
   (lanes (VEC_EXPR_NN4_MAX_SC s m a b) :: 4 word list) = map (\<lambda>x. expr_fn (minmax_expr s m) x (ucast b)) (lanes a) \<and>
   (lanes (VEC_EXPR_NN4_AVG_SC s a b) :: 4 word list) = map (\<lambda>x. avg_exact s x (ucast b)) (lanes a) \<and>
   (lanes (VEC_EXPR_NN2_AVG_SC s a b) :: 2 word list) = map (\<lambda>x. avg_exact s x (ucast b)) (lanes a) \<and>
   (lanes (VEC_EXPR_NN4_SHIFT_SC sh a b) :: 4 word list) = map (\<lambda>x. expr_fn (shift_expr sh) x (ucast b)) (lanes a) \<and>
   (lanes (VEC_EXPR_NN2_SHIFT_SC sh a b) :: 2 word list) = map (\<lambda>x. expr_fn (shift_expr sh) x (ucast b)) (lanes a)"
  unfolding VEC_EXPR_NN4_MAX_SC_def VEC_EXPR_NN4_AVG_SC_def VEC_EXPR_NN2_AVG_SC_def VEC_EXPR_NN4_SHIFT_SC_def
    VEC_EXPR_NN2_SHIFT_SC_def VEC_OP_NN4_SC_def VEC_OP_NN2_SC_def Let_def field_first
  by (intro conjI pack4_lanes1 pack2_lanes1 oper_sc_lane nn_max_ext nn_avg_ext nn_shift_lane) simp_all

lemma nn_abs_ext: "LENGTH('e::len) \<le> 7 \<Longrightarrow> ucast (nn_abs (ext True (x :: 'e word))) = (if sint x > 0 then x else - x)"
proof -
  assume l: "LENGTH('e) \<le> 7"
  have "ext True x = word_of_int (sint x)" by (simp add: ext_def)
  then have "- ext True x = word_of_int (- sint x)" by simp
  then have "ucast (- ext True x) = - x" using l by (simp only: narrow_of_int) simp
  then show ?thesis using l by (simp add: nn_abs_def sint_ext ucast_ext)
qed

lemma abs_int4_lanes:
  "(lanes (lib_VEC_ABS_int4 a) :: 4 word list) = map (\<lambda>x. if sint x > 0 then x else - x) (lanes a)"
  unfolding lib_VEC_ABS_int4_def by (intro pack4_lanes1 nn_abs_ext) simp

text \<open>The scalar maximum of crumbs returns the maxima of the upper two crumbs in the place of the lower
  two: with the register 0x10 and the scalar 0 the maximum 1 of crumb 2 shows up as crumb 0.\<close>

theorem crumb_max_scalar_misplaced:
  "VEC_EXPR_NN2_MAX_SC 0 0 True True 0x10 0 = 0x1"
  by code_simp

text \<open>The absolute value of crumbs depends on the memory behind its argument, and the upper byte of
  each half of the argument is not looked at.\<close>

theorem crumb_abs_reads_beyond:
  "lib_VEC_ABS_int2 0 0 0 \<noteq> lib_VEC_ABS_int2 1 0 0 \<and> lib_VEC_ABS_int2 0 0 0x0300 = lib_VEC_ABS_int2 0 0 0"
  by code_simp

end
