(* ===== verification/Ieee_Double.thy ===== *)
theory Ieee_Double
  imports Gv_Prelude "HOL-Library.Log_Nat"
begin

text \<open>
  The \<^verbatim>\<open>double\<close> of the C code: IEEE 754 binary64 bit patterns, and the operations the flexfloat
  library uses of the language and of \<^verbatim>\<open>math.h\<close>. A finite number is sign, significand and scale; an
  operation computes the exact result, a significand of any size with a sticky bit, and rounds it
  once. The flags an operation raises are returned with its result; \<open>fenv\<close> is the floating-point
  environment of \<^verbatim>\<open>fenv.h\<close>. Tininess is detected after rounding, as on the x86 and ARM hosts.
\<close>

datatype rmode = FE_TONEAREST | FE_TOWARDZERO | FE_DOWNWARD | FE_UPWARD

record fexcept =
  fe_inexact :: bool
  fe_underflow :: bool
  fe_overflow :: bool
  fe_divbyzero :: bool
  fe_invalid :: bool

record fenv =
  fe_round :: rmode
  fe_flags :: fexcept

definition no_except :: fexcept where
  "no_except = \<lparr>fe_inexact = False, fe_underflow = False, fe_overflow = False, fe_divbyzero = False, fe_invalid = False\<rparr>"

definition fe_or :: "fexcept \<Rightarrow> fexcept \<Rightarrow> fexcept" where
  "fe_or x y = \<lparr>fe_inexact = fe_inexact x \<or> fe_inexact y, fe_underflow = fe_underflow x \<or> fe_underflow y,
     fe_overflow = fe_overflow x \<or> fe_overflow y, fe_divbyzero = fe_divbyzero x \<or> fe_divbyzero y,
     fe_invalid = fe_invalid x \<or> fe_invalid y\<rparr>"

definition feraise :: "fexcept \<Rightarrow> fenv \<Rightarrow> fenv" where
  "feraise x env = env\<lparr>fe_flags := fe_or (fe_flags env) x\<rparr>"

definition feclear :: "fenv \<Rightarrow> fenv" where
  "feclear env = env\<lparr>fe_flags := no_except\<rparr>"

definition fesetround :: "rmode \<Rightarrow> fenv \<Rightarrow> fenv" where
  "fesetround r env = env\<lparr>fe_round := r\<rparr>"

section \<open>The representation\<close>

definition d_sign :: "u64 \<Rightarrow> bool" where "d_sign x = bit x 63"

definition d_exp :: "u64 \<Rightarrow> int" where "d_exp x = uint (drop_bit 52 x AND 0x7FF)"

definition d_frac :: "u64 \<Rightarrow> int" where "d_frac x = uint (x AND 0xFFFFFFFFFFFFF)"

definition d_nan :: "u64 \<Rightarrow> bool" where "d_nan x = (d_exp x = 2047 \<and> d_frac x \<noteq> 0)"

definition d_inf :: "u64 \<Rightarrow> bool" where "d_inf x = (d_exp x = 2047 \<and> d_frac x = 0)"

definition d_zero :: "u64 \<Rightarrow> bool" where "d_zero x = (d_exp x = 0 \<and> d_frac x = 0)"

definition d_quiet :: "u64 \<Rightarrow> bool" where "d_quiet x = bit x 51"

text \<open>The magnitude of a finite number is \<open>d_sig x * 2 powi d_scale x\<close>.\<close>

definition d_sig :: "u64 \<Rightarrow> int" where
  "d_sig x = (if d_exp x = 0 then d_frac x else d_frac x + 2 ^ 52)"

definition d_scale :: "u64 \<Rightarrow> int" where
  "d_scale x = (if d_exp x = 0 then - 1074 else d_exp x - 1075)"

definition d_pack :: "bool \<Rightarrow> int \<Rightarrow> u64" where
  "d_pack s mag = (if s then 0x8000000000000000 else 0) OR word_of_int mag"

definition d_infinity :: "bool \<Rightarrow> u64" where "d_infinity s = d_pack s 0x7FF0000000000000"

definition d_max :: "bool \<Rightarrow> u64" where "d_max s = d_pack s 0x7FEFFFFFFFFFFFFF"

definition d_qnan :: u64 where "d_qnan = 0xFFF8000000000000"

section \<open>Rounding\<close>

text \<open>Does the significand \<open>sig\<close> go up, when \<open>rem\<close> of \<open>2 ^ k\<close> units and perhaps a sticky bit are cut
  off?\<close>

definition round_up :: "rmode \<Rightarrow> bool \<Rightarrow> int \<Rightarrow> int \<Rightarrow> nat \<Rightarrow> bool \<Rightarrow> bool" where
  "round_up r s sig rem k sticky =
     (let inexact = rem \<noteq> 0 \<or> sticky in
      case r of
        FE_TONEAREST \<Rightarrow> 2 ^ k < 2 * rem \<or> (2 ^ k = 2 * rem \<and> (sticky \<or> odd sig))
      | FE_TOWARDZERO \<Rightarrow> False
      | FE_DOWNWARD \<Rightarrow> inexact \<and> s
      | FE_UPWARD \<Rightarrow> inexact \<and> \<not> s)"

text \<open>\<open>m * 2 powi e\<close>, or a value strictly between it and \<open>(m + 1) * 2 powi e\<close> when \<open>sticky\<close>, cut to
  a multiple of \<open>2 powi q\<close>: the rounded multiple and whether it is inexact.\<close>

definition round_at :: "rmode \<Rightarrow> bool \<Rightarrow> int \<Rightarrow> int \<Rightarrow> bool \<Rightarrow> int \<Rightarrow> int \<times> bool" where
  "round_at r s m e sticky q =
     (if q \<le> e then (m * 2 ^ nat (e - q), sticky)
      else let k = nat (q - e); sig = m div 2 ^ k; rem = m mod 2 ^ k
           in (if round_up r s sig rem k sticky then sig + 1 else sig, rem \<noteq> 0 \<or> sticky))"

definition d_round :: "rmode \<Rightarrow> bool \<Rightarrow> int \<Rightarrow> int \<Rightarrow> bool \<Rightarrow> u64 \<times> fexcept" where
  "d_round r s m e sticky =
     (let top = e + bitlen m;
          q = max (top - 53) (- 1074);
          (sig, inexact) = round_at r s m e sticky q;
          mag = (q + 1074) * 2 ^ 52 + sig;
          tiny = top < - 1022 \<or> (top = - 1022 \<and> fst (round_at r s m e sticky (top - 53)) < 2 ^ 53)
      in if 2047 * 2 ^ 52 \<le> mag then
           (if r = FE_TONEAREST \<or> r = FE_UPWARD \<and> \<not> s \<or> r = FE_DOWNWARD \<and> s then d_infinity s else d_max s,
            no_except\<lparr>fe_inexact := True, fe_overflow := True\<rparr>)
         else
           (d_pack s mag, no_except\<lparr>fe_inexact := inexact, fe_underflow := inexact \<and> tiny\<rparr>))"

section \<open>Arithmetic\<close>

text \<open>The result for a NaN operand: the operand made quiet; a signalling one raises the invalid flag.\<close>

definition quieten :: "u64 \<Rightarrow> u64" where "quieten x = x OR 0x8000000000000"

definition invalid :: fexcept where "invalid = no_except\<lparr>fe_invalid := True\<rparr>"

definition nan_result :: "u64 list \<Rightarrow> u64 \<times> fexcept" where
  "nan_result xs =
     (case filter d_nan xs of
        [] \<Rightarrow> (d_qnan, invalid)
      | x # _ \<Rightarrow> (quieten x, if list_ex (\<lambda>y. d_nan y \<and> \<not> d_quiet y) xs then invalid else no_except))"

definition d_neg :: "u64 \<Rightarrow> u64" where "d_neg x = x XOR 0x8000000000000000"

text \<open>The signed significand, and the sum of two scaled integers as one.\<close>

definition d_ssig :: "u64 \<Rightarrow> int" where
  "d_ssig x = (if d_sign x then - d_sig x else d_sig x)"

definition scaled_add :: "int \<Rightarrow> int \<Rightarrow> int \<Rightarrow> int \<Rightarrow> int \<times> int" where
  "scaled_add m1 e1 m2 e2 =
     (let e = min e1 e2 in (m1 * 2 ^ nat (e1 - e) + m2 * 2 ^ nat (e2 - e), e))"

definition round_sum :: "rmode \<Rightarrow> bool \<Rightarrow> bool \<Rightarrow> int \<times> int \<Rightarrow> u64 \<times> fexcept" where
  "round_sum r s1 s2 z =
     (case z of (m, e) \<Rightarrow>
        if m = 0 then (d_pack (if s1 = s2 then s1 else r = FE_DOWNWARD) 0, no_except)
        else d_round r (m < 0) \<bar>m\<bar> e False)"

definition d_add :: "rmode \<Rightarrow> u64 \<Rightarrow> u64 \<Rightarrow> u64 \<times> fexcept" where
  "d_add r a b =
     (if d_nan a \<or> d_nan b then nan_result [a, b]
      else if d_inf a then if d_inf b \<and> d_sign a \<noteq> d_sign b then nan_result [] else (a, no_except)
      else if d_inf b then (b, no_except)
      else round_sum r (d_sign a) (d_sign b) (scaled_add (d_ssig a) (d_scale a) (d_ssig b) (d_scale b)))"

definition d_sub :: "rmode \<Rightarrow> u64 \<Rightarrow> u64 \<Rightarrow> u64 \<times> fexcept" where
  "d_sub r a b = (if d_nan b then nan_result [a, b] else d_add r a (d_neg b))"

definition d_mul :: "rmode \<Rightarrow> u64 \<Rightarrow> u64 \<Rightarrow> u64 \<times> fexcept" where
  "d_mul r a b =
     (let s = (d_sign a \<noteq> d_sign b) in
      if d_nan a \<or> d_nan b then nan_result [a, b]
      else if d_inf a \<or> d_inf b then
        if d_zero a \<or> d_zero b then nan_result [] else (d_infinity s, no_except)
      else if d_zero a \<or> d_zero b then (d_pack s 0, no_except)
      else d_round r s (d_sig a * d_sig b) (d_scale a + d_scale b) False)"

definition d_div :: "rmode \<Rightarrow> u64 \<Rightarrow> u64 \<Rightarrow> u64 \<times> fexcept" where
  "d_div r a b =
     (let s = (d_sign a \<noteq> d_sign b) in
      if d_nan a \<or> d_nan b then nan_result [a, b]
      else if d_inf a then if d_inf b then nan_result [] else (d_infinity s, no_except)
      else if d_inf b then (d_pack s 0, no_except)
      else if d_zero b then
        if d_zero a then nan_result [] else (d_infinity s, no_except\<lparr>fe_divbyzero := True\<rparr>)
      else if d_zero a then (d_pack s 0, no_except)
      else let n = d_sig a * 2 ^ 110
           in d_round r s (n div d_sig b) (d_scale a - d_scale b - 110) (n mod d_sig b \<noteq> 0))"

text \<open>\<^verbatim>\<open>fma(a, b, c)\<close>.\<close>

definition d_fma :: "rmode \<Rightarrow> u64 \<Rightarrow> u64 \<Rightarrow> u64 \<Rightarrow> u64 \<times> fexcept" where
  "d_fma r a b c =
     (let s = (d_sign a \<noteq> d_sign b) in
      if d_nan a \<or> d_nan b \<or> d_nan c then nan_result [a, b, c]
      else if d_inf a \<or> d_inf b then
        if d_zero a \<or> d_zero b \<or> (d_inf c \<and> d_sign c \<noteq> s) then nan_result [] else (d_infinity s, no_except)
      else if d_inf c then (c, no_except)
      else round_sum r s (d_sign c)
             (scaled_add (d_ssig a * d_ssig b) (d_scale a + d_scale b) (d_ssig c) (d_scale c)))"

fun isqrt :: "int \<Rightarrow> int" where
  "isqrt n = (if n \<le> 0 then 0
              else let r = 2 * isqrt (n div 4) in if (r + 1) * (r + 1) \<le> n then r + 1 else r)"

declare isqrt.simps [simp del]

definition d_sqrt :: "rmode \<Rightarrow> u64 \<Rightarrow> u64 \<times> fexcept" where
  "d_sqrt r a =
     (if d_nan a then nan_result [a]
      else if d_zero a then (a, no_except)
      else if d_sign a then nan_result []
      else if d_inf a then (a, no_except)
      else let k = (if even (d_scale a) then 110 else 111 :: nat);
               n = d_sig a * 2 ^ k; m = isqrt n
           in d_round r False m ((d_scale a - int k) div 2) (m * m \<noteq> n))"

section \<open>Comparison and conversion\<close>

text \<open>The bit patterns of numbers, read as sign and magnitude, have the order of the numbers.\<close>

definition d_key :: "u64 \<Rightarrow> int" where
  "d_key x = (let mag = uint (x AND 0x7FFFFFFFFFFFFFFF) in if d_sign x then - mag else mag)"

definition d_lt :: "u64 \<Rightarrow> u64 \<Rightarrow> bool" where
  "d_lt a b = (\<not> d_nan a \<and> \<not> d_nan b \<and> d_key a < d_key b)"

definition d_le :: "u64 \<Rightarrow> u64 \<Rightarrow> bool" where
  "d_le a b = (\<not> d_nan a \<and> \<not> d_nan b \<and> d_key a \<le> d_key b)"

definition d_eq :: "u64 \<Rightarrow> u64 \<Rightarrow> bool" where
  "d_eq a b = (\<not> d_nan a \<and> \<not> d_nan b \<and> d_key a = d_key b)"

text \<open>The flags of the ordered comparisons, which raise the invalid flag for any NaN, and of equality,
  which raises it for a signalling one.\<close>

definition d_snan :: "u64 \<Rightarrow> bool" where "d_snan x = (d_nan x \<and> \<not> d_quiet x)"

definition cmp_flags :: "u64 \<Rightarrow> u64 \<Rightarrow> fexcept" where
  "cmp_flags a b = (if d_nan a \<or> d_nan b then invalid else no_except)"

definition eq_flags :: "u64 \<Rightarrow> u64 \<Rightarrow> fexcept" where
  "eq_flags a b = (if d_snan a \<or> d_snan b then invalid else no_except)"

text \<open>\<^verbatim>\<open>fmin\<close> and \<^verbatim>\<open>fmax\<close>: a quiet NaN is missing data.\<close>

definition d_fmin :: "u64 \<Rightarrow> u64 \<Rightarrow> u64 \<times> fexcept" where
  "d_fmin a b =
     (if d_snan a \<or> d_snan b then nan_result [a, b]
      else (if d_nan b \<or> d_lt a b then a else b, no_except))"

definition d_fmax :: "u64 \<Rightarrow> u64 \<Rightarrow> u64 \<times> fexcept" where
  "d_fmax a b =
     (if d_snan a \<or> d_snan b then nan_result [a, b]
      else (if d_nan b \<or> d_lt b a then a else b, no_except))"

definition d_of_int :: "rmode \<Rightarrow> int \<Rightarrow> u64 \<times> fexcept" where
  "d_of_int r i = (if i = 0 then (0, no_except) else d_round r (i < 0) \<bar>i\<bar> 0 False)"

text \<open>\<^verbatim>\<open>nearbyint\<close>: the integral value of a finite number in the given rounding mode, without flags; the
  sign of a zero result is that of the argument.\<close>

definition d_integral :: "rmode \<Rightarrow> u64 \<Rightarrow> int" where
  "d_integral r x = fst (round_at r (d_sign x) (d_sig x) (d_scale x) False 0)"

definition d_nearbyint :: "rmode \<Rightarrow> u64 \<Rightarrow> u64" where
  "d_nearbyint r x =
     (if d_exp x = 2047 then (if d_nan x then quieten x else x)
      else let n = d_integral r x
           in if n = 0 then d_pack (d_sign x) 0 else fst (d_round r (d_sign x) n 0 False))"

text \<open>The conversion to an integer type truncates; it is undefined for NaN, infinities and out of range,
  which the caller decides.\<close>

definition d_trunc :: "u64 \<Rightarrow> int option" where
  "d_trunc x = (if d_exp x = 2047 then None
                else Some (let n = d_integral FE_TOWARDZERO x in if d_sign x then - n else n))"

definition d_normal :: "u64 \<Rightarrow> bool" where
  "d_normal v \<longleftrightarrow> 1 \<le> d_exp v \<and> d_exp v \<le> 2046"

definition dval :: "u64 \<Rightarrow> real" where
  "dval x = of_int (d_ssig x) * 2 powi d_scale x"

definition d_mag :: "u64 \<Rightarrow> int" where
  "d_mag x = d_exp x * 2 ^ 52 + d_frac x"

definition d_abs :: "u64 \<Rightarrow> real" where
  "d_abs x = of_int (d_sig x) * 2 powi d_scale x"

section \<open>Arithmetic of powers of two\<close>

lemma quot_one: "b \<le> z \<Longrightarrow> z < 2 * b \<Longrightarrow> z div b = (1::int)"
  by (rule int_div_pos_eq [where r="z - b"]) auto

lemma rem_one: "b \<le> z \<Longrightarrow> z < 2 * b \<Longrightarrow> z mod b = z - (b::int)"
  using quot_one [of b z] minus_div_mult_eq_mod [of z b] by simp

lemma div_pow_add: "k \<le> n \<Longrightarrow> (x + 2 ^ n) div 2 ^ k = x div 2 ^ k + (2::int) ^ (n - k)"
proof -
  assume "k \<le> n"
  then have p: "(2::int) ^ n = 2 ^ (n - k) * 2 ^ k" by (simp flip: power_add)
  show ?thesis unfolding p by simp
qed

lemma trunc_sum: "k \<le> n \<Longrightarrow> x div 2 ^ k * 2 ^ k + 2 ^ n = (x + 2 ^ n) div 2 ^ k * (2::int) ^ k"
  by (simp add: div_pow_add distrib_right flip: power_add)

lemma div_times_le: "x div 2 ^ n * 2 ^ n \<le> (x::int)"
proof -
  have "0 \<le> x mod 2 ^ n" by simp
  then show ?thesis using div_mult_mod_eq [of x "2 ^ n"] by linarith
qed

lemma div_pow_less: "k \<le> n \<Longrightarrow> x < 2 ^ n \<Longrightarrow> x div 2 ^ (n - k) < (2::int) ^ k"
proof -
  assume "k \<le> n" "x < 2 ^ n"
  then have "x < 2 ^ k * 2 ^ (n - k)" by (simp flip: power_add)
  then have "x div 2 ^ (n - k) * 2 ^ (n - k) < 2 ^ k * 2 ^ (n - k)"
    using div_times_le [of x "n - k"] by linarith
  then show ?thesis by (simp only: mult_less_cancel_right_pos [OF zero_less_power [OF zero_less_numeral]])
qed

lemma pow_split: "f \<le> 52 \<Longrightarrow> (2::int) ^ f * 2 ^ (52 - f) = 2 ^ 52"
  by (simp flip: power_add)

lemma sub_frac: "f \<le> 52 \<Longrightarrow> (m * 2 ^ k - 2 ^ f) * 2 ^ (52 - f) + 2 ^ 52 = (m::int) * 2 ^ (k + (52 - f))"
  by (simp only: left_diff_distrib pow_split power_add mult.assoc)

lemma pow_diff: "j \<le> n \<Longrightarrow> (2::int) ^ n = 2 ^ j * 2 ^ (n - j)"
  by (simp flip: power_add)

lemma pow_quot:
  fixes x :: int
  assumes "2 ^ n \<le> x" "x < 2 ^ n + 2 ^ k" "k \<le> n"
  shows "x div 2 ^ k = 2 ^ (n - k)"
proof -
  have p: "(2::int) ^ n = 2 ^ (n - k) * 2 ^ k" using pow_diff [OF assms(3)] by simp
  have "x div 2 ^ k = 2 ^ (n - k) + (x - 2 ^ n) div 2 ^ k"
    using div_mult_self3 [of "(2::int) ^ k" "2 ^ (n - k)" "x - 2 ^ n"] unfolding p [symmetric] by simp
  moreover have "(x - 2 ^ n) div 2 ^ k = 0" using assms(1,2) by (intro div_pos_pos_trivial) simp_all
  ultimately show ?thesis by simp
qed

lemma cut_bits:
  fixes S :: int
  assumes "1 \<le> k"
  defines "rb \<equiv> odd (S div 2 ^ (k - 1))" and "st \<equiv> S mod 2 ^ (k - 1) \<noteq> 0"
  shows "2 ^ k < 2 * (S mod 2 ^ k) \<longleftrightarrow> rb \<and> st" "2 ^ k = 2 * (S mod 2 ^ k) \<longleftrightarrow> rb \<and> \<not> st"
    "S mod 2 ^ k \<noteq> 0 \<longleftrightarrow> rb \<or> st"
proof -
  define P :: int where "P = 2 ^ (k - 1)"
  have P: "2 ^ k = 2 * P" "0 < P" using assms(1) by (simp_all add: P_def flip: power_Suc)
  have "S mod (P * 2) = P * (S div P mod 2) + S mod P" using P(2) by (intro zmod_zmult2_eq) simp
  moreover have "S div P mod 2 = of_bool rb" unfolding rb_def P_def by (simp add: mod_2_eq_odd)
  ultimately have r: "S mod 2 ^ k = P * of_bool rb + S mod P" using P(1) by (simp add: mult.commute)
  define t where "t = S mod P"
  have m: "0 \<le> t" "t < P" using P(2) by (simp_all add: t_def)
  have st: "st \<longleftrightarrow> t \<noteq> 0" by (simp add: st_def P_def t_def)
  have r': "S mod (2 * P) = (if rb then P + t else t)" using r unfolding P(1) t_def by simp
  show "2 ^ k < 2 * (S mod 2 ^ k) \<longleftrightarrow> rb \<and> st" unfolding r' P(1) st using m by auto
  show "2 ^ k = 2 * (S mod 2 ^ k) \<longleftrightarrow> rb \<and> \<not> st" unfolding r' P(1) st using m P(2) by auto
  show "S mod 2 ^ k \<noteq> 0 \<longleftrightarrow> rb \<or> st" unfolding P(1) r' st using m P(2) by auto
qed

section \<open>The fields of a pattern as numbers\<close>

lemma uint_and_mask: "uint (x AND mask n :: 'a::len word) = uint x mod 2 ^ n"
proof -
  have "uint (x AND mask n) = take_bit n (uint x)"
    by (rule bit_eqI) (auto simp: bit_simps dest: bit_imp_le_length)
  then show ?thesis by (simp add: take_bit_eq_mod)
qed

lemma uint_drop_bit: "uint (drop_bit n x :: 'a::len word) = uint x div 2 ^ n"
proof -
  have "uint (drop_bit n x) = drop_bit n (uint x)"
    by (rule bit_eqI) (auto simp: bit_simps dest: bit_imp_le_length)
  then show ?thesis by (simp add: drop_bit_eq_div)
qed

lemma uint_push_bit: "uint x * 2 ^ n < 2 ^ LENGTH('a) \<Longrightarrow> uint (push_bit n x :: 'a::len word) = uint x * 2 ^ n"
proof -
  assume "uint x * 2 ^ n < 2 ^ LENGTH('a)"
  then have t: "take_bit LENGTH('a) (uint x * 2 ^ n) = uint x * 2 ^ n" by (intro take_bit_int_eq_self) simp_all
  have "push_bit n x = word_of_int (uint x * 2 ^ n)" by (simp add: push_bit_eq_mult)
  then show ?thesis using t by (simp only: uint_word_of_int_eq)
qed

lemma frac_mask: "(0xFFFFFFFFFFFFF :: u64) = mask 52" and exp_mask: "(0x7FF :: u64) = mask 11"
  by (simp_all add: mask_eq_exp_minus_1)

lemma d_exp_uint: "d_exp x = uint x div 2 ^ 52 mod 2 ^ 11"
  unfolding d_exp_def exp_mask uint_and_mask uint_drop_bit ..

lemma d_frac_uint: "d_frac x = uint x mod 2 ^ 52"
  unfolding d_frac_def frac_mask uint_and_mask ..

lemma uint64_bounds: "0 \<le> uint (x :: u64)" "uint (x :: u64) < 2 ^ 64"
  using uint_bounded [of x] by simp_all

lemma of_bool_odd: "0 \<le> q \<Longrightarrow> q < (2::int) \<Longrightarrow> of_bool (odd q) = q"
  by (auto simp: of_bool_def) presburger+

lemma split_uint: "(z::int) = (z div b div a * a + z div b mod a) * b + z mod b"
  by simp

lemma d_sign_quot: "of_bool (d_sign x) = uint x div 2 ^ 52 div 2 ^ 11"
proof -
  have h: "uint x div 2 ^ 52 div 2 ^ 11 = uint x div 2 ^ 63" by (simp flip: zdiv_zmult2_eq power_add)
  have "0 \<le> uint x div 2 ^ 63" using uint64_bounds [of x] by (intro div_int_pos_iff [THEN iffD2]) simp
  moreover have "uint x div 2 ^ 63 < 2" using uint64_bounds [of x] by (simp add: div_less_iff_less_mult)
  moreover have "d_sign x \<longleftrightarrow> odd (uint x div 2 ^ 63)"
    using bit_uint_iff [of x 63] unfolding d_sign_def bit_iff_odd [of "uint x"] by simp
  ultimately show ?thesis unfolding h using of_bool_odd [of "uint x div 2 ^ 63"] by simp
qed

lemma fields_bounds: "0 \<le> d_exp x" "d_exp x < 2048" "0 \<le> d_frac x" "d_frac x < 2 ^ 52"
  by (simp_all add: d_exp_uint d_frac_uint)

lemma fields_uint: "uint x = of_bool (d_sign x) * 2 ^ 63 + d_exp x * 2 ^ 52 + d_frac x"
proof -
  have "uint x = (uint x div 2 ^ 52 div 2 ^ 11 * 2 ^ 11 + uint x div 2 ^ 52 mod 2 ^ 11) * 2 ^ 52 + uint x mod 2 ^ 52"
    by (rule split_uint)
  also have "\<dots> = uint x div 2 ^ 52 div 2 ^ 11 * 2 ^ 63 + uint x div 2 ^ 52 mod 2 ^ 11 * 2 ^ 52 + uint x mod 2 ^ 52"
    by (simp only: distrib_right mult.assoc flip: power_add) simp
  finally show ?thesis unfolding d_sign_quot d_exp_uint d_frac_uint .
qed

lemma fieldsI:
  assumes "uint x = of_bool s * 2 ^ 63 + ex * 2 ^ 52 + fr" "0 \<le> ex" "ex < 2048" "0 \<le> fr" "fr < 2 ^ 52"
  shows "d_sign x = s" "d_exp x = ex" "d_frac x = fr"
proof -
  have u: "uint x = (of_bool s * 2 ^ 11 + ex) * 2 ^ 52 + fr" using assms(1) by (simp add: algebra_simps)
  have q: "uint x div 2 ^ 52 = of_bool s * 2 ^ 11 + ex" "uint x mod 2 ^ 52 = fr"
    using assms(4,5) unfolding u by (simp_all only: div_mult_self3 mod_mult_self3) simp_all
  show "d_frac x = fr" unfolding d_frac_uint by (rule q)
  show "d_exp x = ex" unfolding d_exp_uint q using assms by (simp only: mod_mult_self3) simp
  have "(of_bool (d_sign x) :: int) = of_bool s"
    unfolding d_sign_quot q using assms(2,3) by (cases s) (simp_all add: div_eq_0_iff)
  then show "d_sign x = s" by (simp only: of_bool_eq_iff)
qed

lemma odd_div_uint: "bit (w :: 'a::len word) n \<longleftrightarrow> odd (uint w div 2 ^ n)"
  using bit_uint_iff [of w n] bit_imp_le_length [of w n] unfolding bit_iff_odd [of "uint w"] by auto

lemma mask_zero_uint: "w AND mask n = (0 :: 'a::len word) \<longleftrightarrow> uint w mod 2 ^ n = 0"
  using uint_0_iff [of "w AND mask n"] by (simp only: uint_and_mask)

lemma d_sig_normal: "d_normal v \<Longrightarrow> d_sig v = d_frac v + 2 ^ 52" "d_normal v \<Longrightarrow> d_sig v < 2 ^ 53" "d_normal v \<Longrightarrow> 2 ^ 52 \<le> d_sig v"
  using fields_bounds(3,4) [of v] by (simp_all add: d_sig_def d_normal_def)

lemma dval_normal:
  assumes "d_exp x \<noteq> 0" "d_frac x + 2 ^ 52 = m * 2 ^ k"
  shows "dval x = (if d_sign x then - 1 else 1) * of_int m * 2 powi (d_exp x - 1075 + int k)"
proof -
  have "(of_int (d_frac x + 2 ^ 52) :: real) = of_int m * 2 powi int k"
    unfolding assms(2) by (simp add: power_int_of_nat)
  then have "dval x = (if d_sign x then - 1 else 1) * (of_int m * 2 powi int k) * 2 powi (d_exp x - 1075)"
    using assms(1) by (simp add: dval_def d_ssig_def d_sig_def d_scale_def)
  also have "\<dots> = (if d_sign x then - 1 else 1) * of_int m * 2 powi (d_exp x - 1075 + int k)"
    using power_int_add [of "2::real" "d_exp x - 1075" "int k"] by simp
  finally show ?thesis .
qed

lemma d_normal_finite: "d_normal v \<Longrightarrow> \<not> d_nan v \<and> \<not> d_inf v"
  by (simp add: d_normal_def d_nan_def d_inf_def)

lemma fe_round_feraise [simp]: "fe_round (feraise x env) = fe_round env"
  by (simp add: feraise_def)

section \<open>Rounding and the addition of a unit\<close>

lemma round_up_exact: "\<not> round_up r s sig 0 k False"
  by (cases r) (simp_all add: round_up_def)

lemma round_at_near:
  fixes r s m e q
  assumes "e \<le> q"
  defines "n \<equiv> fst (round_at r s m e False q)"
  shows "m < (n + 1) * 2 ^ nat (q - e)" "n * 2 ^ nat (q - e) < m + 2 ^ nat (q - e)"
proof -
  define P :: int where "P = 2 ^ nat (q - e)"
  have P: "0 < P" "0 \<le> m mod P" "m mod P < P" by (simp_all add: P_def)
  obtain g where g: "g = m div P * P" and eq: "m = g + m mod P" by simp
  define t where "t = m mod P"
  have t: "m = g + t" "0 \<le> t" "t < P" using P eq by (simp_all add: t_def)
  have z: "\<not> round_up r s (m div P) (m mod P) (nat (q - e)) False" if "m mod P = 0" unfolding that by (rule round_up_exact)
  have "n = m div P \<or> n = m div P + 1 \<and> m mod P \<noteq> 0"
  proof (cases "q = e")
    case True
    then show ?thesis by (simp add: n_def round_at_def P_def)
  next
    case False
    then have "n = (if round_up r s (m div P) (m mod P) (nat (q - e)) False then m div P + 1 else m div P)"
      using assms(1) by (simp add: n_def round_at_def P_def Let_def)
    then show ?thesis using z by auto
  qed
  then have "m < (n + 1) * P \<and> n * P < m + P"
  proof
    assume "n = m div P"
    then have e: "(n + 1) * P = g + P" "n * P = g" by (simp_all add: distrib_right g)
    show ?thesis unfolding e t(1) using t(2,3) by linarith
  next
    assume n: "n = m div P + 1 \<and> m mod P \<noteq> 0"
    then have e: "(n + 1) * P = g + 2 * P" "n * P = g + P" and "t \<noteq> 0" by (simp_all add: distrib_right g t_def)
    show ?thesis unfolding e t(1) using t(2,3) \<open>t \<noteq> 0\<close> by linarith
  qed
  then show "m < (n + 1) * 2 ^ nat (q - e)" "n * 2 ^ nat (q - e) < m + 2 ^ nat (q - e)" by (simp_all add: P_def)
qed

lemma bitlen_unique: "2 ^ n \<le> m \<Longrightarrow> m < 2 ^ (n + 1) \<Longrightarrow> bitlen m = int n + 1"
proof -
  assume a: "2 ^ n \<le> m" "m < 2 ^ (n + 1)"
  have m: "0 < m" using less_le_trans [OF zero_less_power a(1)] by simp
  show ?thesis
  proof (rule antisym)
    show "bitlen m \<le> int n + 1" using bitlen_le_iff_power [of m "int n + 1"] a(2) by (simp add: nat_add_distrib)
    show "int n + 1 \<le> bitlen m"
    proof (rule ccontr)
      assume "\<not> ?thesis"
      then have "bitlen m \<le> int n" by simp
      then show False using bitlen_le_iff_power [of m "int n"] a(1) by simp
    qed
  qed
qed

lemma uint_d_pack: "0 \<le> mag \<Longrightarrow> mag < 2 ^ 63 \<Longrightarrow> uint (d_pack s mag) = of_bool s * 2 ^ 63 + mag"
proof -
  assume a: "0 \<le> mag" "mag < 2 ^ 63"
  define w :: u64 where "w = word_of_int mag"
  have u: "uint w = mag" using a by (simp add: w_def uint_word_of_int_eq take_bit_int_eq_self)
  have nb: "\<not> bit w n" if "63 \<le> n" for n
  proof -
    have "(2::int) ^ 63 \<le> 2 ^ n" using that by (intro power_increasing) simp_all
    then have "uint w div 2 ^ n = 0" using a u by (intro div_pos_pos_trivial) simp_all
    then show ?thesis unfolding odd_div_uint by simp
  qed
  have "0x8000000000000000 OR w = w + 0x8000000000000000"
  proof (subst disjunctive_add_eq_or)
    have b: "bit (0x8000000000000000 :: u64) n \<longleftrightarrow> n = 63" for n
    proof -
      have "(0x8000000000000000 :: u64) = 2 ^ 63" by simp
      then show ?thesis unfolding \<open>_ = 2 ^ 63\<close> bit_exp_iff by auto
    qed
    show "w AND 0x8000000000000000 = 0" by (rule bit_word_eqI) (unfold bit_and_iff b, use nb [of 63] in auto)
  qed (simp add: or.commute)
  then have "d_pack s mag = word_of_int (of_bool s * 2 ^ 63 + mag)"
    by (cases s) (simp_all add: d_pack_def w_def)
  moreover have "take_bit 64 (of_bool s * 2 ^ 63 + mag) = of_bool s * 2 ^ 63 + mag"
    using a by (cases s) (simp_all add: take_bit_int_eq_self)
  ultimately show ?thesis by (simp only: uint_word_of_int_eq) simp
qed

text \<open>A rounding whose result is a normal number.\<close>

lemma d_round_normal:
  fixes r s m e qd
  defines "n \<equiv> fst (round_at r s m e False qd)" and "x \<equiv> fst (d_round r s m e False)"
  assumes "qd = e + bitlen m - 53" "- 1074 \<le> qd" "qd < 971" "2 ^ 52 \<le> n" "n < 2 ^ 53"
  shows "d_normal x" "d_sign x = s" "d_sig x = n" "d_scale x = qd"
proof -
  define mag where "mag = (qd + 1074) * 2 ^ 52 + n"
  have q: "max (e + bitlen m - 53) (- 1074) = qd" using assms(3,4) by simp
  have mag: "mag < 2047 * 2 ^ 52" "0 \<le> mag" "mag = (qd + 1075) * 2 ^ 52 + (n - 2 ^ 52)"
    using assms(4-) by (simp_all add: mag_def)
  have "x = d_pack s mag"
    using mag(1) unfolding x_def d_round_def Let_def q by (simp add: split_beta mag_def n_def)
  then have "uint x = of_bool s * 2 ^ 63 + (qd + 1075) * 2 ^ 52 + (n - 2 ^ 52)"
    using mag uint_d_pack [of mag s] by simp
  note X = fieldsI [OF this]
  have "d_sign x = s" "d_exp x = qd + 1075" "d_frac x = n - 2 ^ 52" using X assms(4-) by simp_all
  then show "d_normal x" "d_sign x = s" "d_sig x = n" "d_scale x = qd"
    using assms(4,5) by (simp_all add: d_normal_def d_sig_def d_scale_def)
qed

lemma scaled_add_unit:
  "scaled_add m sc (2 ^ 52) (sc + int k - 52) = ((m + 2 ^ k) * 2 ^ (52 - k), sc - int (52 - k))"
proof (cases "k \<le> 52")
  case True
  have "nat (sc - (sc + int k - 52)) = 52 - k" by simp
  moreover have "(2::int) ^ 52 = 2 ^ k * 2 ^ (52 - k)" by (rule pow_diff [OF True])
  ultimately show ?thesis using True by (simp add: scaled_add_def Let_def distrib_right of_nat_diff)
next
  case False
  have "nat (sc + int k - 52 - sc) = k - 52" by simp
  moreover have "(2::int) ^ k = 2 ^ 52 * 2 ^ (k - 52)" using False by (intro pow_diff) simp
  ultimately show ?thesis using False by (simp add: scaled_add_def Let_def)
qed

lemma scaled_add_neg: "scaled_add (- m) e (- n) f = (case scaled_add m e n f of (x, y) \<Rightarrow> (- x, y))"
  by (simp add: scaled_add_def Let_def)

lemma add_unit:
  assumes "d_normal v" "d_normal w" "d_ssig w = (if d_sign v then - (2 ^ 52) else 2 ^ 52)" "d_scale w = d_scale v + int k - 52"
  shows "fst (d_add r v w) = fst (d_round r (d_sign v) ((d_sig v + 2 ^ k) * 2 ^ (52 - k)) (d_scale v - int (52 - k)) False)"
proof -
  define m where "m = (d_sig v + 2 ^ k) * 2 ^ (52 - k)"
  have p: "0 < m" unfolding m_def using d_sig_normal(3) [OF assms(1)] by (intro mult_pos_pos add_pos_pos) simp_all
  have s: "scaled_add (d_ssig v) (d_scale v) (d_ssig w) (d_scale w) =
     ((if d_sign v then - m else m), d_scale v - int (52 - k))"
    unfolding assms(3,4) d_ssig_def [of v] m_def by (cases "d_sign v") (simp_all only: if_True if_False scaled_add_neg scaled_add_unit, simp_all)
  show ?thesis
    using p d_normal_finite [OF assms(1)] d_normal_finite [OF assms(2)] unfolding d_add_def s m_def [symmetric]
    by (cases "d_sign v") (simp_all add: round_sum_def)
qed

text \<open>What the addition of a unit gives, in the three ranges of the cut.\<close>

lemma add_unit_sig:
  fixes r :: rmode
  assumes "d_normal v" "d_scale v + int k \<le> 511" "- 541 \<le> d_scale v + int k" "k \<le> 52 \<or> d_sig v \<noteq> 2 ^ 53 - 1"
  defines "T \<equiv> d_sig v + 2 ^ k"
  defines "x \<equiv> fst (d_round r (d_sign v) (T * 2 ^ (52 - k)) (d_scale v - int (52 - k)) False)"
  shows "d_normal x" "d_sign x = d_sign v"
    "k \<le> 52 \<Longrightarrow> T < 2 ^ 53 \<Longrightarrow> d_sig x = T \<and> d_scale x = d_scale v"
    "k \<le> 52 \<Longrightarrow> 2 ^ 53 \<le> T \<Longrightarrow> T < 2 * (d_sig x + 1) \<and> 2 * d_sig x < T + 2 \<and> d_scale x = d_scale v + 1"
    "53 \<le> k \<Longrightarrow> d_scale x = d_scale v + int k - 52"
proof -
  define j where "j = 52 - k"
  define e where "e = d_scale v - int j"
  define m where "m = T * 2 ^ j"
  note S = d_sig_normal [OF assms(1)]
  have sc: "- 1074 \<le> d_scale v" "d_scale v < 971" using assms(1,2) by (auto simp: d_normal_def d_scale_def)
  have x: "x = fst (d_round r (d_sign v) m e False)" by (simp add: x_def m_def e_def j_def)
  have goal: "d_normal x \<and> d_sign x = d_sign v \<and> (k \<le> 52 \<longrightarrow> T < 2 ^ 53 \<longrightarrow> d_sig x = T \<and> d_scale x = d_scale v) \<and>
    (k \<le> 52 \<longrightarrow> 2 ^ 53 \<le> T \<longrightarrow> T < 2 * (d_sig x + 1) \<and> 2 * d_sig x < T + 2 \<and> d_scale x = d_scale v + 1) \<and>
    (53 \<le> k \<longrightarrow> d_scale x = d_scale v + int k - 52)"
  proof (cases "k \<le> 52")
    case True
    have kb: "(2::int) ^ k \<le> 2 ^ 52" "(0::int) < 2 ^ k" by (rule power_increasing [OF True]) simp_all
    have T: "2 ^ 52 \<le> T" "T < 2 ^ 54" using S kb by (simp_all add: T_def)
    show ?thesis
    proof (cases "T < 2 ^ 53")
      case lt: True
      have bl: "bitlen m = 53 + int j" using bitlen_unique [of 52 T] T lt by (simp add: m_def)
      let ?n = "fst (round_at r (d_sign v) m e False (d_scale v))"
      have "e \<le> d_scale v" "nat (d_scale v - e) = j" by (simp_all add: e_def)
      note R = round_at_near [OF this(1), where r = r and s = "d_sign v" and m = m, unfolded this(2)]
      have "T * 2 ^ j < (?n + 1) * 2 ^ j" "?n * 2 ^ j < (T + 1) * 2 ^ j" using R by (simp_all add: m_def distrib_right)
      then have n: "?n = T" by (simp add: mult_less_cancel_right)
      have q: "d_scale v = e + bitlen m - 53" by (simp add: bl e_def)
      show ?thesis
        using d_round_normal [OF q, of r "d_sign v"] sc T lt True unfolding n x [symmetric] by simp
    next
      case ge: False
      have bl: "bitlen m = 54 + int j" using bitlen_unique [of 53 T] T ge by (simp add: m_def)
      define n where "n = fst (round_at r (d_sign v) m e False (d_scale v + 1))"
      have "e \<le> d_scale v + 1" "nat (d_scale v + 1 - e) = Suc j" by (simp_all add: e_def)
      note R = round_at_near [OF this(1), where r = r and s = "d_sign v" and m = m, unfolded this(2), folded n_def]
      have "T * 2 ^ j < 2 * (n + 1) * 2 ^ j" "2 * n * 2 ^ j < (T + 2) * 2 ^ j"
        using R by (simp_all add: m_def distrib_right mult.assoc mult.left_commute)
      then have n: "T < 2 * (n + 1)" "2 * n < T + 2" by (simp_all add: mult_less_cancel_right)
      have nb: "2 ^ 52 \<le> n" "n < 2 ^ 53" using n T ge S kb unfolding T_def by simp_all
      have q: "d_scale v + 1 = e + bitlen m - 53" by (simp add: bl e_def)
      have "d_scale v + 1 < 971" using assms(2) by auto
      then show ?thesis
        using d_round_normal [OF q, of r "d_sign v"] sc ge n nb True unfolding n_def [symmetric] x [symmetric] by simp
    qed
  next
    case False
    define i where "i = k - 52"
    have i: "1 \<le> i" "k = 52 + i" "j = 0" using False by (simp_all add: i_def j_def)
    have i2: "(2::int) \<le> 2 ^ i" using power_increasing [of 1 i "2::int"] i by simp
    have Tm: "T = d_sig v + 2 ^ 52 * 2 ^ i" "m = T" using i by (simp_all add: T_def m_def power_add)
    have S2: "d_sig v \<le> 2 ^ 53 - 2" using assms(4) False S by auto
    have k53: "(2::int) ^ 53 \<le> 2 ^ k" using False by (intro power_increasing) simp_all
    have bl: "bitlen m = int k + 1"
      unfolding Tm(2) T_def using k53 S(2,3) by (intro bitlen_unique) simp_all
    define qd where "qd = d_scale v + int k - 52"
    define n where "n = fst (round_at r (d_sign v) m e False qd)"
    have e: "e = d_scale v" using i by (simp add: e_def)
    have "e \<le> qd" "nat (qd - e) = i" using i by (simp_all add: e qd_def)
    note R = round_at_near [OF this(1), where r = r and s = "d_sign v" and m = m, unfolded this(2), folded n_def]
    have "0 < d_sig v" using S(3) by simp
    then have "2 ^ 52 * 2 ^ i < (n + 1) * 2 ^ i" by (intro less_trans [OF _ R(1) [unfolded Tm]]) simp
    then have "2 ^ 52 < n + 1" by (simp only: mult_less_cancel_right_pos [OF zero_less_power [OF zero_less_numeral]])
    then have n1: "2 ^ 52 \<le> n" by simp
    have "(2 ^ 52 - 1) * 2 \<le> (2 ^ 52 - 1) * (2 :: int) ^ i" using i2 by (intro mult_left_mono) simp_all
    then have "d_sig v + 2 ^ i \<le> 2 ^ 52 * 2 ^ i" using S2 by simp
    then have "n * 2 ^ i < 2 ^ 53 * 2 ^ i" by (intro less_le_trans [OF R(2) [unfolded Tm]]) simp
    then have n2: "n < 2 ^ 53" by (simp only: mult_less_cancel_right_pos [OF zero_less_power [OF zero_less_numeral]])
    have q: "qd = e + bitlen m - 53" by (simp add: bl e qd_def)
    show ?thesis
      using d_round_normal [OF q, of r "d_sign v"] assms(2,3) n1 n2 False unfolding n_def [symmetric] x [symmetric]
      by (simp add: qd_def)
  qed
  then show "d_normal x" "d_sign x = d_sign v"
    "k \<le> 52 \<Longrightarrow> T < 2 ^ 53 \<Longrightarrow> d_sig x = T \<and> d_scale x = d_scale v"
    "k \<le> 52 \<Longrightarrow> 2 ^ 53 \<le> T \<Longrightarrow> T < 2 * (d_sig x + 1) \<and> 2 * d_sig x < T + 2 \<and> d_scale x = d_scale v + 1"
    "53 \<le> k \<Longrightarrow> d_scale x = d_scale v + int k - 52"
    by blast+
qed

section \<open>The order of the patterns is the order of the numbers\<close>

lemma d_key_mag: "d_key x = (if d_sign x then - d_mag x else d_mag x)"
proof -
  have m: "(0x7FFFFFFFFFFFFFFF :: u64) = mask 63" by (simp add: mask_eq_exp_minus_1)
  have "uint x = of_bool (d_sign x) * 2 ^ 63 + d_mag x" unfolding fields_uint [of x] d_mag_def by simp
  moreover have "0 \<le> d_mag x" "d_mag x < 2 ^ 63" using fields_bounds [of x] by (simp_all add: d_mag_def)
  ultimately have "uint x mod 2 ^ 63 = d_mag x" by (simp only: mod_mult_self3 mod_pos_pos_trivial)
  then show ?thesis unfolding d_key_def m uint_and_mask by simp
qed

lemma dval_abs: "dval x = (if d_sign x then - d_abs x else d_abs x)"
  by (simp add: dval_def d_abs_def d_ssig_def)

lemma d_mag_less: "d_mag x < d_mag y \<Longrightarrow> d_abs x < d_abs y"
proof -
  assume l: "d_mag x < d_mag y"
  note X = fields_bounds [of x] and Y = fields_bounds [of y]
  have "d_exp x \<le> d_exp y"
  proof (rule ccontr)
    assume "\<not> ?thesis"
    then have "(d_exp y + 1) * 2 ^ 52 \<le> d_exp x * 2 ^ 52" by (intro mult_right_mono) simp_all
    then show False using l X Y by (simp add: d_mag_def)
  qed
  then consider (eq) "d_exp x = d_exp y" | (low) "d_exp x = 0" "d_exp y = 1" | (up) "d_exp x < d_exp y" "2 \<le> d_exp y" using X Y by linarith
  then show ?thesis
  proof cases
    case eq
    then have "d_frac x < d_frac y" using l by (simp add: d_mag_def)
    then show ?thesis using eq by (simp add: d_abs_def d_sig_def d_scale_def)
  next
    case low
    then show ?thesis using X Y by (simp add: d_abs_def d_sig_def d_scale_def)
  next
    case up
    then have sc: "d_scale x + 1 \<le> d_scale y" by (simp add: d_scale_def)
    have sx: "of_int (d_sig x) < (2 ^ 53 :: real)" using X by (simp add: d_sig_def)
    have sy: "(2 ^ 52 :: real) \<le> of_int (d_sig y)" using Y up by (simp add: d_sig_def)
    have "d_abs x < 2 ^ 53 * 2 powi d_scale x" unfolding d_abs_def using sx by (intro mult_strict_right_mono) simp_all
    also have "\<dots> = 2 ^ 52 * 2 powi (d_scale x + 1)" by (simp add: power_int_add)
    also have "\<dots> \<le> 2 ^ 52 * 2 powi d_scale y" using sc by (intro mult_left_mono power_int_increasing) simp_all
    also have "\<dots> \<le> d_abs y" unfolding d_abs_def using sy by (intro mult_right_mono) simp_all
    finally show ?thesis .
  qed
qed

lemma d_mag_abs: "d_mag x < d_mag y \<longleftrightarrow> d_abs x < d_abs y" "d_mag x = d_mag y \<longleftrightarrow> d_abs x = d_abs y"
proof -
  have eq: "d_abs x = d_abs y" if "d_mag x = d_mag y"
  proof -
    note X = fields_bounds [of x] and Y = fields_bounds [of y]
    have "d_mag z mod 2 ^ 52 = d_frac z" for z
      unfolding d_mag_def mod_mult_self3 using fields_bounds [of z] by (intro mod_pos_pos_trivial)
    then have "d_frac x = d_frac y" using that by metis
    then have "d_exp x = d_exp y" using that by (simp add: d_mag_def)
    with \<open>d_frac x = d_frac y\<close> show ?thesis by (simp add: d_abs_def d_sig_def d_scale_def)
  qed
  then show "d_mag x < d_mag y \<longleftrightarrow> d_abs x < d_abs y" "d_mag x = d_mag y \<longleftrightarrow> d_abs x = d_abs y"
    using d_mag_less [of x y] d_mag_less [of y x] by (metis less_irrefl linorder_neqE order_less_asym)+
qed

lemma d_mag_zero: "0 \<le> d_mag x" "0 \<le> d_abs x" "d_mag x = 0 \<longleftrightarrow> d_abs x = 0"
proof -
  note X = fields_bounds [of x]
  show "0 \<le> d_mag x" "0 \<le> d_abs x" using X by (simp_all add: d_mag_def d_abs_def d_sig_def)
  show "d_mag x = 0 \<longleftrightarrow> d_abs x = 0"
    using X by (auto simp: d_mag_def d_abs_def d_sig_def add_nonneg_eq_0_iff)
qed

lemma sign_order:
  fixes p q :: int and a b :: real
  assumes "p < q \<longleftrightarrow> a < b" "q < p \<longleftrightarrow> b < a" "0 \<le> p" "0 \<le> q" "0 \<le> a" "0 \<le> b" "p = 0 \<longleftrightarrow> a = 0" "q = 0 \<longleftrightarrow> b = 0"
  shows "(if s then - p else p) < (if t then - q else q) \<longleftrightarrow> (if s then - a else a) < (if t then - b else b)"
proof -
  have "0 < p \<longleftrightarrow> 0 < a" "0 < q \<longleftrightarrow> 0 < b" using assms(3-8) by linarith+
  moreover have "- p < q \<longleftrightarrow> 0 < p \<or> 0 < q" "- a < b \<longleftrightarrow> 0 < a \<or> 0 < b" "\<not> p < - q" "\<not> a < - b" using assms(3-6) by linarith+
  ultimately show ?thesis using assms(1,2) by (cases s; cases t) simp_all
qed

lemma d_compare:
  assumes "d_exp x \<noteq> 2047" "d_exp y \<noteq> 2047"
  shows "d_lt x y \<longleftrightarrow> dval x < dval y" "d_le x y \<longleftrightarrow> dval x \<le> dval y" "d_eq x y \<longleftrightarrow> dval x = dval y"
proof -
  have n: "\<not> d_nan x" "\<not> d_nan y" using assms by (simp_all add: d_nan_def)
  have l: "d_key u < d_key w \<longleftrightarrow> dval u < dval w" for u w
    unfolding d_key_mag dval_abs by (rule sign_order) (rule d_mag_abs d_mag_zero)+
  have "(d_key x < d_key y \<longleftrightarrow> dval x < dval y) \<and> (d_key x = d_key y \<longleftrightarrow> dval x = dval y)"
    using l [of x y] l [of y x] by (metis linorder_neqE order_less_irrefl)
  then show "d_lt x y \<longleftrightarrow> dval x < dval y" "d_le x y \<longleftrightarrow> dval x \<le> dval y" "d_eq x y \<longleftrightarrow> dval x = dval y"
    using n by (auto simp: d_lt_def d_le_def d_eq_def)
qed

end
