(* ===== verification/Flexfloat.thy ===== *)
theory Flexfloat
  imports Ieee_Double
begin

text \<open>
  The flexfloat library (\<^verbatim>\<open>models/cpu/iss/flexfloat/flexfloat.c\<close> and \<^verbatim>\<open>flexfloat.h\<close>, configured with
  \<^verbatim>\<open>FLEXFLOAT_ON_DOUBLE\<close> and \<^verbatim>\<open>FLEXFLOAT_FLAGS\<close>): floating-point numbers with any number of exponent and
  fraction bits, kept as a \<^verbatim>\<open>double\<close> of the same value. After every operation on doubles
  \<^verbatim>\<open>flexfloat_sanitize\<close> brings the result back to a value of the narrow format. The pointer arguments
  are values, \<^verbatim>\<open>int_fast16_t\<close>, 64 bits wide on the hosts, is \<open>int\<close>, and the floating-point environment
  is passed along. A failing assertion and a shift by an amount outside its type give \<open>None\<close>.
\<close>

section \<open>Formats and fields\<close>

record flexfloat_desc =
  exp_bits :: nat
  frac_bits :: nat

record flexfloat =
  ff_value :: u64
  ff_desc :: flexfloat_desc

definition INF_EXP :: int where "INF_EXP = 0x7FF"

definition BIAS :: int where "BIAS = 1023"

definition flexfloat_inf_exp :: "flexfloat_desc \<Rightarrow> int" where
  "flexfloat_inf_exp d = 2 ^ exp_bits d - 1"

definition flexfloat_bias :: "flexfloat_desc \<Rightarrow> int" where
  "flexfloat_bias d = 2 ^ (exp_bits d - 1) - 1"

definition flexfloat_sign :: "flexfloat \<Rightarrow> bool" where
  "flexfloat_sign a = d_sign (ff_value a)"

definition PACK :: "bool \<Rightarrow> int \<Rightarrow> u64 \<Rightarrow> u64" where
  "PACK sign ex sig = push_bit 63 (of_bool sign) + push_bit 52 (word_of_int ex) + sig"

definition flexfloat_exp :: "flexfloat \<Rightarrow> int" where
  "flexfloat_exp a =
     (let a_exp = d_exp (ff_value a); bias = flexfloat_bias (ff_desc a)
      in if a_exp = 0 \<or> a_exp = INF_EXP then a_exp else (a_exp - BIAS) + bias)"

definition flexfloat_frac :: "flexfloat \<Rightarrow> u64" where
  "flexfloat_frac a = drop_bit (52 - frac_bits (ff_desc a)) (ff_value a AND 0xFFFFFFFFFFFFF)"

text \<open>The shift amount is an \<^verbatim>\<open>unsigned short\<close>.\<close>

definition denorm_shift :: "flexfloat \<Rightarrow> int \<Rightarrow> int" where
  "denorm_shift a ex = (52 - int (frac_bits (ff_desc a)) - ex + 1) mod 2 ^ 16"

definition full_frac :: "flexfloat \<Rightarrow> u64" where
  "full_frac a = (ff_value a AND 0xFFFFFFFFFFFFF) OR 0x10000000000000"

definition flexfloat_denorm_frac :: "flexfloat \<Rightarrow> int \<Rightarrow> u64" where
  "flexfloat_denorm_frac a ex =
     (if d_exp (ff_value a) = 0 then
        drop_bit (52 - frac_bits (ff_desc a)) (ff_value a AND 0xFFFFFFFFFFFFF)
      else let shift = denorm_shift a ex
           in if shift \<ge> 64 then 0 else drop_bit (nat shift) (full_frac a))"

definition flexfloat_pack :: "flexfloat_desc \<Rightarrow> bool \<Rightarrow> int \<Rightarrow> u64 \<Rightarrow> u64" where
  "flexfloat_pack d sign ex fr =
     (let ex' = (if ex = flexfloat_inf_exp d then INF_EXP else (ex - flexfloat_bias d) + BIAS)
      in PACK sign ex' (push_bit (52 - frac_bits d) fr))"

definition flexfloat_denorm_pack :: "flexfloat_desc \<Rightarrow> bool \<Rightarrow> u64 \<Rightarrow> u64" where
  "flexfloat_denorm_pack d sign fr = PACK sign 0 (push_bit (52 - frac_bits d) fr)"

section \<open>Bit patterns of the format\<close>

text \<open>\<^verbatim>\<open>while (frac && !((frac <<= 1) & (1 << frac_bits))) exp--;\<close>\<close>

function normalize :: "nat \<Rightarrow> u64 \<Rightarrow> int \<Rightarrow> u64 \<times> int" where
  "normalize f fr ex =
     (if fr = 0 then (fr, ex)
      else let fr' = push_bit 1 fr
           in if bit fr' f then (fr', ex) else normalize f fr' (ex - 1))"
  by pat_completeness auto
termination
proof (relation "measure (\<lambda>(f, fr, ex). 64 - (LEAST i. 64 \<le> i \<or> bit fr i))", goal_cases)
  case (2 f fr ex fr')
  let ?P = "\<lambda>x i. 64 \<le> i \<or> bit (x :: u64) i"
  let ?l = "LEAST i. ?P fr i" and ?l' = "LEAST i. ?P fr' i"
  have "\<exists>i. bit fr i" using 2(1) by (metis bit_eqI bit_0_eq bot_apply bot_bool_def)
  then obtain i where "i < 64" "?P fr i" using bit_imp_le_length by fastforce
  then have l: "?l < 64" using Least_le [of "?P fr" i] by linarith
  have "?P fr' ?l'" by (rule LeastI [of _ 64]) simp
  moreover have "?l < ?l'" if "?l' < 64"
  proof -
    have s: "bit fr' i \<longleftrightarrow> 0 < i \<and> i < 64 \<and> bit fr (i - 1)" for i
      unfolding 2(2) bit_push_bit_iff by (auto simp: Suc_le_eq)
    have "bit fr' ?l'" using \<open>?P fr' ?l'\<close> that by simp
    then have "0 < ?l'" "bit fr (?l' - 1)" unfolding s by simp_all
    then have "?l \<le> ?l' - 1" by (intro Least_le) simp
    with \<open>0 < ?l'\<close> show ?thesis by linarith
  qed
  ultimately show ?case using l by (cases "?l' < 64") auto
qed simp

declare normalize.simps [simp del]

definition flexfloat_pack_bits :: "flexfloat_desc \<Rightarrow> u64 \<Rightarrow> u64" where
  "flexfloat_pack_bits d bits =
     (let sign = bit bits (exp_bits d + frac_bits d);
          ex = uint (drop_bit (frac_bits d) bits AND mask (exp_bits d));
          fr = bits AND mask (frac_bits d)
      in if ex = 0 \<and> fr = 0 then PACK sign 0 0
         else if ex \<le> 0 then
           let (fr', ex') = normalize (frac_bits d) fr ex
           in flexfloat_pack d sign ex' (fr' AND mask (frac_bits d))
         else flexfloat_pack d sign ex fr)"

definition flexfloat_set_bits :: "flexfloat \<Rightarrow> u64 \<Rightarrow> flexfloat" where
  "flexfloat_set_bits a bits = a\<lparr>ff_value := flexfloat_pack_bits (ff_desc a) bits\<rparr>"

text \<open>\<^verbatim>\<open>1 << n\<close> on \<^verbatim>\<open>int\<close>, converted to \<^verbatim>\<open>uint64_t\<close>.\<close>

definition int_bit :: "int \<Rightarrow> u64 option" where
  "int_bit n = (if 0 \<le> n \<and> n < 31 then Some (push_bit (nat n) 1) else None)"

definition ff_word :: "flexfloat_desc \<Rightarrow> bool \<Rightarrow> int \<Rightarrow> u64 \<Rightarrow> u64" where
  "ff_word d s ex fr =
     (let w = exp_bits d + frac_bits d
      in (push_bit w (of_bool s) + push_bit (frac_bits d) (word_of_int ex) + fr) OR
         (if s then push_bit w (- 1) else 0))"

definition flexfloat_get_bits :: "flexfloat \<Rightarrow> u64 option" where
  "flexfloat_get_bits a =
     (let d = ff_desc a; f = int (frac_bits d);
          ex = flexfloat_exp a; fr = flexfloat_frac a; fin = ff_word d (flexfloat_sign a)
      in if ex = INF_EXP then Some (fin (flexfloat_inf_exp d) fr)
         else if ex < 0 \<and> fr = 0 then
           if f - ex - 1 \<ge> 0 then map_option (fin 0) (int_bit (f + ex - 1)) else Some (fin 0 0)
         else if ex \<le> 0 then Some (fin 0 (flexfloat_denorm_frac a ex))
         else Some (fin ex fr))"

section \<open>Rounding to the format\<close>

definition flexfloat_round_bit :: "flexfloat \<Rightarrow> int \<Rightarrow> bool" where
  "flexfloat_round_bit a ex =
     (if ex \<le> 0 \<and> d_exp (ff_value a) \<noteq> 0 then
        let shift = denorm_shift a ex
        in if shift \<ge> 64 then False else bit (full_frac a) (nat (shift - 1))
      else bit (ff_value a) (52 - frac_bits (ff_desc a) - 1))"

definition flexfloat_sticky_bit :: "flexfloat \<Rightarrow> int \<Rightarrow> bool" where
  "flexfloat_sticky_bit a ex =
     (if ex \<le> 0 \<and> d_exp (ff_value a) \<noteq> 0 then
        let shift = denorm_shift a ex
        in if shift \<ge> 64 then False else full_frac a AND (push_bit (nat (shift - 1)) 1 - 1) \<noteq> 0
      else ff_value a AND drop_bit (frac_bits (ff_desc a) + 1) 0xFFFFFFFFFFFFF \<noteq> 0)"

definition flexfloat_nearest_rounding :: "flexfloat \<Rightarrow> int \<Rightarrow> bool" where
  "flexfloat_nearest_rounding a ex =
     (if flexfloat_round_bit a ex then
        if flexfloat_sticky_bit a ex then True
        else if ex \<le> 0 then bit (flexfloat_denorm_frac a ex) 0
        else bit (flexfloat_frac a) 0
      else False)"

definition flexfloat_inf_rounding :: "flexfloat \<Rightarrow> int \<Rightarrow> bool \<Rightarrow> bool \<Rightarrow> bool" where
  "flexfloat_inf_rounding a ex sign up =
     (if flexfloat_round_bit a ex \<or> flexfloat_sticky_bit a ex then up \<noteq> sign else False)"

definition flexfloat_rounding_value :: "flexfloat \<Rightarrow> int \<Rightarrow> bool \<Rightarrow> u64" where
  "flexfloat_rounding_value a ex sign =
     (let d = ff_desc a; f = int (frac_bits d) in
      if d_exp (ff_value a) = 0 then flexfloat_denorm_pack d sign 1
      else if ex \<le> 0 then flexfloat_pack d sign (- f + 1) 0
      else flexfloat_pack d sign (ex - f) 0)"

text \<open>The rounding decision of \<^verbatim>\<open>flexfloat_sanitize\<close>, the \<^verbatim>\<open>switch\<close> on the rounding mode.\<close>

definition sanitize_up :: "rmode \<Rightarrow> flexfloat \<Rightarrow> int \<Rightarrow> bool \<Rightarrow> bool" where
  "sanitize_up mode a ex sign =
     (case mode of
        FE_TONEAREST \<Rightarrow> flexfloat_nearest_rounding a ex
      | FE_UPWARD \<Rightarrow> flexfloat_inf_rounding a ex sign True
      | FE_DOWNWARD \<Rightarrow> flexfloat_inf_rounding a ex sign False
      | FE_TOWARDZERO \<Rightarrow> False)"

text \<open>The rounding step of \<^verbatim>\<open>flexfloat_sanitize\<close>: the inexact flag, then the addition of one unit in the
  last place, whose own flags are thrown away.\<close>

definition sanitize_round :: "flexfloat \<Rightarrow> int \<Rightarrow> bool \<Rightarrow> fenv \<Rightarrow> flexfloat \<times> fenv" where
  "sanitize_round a ex sign env =
     (let env1 = (if flexfloat_round_bit a ex \<or> flexfloat_sticky_bit a ex
                  then feraise (no_except\<lparr>fe_inexact := True\<rparr>) env else env);
          mode = fe_round env1
      in (if sanitize_up mode a ex sign then a\<lparr>ff_value := fst (d_add mode (ff_value a) (flexfloat_rounding_value a ex sign))\<rparr> else a,
          env1))"

text \<open>The rest: the rounded value packed into the format.\<close>

definition sanitize_pack :: "flexfloat \<Rightarrow> int \<Rightarrow> bool \<Rightarrow> fenv \<Rightarrow> flexfloat \<times> fenv" where
  "sanitize_pack a ex sign env =
     (let d = ff_desc a; f = frac_bits d; inf_exp = flexfloat_inf_exp d; fr = flexfloat_frac a;
          over = no_except\<lparr>fe_inexact := True, fe_overflow := True\<rparr>;
          put = (\<lambda>v. a\<lparr>ff_value := v\<rparr>)
      in if d_exp (ff_value a) = 0 then (put (flexfloat_denorm_pack d sign fr), env)
         else if ex \<le> 0 then
           let env' = feraise (no_except\<lparr>fe_underflow := True\<rparr>) env;
               denorm = flexfloat_denorm_frac a ex
           in if denorm = 0 then (put (PACK sign 0 0), env')
              else
                let fr' = (if f < 52 then
                               if - ex + 1 < 52 then push_bit (nat (- ex + 1)) (drop_bit (nat (- ex + 1)) fr)
                               else 0
                             else fr)
                in (put (flexfloat_pack d sign ex fr'), env')
         else if ex = INF_EXP \<and> ff_value a AND 0xFFFFFFFFFFFFF \<noteq> 0 then
           (put (flexfloat_pack d False inf_exp (push_bit (f - 1) 1)), env)
         else if ex = INF_EXP then
           (put (flexfloat_pack d sign inf_exp fr),
            if fe_divbyzero (fe_flags env) then env else feraise over env)
         else if ex \<ge> inf_exp then (put (flexfloat_pack d sign inf_exp 0), feraise over env)
         else (put (flexfloat_pack d sign ex fr), env))"

definition flexfloat_sanitize :: "flexfloat \<Rightarrow> fenv \<Rightarrow> flexfloat \<times> fenv" where
  "flexfloat_sanitize a env =
     (if exp_bits (ff_desc a) = 11 \<and> frac_bits (ff_desc a) = 52 then (a, env)
      else
        let sign = flexfloat_sign a; ex = flexfloat_exp a
        in if ex = INF_EXP \<or> frac_bits (ff_desc a) = 52 then sanitize_pack a ex sign env
           else case sanitize_round a ex sign env of
                  (a', env') \<Rightarrow> sanitize_pack a' (flexfloat_exp a') sign env')"

section \<open>Constructors\<close>

definition ff_init :: "flexfloat_desc \<Rightarrow> flexfloat" where
  "ff_init desc = \<lparr>ff_value = 0, ff_desc = desc\<rparr>"

definition ff_init_double :: "u64 \<Rightarrow> flexfloat_desc \<Rightarrow> fenv \<Rightarrow> flexfloat \<times> fenv" where
  "ff_init_double value desc env = flexfloat_sanitize \<lparr>ff_value = value, ff_desc = desc\<rparr> env"

text \<open>The assignment of a computed value, with the flags the computation raised, and the call of
  \<^verbatim>\<open>flexfloat_sanitize\<close> that follows it in every constructor and operation.\<close>

definition ff_store :: "flexfloat \<Rightarrow> u64 \<times> fexcept \<Rightarrow> fenv \<Rightarrow> flexfloat \<times> fenv" where
  "ff_store dest r env = flexfloat_sanitize (dest\<lparr>ff_value := fst r\<rparr>) (feraise (snd r) env)"

definition ff_init_int :: "u32 \<Rightarrow> flexfloat_desc \<Rightarrow> fenv \<Rightarrow> flexfloat \<times> fenv" where
  "ff_init_int value desc env = ff_store (ff_init desc) (d_of_int (fe_round env) (sint value)) env"

definition ff_init_long :: "u64 \<Rightarrow> flexfloat_desc \<Rightarrow> fenv \<Rightarrow> flexfloat \<times> fenv" where
  "ff_init_long value desc env = ff_store (ff_init desc) (d_of_int (fe_round env) (sint value)) env"

definition ff_cast :: "flexfloat \<Rightarrow> flexfloat_desc \<Rightarrow> fenv \<Rightarrow> flexfloat \<times> fenv" where
  "ff_cast source desc env =
     (let obj = \<lparr>ff_value = ff_value source, ff_desc = desc\<rparr>
      in if exp_bits desc \<noteq> exp_bits (ff_desc source) \<or> frac_bits desc \<noteq> frac_bits (ff_desc source)
         then flexfloat_sanitize obj env else (obj, env))"

definition ff_get_double :: "flexfloat \<Rightarrow> u64" where
  "ff_get_double obj = ff_value obj"

section \<open>Arithmetic\<close>

text \<open>The assertions at the head of the operations; \<open>None\<close> when one fails.\<close>

definition same_desc :: "flexfloat \<Rightarrow> flexfloat \<Rightarrow> bool" where
  "same_desc a b = (exp_bits (ff_desc a) = exp_bits (ff_desc b) \<and> frac_bits (ff_desc a) = frac_bits (ff_desc b))"

definition ff_inverse :: "flexfloat \<Rightarrow> flexfloat \<Rightarrow> flexfloat option" where
  "ff_inverse dest a = (if same_desc dest a then Some (dest\<lparr>ff_value := d_neg (ff_value a)\<rparr>) else None)"

definition ff_add :: "flexfloat \<Rightarrow> flexfloat \<Rightarrow> flexfloat \<Rightarrow> fenv \<Rightarrow> (flexfloat \<times> fenv) option" where
  "ff_add dest a b env =
     (if same_desc dest a \<and> same_desc a b
      then Some (ff_store dest (d_add (fe_round env) (ff_value a) (ff_value b)) env) else None)"

definition ff_sub :: "flexfloat \<Rightarrow> flexfloat \<Rightarrow> flexfloat \<Rightarrow> fenv \<Rightarrow> (flexfloat \<times> fenv) option" where
  "ff_sub dest a b env =
     (if same_desc dest a \<and> same_desc a b
      then Some (ff_store dest (d_sub (fe_round env) (ff_value a) (ff_value b)) env) else None)"

definition ff_mul :: "flexfloat \<Rightarrow> flexfloat \<Rightarrow> flexfloat \<Rightarrow> fenv \<Rightarrow> (flexfloat \<times> fenv) option" where
  "ff_mul dest a b env =
     (if same_desc dest a \<and> same_desc a b
      then Some (ff_store dest (d_mul (fe_round env) (ff_value a) (ff_value b)) env) else None)"

definition ff_div :: "flexfloat \<Rightarrow> flexfloat \<Rightarrow> flexfloat \<Rightarrow> fenv \<Rightarrow> (flexfloat \<times> fenv) option" where
  "ff_div dest a b env =
     (if same_desc dest a \<and> same_desc a b
      then Some (ff_store dest (d_div (fe_round env) (ff_value a) (ff_value b)) env) else None)"

definition ff_acc :: "flexfloat \<Rightarrow> flexfloat \<Rightarrow> fenv \<Rightarrow> (flexfloat \<times> fenv) option" where
  "ff_acc dest a env =
     (if same_desc dest a
      then Some (ff_store dest (d_add (fe_round env) (ff_value dest) (ff_value a)) env) else None)"

text \<open>The sign of a zero result is decided by hand.\<close>

definition ff_min :: "flexfloat \<Rightarrow> flexfloat \<Rightarrow> flexfloat \<Rightarrow> fenv \<Rightarrow> (flexfloat \<times> fenv) option" where
  "ff_min dest a b env =
     (if same_desc dest a \<and> same_desc a b
      then let r = d_fmin (ff_value a) (ff_value b);
               v = (if d_eq (ff_value a) 0 \<and> d_eq (ff_value a) (ff_value b)
                    then if flexfloat_sign a \<or> flexfloat_sign b then 0x8000000000000000 else 0
                    else fst r)
           in Some (ff_store dest (v, snd r) env)
      else None)"

definition ff_max :: "flexfloat \<Rightarrow> flexfloat \<Rightarrow> flexfloat \<Rightarrow> fenv \<Rightarrow> (flexfloat \<times> fenv) option" where
  "ff_max dest a b env =
     (if same_desc dest a \<and> same_desc a b
      then let r = d_fmax (ff_value a) (ff_value b);
               v = (if d_eq (ff_value a) 0 \<and> d_eq (ff_value a) (ff_value b)
                    then if flexfloat_sign a \<and> flexfloat_sign b then 0x8000000000000000 else 0
                    else fst r)
           in Some (ff_store dest (v, snd r) env)
      else None)"

text \<open>In nearest mode a sum of equal signs is first rounded away from zero, in a direction found by a
  first evaluation whose flags are thrown away; the mode is nearest again when \<^verbatim>\<open>flexfloat_sanitize\<close>
  rounds to the format.\<close>

definition fma_mode :: "flexfloat \<Rightarrow> flexfloat \<Rightarrow> flexfloat \<Rightarrow> rmode \<Rightarrow> rmode \<Rightarrow> rmode" where
  "fma_mode a b c trunc mode =
     (let eff_sub = ((flexfloat_sign a \<noteq> flexfloat_sign b) \<noteq> flexfloat_sign c)
      in if frac_bits (ff_desc a) < 52 \<and> mode = FE_TONEAREST then
           if \<not> eff_sub then
             if d_le 0 (fst (d_fma mode (ff_value a) (ff_value b) (ff_value c))) then FE_UPWARD else FE_DOWNWARD
           else trunc
         else mode)"

definition ff_fma :: "flexfloat \<Rightarrow> flexfloat \<Rightarrow> flexfloat \<Rightarrow> flexfloat \<Rightarrow> fenv \<Rightarrow> (flexfloat \<times> fenv) option" where
  "ff_fma dest a b c env =
     (if same_desc dest a \<and> same_desc a b \<and> same_desc b c
      then let mode = fma_mode a b c (fe_round env) (fe_round env)
           in Some (ff_store dest (d_fma mode (ff_value a) (ff_value b) (ff_value c)) env)
      else None)"

definition ff_fnma :: "flexfloat \<Rightarrow> flexfloat \<Rightarrow> flexfloat \<Rightarrow> flexfloat \<Rightarrow> fenv \<Rightarrow> (flexfloat \<times> fenv) option" where
  "ff_fnma dest a b c env =
     (if same_desc dest a \<and> same_desc a b \<and> same_desc b c
      then let mode = fma_mode a b c FE_TOWARDZERO (fe_round env);
               p = d_mul mode (ff_value a) (ff_value b);
               r = d_sub mode (d_neg (fst p)) (ff_value c)
           in Some (ff_store dest (fst r, fe_or (snd p) (snd r)) env)
      else None)"

section \<open>Comparison\<close>

definition ff_eq :: "flexfloat \<Rightarrow> flexfloat \<Rightarrow> fenv \<Rightarrow> (bool \<times> fenv) option" where
  "ff_eq a b env =
     (if same_desc a b
      then Some (d_eq (ff_value a) (ff_value b), feraise (eq_flags (ff_value a) (ff_value b)) env) else None)"

definition ff_neq :: "flexfloat \<Rightarrow> flexfloat \<Rightarrow> fenv \<Rightarrow> (bool \<times> fenv) option" where
  "ff_neq a b env =
     (if same_desc a b
      then Some (\<not> d_eq (ff_value a) (ff_value b), feraise (eq_flags (ff_value a) (ff_value b)) env) else None)"

definition ff_le :: "flexfloat \<Rightarrow> flexfloat \<Rightarrow> fenv \<Rightarrow> (bool \<times> fenv) option" where
  "ff_le a b env =
     (if same_desc a b
      then Some (d_le (ff_value a) (ff_value b), feraise (cmp_flags (ff_value a) (ff_value b)) env) else None)"

definition ff_lt :: "flexfloat \<Rightarrow> flexfloat \<Rightarrow> fenv \<Rightarrow> (bool \<times> fenv) option" where
  "ff_lt a b env =
     (if same_desc a b
      then Some (d_lt (ff_value a) (ff_value b), feraise (cmp_flags (ff_value a) (ff_value b)) env) else None)"

definition ff_ge :: "flexfloat \<Rightarrow> flexfloat \<Rightarrow> fenv \<Rightarrow> (bool \<times> fenv) option" where
  "ff_ge a b env =
     (if same_desc a b
      then Some (d_le (ff_value b) (ff_value a), feraise (cmp_flags (ff_value a) (ff_value b)) env) else None)"

definition ff_gt :: "flexfloat \<Rightarrow> flexfloat \<Rightarrow> fenv \<Rightarrow> (bool \<times> fenv) option" where
  "ff_gt a b env =
     (if same_desc a b
      then Some (d_lt (ff_value b) (ff_value a), feraise (cmp_flags (ff_value a) (ff_value b)) env) else None)"

section \<open>Formats and their values\<close>

definition ff_format :: "flexfloat_desc \<Rightarrow> bool" where
  "ff_format d \<longleftrightarrow> 2 \<le> exp_bits d \<and> exp_bits d \<le> 10 \<and> 1 \<le> frac_bits d \<and> frac_bits d \<le> 31"

text \<open>The fields of a pattern of the format.\<close>

definition ff_E :: "flexfloat_desc \<Rightarrow> u64 \<Rightarrow> int" where
  "ff_E d bits = uint (drop_bit (frac_bits d) bits AND mask (exp_bits d))"

definition ff_M :: "flexfloat_desc \<Rightarrow> u64 \<Rightarrow> int" where
  "ff_M d bits = uint (bits AND mask (frac_bits d))"

text \<open>The four kinds of patterns of the format.\<close>

abbreviation sgn_bit :: "flexfloat_desc \<Rightarrow> u64 \<Rightarrow> bool" where
  "sgn_bit d bits \<equiv> bit bits (exp_bits d + frac_bits d)"

definition ff_val :: "flexfloat_desc \<Rightarrow> u64 \<Rightarrow> real" where
  "ff_val d bits = (if sgn_bit d bits then - 1 else 1) *
     (if ff_E d bits = 0 then of_int (ff_M d bits) * 2 powi (1 - flexfloat_bias d - int (frac_bits d))
      else (2 ^ frac_bits d + of_int (ff_M d bits)) * 2 powi (ff_E d bits - flexfloat_bias d - int (frac_bits d)))"

section \<open>Bit patterns and values\<close>

lemma uint_PACK:
  assumes "0 \<le> ex" "ex < 2048" "uint sig < 2 ^ 52"
  shows "uint (PACK s ex sig) = of_bool s * 2 ^ 63 + ex * 2 ^ 52 + uint sig"
proof -
  have "PACK s ex sig = word_of_int (of_bool s * 2 ^ 63 + ex * 2 ^ 52 + uint sig)"
    by (cases s) (simp_all add: PACK_def push_bit_eq_mult)
  moreover have "0 \<le> of_bool s * 2 ^ 63 + ex * 2 ^ 52 + uint sig" using assms by simp
  moreover have "of_bool s * 2 ^ 63 + ex * 2 ^ 52 + uint sig < 2 ^ 64" using assms by (cases s) simp_all
  ultimately show ?thesis by (simp only: uint_word_of_int_eq) (simp add: take_bit_int_eq_self)
qed

lemma PACK_fields:
  assumes "0 \<le> ex" "ex < 2048" "uint sig < 2 ^ 52"
  shows "d_sign (PACK s ex sig) = s" "d_exp (PACK s ex sig) = ex" "d_frac (PACK s ex sig) = uint sig"
  using fieldsI [OF uint_PACK [OF assms, of s]] assms by simp_all

lemma PACK_zero [simp]: "d_sign (PACK s 0 0) = s" "d_exp (PACK s 0 0) = 0" "d_frac (PACK s 0 0) = 0"
  using PACK_fields [of 0 0 s] by simp_all

lemma ff_formatD:
  assumes "ff_format d"
  shows "1 \<le> frac_bits d" "frac_bits d \<le> 31" "1 \<le> flexfloat_bias d" "flexfloat_bias d \<le> 511"
    "flexfloat_inf_exp d = 2 * flexfloat_bias d + 1" "exp_bits d + frac_bits d < 63"
proof -
  have e: "2 \<le> exp_bits d" "exp_bits d \<le> 10" and f: "1 \<le> frac_bits d" "frac_bits d \<le> 31"
    using assms by (simp_all add: ff_format_def)
  have "(2::int) ^ 1 \<le> 2 ^ (exp_bits d - 1)" "(2::int) ^ (exp_bits d - 1) \<le> 2 ^ 9"
    using e by (intro power_increasing; simp)+
  moreover have "(2::int) ^ exp_bits d = 2 * 2 ^ (exp_bits d - 1)"
    using e by (simp flip: power_Suc)
  ultimately show "1 \<le> frac_bits d" "frac_bits d \<le> 31" "1 \<le> flexfloat_bias d" "flexfloat_bias d \<le> 511"
    "flexfloat_inf_exp d = 2 * flexfloat_bias d + 1" "exp_bits d + frac_bits d < 63"
    using e f by (simp_all add: flexfloat_bias_def flexfloat_inf_exp_def)
qed

lemma ff_E_bounds: "0 \<le> ff_E d bits" "ff_E d bits \<le> flexfloat_inf_exp d"
  by (simp_all add: ff_E_def uint_and_mask flexfloat_inf_exp_def)

lemma ff_M_bounds: "0 \<le> ff_M d bits" "ff_M d bits < 2 ^ frac_bits d"
  by (simp_all add: ff_M_def uint_and_mask)

text \<open>The loop that normalizes a subnormal fraction.\<close>

lemma normalize_shift:
  assumes "f \<le> 52" "0 < uint fr" "uint fr < 2 ^ f"
  shows "\<exists>k. 1 \<le> k \<and> k \<le> f \<and> fst (normalize f fr ex) = push_bit k fr \<and> snd (normalize f fr ex) = ex - int (k - 1) \<and>
     2 ^ f \<le> uint fr * 2 ^ k \<and> uint fr * 2 ^ k < 2 ^ (f + 1)"
  using assms
proof (induction f fr ex rule: normalize.induct)
  case (1 f fr ex)
  have nz: "fr \<noteq> 0" using 1(3) by auto
  have f53: "(2::int) ^ (f + 1) \<le> 2 ^ 53" using 1(2) by (intro power_increasing) simp_all
  have u2: "uint fr * 2 < 2 ^ (f + 1)" using 1(4) by simp
  then have u: "uint (push_bit 1 fr) = uint fr * 2"
    using f53 uint_push_bit [of fr 1] by simp
  have b: "bit (push_bit 1 fr) f \<longleftrightarrow> 2 ^ f \<le> uint fr * 2"
  proof -
    have "bit (push_bit 1 fr) f \<longleftrightarrow> odd (uint fr * 2 div 2 ^ f)"
      using bit_uint_iff [of "push_bit 1 fr" f] 1(2) unfolding u bit_iff_odd [of "uint fr * 2"] by auto
    moreover have "uint fr * 2 div 2 ^ f = of_bool (2 ^ f \<le> uint fr * 2)"
      using u2 1(3) by (cases "2 ^ f \<le> uint fr * 2") (simp_all add: quot_one div_eq_0_iff)
    ultimately show ?thesis by simp
  qed
  show ?case
  proof (cases "2 ^ f \<le> uint fr * 2")
    case True
    moreover have "1 \<le> f" using 1(3,4) by (cases f) auto
    ultimately show ?thesis using b nz u2 by (intro exI [of _ 1]) (simp add: normalize.simps [of f fr])
  next
    case False
    have "\<exists>k\<ge>1. k \<le> f \<and> fst (normalize f (push_bit 1 fr) (ex - 1)) = push_bit k (push_bit 1 fr) \<and>
       snd (normalize f (push_bit 1 fr) (ex - 1)) = ex - 1 - int (k - 1) \<and>
       2 ^ f \<le> uint (push_bit 1 fr) * 2 ^ k \<and> uint (push_bit 1 fr) * 2 ^ k < 2 ^ (f + 1)"
      using 1(1) [OF nz refl] b False 1(2,3) unfolding u by auto
    then obtain k where k: "1 \<le> k" "fst (normalize f (push_bit 1 fr) (ex - 1)) = push_bit (Suc k) fr"
      "snd (normalize f (push_bit 1 fr) (ex - 1)) = ex - int (Suc k - 1)"
      "2 ^ f \<le> uint fr * 2 ^ Suc k" "uint fr * 2 ^ Suc k < 2 ^ (f + 1)"
      unfolding u by (auto simp: push_bit_push_bit ac_simps)
    have "(2::int) ^ Suc k \<le> uint fr * 2 ^ Suc k" using 1(3) by simp
    then have "(2::int) ^ Suc k < 2 ^ (f + 1)" using k(5) by linarith
    then have "Suc k \<le> f" by (simp only: power_strict_increasing_iff)
    with k b nz False show ?thesis by (intro exI [of _ "Suc k"]) (simp add: normalize.simps [of f fr])
  qed
qed

lemma uint_mult_le: "uint (x :: u64) < 2 ^ f \<Longrightarrow> f \<le> 52 \<Longrightarrow> uint x * 2 ^ (52 - f) < 2 ^ 52"
proof -
  assume a: "uint x < 2 ^ f" "f \<le> 52"
  then have "uint x * 2 ^ (52 - f) < 2 ^ f * 2 ^ (52 - f)" by (intro mult_strict_right_mono) simp_all
  then show ?thesis using a(2) by (simp flip: power_add)
qed

lemma uint_frac_shift: "uint (fr :: u64) < 2 ^ f \<Longrightarrow> f \<le> 52 \<Longrightarrow> uint (push_bit (52 - f) fr) = uint fr * 2 ^ (52 - f)"
  using uint_mult_le [of fr f] by (intro uint_push_bit) simp

lemma pack_fields:
  assumes "ff_format d" "uint fr < 2 ^ frac_bits d"
    "ex = flexfloat_inf_exp d \<or> flexfloat_bias d - 1023 < ex \<and> ex < flexfloat_bias d + 1024"
  shows "d_sign (flexfloat_pack d s ex fr) = s"
    "d_exp (flexfloat_pack d s ex fr) = (if ex = flexfloat_inf_exp d then INF_EXP else ex - flexfloat_bias d + BIAS)"
    "d_frac (flexfloat_pack d s ex fr) = uint fr * 2 ^ (52 - frac_bits d)"
proof -
  note D = ff_formatD [OF assms(1)]
  let ?Z = "if ex = flexfloat_inf_exp d then INF_EXP else ex - flexfloat_bias d + BIAS"
  have z: "0 \<le> ?Z" "?Z < 2048" using assms(3) by (auto simp: INF_EXP_def BIAS_def)
  have f: "uint (push_bit (52 - frac_bits d) fr) = uint fr * 2 ^ (52 - frac_bits d)"
    using assms(2) D by (intro uint_frac_shift) simp_all
  have l: "uint (push_bit (52 - frac_bits d) fr) < 2 ^ 52"
    unfolding f using assms(2) D by (intro uint_mult_le) simp_all
  show "d_sign (flexfloat_pack d s ex fr) = s"
    "d_exp (flexfloat_pack d s ex fr) = ?Z"
    "d_frac (flexfloat_pack d s ex fr) = uint fr * 2 ^ (52 - frac_bits d)"
    unfolding flexfloat_pack_def Let_def using PACK_fields [OF z l, of s] by (simp_all only: f)
qed

lemma ff_M_zero: "bits AND mask (frac_bits d) = 0 \<longleftrightarrow> ff_M d bits = 0"
  unfolding ff_M_def by (rule uint_0_iff [symmetric])

lemma pack_bits_zero: "ff_E d bits = 0 \<Longrightarrow> ff_M d bits = 0 \<Longrightarrow> flexfloat_pack_bits d bits = PACK (sgn_bit d bits) 0 0"
  by (simp only: flexfloat_pack_bits_def Let_def ff_M_zero ff_E_def [symmetric]) simp

lemma pack_bits_normal:
  assumes "ff_E d bits \<noteq> 0"
  shows "flexfloat_pack_bits d bits = flexfloat_pack d (sgn_bit d bits) (ff_E d bits) (bits AND mask (frac_bits d))"
  using assms ff_E_bounds(1) [of d bits] by (simp add: flexfloat_pack_bits_def ff_E_def Let_def)

lemma pack_bits_subnormal:
  assumes "ff_format d" "ff_E d bits = 0" "ff_M d bits \<noteq> 0"
  obtains k fr where "1 \<le> k" "k \<le> frac_bits d" "uint fr = ff_M d bits * 2 ^ k - 2 ^ frac_bits d"
    "2 ^ frac_bits d \<le> ff_M d bits * 2 ^ k" "ff_M d bits * 2 ^ k < 2 ^ (frac_bits d + 1)"
    "flexfloat_pack_bits d bits = flexfloat_pack d (sgn_bit d bits) (1 - int k) fr"
proof -
  note D = ff_formatD [OF assms(1)]
  let ?f = "frac_bits d"
  let ?m = "bits AND mask ?f"
  have m: "uint ?m = ff_M d bits" by (simp add: ff_M_def)
  obtain k where k: "1 \<le> k" "k \<le> ?f" "fst (normalize ?f ?m 0) = push_bit k ?m" "snd (normalize ?f ?m 0) = 0 - int (k - 1)"
     "2 ^ ?f \<le> ff_M d bits * 2 ^ k" "ff_M d bits * 2 ^ k < 2 ^ (?f + 1)"
    using normalize_shift [of ?f ?m 0] D ff_M_bounds [of d bits] assms(3) unfolding m by auto
  have "(2::int) ^ (?f + 1) \<le> 2 ^ 52" using D by (intro power_increasing) simp_all
  then have "uint (push_bit k ?m) = ff_M d bits * 2 ^ k"
    using k(6) m uint_push_bit [of ?m k] by simp
  then have u: "uint (push_bit k ?m AND mask ?f) = ff_M d bits * 2 ^ k - 2 ^ ?f"
    unfolding uint_and_mask using k(5,6) by (simp add: rem_one)
  have "flexfloat_pack_bits d bits = flexfloat_pack d (sgn_bit d bits) (1 - int k) (push_bit k ?m AND mask ?f)"
    using assms(2,3) k(1,3,4) by (simp only: flexfloat_pack_bits_def Let_def ff_M_zero ff_E_def [symmetric] case_prod_unfold)
      (simp add: of_nat_diff)
  with k u show ?thesis by (intro that) auto
qed

lemma pack_bits_value:
  assumes "ff_format d" "ff_E d bits \<noteq> flexfloat_inf_exp d"
  shows "dval (flexfloat_pack_bits d bits) = ff_val d bits"
proof -
  note D = ff_formatD [OF assms(1)]
  note E = ff_E_bounds [of d bits] and M = ff_M_bounds [of _ bits]
  let ?f = "frac_bits d" and ?b = "flexfloat_bias d" and ?v = "flexfloat_pack_bits d bits"
  consider "ff_E d bits = 0" "ff_M d bits = 0" | "ff_E d bits = 0" "ff_M d bits \<noteq> 0" | "ff_E d bits \<noteq> 0" by blast
  then show ?thesis
  proof cases
    case 1
    then show ?thesis
      by (simp add: pack_bits_zero dval_def ff_val_def d_ssig_def d_sig_def)
  next
    case 2
    obtain k fr where k: "1 \<le> k" "k \<le> ?f" "uint fr = ff_M d bits * 2 ^ k - 2 ^ ?f"
      "2 ^ ?f \<le> ff_M d bits * 2 ^ k" "ff_M d bits * 2 ^ k < 2 ^ (?f + 1)"
      "?v = flexfloat_pack d (sgn_bit d bits) (1 - int k) fr"
      using pack_bits_subnormal [OF assms(1) 2] by blast
    have P: "d_sign ?v = sgn_bit d bits" "d_exp ?v = 1 - int k - ?b + 1023" "d_frac ?v = uint fr * 2 ^ (52 - ?f)"
      using pack_fields [OF assms(1), of fr "1 - int k" "sgn_bit d bits"] k D unfolding k(6) by (auto simp: BIAS_def)
    have fr2: "d_frac ?v + 2 ^ 52 = ff_M d bits * 2 ^ (k + (52 - ?f))"
      unfolding P(3) k(3) by (rule sub_frac) (use D in simp)
    have nz: "d_exp ?v \<noteq> 0" using P(2) k(1,2) D by simp
    have v: "dval ?v = (if sgn_bit d bits then - 1 else 1) * of_int (ff_M d bits) * 2 powi (d_exp ?v - 1075 + int (k + (52 - ?f)))"
      using dval_normal [OF nz fr2] unfolding P(1) .
    have x: "d_exp ?v - 1075 + int (k + (52 - ?f)) = 1 - ?b - int ?f" using P(2) D k by (simp add: of_nat_diff)
    show ?thesis unfolding v x using 2 by (simp add: ff_val_def)
  next
    case 3
    let ?m = "bits AND mask ?f"
    have m: "uint ?m = ff_M d bits" by (simp add: ff_M_def)
    have P: "d_sign ?v = sgn_bit d bits" "d_exp ?v = ff_E d bits - ?b + 1023" "d_frac ?v = ff_M d bits * 2 ^ (52 - ?f)"
      using pack_fields [OF assms(1), of ?m "ff_E d bits" "sgn_bit d bits"] 3 E D M [of d] assms(2)
      unfolding pack_bits_normal [OF 3] m by (auto simp: BIAS_def)
    have fr2: "d_frac ?v + 2 ^ 52 = (2 ^ ?f + ff_M d bits) * 2 ^ (52 - ?f)"
      unfolding P(3) using pow_split [of ?f] D by (simp add: algebra_simps)
    have nz: "d_exp ?v \<noteq> 0" using P(2) E D by simp
    have v: "dval ?v = (if sgn_bit d bits then - 1 else 1) * of_int (2 ^ ?f + ff_M d bits) * 2 powi (d_exp ?v - 1075 + int (52 - ?f))"
      using dval_normal [OF nz fr2] unfolding P(1) .
    have x: "d_exp ?v - 1075 + int (52 - ?f) = ff_E d bits - ?b - int ?f" using P(2) D by (simp add: of_nat_diff)
    show ?thesis unfolding v x using 3 by (simp add: ff_val_def)
  qed
qed

lemma ff_word_bits:
  assumes "ff_format d" "ex = ff_E d bits" "uint fr = ff_M d bits" "s = sgn_bit d bits"
  shows "ff_word d s ex fr = signed_take_bit (exp_bits d + frac_bits d) bits"
proof -
  let ?e = "exp_bits d" and ?f = "frac_bits d"
  have fr: "fr = bits AND mask ?f"
    using assms(3) unfolding ff_M_def by (simp only: word_uint_eq_iff)
  have ex: "word_of_int ex = drop_bit ?f bits AND mask ?e" unfolding assms(2) ff_E_def by simp
  have w: "?e + ?f < 64" using ff_formatD(6) [OF assms(1)] by simp
  have "push_bit ?f (drop_bit ?f bits AND mask ?e) + (bits AND mask ?f) =
      push_bit ?f (drop_bit ?f bits AND mask ?e) OR (bits AND mask ?f)"
    by (rule disjunctive_add_eq_or) (rule bit_word_eqI, auto simp: bit_simps)
  also have "\<dots> = take_bit (?e + ?f) bits"
    using w by (intro bit_word_eqI) (auto simp: bit_simps)
  finally have c: "push_bit ?f (word_of_int ex) + fr = take_bit (?e + ?f) bits" unfolding fr ex .
  have "push_bit (?e + ?f) 1 + take_bit (?e + ?f) bits = push_bit (?e + ?f) 1 OR take_bit (?e + ?f) bits"
    by (rule disjunctive_add_eq_or) (rule bit_word_eqI, auto simp: bit_simps)
  then have "ff_word d s ex fr = (if s then push_bit (?e + ?f) 1 OR take_bit (?e + ?f) bits OR push_bit (?e + ?f) (- 1)
      else take_bit (?e + ?f) bits)"
    unfolding ff_word_def Let_def add.assoc c by (simp add: or.assoc)
  also have "\<dots> = signed_take_bit (?e + ?f) bits"
    unfolding assms(4) using w
    by (intro bit_word_eqI) (auto simp: bit_simps min_def)
  finally show ?thesis .
qed

lemma frac_of_value: "flexfloat_frac a = fr" if "d_frac (ff_value a) = uint fr * 2 ^ (52 - frac_bits (ff_desc a))"
proof -
  have "uint (flexfloat_frac a) = uint fr"
    unfolding flexfloat_frac_def frac_mask uint_drop_bit uint_and_mask d_frac_uint [symmetric] that by simp
  then show ?thesis by (simp only: word_uint_eq_iff)
qed

lemma add_top_bit: "(x AND mask n) + push_bit n 1 = (x AND mask n) OR push_bit n (1 :: 'a::len word)"
  by (rule disjunctive_add_eq_or) (rule bit_word_eqI, auto simp: bit_simps)

lemma uint_full_frac: "uint (full_frac a) = d_frac (ff_value a) + 2 ^ 52"
proof -
  let ?x = "ff_value a AND mask 52"
  have "(0x10000000000000 :: u64) = push_bit 52 1" by simp
  then have "full_frac a = ?x + push_bit 52 1" unfolding full_frac_def frac_mask add_top_bit by simp
  moreover have "uint ?x = d_frac (ff_value a)" unfolding d_frac_uint uint_and_mask ..
  ultimately show ?thesis using fields_bounds(3,4) [of "ff_value a"] by (simp add: uint_word_ariths)
qed

text \<open>
  C8. For every format of 2 to 10 exponent and 1 to 31 fraction bits, the \<^verbatim>\<open>double\<close> that
  \<^verbatim>\<open>flexfloat_set_bits\<close> builds from a finite bit pattern, the subnormal ones normalized by a loop, has
  exactly the value the pattern stands for.
\<close>

theorem set_bits_exact:
  assumes "ff_format (ff_desc a)" "ff_E (ff_desc a) bits \<noteq> flexfloat_inf_exp (ff_desc a)"
  shows "dval (ff_value (flexfloat_set_bits a bits)) = ff_val (ff_desc a) bits"
  using pack_bits_value [OF assms] by (simp add: flexfloat_set_bits_def)

lemma pack_bits_finite:
  assumes "ff_format d" "ff_E d bits \<noteq> flexfloat_inf_exp d"
  shows "d_exp (flexfloat_pack_bits d bits) \<noteq> 2047"
proof -
  note D = ff_formatD [OF assms(1)] and E = ff_E_bounds [of d bits] and M = ff_M_bounds [of _ bits]
  consider (z) "ff_E d bits = 0" "ff_M d bits = 0" | (s) "ff_E d bits = 0" "ff_M d bits \<noteq> 0" | (n) "ff_E d bits \<noteq> 0" by blast
  then show ?thesis
  proof cases
    case z
    then show ?thesis by (simp add: pack_bits_zero)
  next
    case s
    from pack_bits_subnormal [OF assms(1) s] obtain k fr where k: "1 \<le> k" "k \<le> frac_bits d" "uint fr = ff_M d bits * 2 ^ k - 2 ^ frac_bits d"
      "ff_M d bits * 2 ^ k < 2 ^ (frac_bits d + 1)" "flexfloat_pack_bits d bits = flexfloat_pack d (sgn_bit d bits) (1 - int k) fr"
      by blast
    then have "uint fr < 2 ^ frac_bits d" by simp
    then show ?thesis using pack_fields(2) [OF assms(1), of fr "1 - int k" "sgn_bit d bits"] k D by (simp add: BIAS_def)
  next
    case n
    have "uint (bits AND mask (frac_bits d)) < 2 ^ frac_bits d" using M [of d] by (simp add: ff_M_def)
    then show ?thesis using pack_fields(2) [OF assms(1), of _ "ff_E d bits" "sgn_bit d bits"] n E assms(2) D
      by (simp add: pack_bits_normal BIAS_def)
  qed
qed

text \<open>
  C7. Reading back a pattern that was written gives the pattern, sign-extended from the top bit of the
  format, for every pattern: zeros, subnormal and normal numbers, infinities and NaNs. In particular
  no shift in \<^verbatim>\<open>flexfloat_get_bits\<close> is out of range.
\<close>

theorem get_set_bits:
  assumes "ff_format (ff_desc a)"
  shows "flexfloat_get_bits (flexfloat_set_bits a bits) =
     Some (signed_take_bit (exp_bits (ff_desc a) + frac_bits (ff_desc a)) bits)"
proof -
  define d where "d = ff_desc a"
  have F: "ff_format d" using assms d_def by simp
  note D = ff_formatD [OF F]
  note E = ff_E_bounds [of d bits] and M = ff_M_bounds [of d bits]
  let ?f = "frac_bits d" and ?b = "flexfloat_bias d"
  define v where "v = flexfloat_pack_bits d bits"
  define x where "x = flexfloat_set_bits a bits"
  have x: "ff_value x = v" "ff_desc x = d" by (simp_all add: x_def v_def d_def flexfloat_set_bits_def)
  let ?m = "bits AND mask ?f"
  have m: "uint ?m = ff_M d bits" by (simp add: ff_M_def)
  note W = ff_word_bits [OF F]
  consider "ff_E d bits = 0" "ff_M d bits = 0" | "ff_E d bits = 0" "ff_M d bits \<noteq> 0" | "ff_E d bits \<noteq> 0" by blast
  then have "flexfloat_get_bits x = Some (signed_take_bit (exp_bits d + ?f) bits)"
  proof cases
    case 1
    then have v: "v = PACK (sgn_bit d bits) 0 0" by (simp add: v_def pack_bits_zero)
    have "flexfloat_frac x = 0" by (rule frac_of_value) (simp add: x v)
    then have "flexfloat_get_bits x = Some (ff_word d (sgn_bit d bits) 0 0)"
      by (simp add: flexfloat_get_bits_def Let_def x flexfloat_exp_def flexfloat_sign_def v flexfloat_denorm_frac_def
          INF_EXP_def flexfloat_frac_def)
    then show ?thesis using W [of 0 bits 0 "sgn_bit d bits"] 1 by simp
  next
    case 2
    obtain k fr where k: "1 \<le> k" "k \<le> ?f" "uint fr = ff_M d bits * 2 ^ k - 2 ^ ?f"
      "2 ^ ?f \<le> ff_M d bits * 2 ^ k" "ff_M d bits * 2 ^ k < 2 ^ (?f + 1)"
      "v = flexfloat_pack d (sgn_bit d bits) (1 - int k) fr"
      using pack_bits_subnormal [OF F 2] unfolding v_def by blast
    have P: "d_sign v = sgn_bit d bits" "d_exp v = 1 - int k - ?b + 1023" "d_frac v = uint fr * 2 ^ (52 - ?f)"
      using pack_fields [OF F, of fr "1 - int k" "sgn_bit d bits"] k D unfolding k(6) by (auto simp: BIAS_def)
    have ex: "flexfloat_exp x = 1 - int k" using P(2) k D by (simp add: flexfloat_exp_def x Let_def BIAS_def INF_EXP_def)
    have fr: "flexfloat_frac x = fr" by (rule frac_of_value) (simp add: x P)
    have s: "flexfloat_sign x = sgn_bit d bits" by (simp add: flexfloat_sign_def x P)
    have G: "flexfloat_get_bits x = Some (ff_word d (sgn_bit d bits) 0 y)" if "uint y = ff_M d bits"
      "1 < k \<Longrightarrow> fr = 0 \<Longrightarrow> int_bit (int ?f - int k) = Some y"
      "\<not> (1 < k \<and> fr = 0) \<Longrightarrow> flexfloat_denorm_frac x (1 - int k) = y" for y
      using that k(1,2) unfolding flexfloat_get_bits_def Let_def ex fr s x
      by (auto simp: INF_EXP_def algebra_simps)
    define c where "c = k + (52 - ?f)"
    have "uint (full_frac x) = ff_M d bits * 2 ^ c"
      unfolding c_def uint_full_frac x P(3) k(3) by (rule sub_frac) (use D in simp)
    moreover have "denorm_shift x (1 - int k) = int c" "c < 64"
      using D k(2) by (simp_all add: denorm_shift_def x of_nat_diff c_def)
    ultimately have "uint (flexfloat_denorm_frac x (1 - int k)) = ff_M d bits"
      using P(2) k(1,2) D unfolding flexfloat_denorm_frac_def Let_def x by (simp add: uint_drop_bit)
    moreover have "int_bit (int ?f - int k) = Some (push_bit (?f - k) 1) \<and> uint (push_bit (?f - k) 1 :: u64) = ff_M d bits"
      if "fr = 0"
    proof -
      have "ff_M d bits * 2 ^ k = 2 ^ (?f - k) * 2 ^ k" using k(2,3) that by (simp flip: power_add)
      then have "ff_M d bits = 2 ^ (?f - k)" by simp
      moreover have "(2::int) ^ (?f - k) < 2 ^ 64" using D k by (intro power_strict_increasing) simp_all
      ultimately have "uint (push_bit (?f - k) 1 :: u64) = ff_M d bits" by (subst uint_push_bit) simp_all
      then show ?thesis using k D by (simp add: int_bit_def nat_diff_distrib' flip: of_nat_diff)
    qed
    ultimately obtain y where "uint y = ff_M d bits" "flexfloat_get_bits x = Some (ff_word d (sgn_bit d bits) 0 y)"
      using G by (cases "1 < k \<and> fr = 0") blast+
    then show ?thesis using W [of 0 bits y "sgn_bit d bits"] 2 by simp
  next
    case 3
    have P: "d_sign v = sgn_bit d bits" "d_frac v = uint ?m * 2 ^ (52 - ?f)"
      "d_exp v = (if ff_E d bits = flexfloat_inf_exp d then 2047 else ff_E d bits - ?b + 1023)"
      using pack_fields [OF F, of ?m "ff_E d bits" "sgn_bit d bits"] 3 E D M
      unfolding v_def pack_bits_normal [OF 3] m by (auto simp: BIAS_def INF_EXP_def)
    have ex: "flexfloat_exp x = (if ff_E d bits = flexfloat_inf_exp d then 2047 else ff_E d bits)"
      using P(3) E D 3 by (simp add: flexfloat_exp_def x Let_def BIAS_def INF_EXP_def)
    have fr: "flexfloat_frac x = ?m" by (rule frac_of_value) (simp add: x P)
    have s: "flexfloat_sign x = sgn_bit d bits" by (simp add: flexfloat_sign_def x P)
    have "flexfloat_get_bits x = Some (ff_word d (sgn_bit d bits) (ff_E d bits) ?m)"
      unfolding flexfloat_get_bits_def Let_def ex fr s x using 3 E D by (auto simp: INF_EXP_def)
    then show ?thesis using W [of "ff_E d bits" bits ?m] m by simp
  qed
  then show ?thesis by (simp add: x_def d_def)
qed

theorem set_bits_exact_witness:
  "dval (ff_value (flexfloat_set_bits (ff_init \<lparr>exp_bits = 5, frac_bits = 10\<rparr>) 3)) = ff_val \<lparr>exp_bits = 5, frac_bits = 10\<rparr> 3"
proof -
  have "ff_E \<lparr>exp_bits = 5, frac_bits = 10\<rparr> 3 \<noteq> flexfloat_inf_exp \<lparr>exp_bits = 5, frac_bits = 10\<rparr>" by code_simp
  then show ?thesis
    using set_bits_exact [of "ff_init \<lparr>exp_bits = 5, frac_bits = 10\<rparr>" 3] by (simp add: ff_format_def ff_init_def)
qed

theorem get_set_bits_witness:
  "flexfloat_get_bits (flexfloat_set_bits (ff_init \<lparr>exp_bits = 8, frac_bits = 23\<rparr>) 0x80000001) = Some (signed_take_bit 31 0x80000001)"
  using get_set_bits [of "ff_init \<lparr>exp_bits = 8, frac_bits = 23\<rparr>" "0x80000001"] by (simp add: ff_format_def ff_init_def)

end
