(* ===== verification/Flexfloat_Round.thy ===== *)
theory Flexfloat_Round
  imports Flexfloat
begin

text \<open>
  Rounding in the flexfloat library. \<^verbatim>\<open>flexfloat_sanitize\<close> rounds by hand: it reads the bits it is going
  to cut off, adds one unit in the last place of the narrow format with an addition of doubles, which
  rounds itself, and then cuts. The theory shows that the result is nevertheless the correctly rounded
  value, says for which inputs, and shows by examples what happens for the others.
\<close>

text \<open>Where the last bit of the narrow format is, relative to the \<open>double\<close> value \<open>v\<close>: \<open>ff_q\<close> is its
  scale, \<open>ff_k\<close> the number of bits of the significand of \<open>v\<close> below it.\<close>

definition ff_ex :: "flexfloat_desc \<Rightarrow> u64 \<Rightarrow> int" where
  "ff_ex d v = d_exp v - 1023 + flexfloat_bias d"

definition ff_q :: "flexfloat_desc \<Rightarrow> u64 \<Rightarrow> int" where
  "ff_q d v = max (ff_ex d v) 1 - flexfloat_bias d - int (frac_bits d)"

definition ff_k :: "flexfloat_desc \<Rightarrow> u64 \<Rightarrow> nat" where
  "ff_k d v = 52 - frac_bits d + nat (1 - ff_ex d v)"

text \<open>A single precision number from its bits.\<close>

definition ff32 :: "u64 \<Rightarrow> flexfloat" where
  "ff32 bits = flexfloat_set_bits (ff_init \<lparr>exp_bits = 8, frac_bits = 23\<rparr>) bits"

text \<open>The contract of an operation: the format is that of the destination, the result can be read
  back, the rounding mode is kept and flags are only added.\<close>

definition fe_le :: "fexcept \<Rightarrow> fexcept \<Rightarrow> bool" where
  "fe_le x y \<longleftrightarrow> (fe_inexact x \<longrightarrow> fe_inexact y) \<and> (fe_underflow x \<longrightarrow> fe_underflow y) \<and>
     (fe_overflow x \<longrightarrow> fe_overflow y) \<and> (fe_divbyzero x \<longrightarrow> fe_divbyzero y) \<and> (fe_invalid x \<longrightarrow> fe_invalid y)"

definition ff_contract :: "flexfloat_desc \<Rightarrow> fenv \<Rightarrow> flexfloat \<times> fenv \<Rightarrow> bool" where
  "ff_contract d env r \<longleftrightarrow> ff_desc (fst r) = d \<and> flexfloat_get_bits (fst r) \<noteq> None \<and>
     fe_round (snd r) = fe_round env \<and> fe_le (fe_flags env) (fe_flags (snd r))"

section \<open>Packing truncates\<close>

lemma ff_k_cases:
  assumes "ff_format d"
  shows "1 \<le> ff_ex d v \<Longrightarrow> ff_k d v = 52 - frac_bits d"
    "ff_ex d v \<le> 0 \<Longrightarrow> ff_k d v = 52 - frac_bits d + nat (1 - ff_ex d v)"
    "d_normal v \<Longrightarrow> ff_q d v = d_scale v + int (ff_k d v)"
    "21 \<le> ff_k d v"
  using ff_formatD [OF assms] by (auto simp: ff_k_def ff_q_def ff_ex_def d_normal_def d_scale_def)

lemma flexfloat_exp_normal: "d_normal (ff_value a) \<Longrightarrow> flexfloat_exp a = ff_ex (ff_desc a) (ff_value a)"
  by (auto simp: flexfloat_exp_def d_normal_def ff_ex_def BIAS_def INF_EXP_def)

lemma denorm_shift_normal:
  assumes "ff_format (ff_desc a)" "ff_ex (ff_desc a) (ff_value a) \<le> 0"
  shows "denorm_shift a (ff_ex (ff_desc a) (ff_value a)) = int (ff_k (ff_desc a) (ff_value a))"
  using ff_formatD [OF assms(1)] fields_bounds(1) [of "ff_value a"] assms(2)
  by (simp add: denorm_shift_def ff_k_def ff_ex_def of_nat_diff)

lemma uint_flexfloat_frac: "uint (flexfloat_frac a) = d_frac (ff_value a) div 2 ^ (52 - frac_bits (ff_desc a))"
  unfolding flexfloat_frac_def frac_mask uint_drop_bit uint_and_mask d_frac_uint ..

lemma flexfloat_frac_bound: "frac_bits (ff_desc a) \<le> 52 \<Longrightarrow> uint (flexfloat_frac a) < 2 ^ frac_bits (ff_desc a)"
  unfolding uint_flexfloat_frac by (intro div_pow_less fields_bounds)

lemma uint_denorm_frac:
  assumes "ff_format (ff_desc a)" "d_normal (ff_value a)" "ff_ex (ff_desc a) (ff_value a) \<le> 0"
  shows "uint (flexfloat_denorm_frac a (ff_ex (ff_desc a) (ff_value a))) = d_sig (ff_value a) div 2 ^ ff_k (ff_desc a) (ff_value a)"
proof -
  let ?k = "ff_k (ff_desc a) (ff_value a)"
  have "d_sig (ff_value a) div 2 ^ ?k = 0" if "64 \<le> ?k"
  proof -
    have "(2::int) ^ 53 \<le> 2 ^ ?k" using that by (intro power_increasing) simp_all
    then show ?thesis using d_sig_normal [OF assms(2)] by (simp add: div_eq_0_iff)
  qed
  moreover have "d_exp (ff_value a) \<noteq> 0" using assms(2) by (simp add: d_normal_def)
  ultimately show ?thesis
    unfolding flexfloat_denorm_frac_def Let_def denorm_shift_normal [OF assms(1,3)]
    by (simp add: uint_drop_bit uint_full_frac d_sig_normal(1) [OF assms(2)])
qed

text \<open>Packing truncates the significand to the bits of the format.\<close>

lemma sanitize_pack_value:
  fixes s :: bool and env :: fenv
  assumes "ff_format (ff_desc a)" "d_normal (ff_value a)" "ff_ex (ff_desc a) (ff_value a) < flexfloat_inf_exp (ff_desc a)"
  defines "r \<equiv> ff_value (fst (sanitize_pack a (ff_ex (ff_desc a) (ff_value a)) s env))"
  shows "dval r = (if s then - 1 else 1) * of_int (d_sig (ff_value a) div 2 ^ ff_k (ff_desc a) (ff_value a)) * 2 powi ff_q (ff_desc a) (ff_value a)"
    "d_sign r = s" "d_exp r \<noteq> 2047"
proof -
  define d where "d = ff_desc a" define v where "v = ff_value a"
  define ex where "ex = ff_ex d v" define k where "k = ff_k d v"
  note DV = d_def [symmetric] v_def [symmetric]
  have F: "ff_format d" and N: "d_normal v" and L: "ex < flexfloat_inf_exp d" using assms(1-3) by (simp_all add: DV ex_def)
  note D = ff_formatD [OF F] and S = d_sig_normal [OF N] and B = fields_bounds [of v]
  let ?f = "frac_bits d"
  have fb: "uint (flexfloat_frac a) < 2 ^ ?f" using flexfloat_frac_bound [of a] D by (simp add: DV)
  have X: "ex - flexfloat_bias d + 1023 = d_exp v" "d_exp v \<noteq> 0" "d_exp v < 2047" using N by (simp_all add: ex_def ff_ex_def d_normal_def)
  have val: "dval (flexfloat_pack d s ex fr) = (if s then - 1 else 1) * of_int (d_sig v div 2 ^ k) * 2 powi ff_q d v \<and>
      d_sign (flexfloat_pack d s ex fr) = s \<and> d_exp (flexfloat_pack d s ex fr) \<noteq> 2047"
    if "uint fr < 2 ^ ?f" "uint fr * 2 ^ (52 - ?f) + 2 ^ 52 = d_sig v div 2 ^ k * 2 ^ k" for fr
  proof -
    let ?w = "flexfloat_pack d s ex fr"
    have P: "d_sign ?w = s" "d_exp ?w = d_exp v" "d_frac ?w = uint fr * 2 ^ (52 - ?f)"
      using pack_fields [OF F that(1), of ex s] N L D X by (auto simp: BIAS_def d_normal_def)
    have nz: "d_exp ?w \<noteq> 0" using P X by simp
    have fr2: "d_frac ?w + 2 ^ 52 = d_sig v div 2 ^ k * 2 ^ k" unfolding P(3) by (rule that(2))
    have q: "d_exp v - 1075 + int k = ff_q d v" using ff_k_cases(3) [OF F N] X by (simp add: k_def d_scale_def)
    show ?thesis using dval_normal [OF nz fr2] P X unfolding P(1,2) q by simp
  qed
  have "dval r = (if s then - 1 else 1) * of_int (d_sig v div 2 ^ k) * 2 powi ff_q d v \<and> d_sign r = s \<and> d_exp r \<noteq> 2047"
  proof (cases "1 \<le> ex")
    case True
    have r: "r = flexfloat_pack d s ex (flexfloat_frac a)"
      using True L X(2,3) D(4,5) unfolding r_def DV ex_def [symmetric] by (simp add: sanitize_pack_def Let_def DV INF_EXP_def)
    have k: "k = 52 - ?f" using ff_k_cases(1) [OF F] True by (simp add: k_def ex_def)
    show ?thesis unfolding r
    proof (rule val [OF fb])
      show "uint (flexfloat_frac a) * 2 ^ (52 - ?f) + 2 ^ 52 = d_sig v div 2 ^ k * 2 ^ k"
        unfolding uint_flexfloat_frac DV k S(1) by (rule trunc_sum) simp
    qed
  next
    case False
    then have le: "ff_ex d v \<le> 0" by (simp add: ex_def)
    have den: "uint (flexfloat_denorm_frac a ex) = d_sig v div 2 ^ k"
      using uint_denorm_frac [of a] F N le by (simp add: DV ex_def k_def)
    have z: "flexfloat_denorm_frac a ex = 0 \<longleftrightarrow> d_sig v div 2 ^ k = 0" unfolding den [symmetric] by (simp only: uint_0_iff)
    show ?thesis
    proof (cases "d_sig v div 2 ^ k = 0")
      case True
      have "r = PACK s 0 0"
        using True False X(2) z unfolding r_def DV ex_def [symmetric] by (simp add: sanitize_pack_def Let_def DV)
      then show ?thesis using True by (simp add: dval_def d_ssig_def d_sig_def)
    next
      case nz: False
      have "k \<le> 52"
      proof (rule ccontr)
        assume "\<not> k \<le> 52"
        then have "(2::int) ^ 53 \<le> 2 ^ k" by (intro power_increasing) simp_all
        then show False using nz S by (simp add: div_eq_0_iff)
      qed
      define j where "j = nat (1 - ex)"
      have k: "k = 52 - ?f + j" using ff_k_cases(2) [OF F le] by (simp add: k_def ex_def j_def)
      let ?fr = "push_bit j (drop_bit j (flexfloat_frac a))"
      have j: "- ex + 1 < 52" "nat (- ex + 1) = j" using \<open>k \<le> 52\<close> D False by (simp_all add: k j_def)
      have r: "r = flexfloat_pack d s ex ?fr"
        using False nz X(2) z D(2) unfolding r_def DV ex_def [symmetric]
        by (simp only: sanitize_pack_def Let_def DV j) simp
      have u: "uint (flexfloat_frac a) div 2 ^ j * 2 ^ j \<le> uint (flexfloat_frac a)" by (rule div_times_le)
      have "(2::int) ^ ?f < 2 ^ 64" using D by (intro power_strict_increasing) simp_all
      then have ufr: "uint ?fr = uint (flexfloat_frac a) div 2 ^ j * 2 ^ j"
        using u fb by (subst uint_push_bit) (simp_all add: uint_drop_bit)
      have "uint ?fr * 2 ^ (52 - ?f) + 2 ^ 52 = d_sig v div 2 ^ k * 2 ^ k"
      proof -
        have "uint ?fr * 2 ^ (52 - ?f) = d_frac v div 2 ^ k * 2 ^ k"
          unfolding ufr uint_flexfloat_frac DV k power_add
          by (subst zdiv_zmult2_eq) (simp_all add: mult.assoc mult.commute [of "2 ^ j"])
        then show ?thesis using trunc_sum [OF \<open>k \<le> 52\<close>, of "d_frac v"] unfolding S(1) by simp
      qed
      then show ?thesis unfolding r by (intro val) (use u ufr fb in simp_all)
    qed
  qed
  then show "dval r = (if s then - 1 else 1) * of_int (d_sig (ff_value a) div 2 ^ ff_k (ff_desc a) (ff_value a)) * 2 powi ff_q (ff_desc a) (ff_value a)"
    "d_sign r = s" "d_exp r \<noteq> 2047" by (simp_all add: DV k_def)
qed

section \<open>The rounding decision\<close>

text \<open>The round and sticky bits are the first and the other bits cut off.\<close>

lemma round_sticky_full:
  assumes "ff_format (ff_desc a)" "d_normal (ff_value a)" "ff_k (ff_desc a) (ff_value a) < 64"
  defines "ex \<equiv> ff_ex (ff_desc a) (ff_value a)" and "k \<equiv> ff_k (ff_desc a) (ff_value a)"
  shows "flexfloat_round_bit a ex = bit (full_frac a) (k - 1)"
    "flexfloat_sticky_bit a ex = (full_frac a AND mask (k - 1) \<noteq> 0)"
proof -
  note D = ff_formatD [OF assms(1)]
  let ?f = "frac_bits (ff_desc a)" and ?v = "ff_value a"
  have nz: "d_exp ?v \<noteq> 0" using assms(2) by (simp add: d_normal_def)
  have "flexfloat_round_bit a ex = bit (full_frac a) (k - 1) \<and>
    flexfloat_sticky_bit a ex = (full_frac a AND mask (k - 1) \<noteq> 0)"
  proof (cases "ex \<le> 0")
    case True
    have sh: "denorm_shift a ex = int k" using denorm_shift_normal [OF assms(1)] True by (simp add: ex_def k_def)
    have "1 \<le> k" using ff_k_cases(4) [OF assms(1), of "ff_value a"] by (simp add: k_def)
    then have "nat (int k - 1) = k - 1" by simp
    then show ?thesis
      unfolding flexfloat_round_bit_def flexfloat_sticky_bit_def Let_def sh using True nz assms(3)
      by (simp add: k_def mask_eq_exp_minus_1)
  next
    case False
    then have k: "k = 52 - ?f" using ff_k_cases(1) [OF assms(1)] by (simp add: k_def ex_def)
    define n where "n = k - 1"
    have n: "n < 52" "?f + 1 + n = 52" using D k n_def by simp_all
    have "bit (full_frac a) i = bit ?v i" if "i < 52" for i
    proof -
      have c: "(0x10000000000000 :: u64) = 2 ^ 52" by simp
      have "bit (0x10000000000000 :: u64) i \<longleftrightarrow> i = 52" unfolding c bit_exp_iff by auto
      then show ?thesis using that unfolding full_frac_def frac_mask by (simp add: bit_simps)
    qed
    moreover have "drop_bit (?f + 1) (mask 52 :: u64) = mask n"
      using n by (intro bit_word_eqI) (auto simp: bit_simps)
    moreover have "?v AND mask n = full_frac a AND mask n"
      using calculation(1) n by (intro bit_word_eqI) (auto simp: bit_simps)
    ultimately show ?thesis
      unfolding flexfloat_round_bit_def flexfloat_sticky_bit_def frac_mask n_def [symmetric]
      using False n k n_def D by simp
  qed
  then show "flexfloat_round_bit a ex = bit (full_frac a) (k - 1)"
    "flexfloat_sticky_bit a ex = (full_frac a AND mask (k - 1) \<noteq> 0)" by auto
qed

lemma low_bit:
  assumes "ff_format (ff_desc a)" "d_normal (ff_value a)"
  defines "ex \<equiv> ff_ex (ff_desc a) (ff_value a)" and "k \<equiv> ff_k (ff_desc a) (ff_value a)"
  shows "(if ex \<le> 0 then bit (flexfloat_denorm_frac a ex) 0 else bit (flexfloat_frac a) 0) = odd (d_sig (ff_value a) div 2 ^ k)"
proof (cases "ex \<le> 0")
  case True
  then show ?thesis
    using uint_denorm_frac [OF assms(1,2)] odd_div_uint [of "flexfloat_denorm_frac a ex" 0] by (simp add: ex_def k_def)
next
  case False
  note D = ff_formatD [OF assms(1)]
  have k: "k = 52 - frac_bits (ff_desc a)" using ff_k_cases(1) [OF assms(1)] False by (simp add: k_def ex_def)
  have "d_sig (ff_value a) div 2 ^ k = d_frac (ff_value a) div 2 ^ k + 2 ^ (52 - k)"
    unfolding d_sig_normal(1) [OF assms(2)] by (rule div_pow_add) (simp add: k)
  moreover have "even ((2::int) ^ (52 - k))" using D k by simp
  ultimately show ?thesis
    using False odd_div_uint [of "flexfloat_frac a" 0] by (simp add: uint_flexfloat_frac k)
qed

lemma sanitize_up_eq:
  assumes "ff_format (ff_desc a)" "d_normal (ff_value a)"
    "ff_k (ff_desc a) (ff_value a) < 64 \<or> mode = FE_TONEAREST \<or> mode = FE_TOWARDZERO"
  defines "ex \<equiv> ff_ex (ff_desc a) (ff_value a)" and "k \<equiv> ff_k (ff_desc a) (ff_value a)" and "S \<equiv> d_sig (ff_value a)"
  shows "sanitize_up mode a ex s = round_up mode s (S div 2 ^ k) (S mod 2 ^ k) k False"
proof (cases "k < 64")
  case True
  have u: "uint (full_frac a) = S" unfolding S_def uint_full_frac d_sig_normal(1) [OF assms(2)] ..
  have k1: "1 \<le> k" using ff_k_cases(4) [OF assms(1), of "ff_value a"] by (simp add: k_def)
  note R = round_sticky_full [OF assms(1,2) True [unfolded k_def], folded ex_def k_def, unfolded odd_div_uint mask_zero_uint u]
  note L = low_bit [OF assms(1,2), folded ex_def k_def S_def]
  show ?thesis
    unfolding sanitize_up_def round_up_def flexfloat_nearest_rounding_def flexfloat_inf_rounding_def Let_def R
      cut_bits [OF k1] L [symmetric]
    by (cases mode) auto
next
  case False
  have "(2::int) ^ 64 \<le> 2 ^ k" using False by (intro power_increasing) simp_all
  then have S: "2 * S < 2 ^ k" "S mod 2 ^ k = S" using d_sig_normal(2,3) [OF assms(2)] by (simp_all add: S_def)
  have "\<not> flexfloat_round_bit a ex"
  proof -
    have le: "ex \<le> 0" using False ff_k_cases(1) [OF assms(1), of "ff_value a"] by (cases "1 \<le> ex") (simp_all add: ex_def k_def)
    then show ?thesis
      using denorm_shift_normal [OF assms(1)] False assms(2)
      by (simp add: flexfloat_round_bit_def ex_def k_def d_normal_def)
  qed
  then show ?thesis using assms(3) False S
    by (auto simp: k_def [symmetric] sanitize_up_def round_up_def flexfloat_nearest_rounding_def)
qed

section \<open>The unit added\<close>

text \<open>The unit that is added has the sign of the value and the scale \<open>ff_q\<close>.\<close>

lemma rounding_value_fields:
  fixes s :: bool
  assumes "ff_format (ff_desc a)" "d_normal (ff_value a)"
    "ff_ex (ff_desc a) (ff_value a) < flexfloat_inf_exp (ff_desc a)"
  defines "w \<equiv> flexfloat_rounding_value a (ff_ex (ff_desc a) (ff_value a)) s"
  shows "d_normal w" "d_ssig w = (if s then - (2 ^ 52) else 2 ^ 52)" "d_scale w = ff_q (ff_desc a) (ff_value a) - 52"
proof -
  define d where "d = ff_desc a" define v where "v = ff_value a"
  note DV = d_def [symmetric] v_def [symmetric]
  have F: "ff_format d" and N: "d_normal v" and L: "ff_ex d v < flexfloat_inf_exp d" using assms(1-3) by (simp_all add: DV)
  note D = ff_formatD [OF F]
  have w: "w = flexfloat_pack d s (max (ff_ex d v) 1 - int (frac_bits d)) 0"
  proof (cases "ff_ex d v \<le> 0")
    case True
    then show ?thesis using N by (simp add: w_def flexfloat_rounding_value_def Let_def DV d_normal_def)
  next
    case False
    then have "max (ff_ex d v) 1 = ff_ex d v" by simp
    then show ?thesis using N False by (simp add: w_def flexfloat_rounding_value_def Let_def DV d_normal_def)
  qed
  let ?y = "max (ff_ex d v) 1 - int (frac_bits d)"
  have y: "?y \<noteq> flexfloat_inf_exp d" "flexfloat_bias d - 1023 < ?y" "?y < flexfloat_bias d + 1024" using D L by auto
  have P: "d_sign w = s" "d_exp w = ff_q d v + 1023" "d_frac w = 0"
    using pack_fields [OF F, of 0 ?y s] y unfolding w by (simp_all add: BIAS_def ff_q_def)
  have q: "- 541 \<le> ff_q d v" "ff_q d v \<le> 511" using D L by (auto simp: ff_q_def)
  show "d_normal w" "d_ssig w = (if s then - (2 ^ 52) else 2 ^ 52)" "d_scale w = ff_q (ff_desc a) (ff_value a) - 52"
    using P q by (simp_all add: d_normal_def d_ssig_def d_sig_def d_scale_def DV)
qed

text \<open>The value after the addition of a unit, cut again at the place of the format: the significand
  has gone up by one.\<close>

lemma unit_cut:
  fixes r :: rmode
  assumes "ff_format d" "d_normal v" "ff_ex d v < flexfloat_inf_exp d" "1 \<le> ff_ex d v \<or> d_frac v \<noteq> 2 ^ 52 - 1"
    "d_normal w" "d_ssig w = (if d_sign v then - (2 ^ 52) else 2 ^ 52)" "d_scale w = ff_q d v - 52"
  defines "x \<equiv> fst (d_add r v w)" and "k \<equiv> ff_k d v"
  shows "d_normal x" "d_sign x = d_sign v"
    "of_int (d_sig x div 2 ^ ff_k d x) * 2 powi ff_q d x = (of_int (d_sig v div 2 ^ k + 1) * 2 powi ff_q d v :: real)"
    "ff_ex d x \<le> flexfloat_inf_exp d"
proof -
  note D = ff_formatD [OF assms(1)] and S = d_sig_normal [OF assms(2)] and K = ff_k_cases [OF assms(1)]
  define T where "T = d_sig v + 2 ^ k"
  have q: "ff_q d v = d_scale v + int k" using K(3) [OF assms(2)] by (simp add: k_def)
  have qb: "ff_q d v \<le> 511" "- 541 \<le> ff_q d v" using D assms(3) by (auto simp: ff_q_def)
  have big: "k \<le> 52 \<or> d_sig v \<noteq> 2 ^ 53 - 1"
    using assms(4) K(1) [of v] D S(1) by (auto simp: k_def)
  have x: "x = fst (d_round r (d_sign v) (T * 2 ^ (52 - k)) (d_scale v - int (52 - k)) False)"
    using add_unit [OF assms(2,5,6), of k r] assms(7) by (simp add: x_def T_def q)
  note A = add_unit_sig [OF assms(2) qb [unfolded q] big, of r, folded T_def, folded x]
  have sx: "d_exp x = d_scale x + 1075" using A(1) by (simp add: d_normal_def d_scale_def)
  have sv: "d_exp v = d_scale v + 1075" using assms(2) by (simp add: d_normal_def d_scale_def)
  have ex: "ff_ex d x = ff_ex d v + (d_scale x - d_scale v)" by (simp add: ff_ex_def sx sv)
  show "d_normal x" "d_sign x = d_sign v" by (rule A)+
  consider (a) "k \<le> 52" "T < 2 ^ 53" | (b) "k \<le> 52" "2 ^ 53 \<le> T" | (c) "53 \<le> k" by linarith
  then have "of_int (d_sig x div 2 ^ ff_k d x) * 2 powi ff_q d x = (of_int (d_sig v div 2 ^ k + 1) * 2 powi ff_q d v :: real) \<and>
    ff_ex d x \<le> flexfloat_inf_exp d"
  proof cases
    case a
    have X: "d_sig x = T" "d_scale x = d_scale v" using A(3) a by simp_all
    have e: "ff_ex d x = ff_ex d v" using ex X by simp
    have s: "T div 2 ^ k = d_sig v div 2 ^ k + 1" unfolding T_def by simp
    then show ?thesis using a(2) s assms(3) unfolding ff_k_def ff_q_def e X by (simp add: k_def ff_k_def)
  next
    case b
    have X: "T < 2 * (d_sig x + 1)" "2 * d_sig x < T + 2" "d_scale x = d_scale v + 1" using A(4) b by simp_all
    have e: "ff_ex d x = ff_ex d v + 1" using ex X by simp
    have k1: "1 \<le> k" using K(4) [of v] by (simp add: k_def)
    have p: "(2::int) ^ k = 2 * 2 ^ (k - 1)" using k1 by (simp flip: power_Suc)
    have "(2::int) ^ 53 = 2 ^ (53 - k) * 2 ^ k" using b(1) by (subst mult.commute) (intro pow_diff, simp)
    moreover have "d_sig v div 2 ^ k = 2 ^ (53 - k) - 1"
      using b S(2) calculation unfolding T_def
      by (intro int_div_pos_eq [where r = "d_sig v - 2 ^ 53 + 2 ^ k"]) (simp_all add: right_diff_distrib mult.commute)
    ultimately have V: "d_sig v div 2 ^ k + 1 = 2 ^ (53 - k)" by simp_all
    have lo: "2 ^ 52 \<le> d_sig x" using X(1) b(2) by simp
    have pw: "(2::real) ^ (53 - k) = 2 ^ (52 - k) * 2" 
    proof -
      have "53 - k = Suc (52 - k)" using b(1) by simp
      then show ?thesis by simp
    qed
    show ?thesis
    proof (cases "1 \<le> ff_ex d v")
      case True
      have kx: "ff_k d x = k" "ff_q d x = ff_q d v + 1" using True e by (simp_all add: k_def ff_k_def ff_q_def)
      define P :: int where "P = 2 ^ (k - 1)"
      have "0 < P" by (simp add: P_def)
      then have "d_sig x < 2 ^ 52 + 2 ^ k" using X(2) S(2) unfolding T_def p P_def [symmetric] by simp
      then have "d_sig x div 2 ^ k = 2 ^ (52 - k)" using pow_quot [OF lo] b(1) by simp
      then show ?thesis unfolding kx V e using assms(3) by (simp add: pw power_int_add)
    next
      case False
      have kx: "ff_k d x = k - 1" "ff_q d x = ff_q d v" using False e by (simp_all add: k_def ff_k_def ff_q_def nat_diff_distrib)
      have "d_sig v \<noteq> 2 ^ 53 - 1" using assms(4) False S(1) by simp
      then have "d_sig x < 2 ^ 52 + 2 ^ (k - 1)" using X(2) S(2) unfolding T_def p by simp
      then have "d_sig x div 2 ^ (k - 1) = 2 ^ (52 - (k - 1))" using pow_quot [OF lo] b(1) by simp
      moreover have "52 - (k - 1) = 53 - k" using k1 by simp
      ultimately show ?thesis unfolding kx V e using False D by simp
    qed
  next
    case c
    have X: "d_scale x = d_scale v + int k - 52" using A(5) c by simp
    have le: "ff_ex d v \<le> 0" using K(1) [of v] c D by (cases "1 \<le> ff_ex d v") (simp_all add: k_def)
    have kk: "int k = 53 - int (frac_bits d) - ff_ex d v" using K(2) [OF le] le D by (simp add: k_def of_nat_diff)
    have e: "ff_ex d x = 1 - int (frac_bits d)" using ex X kk by simp
    have kx: "ff_k d x = 52" "ff_q d x = ff_q d v" using e le D by (simp_all add: ff_k_def ff_q_def)
    have "(2::int) ^ 53 \<le> 2 ^ k" using c by (intro power_increasing) simp_all
    then have v0: "d_sig v div 2 ^ k = 0" using S by (intro div_pos_pos_trivial) simp_all
    have "d_sig x div 2 ^ 52 = 1" using d_sig_normal [OF A(1)] by (intro quot_one) simp_all
    then show ?thesis unfolding kx v0 e using le D by simp
  qed
  then show "of_int (d_sig x div 2 ^ ff_k d x) * 2 powi ff_q d x = (of_int (d_sig v div 2 ^ k + 1) * 2 powi ff_q d v :: real)"
    "ff_ex d x \<le> flexfloat_inf_exp d"
    by blast+
qed

section \<open>Rounding to the format\<close>

lemma cut_less:
  assumes "ff_format d" "d_normal x" "ff_ex d x \<le> flexfloat_inf_exp d"
  shows "of_int (d_sig x div 2 ^ ff_k d x) * 2 powi ff_q d x < (2 powi (flexfloat_bias d + 1) :: real) \<longleftrightarrow>
    ff_ex d x < flexfloat_inf_exp d"
proof -
  note D = ff_formatD [OF assms(1)] and S = d_sig_normal [OF assms(2)] and K = ff_k_cases [OF assms(1)]
  let ?k = "ff_k d x" and ?q = "ff_q d x"
  have sc: "d_scale x = ff_ex d x - flexfloat_bias d - 52" using assms(2) by (simp add: d_normal_def d_scale_def ff_ex_def)
  show ?thesis
  proof (cases "ff_ex d x < flexfloat_inf_exp d")
    case True
    have "of_int (d_sig x div 2 ^ ?k * 2 ^ ?k) * 2 powi d_scale x < (2 powi 53 * 2 powi d_scale x :: real)"
    proof (intro mult_strict_right_mono)
      have "d_sig x div 2 ^ ?k * 2 ^ ?k < 2 ^ 53" using div_times_le [of "d_sig x" ?k] S(2) by (rule le_less_trans)
      then have "of_int (d_sig x div 2 ^ ?k * 2 ^ ?k) < (of_int (2 ^ 53) :: real)" by (simp only: of_int_less_iff)
      then show "of_int (d_sig x div 2 ^ ?k * 2 ^ ?k) < (2 powi 53 :: real)" by simp
    qed simp
    also have "\<dots> = 2 powi (53 + d_scale x)" by (simp add: power_int_add)
    also have "\<dots> \<le> 2 powi (flexfloat_bias d + 1)" using True D sc by (intro power_int_increasing) simp_all
    finally show ?thesis using True unfolding K(3) [OF assms(2)] by (simp add: power_int_add power_int_of_nat mult_ac)
  next
    case False
    then have e: "ff_ex d x = 2 * flexfloat_bias d + 1" using assms(3) D by simp
    have k: "?k = 52 - frac_bits d" using K(1) [of x] e D by simp
    have "2 ^ 52 div 2 ^ ?k \<le> d_sig x div 2 ^ ?k" using S(3) by (intro zdiv_mono1) simp_all
    moreover have "(2::int) ^ 52 div 2 ^ ?k = 2 ^ frac_bits d" using D unfolding k by (subst power_diff [symmetric]) simp_all
    ultimately have "(2::real) ^ frac_bits d \<le> of_int (d_sig x div 2 ^ ?k)" by (simp flip: of_int_le_iff)
    then have "(2::real) ^ frac_bits d * 2 powi ?q \<le> of_int (d_sig x div 2 ^ ?k) * 2 powi ?q"
      by (intro mult_right_mono) simp_all
    moreover have "(2::real) ^ frac_bits d * 2 powi ?q = 2 powi (int (frac_bits d) + ?q)"
      by (simp add: power_int_add power_int_of_nat)
    moreover have "int (frac_bits d) + ?q = flexfloat_bias d + 1" using e D by (simp add: ff_q_def)
    ultimately show ?thesis using False by simp
  qed
qed

text \<open>Packing a value whose exponent has reached that of infinity.\<close>

lemma sanitize_pack_infinite:
  fixes s :: bool and env :: fenv
  assumes "ff_format (ff_desc a)" "ex = flexfloat_inf_exp (ff_desc a)" "d_exp (ff_value a) \<noteq> 0"
  defines "r \<equiv> ff_value (fst (sanitize_pack a ex s env))"
  shows "d_inf r" "d_sign r = s"
proof -
  note D = ff_formatD [OF assms(1)]
  have "r = flexfloat_pack (ff_desc a) s ex 0"
    using assms(2,3) D by (simp add: r_def sanitize_pack_def Let_def INF_EXP_def)
  then show "d_inf r" "d_sign r = s"
    using pack_fields [OF assms(1), of 0 ex s] assms(2) by (simp_all add: d_inf_def INF_EXP_def)
qed

lemma sanitize_steps:
  fixes a env
  defines "ex \<equiv> flexfloat_exp a" and "s \<equiv> d_sign (ff_value a)"
  assumes "ex \<noteq> INF_EXP" "frac_bits (ff_desc a) \<noteq> 52"
  shows "flexfloat_sanitize a env =
    (let a' = (if sanitize_up (fe_round env) a ex s
               then a\<lparr>ff_value := fst (d_add (fe_round env) (ff_value a) (flexfloat_rounding_value a ex s))\<rparr> else a)
     in sanitize_pack a' (flexfloat_exp a') s
          (if flexfloat_round_bit a ex \<or> flexfloat_sticky_bit a ex
           then feraise (no_except\<lparr>fe_inexact := True\<rparr>) env else env))"
  using assms(3,4) unfolding flexfloat_sanitize_def sanitize_round_def flexfloat_sign_def s_def ex_def
  by (simp add: Let_def)

section \<open>What every operation promises\<close>

text \<open>Reading back a rounded value never shifts out of range, whatever was computed.\<close>

lemma get_bits_defined:
  assumes "0 \<le> flexfloat_exp a \<or> flexfloat_exp a = INF_EXP \<or> 1 \<le> int (frac_bits (ff_desc a)) + flexfloat_exp a \<and> frac_bits (ff_desc a) \<le> 31"
  shows "flexfloat_get_bits a \<noteq> None"
  using assms by (auto simp: flexfloat_get_bits_def Let_def int_bit_def INF_EXP_def)

lemma flexfloat_pack_exp:
  assumes "ff_format d" "uint fr < 2 ^ frac_bits d" "ex = flexfloat_inf_exp d \<or> flexfloat_bias d - 1023 < ex \<and> ex < flexfloat_inf_exp d"
  shows "flexfloat_exp \<lparr>ff_value = flexfloat_pack d s ex fr, ff_desc = d\<rparr> = (if ex = flexfloat_inf_exp d then INF_EXP else ex)"
  using pack_fields [OF assms(1,2), of ex s] assms(3) ff_formatD [OF assms(1)]
  by (auto simp: flexfloat_exp_def INF_EXP_def BIAS_def)

lemma denorm_nonzero:
  assumes "ff_format (ff_desc a)" "d_normal (ff_value a)" "ff_ex (ff_desc a) (ff_value a) \<le> 0"
    "flexfloat_denorm_frac a (ff_ex (ff_desc a) (ff_value a)) \<noteq> 0"
  shows "1 \<le> int (frac_bits (ff_desc a)) + ff_ex (ff_desc a) (ff_value a)"
proof -
  let ?k = "ff_k (ff_desc a) (ff_value a)"
  have "d_sig (ff_value a) div 2 ^ ?k \<noteq> 0" using assms(4) uint_denorm_frac [OF assms(1-3)] by (metis uint_0_iff)
  then have "\<not> d_sig (ff_value a) < 2 ^ ?k" using d_sig_normal(3) [OF assms(2)] by (auto simp: div_pos_pos_trivial)
  then have "\<not> (2::int) ^ 53 \<le> 2 ^ ?k" using d_sig_normal(2) [OF assms(2)] by linarith
  then have "?k < 53" by (meson not_less power_increasing one_le_numeral)
  then show ?thesis using ff_k_cases(2) [OF assms(1,3)] ff_formatD [OF assms(1)] by simp
qed

lemma cut_frac_bound: "uint (push_bit j (drop_bit j (x :: u64))) \<le> uint x"
proof -
  have "push_bit j (drop_bit j x) = x AND NOT (mask j)" by (rule bit_word_eqI) (auto simp: bit_simps)
  then show ?thesis using word_and_le2 [of x "NOT (mask j)"] by (simp add: word_le_def and.commute)
qed

lemma sanitize_pack_defined:
  fixes s :: bool and env :: fenv
  assumes "ff_format (ff_desc a)"
  defines "r \<equiv> fst (sanitize_pack a (flexfloat_exp a) s env)"
  shows "flexfloat_get_bits r \<noteq> None"
proof -
  define d where "d = ff_desc a" define v where "v = ff_value r" define ex where "ex = flexfloat_exp a"
  have F: "ff_format d" using assms(1) by (simp add: d_def)
  note D = ff_formatD [OF F]
  have fb: "uint (flexfloat_frac a) < 2 ^ frac_bits d" using flexfloat_frac_bound [of a] D by (simp add: d_def)
  have r: "r = \<lparr>ff_value = v, ff_desc = d\<rparr>"
  proof -
    have "ff_desc r = d" by (simp add: r_def d_def sanitize_pack_def Let_def)
    then show ?thesis by (simp add: v_def)
  qed
  have zero: "flexfloat_get_bits r \<noteq> None" if "d_exp v = 0"
    by (rule get_bits_defined) (simp add: flexfloat_exp_def r that)
  have pack: "flexfloat_get_bits r \<noteq> None"
    if "v = flexfloat_pack d s' e fr" "uint fr < 2 ^ frac_bits d"
      "e = flexfloat_inf_exp d \<or> 1 \<le> int (frac_bits d) + e \<and> e < flexfloat_inf_exp d" for s' e fr
    using flexfloat_pack_exp [OF F that(2), of e s'] that(3) D unfolding that(1) [symmetric] r [symmetric]
    by (intro get_bits_defined) (auto simp: r)
  consider (sub) "d_exp (ff_value a) = 0" | (den) "d_exp (ff_value a) \<noteq> 0" "ex \<le> 0" | (inf) "d_exp (ff_value a) \<noteq> 0" "ex = INF_EXP"
    | (big) "d_exp (ff_value a) \<noteq> 0" "0 < ex" "ex \<noteq> INF_EXP" "flexfloat_inf_exp d \<le> ex"
    | (norm) "d_exp (ff_value a) \<noteq> 0" "0 < ex" "ex \<noteq> INF_EXP" "ex < flexfloat_inf_exp d"
    by linarith
  then show ?thesis
  proof cases
    case sub
    have "v = PACK s 0 (push_bit (52 - frac_bits d) (flexfloat_frac a))"
      using sub by (simp add: v_def r_def sanitize_pack_def Let_def flexfloat_denorm_pack_def d_def)
    then show ?thesis using zero PACK_fields(2) [of 0 "push_bit (52 - frac_bits d) (flexfloat_frac a)" s]
      uint_frac_shift [OF fb] uint_mult_le [OF fb] D by simp
  next
    case den
    have N: "d_normal (ff_value a)"
      using den fields_bounds(1,2) [of "ff_value a"] by (auto simp: d_normal_def ex_def flexfloat_exp_def INF_EXP_def Let_def split: if_splits)
    have e: "ex = ff_ex d (ff_value a)" using flexfloat_exp_normal [OF N] by (simp add: ex_def d_def)
    show ?thesis
    proof (cases "flexfloat_denorm_frac a ex = 0")
      case True
      then have "v = PACK s 0 0" using den by (simp add: v_def r_def sanitize_pack_def Let_def ex_def)
      then show ?thesis using zero by simp
    next
      case False
      define fr where "fr = push_bit (nat (1 - ex)) (drop_bit (nat (1 - ex)) (flexfloat_frac a))"
      have f1: "1 \<le> int (frac_bits d) + ex" using denorm_nonzero [OF assms(1) N] False den e by (simp add: d_def)
      have "v = flexfloat_pack d s ex fr"
        using den False f1 D unfolding v_def r_def ex_def [symmetric] fr_def by (simp add: sanitize_pack_def Let_def d_def [symmetric])
      moreover have "uint fr < 2 ^ frac_bits d" unfolding fr_def using cut_frac_bound fb by (rule le_less_trans)
      ultimately show ?thesis using pack f1 den D by auto
    qed
  next
    case inf
    have "uint (push_bit (frac_bits d - 1) 1 :: u64) = 2 ^ (frac_bits d - 1)"
      using D power_strict_increasing [of "frac_bits d - 1" 64 "2::int"] by (subst uint_push_bit) simp_all
    then have "uint (push_bit (frac_bits d - 1) 1 :: u64) < 2 ^ frac_bits d" using D by simp
    then show ?thesis
      using pack [of False "flexfloat_inf_exp d" "push_bit (frac_bits d - 1) 1"] pack [of s "flexfloat_inf_exp d" "flexfloat_frac a"] fb inf
      by (auto simp: v_def r_def sanitize_pack_def Let_def INF_EXP_def ex_def d_def split: if_splits)
  next
    case big
    then show ?thesis using pack [of s "flexfloat_inf_exp d" 0] by (simp add: v_def r_def sanitize_pack_def Let_def ex_def d_def)
  next
    case norm
    then show ?thesis using pack [of s ex "flexfloat_frac a"] fb by (simp add: v_def r_def sanitize_pack_def Let_def ex_def d_def)
  qed
qed

lemma fe_le_refl [simp]: "fe_le x x"
  by (simp add: fe_le_def fe_or_def)

lemma fe_le_trans: "fe_le x y \<Longrightarrow> fe_le y z \<Longrightarrow> fe_le x z"
  by (auto simp: fe_le_def fe_or_def)

lemma fe_le_feraise [simp]: "fe_le (fe_flags env) (fe_flags (feraise x env))"
  by (auto simp: fe_le_def fe_or_def feraise_def)

lemma sanitize_pack_env:
  "fe_round (snd (sanitize_pack a ex s env)) = fe_round env"
  "fe_le (fe_flags env) (fe_flags (snd (sanitize_pack a ex s env)))"
  "ff_desc (fst (sanitize_pack a ex s env)) = ff_desc a"
  by (simp_all add: sanitize_pack_def Let_def)

lemma sanitize_contract:
  assumes "ff_format (ff_desc a)"
  shows "ff_contract (ff_desc a) env (flexfloat_sanitize a env)"
proof -
  note D = ff_formatD [OF assms]
  obtain a' env' where e: "flexfloat_sanitize a env = sanitize_pack a' (flexfloat_exp a') (flexfloat_sign a) env'"
    "ff_desc a' = ff_desc a" "fe_round env' = fe_round env" "fe_le (fe_flags env) (fe_flags env')"
  proof (cases "flexfloat_exp a = INF_EXP \<or> frac_bits (ff_desc a) = 52")
    case True
    then show ?thesis using that [of a env] D by (auto simp: flexfloat_sanitize_def Let_def)
  next
    case False
    let ?ex = "flexfloat_exp a" and ?s = "d_sign (ff_value a)"
    let ?a = "if sanitize_up (fe_round env) a ?ex ?s
       then a\<lparr>ff_value := fst (d_add (fe_round env) (ff_value a) (flexfloat_rounding_value a ?ex ?s))\<rparr> else a"
    let ?e = "if flexfloat_round_bit a ?ex \<or> flexfloat_sticky_bit a ?ex then feraise (no_except\<lparr>fe_inexact := True\<rparr>) env else env"
    show ?thesis
      using sanitize_steps [of a env] False by (intro that [of ?a ?e]) (simp_all add: Let_def flexfloat_sign_def)
  qed
  have F: "ff_format (ff_desc a')" using assms e(2) by simp
  show ?thesis
    using sanitize_pack_defined [OF F, of "flexfloat_sign a" env'] sanitize_pack_env [where a = a' and env = env'] e
    by (auto simp: ff_contract_def intro: fe_le_trans [of _ "fe_flags env'"])
qed

lemma store_contract:
  assumes "ff_format (ff_desc dest)"
  shows "ff_contract (ff_desc dest) env (ff_store dest r env)"
  using sanitize_contract [of "dest\<lparr>ff_value := fst r\<rparr>" "feraise (snd r) env"] assms
  by (auto simp: ff_contract_def ff_store_def intro: fe_le_trans [OF fe_le_feraise])

text \<open>The operations of two and of three operands.\<close>

locale ff_op2 =
  fixes f :: "flexfloat \<Rightarrow> flexfloat \<Rightarrow> flexfloat \<Rightarrow> fenv \<Rightarrow> (flexfloat \<times> fenv) option"
  assumes contract: "ff_format (ff_desc dest) \<Longrightarrow> same_desc dest a \<Longrightarrow> same_desc a b \<Longrightarrow>
      \<exists>r. f dest a b env = Some r \<and> ff_contract (ff_desc dest) env r"

locale ff_op3 =
  fixes g :: "flexfloat \<Rightarrow> flexfloat \<Rightarrow> flexfloat \<Rightarrow> flexfloat \<Rightarrow> fenv \<Rightarrow> (flexfloat \<times> fenv) option"
  assumes contract3: "ff_format (ff_desc dest) \<Longrightarrow> same_desc dest a \<Longrightarrow> same_desc a b \<Longrightarrow> same_desc b c \<Longrightarrow>
      \<exists>r. g dest a b c env = Some r \<and> ff_contract (ff_desc dest) env r"

interpretation add: ff_op2 ff_add by unfold_locales (simp add: ff_add_def store_contract)

interpretation sub: ff_op2 ff_sub by unfold_locales (simp add: ff_sub_def store_contract)

interpretation mul: ff_op2 ff_mul by unfold_locales (simp add: ff_mul_def store_contract)

interpretation div: ff_op2 ff_div by unfold_locales (simp add: ff_div_def store_contract)

interpretation min: ff_op2 ff_min by unfold_locales (simp add: ff_min_def Let_def store_contract)

interpretation max: ff_op2 ff_max by unfold_locales (simp add: ff_max_def Let_def store_contract)

interpretation fma: ff_op3 ff_fma by unfold_locales (simp add: ff_fma_def Let_def store_contract)

interpretation fnma: ff_op3 ff_fnma by unfold_locales (simp add: ff_fnma_def Let_def store_contract)



section \<open>Where the rounding is not exact\<close>

text \<open>An all-ones significand in the subnormal range of half precision, \<open>(2 ^ 53 - 1) * 2 powi (- 69)\<close>:
  the nearest subnormal is \<open>0x100\<close>; the addition of the unit rounds up to the next double and the
  result is \<open>0x101\<close>.\<close>

lemma all_ones_subnormal_one_too_high:
  "flexfloat_get_bits (fst (flexfloat_sanitize \<lparr>ff_value = 0x3EEFFFFFFFFFFFFF, ff_desc = \<lparr>exp_bits = 5, frac_bits = 10\<rparr>\<rparr>
     \<lparr>fe_round = FE_TONEAREST, fe_flags = no_except\<rparr>)) = Some 0x101"
  "fst (round_at FE_TONEAREST False (d_sig 0x3EEFFFFFFFFFFFFF) (d_scale 0x3EEFFFFFFFFFFFFF) False (- 24)) = 0x100"
  by code_simp+

text \<open>A tiny positive value rounded upward to single precision is zero, and no inexact flag is raised.\<close>

lemma tiny_upward_is_zero:
  "fe_inexact (fe_flags (snd (flexfloat_sanitize \<lparr>ff_value = 0x3000000000000000, ff_desc = \<lparr>exp_bits = 8, frac_bits = 23\<rparr>\<rparr>
     \<lparr>fe_round = FE_UPWARD, fe_flags = no_except\<rparr>))) = False"
  "flexfloat_get_bits (fst (flexfloat_sanitize \<lparr>ff_value = 0x3000000000000000, ff_desc = \<lparr>exp_bits = 8, frac_bits = 23\<rparr>\<rparr>
     \<lparr>fe_round = FE_UPWARD, fe_flags = no_except\<rparr>)) = Some 0"
  by code_simp+

text \<open>A finite value beyond the largest number rounds to infinity also toward zero.\<close>

lemma overflow_toward_zero_is_infinite:
  "flexfloat_get_bits (fst (flexfloat_sanitize \<lparr>ff_value = 0x40F0000000000000, ff_desc = \<lparr>exp_bits = 5, frac_bits = 10\<rparr>\<rparr>
     \<lparr>fe_round = FE_TOWARDZERO, fe_flags = no_except\<rparr>)) = Some 0x7C00"
  by code_simp

text \<open>A subnormal double is read as a subnormal of the format: \<open>2 powi (- 1023)\<close> becomes
  \<open>2 powi (- 127)\<close> in single precision.\<close>

lemma subnormal_double_is_scaled_up:
  "flexfloat_get_bits (fst (flexfloat_sanitize \<lparr>ff_value = 0x0008000000000000, ff_desc = \<lparr>exp_bits = 8, frac_bits = 23\<rparr>\<rparr>
     \<lparr>fe_round = FE_TONEAREST, fe_flags = no_except\<rparr>)) = Some 0x00400000"
  by code_simp

text \<open>The fused multiply-add rounds twice in nearest mode: \<open>a * b = 2 ^ 47 - 1\<close> added to
  \<open>(2 ^ 23 + 1) * 2 ^ 48\<close> is just below the middle of two single precision numbers, is first rounded
  up to the middle, and then to the even neighbour \<open>(2 ^ 23 + 2) * 2 ^ 48\<close>.\<close>

lemma fma_rounds_twice:
  "map_option (flexfloat_get_bits \<circ> fst)
     (ff_fma (ff32 0) (ff32 0x4B21E58F) (ff32 0x4B4A6691) (ff32 0x63000001) \<lparr>fe_round = FE_TONEAREST, fe_flags = no_except\<rparr>)
   = Some (Some 0x63000002)"
  "ff_value (ff32 0x4B21E58F) = fst (d_of_int FE_TONEAREST 10610063)"
  "ff_value (ff32 0x4B4A6691) = fst (d_of_int FE_TONEAREST 13264529)"
  "ff_value (ff32 0x63000001) = fst (d_of_int FE_TONEAREST ((2 ^ 23 + 1) * 2 ^ 48))"
  "(10610063 :: int) * 13264529 = 2 ^ 47 - 1"
  by code_simp+

end
