(* ===== verification/Isa_Float.thy ===== *)
theory Isa_Float
  imports Flexfloat_Round Isa_Scalar "HOL-Library.Monad_Syntax"
begin

text \<open>
  The floating-point helpers of the instruction library (\<^verbatim>\<open>models/cpu/iss/include/isa_lib/int.h\<close>): the
  bridge between register bits and the flexfloat library. The state is the floating-point part of the
  core, \<^verbatim>\<open>fcsr\<close>, and the floating-point environment of the host, whose rounding mode the helpers switch
  and whose flags they copy to \<^verbatim>\<open>fflags\<close>. \<open>None\<close> is the end of the simulation: a failing assertion, the
  \<^verbatim>\<open>exit(-1)\<close> for an unsupported rounding mode, or undefined behaviour. The branches for \<^verbatim>\<open>OLD\<close>, which is
  never defined, are left out.
\<close>

section \<open>State\<close>

record fp_state =
  fflags :: u32
  frm :: u32
  host :: fenv

definition set_fflags :: "u32 \<Rightarrow> fp_state \<Rightarrow> fp_state" where
  "set_fflags flags st = st\<lparr>fflags := fflags st OR (flags AND 0x1F)\<rparr>"

definition clear_fflags :: "u32 \<Rightarrow> fp_state \<Rightarrow> fp_state" where
  "clear_fflags flags st = st\<lparr>fflags := fflags st AND NOT flags\<rparr>"

definition flags_word :: "fexcept \<Rightarrow> u32" where
  "flags_word ex =
     of_bool (fe_inexact ex) OR push_bit 1 (of_bool (fe_underflow ex)) OR push_bit 2 (of_bool (fe_overflow ex)) OR
     push_bit 3 (of_bool (fe_divbyzero ex)) OR push_bit 4 (of_bool (fe_invalid ex))"

definition update_fflags_fenv :: "fp_state \<Rightarrow> fp_state" where
  "update_fflags_fenv st = set_fflags (flags_word (fe_flags (host st))) st"

definition feclearexcept :: "fp_state \<Rightarrow> fp_state" where
  "feclearexcept st = st\<lparr>host := feclear (host st)\<rparr>"

definition raise_host :: "fexcept \<Rightarrow> fp_state \<Rightarrow> fp_state" where
  "raise_host x st = st\<lparr>host := feraise x (host st)\<rparr>"

section \<open>Operands\<close>

text \<open>\<^verbatim>\<open>FF_INIT_1\<close> and its variants: an operand is initialized with its format and its bits.\<close>

definition ff_operand :: "nat \<Rightarrow> nat \<Rightarrow> u32 \<Rightarrow> flexfloat" where
  "ff_operand e m a = flexfloat_set_bits (ff_init \<lparr>exp_bits = e, frac_bits = m\<rparr>) (ucast a)"

definition ff_result :: "nat \<Rightarrow> nat \<Rightarrow> flexfloat" where
  "ff_result e m = ff_init \<lparr>exp_bits = e, frac_bits = m\<rparr>"

text \<open>The bits of a result, cut to \<^verbatim>\<open>unsigned int\<close>.\<close>

definition get_bits32 :: "flexfloat \<Rightarrow> u32 option" where
  "get_bits32 r = map_option ucast (flexfloat_get_bits r)"

definition FF_EXEC_2 :: "(flexfloat \<Rightarrow> flexfloat \<Rightarrow> flexfloat \<Rightarrow> fenv \<Rightarrow> (flexfloat \<times> fenv) option) \<Rightarrow>
    u32 \<Rightarrow> u32 \<Rightarrow> nat \<Rightarrow> nat \<Rightarrow> fp_state \<Rightarrow> (u32 \<times> fp_state) option" where
  "FF_EXEC_2 name a b e m st = do {
     let st1 = feclearexcept st;
     (res, env) \<leftarrow> name (ff_result e m) (ff_operand e m a) (ff_operand e m b) (host st1);
     let st2 = update_fflags_fenv (st1\<lparr>host := env\<rparr>);
     r \<leftarrow> get_bits32 res;
     Some (r, st2)
   }"

definition FF_EXEC_3 :: "(flexfloat \<Rightarrow> flexfloat \<Rightarrow> flexfloat \<Rightarrow> flexfloat \<Rightarrow> fenv \<Rightarrow> (flexfloat \<times> fenv) option) \<Rightarrow>
    flexfloat \<Rightarrow> flexfloat \<Rightarrow> flexfloat \<Rightarrow> nat \<Rightarrow> nat \<Rightarrow> fp_state \<Rightarrow> (u32 \<times> fp_state) option" where
  "FF_EXEC_3 name ff_a ff_b ff_c e m st = do {
     let st1 = feclearexcept st;
     (res, env) \<leftarrow> name (ff_result e m) ff_a ff_b ff_c (host st1);
     let st2 = update_fflags_fenv (st1\<lparr>host := env\<rparr>);
     r \<leftarrow> get_bits32 res;
     Some (r, st2)
   }"

section \<open>Conversion of doubles to integers\<close>

text \<open>\<^verbatim>\<open>nearbyint\<close> in the rounding mode of the host, then a comparison with the bounds, false for NaN.\<close>

definition double_to :: "int \<Rightarrow> int \<Rightarrow> u64 \<Rightarrow> fp_state \<Rightarrow> (int \<times> fp_state) option" where
  "double_to lo hi dbl st = do {
     let d = d_nearbyint (fe_round (host st)) dbl;
     let top = fst (d_of_int FE_TONEAREST (hi + 1));
     let bot = fst (d_of_int FE_TONEAREST lo);
     let st' = raise_host (cmp_flags d top) st;
     if d_lt d top then
       if d_le bot d then do { n \<leftarrow> d_trunc d; Some (n, st') }
       else Some (lo, st')
     else Some (hi, st')
   }"

definition double_to_int :: "u64 \<Rightarrow> fp_state \<Rightarrow> (u32 \<times> fp_state) option" where
  "double_to_int dbl st = map_option (apfst word_of_int) (double_to (- (2 ^ 31)) (2 ^ 31 - 1) dbl st)"

definition double_to_uint :: "u64 \<Rightarrow> fp_state \<Rightarrow> (u32 \<times> fp_state) option" where
  "double_to_uint dbl st = map_option (apfst word_of_int) (double_to 0 (2 ^ 32 - 1) dbl st)"

definition double_to_long :: "u64 \<Rightarrow> fp_state \<Rightarrow> (u64 \<times> fp_state) option" where
  "double_to_long dbl st = map_option (apfst word_of_int) (double_to (- (2 ^ 63)) (2 ^ 63 - 1) dbl st)"

definition double_to_ulong :: "u64 \<Rightarrow> fp_state \<Rightarrow> (u64 \<times> fp_state) option" where
  "double_to_ulong dbl st = map_option (apfst word_of_int) (double_to 0 (2 ^ 64 - 1) dbl st)"

section \<open>Arithmetic\<close>

definition lib_flexfloat_add :: "u32 \<Rightarrow> u32 \<Rightarrow> nat \<Rightarrow> nat \<Rightarrow> fp_state \<Rightarrow> (u32 \<times> fp_state) option" where
  "lib_flexfloat_add = FF_EXEC_2 ff_add"

definition lib_flexfloat_sub :: "u32 \<Rightarrow> u32 \<Rightarrow> nat \<Rightarrow> nat \<Rightarrow> fp_state \<Rightarrow> (u32 \<times> fp_state) option" where
  "lib_flexfloat_sub = FF_EXEC_2 ff_sub"

definition lib_flexfloat_mul :: "u32 \<Rightarrow> u32 \<Rightarrow> nat \<Rightarrow> nat \<Rightarrow> fp_state \<Rightarrow> (u32 \<times> fp_state) option" where
  "lib_flexfloat_mul = FF_EXEC_2 ff_mul"

definition lib_flexfloat_div :: "u32 \<Rightarrow> u32 \<Rightarrow> nat \<Rightarrow> nat \<Rightarrow> fp_state \<Rightarrow> (u32 \<times> fp_state) option" where
  "lib_flexfloat_div = FF_EXEC_2 ff_div"

definition lib_flexfloat_avg :: "u32 \<Rightarrow> u32 \<Rightarrow> nat \<Rightarrow> nat \<Rightarrow> fp_state \<Rightarrow> (u32 \<times> fp_state) option" where
  "lib_flexfloat_avg a b e m st = do {
     let (ff_two, env0) = ff_init_int 2 \<lparr>exp_bits = e, frac_bits = m\<rparr> (host st);
     let st1 = feclearexcept (st\<lparr>host := env0\<rparr>);
     (sum, env1) \<leftarrow> ff_add (ff_result e m) (ff_operand e m a) (ff_operand e m b) (host st1);
     (res, env2) \<leftarrow> ff_div sum sum ff_two env1;
     let st2 = update_fflags_fenv (st1\<lparr>host := env2\<rparr>);
     r \<leftarrow> get_bits32 res;
     Some (r, st2)
   }"

definition lib_flexfloat_itof :: "u32 \<Rightarrow> nat \<Rightarrow> nat \<Rightarrow> fp_state \<Rightarrow> (u32 \<times> fp_state) option" where
  "lib_flexfloat_itof a e m st = do {
     let st1 = feclearexcept st;
     let (ff_a, env) = ff_init_int a \<lparr>exp_bits = e, frac_bits = m\<rparr> (host st1);
     let st2 = update_fflags_fenv (st1\<lparr>host := env\<rparr>);
     r \<leftarrow> get_bits32 ff_a;
     Some (r, st2)
   }"

text \<open>The conversion \<^verbatim>\<open>(int) ff_a.value\<close>, undefined outside the range of \<^verbatim>\<open>int\<close>.\<close>

definition d_to_int :: "u64 \<Rightarrow> u32 option" where
  "d_to_int v = do {
     n \<leftarrow> d_trunc v;
     if - (2 ^ 31) \<le> n \<and> n < 2 ^ 31 then Some (word_of_int n) else None
   }"

definition lib_flexfloat_ftoi :: "u32 \<Rightarrow> nat \<Rightarrow> nat \<Rightarrow> fp_state \<Rightarrow> (u32 \<times> fp_state) option" where
  "lib_flexfloat_ftoi a e m st = map_option (\<lambda>r. (r, st)) (d_to_int (ff_value (ff_operand e m a)))"

definition lib_flexfloat_madd :: "u32 \<Rightarrow> u32 \<Rightarrow> u32 \<Rightarrow> nat \<Rightarrow> nat \<Rightarrow> fp_state \<Rightarrow> (u32 \<times> fp_state) option" where
  "lib_flexfloat_madd a b c e m = FF_EXEC_3 ff_fma (ff_operand e m a) (ff_operand e m b) (ff_operand e m c) e m"

definition lib_flexfloat_msub :: "u32 \<Rightarrow> u32 \<Rightarrow> u32 \<Rightarrow> nat \<Rightarrow> nat \<Rightarrow> fp_state \<Rightarrow> (u32 \<times> fp_state) option" where
  "lib_flexfloat_msub a b c e m st = do {
     ff_c \<leftarrow> ff_inverse (ff_operand e m c) (ff_operand e m c);
     FF_EXEC_3 ff_fma (ff_operand e m a) (ff_operand e m b) ff_c e m st
   }"

definition lib_flexfloat_nmsub :: "u32 \<Rightarrow> u32 \<Rightarrow> u32 \<Rightarrow> nat \<Rightarrow> nat \<Rightarrow> fp_state \<Rightarrow> (u32 \<times> fp_state) option" where
  "lib_flexfloat_nmsub a b c e m st = do {
     ff_a \<leftarrow> ff_inverse (ff_operand e m a) (ff_operand e m a);
     FF_EXEC_3 ff_fma ff_a (ff_operand e m b) (ff_operand e m c) e m st
   }"

definition lib_flexfloat_nmadd :: "u32 \<Rightarrow> u32 \<Rightarrow> u32 \<Rightarrow> nat \<Rightarrow> nat \<Rightarrow> fp_state \<Rightarrow> (u32 \<times> fp_state) option" where
  "lib_flexfloat_nmadd a b c e m = FF_EXEC_3 ff_fnma (ff_operand e m a) (ff_operand e m b) (ff_operand e m c) e m"

section \<open>Rounding modes\<close>

text \<open>The codes of \<^verbatim>\<open>fenv.h\<close> on x86-64; \<^verbatim>\<open>fesetround\<close> ignores any other value.\<close>

definition fe_code :: "rmode \<Rightarrow> u32" where
  "fe_code r = (case r of FE_TONEAREST \<Rightarrow> 0 | FE_DOWNWARD \<Rightarrow> 0x400 | FE_UPWARD \<Rightarrow> 0x800 | FE_TOWARDZERO \<Rightarrow> 0xC00)"

definition restoreFFRoundingMode :: "u32 \<Rightarrow> fp_state \<Rightarrow> fp_state" where
  "restoreFFRoundingMode mode st =
     (case filter (\<lambda>r. fe_code r = mode) [FE_TONEAREST, FE_DOWNWARD, FE_UPWARD, FE_TOWARDZERO] of
        [] \<Rightarrow> st
      | r # _ \<Rightarrow> st\<lparr>host := fesetround r (host st)\<rparr>)"

text \<open>\<^verbatim>\<open>None\<close> is the call of \<^verbatim>\<open>exit(-1)\<close>.\<close>

definition set_mode :: "u32 \<Rightarrow> fp_state \<Rightarrow> fp_state option" where
  "set_mode mode st =
     (if mode = 0 then Some (st\<lparr>host := fesetround FE_TONEAREST (host st)\<rparr>)
      else if mode = 1 then Some (st\<lparr>host := fesetround FE_TOWARDZERO (host st)\<rparr>)
      else if mode = 2 then Some (st\<lparr>host := fesetround FE_DOWNWARD (host st)\<rparr>)
      else if mode = 3 then Some (st\<lparr>host := fesetround FE_UPWARD (host st)\<rparr>)
      else if mode = 4 then None
      else Some st)"

definition setFFRoundingMode :: "u32 \<Rightarrow> fp_state \<Rightarrow> (u32 \<times> fp_state) option" where
  "setFFRoundingMode mode st =
     map_option (\<lambda>st'. (fe_code (fe_round (host st)), st'))
       (if mode = 7 then set_mode (frm st) st else set_mode mode st)"

text \<open>The body of the \<^verbatim>\<open>_round\<close> helpers.\<close>

definition with_round :: "u32 \<Rightarrow> (fp_state \<Rightarrow> ('a \<times> fp_state) option) \<Rightarrow> fp_state \<Rightarrow> ('a \<times> fp_state) option" where
  "with_round rm f st = do {
     (old, st1) \<leftarrow> setFFRoundingMode rm st;
     (result, st2) \<leftarrow> f st1;
     Some (result, restoreFFRoundingMode old st2)
   }"

definition lib_flexfloat_madd_round :: "u32 \<Rightarrow> u32 \<Rightarrow> u32 \<Rightarrow> nat \<Rightarrow> nat \<Rightarrow> u32 \<Rightarrow> fp_state \<Rightarrow> (u32 \<times> fp_state) option" where
  "lib_flexfloat_madd_round a b c e m rm = with_round rm (lib_flexfloat_madd a b c e m)"

definition lib_flexfloat_msub_round :: "u32 \<Rightarrow> u32 \<Rightarrow> u32 \<Rightarrow> nat \<Rightarrow> nat \<Rightarrow> u32 \<Rightarrow> fp_state \<Rightarrow> (u32 \<times> fp_state) option" where
  "lib_flexfloat_msub_round a b c e m rm = with_round rm (lib_flexfloat_msub a b c e m)"

definition lib_flexfloat_nmadd_round :: "u32 \<Rightarrow> u32 \<Rightarrow> u32 \<Rightarrow> nat \<Rightarrow> nat \<Rightarrow> u32 \<Rightarrow> fp_state \<Rightarrow> (u32 \<times> fp_state) option" where
  "lib_flexfloat_nmadd_round a b c e m rm = with_round rm (lib_flexfloat_nmadd a b c e m)"

definition lib_flexfloat_nmsub_round :: "u32 \<Rightarrow> u32 \<Rightarrow> u32 \<Rightarrow> nat \<Rightarrow> nat \<Rightarrow> u32 \<Rightarrow> fp_state \<Rightarrow> (u32 \<times> fp_state) option" where
  "lib_flexfloat_nmsub_round a b c e m rm = with_round rm (lib_flexfloat_nmsub a b c e m)"

definition lib_flexfloat_add_round :: "u32 \<Rightarrow> u32 \<Rightarrow> nat \<Rightarrow> nat \<Rightarrow> u32 \<Rightarrow> fp_state \<Rightarrow> (u32 \<times> fp_state) option" where
  "lib_flexfloat_add_round a b e m rm = with_round rm (lib_flexfloat_add a b e m)"

definition lib_flexfloat_sub_round :: "u32 \<Rightarrow> u32 \<Rightarrow> nat \<Rightarrow> nat \<Rightarrow> u32 \<Rightarrow> fp_state \<Rightarrow> (u32 \<times> fp_state) option" where
  "lib_flexfloat_sub_round a b e m rm = with_round rm (lib_flexfloat_sub a b e m)"

definition lib_flexfloat_mul_round :: "u32 \<Rightarrow> u32 \<Rightarrow> nat \<Rightarrow> nat \<Rightarrow> u32 \<Rightarrow> fp_state \<Rightarrow> (u32 \<times> fp_state) option" where
  "lib_flexfloat_mul_round a b e m rm = with_round rm (lib_flexfloat_mul a b e m)"

definition lib_flexfloat_div_round :: "u32 \<Rightarrow> u32 \<Rightarrow> nat \<Rightarrow> nat \<Rightarrow> u32 \<Rightarrow> fp_state \<Rightarrow> (u32 \<times> fp_state) option" where
  "lib_flexfloat_div_round a b e m rm = with_round rm (lib_flexfloat_div a b e m)"

definition lib_flexfloat_avg_round :: "u32 \<Rightarrow> u32 \<Rightarrow> nat \<Rightarrow> nat \<Rightarrow> u32 \<Rightarrow> fp_state \<Rightarrow> (u32 \<times> fp_state) option" where
  "lib_flexfloat_avg_round a b e m rm = with_round rm (lib_flexfloat_avg a b e m)"

definition lib_flexfloat_sqrt_round :: "u32 \<Rightarrow> nat \<Rightarrow> nat \<Rightarrow> u32 \<Rightarrow> fp_state \<Rightarrow> (u32 \<times> fp_state) option" where
  "lib_flexfloat_sqrt_round a e m rm st = do {
     (old, st1) \<leftarrow> setFFRoundingMode rm st;
     let st2 = feclearexcept st1;
     let (v, fl) = d_sqrt (fe_round (host st2)) (ff_get_double (ff_operand e m a));
     let (res, env) = ff_init_double v \<lparr>exp_bits = e, frac_bits = m\<rparr> (feraise fl (host st2));
     let st3 = restoreFFRoundingMode old (update_fflags_fenv (st2\<lparr>host := env\<rparr>));
     r \<leftarrow> get_bits32 res;
     Some (r, st3)
   }"

section \<open>Sign injection\<close>

text \<open>\<^verbatim>\<open>(X >> n) & 1\<close> and the mask \<^verbatim>\<open>(1 << n) - 1\<close>; the formats have \<open>e + m < 32\<close>.\<close>

definition bit_at :: "u32 \<Rightarrow> nat \<Rightarrow> u32" where
  "bit_at X n = drop_bit n X AND 1"

definition low_ones :: "nat \<Rightarrow> u32" where
  "low_ones n = push_bit n 1 - 1"

definition lib_flexfloat_sgnj :: "u32 \<Rightarrow> u32 \<Rightarrow> nat \<Rightarrow> nat \<Rightarrow> u32 option" where
  "lib_flexfloat_sgnj a b e m =
     (let S_b = bit_at b (m + e);
          R = (a AND low_ones (m + e)) OR push_bit (m + e) S_b
      in DoExtend R (of_nat e) (of_nat m))"

definition lib_flexfloat_sgnjn :: "u32 \<Rightarrow> u32 \<Rightarrow> nat \<Rightarrow> nat \<Rightarrow> u32 option" where
  "lib_flexfloat_sgnjn a b e m =
     (let S_b = bit_at b (m + e);
          R = (a AND low_ones (m + e)) OR push_bit (m + e) (of_bool (S_b = 0))
      in DoExtend R (of_nat e) (of_nat m))"

definition lib_flexfloat_sgnjx :: "u32 \<Rightarrow> u32 \<Rightarrow> nat \<Rightarrow> nat \<Rightarrow> u32 option" where
  "lib_flexfloat_sgnjx a b e m =
     (let S_a = bit_at a (m + e);
          S_b = bit_at b (m + e);
          R = (a AND low_ones (m + e)) OR push_bit (m + e) (S_a XOR S_b)
      in DoExtend R (of_nat e) (of_nat m))"

section \<open>NaNs, minimum and maximum\<close>

definition exp_field :: "u32 \<Rightarrow> nat \<Rightarrow> nat \<Rightarrow> u32" where
  "exp_field X e m = drop_bit m X AND low_ones e"

definition man_field :: "u32 \<Rightarrow> nat \<Rightarrow> u32" where
  "man_field X m = X AND low_ones m"

definition IsNan :: "u32 \<Rightarrow> nat \<Rightarrow> nat \<Rightarrow> u32" where
  "IsNan X e m =
     (let E = exp_field X e m; M = man_field X m
      in if E = low_ones e \<and> M \<noteq> 0 then if bit_at M (m - 1) \<noteq> 0 then 1 else 2 else 0)"

definition nan_q :: "nat \<Rightarrow> nat \<Rightarrow> u32" where
  "nan_q e m = push_bit m (low_ones e) OR push_bit (m - 1) 1"

definition lib_flexfloat_min :: "u32 \<Rightarrow> u32 \<Rightarrow> nat \<Rightarrow> nat \<Rightarrow> fp_state \<Rightarrow> (u32 \<times> fp_state) option" where
  "lib_flexfloat_min a b e m st =
     (if IsNan a e m \<noteq> 0 \<and> IsNan b e m \<noteq> 0 then Some (nan_q e m, st)
      else if IsNan a e m \<noteq> 0 then Some (b, st)
      else if IsNan b e m \<noteq> 0 then Some (a, st)
      else FF_EXEC_2 ff_min a b e m st)"

definition lib_flexfloat_max :: "u32 \<Rightarrow> u32 \<Rightarrow> nat \<Rightarrow> nat \<Rightarrow> fp_state \<Rightarrow> (u32 \<times> fp_state) option" where
  "lib_flexfloat_max a b e m st =
     (if IsNan a e m \<noteq> 0 \<and> IsNan b e m \<noteq> 0 then Some (nan_q e m, st)
      else if IsNan a e m \<noteq> 0 then Some (b, st)
      else if IsNan b e m \<noteq> 0 then Some (a, st)
      else FF_EXEC_2 ff_max a b e m st)"

section \<open>Conversions\<close>

text \<open>Rounding to nearest with ties away from zero, mode 4, is done by hand: downward after adding one
  half to the magnitude.\<close>

definition half_up :: "u32 \<Rightarrow> u64 \<Rightarrow> fp_state \<Rightarrow> u64 \<times> bool \<times> fp_state" where
  "half_up rm v st =
     (if rm = 4 then
        let neg = d_lt v 0; w = (if neg then d_neg v else v);
            (w', fl) = d_add (fe_round (host st)) w 0x3FE0000000000000
        in (w', neg, raise_host (fe_or (cmp_flags v 0) fl) st)
      else (v, False, st))"

definition lib_flexfloat_cvt_w_ff_round :: "u32 \<Rightarrow> nat \<Rightarrow> nat \<Rightarrow> u32 \<Rightarrow> fp_state \<Rightarrow> (u64 \<times> fp_state) option" where
  "lib_flexfloat_cvt_w_ff_round a e m rm st = do {
     let new_round = (if rm = 4 then 2 else rm);
     (old, st1) \<leftarrow> setFFRoundingMode new_round st;
     let (v, neg, st2) = half_up rm (ff_value (ff_operand e m a)) st1;
     (n, st3) \<leftarrow> double_to_int v st2;
     let result_int = (if neg then - n else n);
     Some (scast result_int, restoreFFRoundingMode new_round st3)
   }"

definition lib_flexfloat_cvt_wu_ff_round :: "u32 \<Rightarrow> nat \<Rightarrow> nat \<Rightarrow> u32 \<Rightarrow> fp_state \<Rightarrow> (u64 \<times> fp_state) option" where
  "lib_flexfloat_cvt_wu_ff_round a e m rm st = do {
     let new_round = (if rm = 4 then 2 else rm);
     (old, st1) \<leftarrow> setFFRoundingMode new_round st;
     let (v, neg, st2) = half_up rm (ff_value (ff_operand e m a)) st1;
     (n, st3) \<leftarrow> double_to_uint v st2;
     Some (scast n, restoreFFRoundingMode old st3)
   }"

text \<open>The conversions that build a number in the given mode; \<open>f\<close> is the constructor.\<close>

definition build_round :: "(fenv \<Rightarrow> flexfloat \<times> fenv) \<Rightarrow> u32 \<Rightarrow> fp_state \<Rightarrow> (u32 \<times> fp_state) option" where
  "build_round f rm st = do {
     (old, st1) \<leftarrow> setFFRoundingMode rm st;
     let (ff_a, env) = f (host st1);
     let st2 = restoreFFRoundingMode old (st1\<lparr>host := env\<rparr>);
     r \<leftarrow> get_bits32 ff_a;
     Some (r, st2)
   }"

definition lib_flexfloat_cvt_ff_w_round :: "u64 \<Rightarrow> nat \<Rightarrow> nat \<Rightarrow> u32 \<Rightarrow> fp_state \<Rightarrow> (u32 \<times> fp_state) option" where
  "lib_flexfloat_cvt_ff_w_round a e m = build_round (ff_init_int (ucast a) \<lparr>exp_bits = e, frac_bits = m\<rparr>)"

definition lib_flexfloat_cvt_ff_wu_round :: "u64 \<Rightarrow> nat \<Rightarrow> nat \<Rightarrow> u32 \<Rightarrow> fp_state \<Rightarrow> (u32 \<times> fp_state) option" where
  "lib_flexfloat_cvt_ff_wu_round a e m = build_round (ff_init_long (a AND 0xFFFFFFFF) \<lparr>exp_bits = e, frac_bits = m\<rparr>)"

definition lib_flexfloat_cvt_l_ff_round :: "u32 \<Rightarrow> nat \<Rightarrow> nat \<Rightarrow> u32 \<Rightarrow> fp_state \<Rightarrow> (u64 \<times> fp_state) option" where
  "lib_flexfloat_cvt_l_ff_round a e m rm = with_round rm (double_to_long (ff_value (ff_operand e m a)))"

definition lib_flexfloat_cvt_lu_ff_round :: "u32 \<Rightarrow> nat \<Rightarrow> nat \<Rightarrow> u32 \<Rightarrow> fp_state \<Rightarrow> (u64 \<times> fp_state) option" where
  "lib_flexfloat_cvt_lu_ff_round a e m rm = with_round rm (double_to_ulong (ff_value (ff_operand e m a)))"

definition lib_flexfloat_cvt_ff_l_round :: "u64 \<Rightarrow> nat \<Rightarrow> nat \<Rightarrow> u32 \<Rightarrow> fp_state \<Rightarrow> (u32 \<times> fp_state) option" where
  "lib_flexfloat_cvt_ff_l_round a e m = build_round (ff_init_long a \<lparr>exp_bits = e, frac_bits = m\<rparr>)"

text \<open>The unsigned argument is passed to the \<^verbatim>\<open>long\<close> parameter of \<^verbatim>\<open>ff_init_long\<close>.\<close>

definition lib_flexfloat_cvt_ff_lu_round :: "u64 \<Rightarrow> nat \<Rightarrow> nat \<Rightarrow> u32 \<Rightarrow> fp_state \<Rightarrow> (u32 \<times> fp_state) option" where
  "lib_flexfloat_cvt_ff_lu_round a e m = build_round (ff_init_long a \<lparr>exp_bits = e, frac_bits = m\<rparr>)"

definition lib_flexfloat_cvt_ff_ff_round :: "u32 \<Rightarrow> nat \<Rightarrow> nat \<Rightarrow> nat \<Rightarrow> nat \<Rightarrow> u32 \<Rightarrow> fp_state \<Rightarrow> (u32 \<times> fp_state) option" where
  "lib_flexfloat_cvt_ff_ff_round a es ms ed md = build_round (ff_cast (ff_operand es ms a) \<lparr>exp_bits = ed, frac_bits = md\<rparr>)"

definition lib_flexfloat_fmv_x_ff :: "u32 \<Rightarrow> nat \<Rightarrow> nat \<Rightarrow> u32" where
  "lib_flexfloat_fmv_x_ff a e m = a"

definition lib_flexfloat_fmv_ff_x :: "u32 \<Rightarrow> nat \<Rightarrow> nat \<Rightarrow> u32" where
  "lib_flexfloat_fmv_ff_x a e m = a"

section \<open>Comparisons\<close>

definition ff_compare :: "(flexfloat \<Rightarrow> flexfloat \<Rightarrow> fenv \<Rightarrow> (bool \<times> fenv) option) \<Rightarrow> (bool \<Rightarrow> bool) \<Rightarrow>
    u32 \<Rightarrow> u32 \<Rightarrow> nat \<Rightarrow> nat \<Rightarrow> fp_state \<Rightarrow> (u32 \<times> fp_state) option" where
  "ff_compare rel g a b e m st =
     (if IsNan a e m \<noteq> 0 \<or> IsNan b e m \<noteq> 0 then Some (0, st)
      else do {
        let st1 = feclearexcept st;
        (res, env) \<leftarrow> rel (ff_operand e m a) (ff_operand e m b) (host st1);
        Some (of_bool (g res), update_fflags_fenv (st1\<lparr>host := env\<rparr>))
      })"

definition lib_flexfloat_eq :: "u32 \<Rightarrow> u32 \<Rightarrow> nat \<Rightarrow> nat \<Rightarrow> fp_state \<Rightarrow> (u32 \<times> fp_state) option" where
  "lib_flexfloat_eq = ff_compare ff_eq (\<lambda>x. x)"

definition lib_flexfloat_ne :: "u32 \<Rightarrow> u32 \<Rightarrow> nat \<Rightarrow> nat \<Rightarrow> fp_state \<Rightarrow> (u32 \<times> fp_state) option" where
  "lib_flexfloat_ne = ff_compare ff_eq Not"

definition lib_flexfloat_lt :: "u32 \<Rightarrow> u32 \<Rightarrow> nat \<Rightarrow> nat \<Rightarrow> fp_state \<Rightarrow> (u32 \<times> fp_state) option" where
  "lib_flexfloat_lt = ff_compare ff_lt (\<lambda>x. x)"

definition lib_flexfloat_ge :: "u32 \<Rightarrow> u32 \<Rightarrow> nat \<Rightarrow> nat \<Rightarrow> fp_state \<Rightarrow> (u32 \<times> fp_state) option" where
  "lib_flexfloat_ge = ff_compare ff_lt Not"

definition lib_flexfloat_le :: "u32 \<Rightarrow> u32 \<Rightarrow> nat \<Rightarrow> nat \<Rightarrow> fp_state \<Rightarrow> (u32 \<times> fp_state) option" where
  "lib_flexfloat_le = ff_compare ff_le (\<lambda>x. x)"

definition lib_flexfloat_gt :: "u32 \<Rightarrow> u32 \<Rightarrow> nat \<Rightarrow> nat \<Rightarrow> fp_state \<Rightarrow> (u32 \<times> fp_state) option" where
  "lib_flexfloat_gt = ff_compare ff_le Not"

section \<open>Classification\<close>

definition lib_flexfloat_class :: "u32 \<Rightarrow> nat \<Rightarrow> nat \<Rightarrow> u32" where
  "lib_flexfloat_class a e m =
     (let S = bit_at a (e + m); E = exp_field a e m; M = man_field a m;
          nan = (if bit_at M (m - 1) \<noteq> 0 then push_bit 9 1 else push_bit 8 1)
      in if S = 1 then
           if E = low_ones e \<and> M = 0 then push_bit 0 1
           else if E \<ge> 1 \<and> E \<le> push_bit e 1 - 2 then push_bit 1 1
           else if E = 0 \<and> M \<noteq> 0 then push_bit 2 1
           else if E = 0 \<and> M = 0 then push_bit 3 1
           else if E = low_ones e \<and> M \<noteq> 0 then nan
           else 0
         else
           if E = 0 \<and> M = 0 then push_bit 4 1
           else if E = 0 \<and> M \<noteq> 0 then push_bit 5 1
           else if E \<ge> 1 \<and> E \<le> push_bit e 1 - 2 then push_bit 6 1
           else if E = low_ones e \<and> M = 0 then push_bit 7 1
           else if E = low_ones e \<and> M \<noteq> 0 then nan
           else 0)"

definition class_block :: "u32 \<Rightarrow> nat \<Rightarrow> nat \<Rightarrow> u8" where
  "class_block a e m =
     (let sign = bit_at a (e + m); ex = exp_field a e m; fr = man_field a m;
          cblock = push_bit 7 (of_bool (sign \<noteq> 0)) OR push_bit 6 (of_bool (sign = 0))
      in cblock OR
         (if ex = low_ones e then
            if fr = 0 then 1
            else if fr AND push_bit (m - 1) 1 \<noteq> 0 then push_bit 5 1
            else push_bit 4 1
          else if ex = 0 \<and> fr = 0 then push_bit 3 1
          else if ex = 0 \<and> fr \<noteq> 0 then push_bit 2 1
          else push_bit 1 1))"

text \<open>The loop of \<^verbatim>\<open>lib_flexfloat_vclass\<close>, from iteration \<open>i\<close> on; \<open>n\<close> iterations are left.\<close>

fun vclass_loop :: "nat \<Rightarrow> nat \<Rightarrow> u32 \<Rightarrow> u32 \<Rightarrow> nat \<Rightarrow> nat \<Rightarrow> nat \<Rightarrow> u32" where
  "vclass_loop 0 i a result width e m = result"
| "vclass_loop (Suc n) i a result width e m =
     vclass_loop n (Suc i) (drop_bit width a) (result OR push_bit (8 * i) (ucast (class_block a e m))) width e m"

definition lib_flexfloat_vclass :: "u32 \<Rightarrow> nat \<Rightarrow> nat \<Rightarrow> nat \<Rightarrow> nat \<Rightarrow> u32" where
  "lib_flexfloat_vclass a vlen width e m = vclass_loop vlen 0 a 0 width e m"

section \<open>Conversions of packed numbers\<close>

definition d_int :: "int \<Rightarrow> u64" where
  "d_int i = fst (d_of_int FE_TONEAREST i)"

definition lib_flexfloat_cvt_x_ff_round :: "u32 \<Rightarrow> nat \<Rightarrow> nat \<Rightarrow> u32 \<Rightarrow> fp_state \<Rightarrow> (u32 \<times> fp_state) option" where
  "lib_flexfloat_cvt_x_ff_round a e m rm st =
     (let S = bit_at a (e + m); E = exp_field a e m; M = man_field a m
      in if IsNan a e m \<noteq> 0 then Some (0x7FFF, st)
         else if S = 1 \<and> E = low_ones e \<and> M = 0 then Some (0x8000, st)
         else if S = 0 \<and> E = low_ones e \<and> M = 0 then Some (0x7FFF, st)
         else do {
           (old, st1) \<leftarrow> setFFRoundingMode rm st;
           let v = ff_value (ff_operand e m a);
           result \<leftarrow> (if d_lt v (d_int (- (2 ^ 31))) then Some 0x80000000
                      else if d_lt (d_int (2 ^ 31)) v then Some 0x7FFFFFFF
                      else d_to_int v);
           let st2 = restoreFFRoundingMode old st1;
           Some (if sint result < - 32768 then 0x8000 else if sint result > 32767 then 0x7FFF else result, st2)
         })"

definition lib_flexfloat_cvt_xu_ff_round :: "u32 \<Rightarrow> nat \<Rightarrow> nat \<Rightarrow> u32 \<Rightarrow> fp_state \<Rightarrow> (u32 \<times> fp_state) option" where
  "lib_flexfloat_cvt_xu_ff_round a e m rm st =
     (let S = bit_at a (e + m); E = exp_field a e m; M = man_field a m
      in if IsNan a e m \<noteq> 0 then Some (0xFFFF, st)
         else if S = 1 \<and> E = low_ones e \<and> M = 0 then Some (0, st)
         else if S = 0 \<and> E = low_ones e \<and> M = 0 then Some (0xFFFF, st)
         else do {
           (old, st1) \<leftarrow> setFFRoundingMode rm st;
           let v = ff_value (ff_operand e m a);
           result \<leftarrow> (if d_lt v 0 then Some 0
                      else if d_lt (d_int (2 ^ 32)) v then Some 0xFFFFFFFF
                      else do { n \<leftarrow> d_trunc v; if 0 \<le> n \<and> n < 2 ^ 32 then Some (word_of_int n) else None });
           let st2 = restoreFFRoundingMode old st1;
           Some (if result > 65535 then 0xFFFF else result, st2)
         })"

text \<open>The integer conversions that copy the flags.\<close>

definition build_flags :: "(fenv \<Rightarrow> flexfloat \<times> fenv) \<Rightarrow> u32 \<Rightarrow> fp_state \<Rightarrow> (u32 \<times> fp_state) option" where
  "build_flags f rm st = do {
     (old, st1) \<leftarrow> setFFRoundingMode rm st;
     let st2 = feclearexcept st1;
     let (ff_a, env) = f (host st2);
     let st3 = restoreFFRoundingMode old (update_fflags_fenv (st2\<lparr>host := env\<rparr>));
     r \<leftarrow> get_bits32 ff_a;
     Some (r, st3)
   }"

definition lib_flexfloat_cvt_ff_x_round :: "u32 \<Rightarrow> nat \<Rightarrow> nat \<Rightarrow> u32 \<Rightarrow> fp_state \<Rightarrow> (u32 \<times> fp_state) option" where
  "lib_flexfloat_cvt_ff_x_round a e m rm st =
     (if e + m + 1 < 32 then
        let sign_mask = push_bit (e + m) 1;
            a1 = a AND low_ones (e + m + 1);
            a2 = (a1 XOR sign_mask) - sign_mask
        in build_flags (ff_init_int a2 \<lparr>exp_bits = e, frac_bits = m\<rparr>) rm st
      else None)"

definition lib_flexfloat_cvt_ff_xu_round :: "u32 \<Rightarrow> nat \<Rightarrow> nat \<Rightarrow> u32 \<Rightarrow> fp_state \<Rightarrow> (u32 \<times> fp_state) option" where
  "lib_flexfloat_cvt_ff_xu_round a e m rm st =
     (if e + m + 1 < 32 then
        build_flags (ff_init_long (ucast (a AND low_ones (e + m + 1))) \<lparr>exp_bits = e, frac_bits = m\<rparr>) rm st
      else None)"

section \<open>Specifications\<close>

text \<open>The rounding mode, or the dynamic one it selects, is nearest with ties away from zero.\<close>

definition unsupported :: "u32 \<Rightarrow> fp_state \<Rightarrow> bool" where
  "unsupported rm st \<longleftrightarrow> rm = 4 \<or> rm = 7 \<and> frm st = 4"

text \<open>What a helper does to the state: the mode of the host is what it was, the dynamic mode is
  untouched and exactly the flags of the operation are added.\<close>

definition keeps_env :: "fp_state \<Rightarrow> fp_state \<Rightarrow> bool" where
  "keeps_env st st' \<longleftrightarrow> fe_round (host st') = fe_round (host st) \<and> frm st' = frm st \<and>
     fflags st' = fflags st OR flags_word (fe_flags (host st'))"

definition round_spec :: "u32 \<Rightarrow> fp_state \<Rightarrow> (u32 \<times> fp_state) option \<Rightarrow> bool" where
  "round_spec rm st res \<longleftrightarrow>
     (case res of None \<Rightarrow> unsupported rm st | Some (r, st') \<Rightarrow> \<not> unsupported rm st \<and> keeps_env st st')"

text \<open>A number of \<open>n + 1\<close> bits with the given sign bit, sign-extended to the register.\<close>

definition with_sign :: "nat \<Rightarrow> bool \<Rightarrow> u32 \<Rightarrow> u32" where
  "with_sign n s a = signed_take_bit n (if s then set_bit n a else unset_bit n a)"

text \<open>A core with clear flags on a host that rounds to nearest.\<close>

definition fp_reset :: fp_state where
  "fp_reset = \<lparr>fflags = 0, frm = 0, host = \<lparr>fe_round = FE_TONEAREST, fe_flags = no_except\<rparr>\<rparr>"

section \<open>Errors, flags and the rounding mode\<close>

lemma operand_desc [simp]: "ff_desc (ff_operand e m a) = \<lparr>exp_bits = e, frac_bits = m\<rparr>"
  "ff_desc (ff_result e m) = \<lparr>exp_bits = e, frac_bits = m\<rparr>"
  by (simp_all add: ff_operand_def ff_result_def flexfloat_set_bits_def ff_init_def)

lemma flags_word_mask [simp]: "flags_word x AND 0x1F = flags_word x"
  unfolding flags_word_def by (cases "fe_inexact x"; cases "fe_underflow x"; cases "fe_overflow x"; cases "fe_divbyzero x"; cases "fe_invalid x") simp_all

lemma fe_code_inj: "fe_code r = fe_code r' \<longleftrightarrow> r = r'"
  by (cases r; cases r') (simp_all add: fe_code_def)

lemma restore_code [simp]: "restoreFFRoundingMode (fe_code r) st = st\<lparr>host := fesetround r (host st)\<rparr>"
  by (cases r) (simp_all add: restoreFFRoundingMode_def fe_code_inj)

lemma set_mode_cases:
  "set_mode mode st = None \<longleftrightarrow> mode = 4"
  "set_mode mode st = Some st' \<Longrightarrow> frm st' = frm st \<and> fflags st' = fflags st"
  by (auto simp: set_mode_def split: if_splits)

lemma setFFRoundingMode_cases:
  "setFFRoundingMode rm st = None \<longleftrightarrow> unsupported rm st"
  "setFFRoundingMode rm st = Some (old, st') \<Longrightarrow>
     old = fe_code (fe_round (host st)) \<and> frm st' = frm st \<and> fflags st' = fflags st"
  using set_mode_cases by (auto simp: setFFRoundingMode_def unsupported_def split: if_splits)

lemma with_round_spec:
  assumes "\<And>st1. \<exists>r st2. f st1 = Some (r, st2) \<and> keeps_env st1 st2"
  shows "round_spec rm st (with_round rm f st)"
proof (cases "setFFRoundingMode rm st")
  case None
  then show ?thesis using setFFRoundingMode_cases(1) [of rm st] by (simp add: with_round_def round_spec_def)
next
  case (Some q)
  obtain old st1 where q: "q = (old, st1)" by (cases q)
  obtain r st2 where f: "f st1 = Some (r, st2)" and k: "keeps_env st1 st2" using assms by blast
  have s: "old = fe_code (fe_round (host st))" "frm st1 = frm st" "fflags st1 = fflags st"
    using setFFRoundingMode_cases(2) [OF Some [unfolded q]] by simp_all
  have "with_round rm f st = Some (r, st2\<lparr>host := fesetround (fe_round (host st)) (host st2)\<rparr>)"
    by (simp add: with_round_def Some q f s)
  moreover have "\<not> unsupported rm st" using Some setFFRoundingMode_cases(1) [of rm st] by simp
  ultimately show ?thesis using k s by (simp add: round_spec_def keeps_env_def fesetround_def)
qed

text \<open>An operation that keeps its contract, run between the clearing and the copying of the flags.\<close>

lemma exec_keeps_env:
  assumes "ff_contract d (feclear (host st)) (res, env)"
  shows "\<exists>r. get_bits32 res = Some r"
    "keeps_env st (update_fflags_fenv (st\<lparr>host := env\<rparr>))"
  using assms
  by (auto simp: ff_contract_def get_bits32_def keeps_env_def update_fflags_fenv_def set_fflags_def feclear_def)

context ff_op2
begin

lemma exec2:
  assumes "ff_format \<lparr>exp_bits = e, frac_bits = m\<rparr>"
  shows "\<exists>r st'. FF_EXEC_2 f a b e m st = Some (r, st') \<and> keeps_env st st'"
proof -
  obtain res env where r: "f (ff_result e m) (ff_operand e m a) (ff_operand e m b) (feclear (host st)) = Some (res, env)"
    and c: "ff_contract \<lparr>exp_bits = e, frac_bits = m\<rparr> (feclear (host st)) (res, env)"
    using contract [of "ff_result e m" "ff_operand e m a" "ff_operand e m b"] assms by (fastforce simp: same_desc_def)
  show ?thesis using exec_keeps_env [OF c] by (auto simp: FF_EXEC_2_def feclearexcept_def r)
qed

end

context ff_op3
begin

lemma exec3:
  assumes "ff_format \<lparr>exp_bits = e, frac_bits = m\<rparr>" "ff_desc x = \<lparr>exp_bits = e, frac_bits = m\<rparr>"
    "ff_desc y = \<lparr>exp_bits = e, frac_bits = m\<rparr>" "ff_desc z = \<lparr>exp_bits = e, frac_bits = m\<rparr>"
  shows "\<exists>r st'. FF_EXEC_3 g x y z e m st = Some (r, st') \<and> keeps_env st st'"
proof -
  obtain res env where r: "g (ff_result e m) x y z (feclear (host st)) = Some (res, env)"
    and c: "ff_contract \<lparr>exp_bits = e, frac_bits = m\<rparr> (feclear (host st)) (res, env)"
    using contract3 [of "ff_result e m" x y z] assms by (fastforce simp: same_desc_def)
  show ?thesis using exec_keeps_env [OF c] by (auto simp: FF_EXEC_3_def feclearexcept_def r)
qed

end

lemma inverse_operand:
  "\<exists>x. ff_inverse (ff_operand e m a) (ff_operand e m a) = Some x \<and> ff_desc x = \<lparr>exp_bits = e, frac_bits = m\<rparr>"
  by (simp add: ff_inverse_def same_desc_def)

lemma avg_keeps_env:
  assumes F: "ff_format \<lparr>exp_bits = e, frac_bits = m\<rparr>"
  shows "\<exists>r st'. lib_flexfloat_avg a b e m st = Some (r, st') \<and> keeps_env st st'"
proof -
  let ?d = "\<lparr>exp_bits = e, frac_bits = m\<rparr> :: flexfloat_desc"
  obtain two env0 where t: "ff_init_int 2 ?d (host st) = (two, env0)" by (cases "ff_init_int 2 ?d (host st)")
  have c0: "ff_contract ?d (host st) (two, env0)"
    using store_contract [of "ff_init ?d"] F unfolding t [symmetric] ff_init_int_def by (simp add: ff_init_def)
  obtain sum env1 where s: "ff_add (ff_result e m) (ff_operand e m a) (ff_operand e m b) (feclear env0) = Some (sum, env1)"
    and c1: "ff_contract ?d (feclear env0) (sum, env1)"
    using add.contract [of "ff_result e m" "ff_operand e m a" "ff_operand e m b" "feclear env0"] F by (fastforce simp: same_desc_def)
  obtain res env2 where q: "ff_div sum sum two env1 = Some (res, env2)" and c2: "ff_contract ?d env1 (res, env2)"
    using div.contract [of sum sum two env1] F c0 c1 by (fastforce simp: same_desc_def ff_contract_def)
  obtain r where "get_bits32 res = Some r" using c2 by (auto simp: ff_contract_def get_bits32_def)
  then have "lib_flexfloat_avg a b e m st = Some (r, update_fflags_fenv (st\<lparr>host := env2\<rparr>))"
    by (simp add: lib_flexfloat_avg_def t feclearexcept_def s q)
  moreover have "keeps_env st (update_fflags_fenv (st\<lparr>host := env2\<rparr>))"
    using c0 c1 c2 by (simp add: ff_contract_def keeps_env_def update_fflags_fenv_def set_fflags_def feclear_def)
  ultimately show ?thesis by blast
qed

lemma sqrt_round_spec:
  assumes F: "ff_format \<lparr>exp_bits = e, frac_bits = m\<rparr>"
  shows "round_spec rm st (lib_flexfloat_sqrt_round a e m rm st)"
proof -
  let ?d = "\<lparr>exp_bits = e, frac_bits = m\<rparr> :: flexfloat_desc"
  let ?f = "\<lambda>st1. let (v, fl) = d_sqrt (fe_round (feclear (host st1))) (ff_get_double (ff_operand e m a));
       (res, env) = ff_init_double v ?d (feraise fl (feclear (host st1)))
     in map_option (\<lambda>r. (r, update_fflags_fenv (st1\<lparr>host := env\<rparr>))) (get_bits32 res)"
  have "lib_flexfloat_sqrt_round a e m rm st = with_round rm ?f st"
    by (auto simp: lib_flexfloat_sqrt_round_def with_round_def Let_def split_beta feclearexcept_def map_option_case
        split: Option.bind_splits option.splits)
  moreover have "\<exists>r st2. ?f st1 = Some (r, st2) \<and> keeps_env st1 st2" for st1
  proof -
    obtain v fl where v: "d_sqrt (fe_round (feclear (host st1))) (ff_get_double (ff_operand e m a)) = (v, fl)" by fastforce
    obtain res env where r: "ff_init_double v ?d (feraise fl (feclear (host st1))) = (res, env)" by fastforce
    have "ff_contract ?d (feraise fl (feclear (host st1))) (res, env)"
      using sanitize_contract [of "\<lparr>ff_value = v, ff_desc = ?d\<rparr>"] F unfolding r [symmetric] ff_init_double_def by simp
    then have "ff_contract ?d (feclear (host st1)) (res, env)"
      by (auto simp: ff_contract_def intro: fe_le_trans [OF fe_le_feraise])
    from exec_keeps_env [OF this] show ?thesis by (auto simp: v r)
  qed
  ultimately show ?thesis by (simp only: with_round_spec)
qed

lemmas round_helper_defs = lib_flexfloat_add_round_def lib_flexfloat_sub_round_def lib_flexfloat_mul_round_def
  lib_flexfloat_div_round_def lib_flexfloat_avg_round_def lib_flexfloat_madd_round_def lib_flexfloat_msub_round_def
  lib_flexfloat_nmadd_round_def lib_flexfloat_nmsub_round_def lib_flexfloat_add_def lib_flexfloat_sub_def
  lib_flexfloat_mul_def lib_flexfloat_div_def lib_flexfloat_madd_def lib_flexfloat_nmadd_def


section \<open>Comparisons and classification\<close>

lemma low_ones_mask: "low_ones n = mask n"
  by (simp add: low_ones_def mask_eq_exp_minus_1 push_bit_eq_mult)

lemma uint_ucast_64: "uint (ucast (a :: u32) :: u64) = uint a"
  using less_le_trans [OF uint_bounded [of a], of "2 ^ 64"] by (simp add: unsigned_ucast_eq take_bit_int_eq_self)

lemma fields_32:
  "uint (exp_field a e m) = ff_E \<lparr>exp_bits = e, frac_bits = m\<rparr> (ucast a)"
  "uint (man_field a m) = ff_M \<lparr>exp_bits = e, frac_bits = m\<rparr> (ucast a)"
  by (simp_all add: exp_field_def man_field_def ff_E_def ff_M_def low_ones_mask uint_and_mask uint_drop_bit uint_ucast_64)

lemma uint_mask_32: "n \<le> 32 \<Longrightarrow> uint (mask n :: u32) = 2 ^ n - 1"
proof -
  assume "n \<le> 32"
  then have "uint (mask n :: u32) = mask n" by (intro bit_eqI) (auto simp: bit_simps)
  then show ?thesis by (simp add: mask_eq_exp_minus_1)
qed

lemma exp_field_ones:
  assumes "e \<le> 32"
  shows "exp_field a e m = low_ones e \<longleftrightarrow> ff_E \<lparr>exp_bits = e, frac_bits = m\<rparr> (ucast a) = flexfloat_inf_exp \<lparr>exp_bits = e, frac_bits = m\<rparr>"
  unfolding fields_32(1) [of a e m, symmetric] flexfloat_inf_exp_def low_ones_mask word_uint_eq_iff uint_mask_32 [OF assms] by simp

text \<open>
  C39. The comparison helpers decide the order of the real numbers their operands stand for, for finite
  operands of every format of 2 to 10 exponent and 1 to 31 fraction bits.
\<close>

theorem comparisons_decide_order:
  fixes a b :: u32 and e m :: nat
  defines "x \<equiv> ff_val \<lparr>exp_bits = e, frac_bits = m\<rparr> (ucast a)" and "y \<equiv> ff_val \<lparr>exp_bits = e, frac_bits = m\<rparr> (ucast b)"
  assumes "ff_format \<lparr>exp_bits = e, frac_bits = m\<rparr>" "exp_field a e m \<noteq> low_ones e" "exp_field b e m \<noteq> low_ones e"
  shows "map_option fst (lib_flexfloat_eq a b e m st) = Some (of_bool (x = y)) \<and>
    map_option fst (lib_flexfloat_ne a b e m st) = Some (of_bool (x \<noteq> y)) \<and>
    map_option fst (lib_flexfloat_lt a b e m st) = Some (of_bool (x < y)) \<and>
    map_option fst (lib_flexfloat_ge a b e m st) = Some (of_bool (x \<ge> y)) \<and>
    map_option fst (lib_flexfloat_le a b e m st) = Some (of_bool (x \<le> y)) \<and>
    map_option fst (lib_flexfloat_gt a b e m st) = Some (of_bool (x > y))"
proof -
  let ?d = "\<lparr>exp_bits = e, frac_bits = m\<rparr> :: flexfloat_desc"
  have e32: "e \<le> 32" using assms(3) by (simp add: ff_format_def)
  have E: "ff_E ?d (ucast a) \<noteq> flexfloat_inf_exp ?d" "ff_E ?d (ucast b) \<noteq> flexfloat_inf_exp ?d"
    using assms(4,5) exp_field_ones [OF e32] by simp_all
  have v: "ff_value (ff_operand e m c) = flexfloat_pack_bits ?d (ucast c)" for c :: u32
    by (simp add: ff_operand_def flexfloat_set_bits_def ff_init_def)
  note F = pack_bits_finite [OF assms(3) E(1)] pack_bits_finite [OF assms(3) E(2)]
  note C = d_compare [OF F, unfolded pack_bits_value [OF assms(3) E(1)] pack_bits_value [OF assms(3) E(2)], folded x_def y_def]
  have n: "IsNan a e m = 0" "IsNan b e m = 0" using assms(4,5) by (simp_all add: IsNan_def)
  show ?thesis
    unfolding lib_flexfloat_eq_def lib_flexfloat_ne_def lib_flexfloat_lt_def lib_flexfloat_ge_def lib_flexfloat_le_def
      lib_flexfloat_gt_def ff_compare_def
    by (simp add: n ff_eq_def ff_lt_def ff_le_def same_desc_def v C Let_def)
qed

lemma bit_at_bit: "bit_at X n = of_bool (bit X n)"
  by (rule bit_word_eqI) (auto simp: bit_at_def bit_simps)

lemma exp_field_range:
  assumes "2 \<le> e" "e \<le> 10"
  shows "exp_field a e m \<ge> 1 \<and> exp_field a e m \<le> push_bit e 1 - 2 \<longleftrightarrow> exp_field a e m \<noteq> 0 \<and> exp_field a e m \<noteq> low_ones e"
proof -
  let ?E = "exp_field a e m"
  have p: "(4::int) \<le> 2 ^ e" "(2::int) ^ e \<le> 2 ^ 10"
    using power_increasing [of 2 e "2::int"] power_increasing [of e 10 "2::int"] assms by simp_all
  have m: "uint (low_ones e) = 2 ^ e - 1" using assms uint_mask_32 [of e] by (simp add: low_ones_mask)
  have "push_bit e 1 - 2 = low_ones e - 1" by (simp add: low_ones_def)
  then have l: "uint (push_bit e 1 - 2 :: u32) = 2 ^ e - 2" using m p by (simp add: uint_word_ariths)
  have b: "0 \<le> uint ?E" "uint ?E \<le> 2 ^ e - 1" by (simp_all add: exp_field_def low_ones_mask uint_and_mask)
  have z: "?E = 0 \<longleftrightarrow> uint ?E = 0" by (simp add: uint_0_iff)
  have "1 \<le> u \<and> u \<le> 2 ^ e - 2 \<longleftrightarrow> u \<noteq> 0 \<and> u \<noteq> 2 ^ e - 1" if "0 \<le> u" "u \<le> 2 ^ e - 1" for u :: int using that by auto
  from this [OF b] show ?thesis unfolding word_le_def l z word_uint_eq_iff [of ?E "low_ones e"] m by simp
qed


lemma DoExtend_sign:
  assumes "e + m < 32"
  shows "DoExtend ((a AND low_ones (m + e)) OR push_bit (m + e) (of_bool s)) (of_nat e) (of_nat m) = Some (with_sign (e + m) s a)"
proof -
  let ?R = "(a AND low_ones (m + e)) OR push_bit (m + e) (of_bool s)"
  have u: "unat (of_nat e + of_nat m :: u32) = e + m"
  proof -
    have "unat (of_nat (e + m) :: u32) = (e + m) mod 2 ^ 32" by (simp only: unat_of_nat) simp
    then show ?thesis using assms by simp
  qed
  have b: "bit ?R i \<longleftrightarrow> (if i < e + m then bit a i else i = e + m \<and> s)" if "i < 32" for i
    using that assms by (auto simp: bit_simps low_ones_mask add.commute)
  have w: "bit (with_sign (e + m) s a) i \<longleftrightarrow> (if i < e + m then bit a i else s)" if "i < 32" for i
    using that assms by (auto simp: with_sign_def bit_simps min_def)
  show ?thesis
  proof (cases "e + m = 31")
    case True
    then have "(of_nat m + of_nat e :: u32) = 31" by (metis add.commute of_nat_add of_nat_numeral)
    moreover have "?R = with_sign (e + m) s a" using b w True by (intro bit_word_eqI) auto
    ultimately show ?thesis by (simp add: DoExtend_def)
  next
    case False
    have n: "(of_nat m + of_nat e :: u32) \<noteq> 31"
    proof
      assume "(of_nat m + of_nat e :: u32) = 31"
      then have "unat (of_nat e + of_nat m :: u32) = unat (31 :: u32)" by (simp only: add.commute)
      then show False using u False by simp
    qed
    have S: "drop_bit (e + m) ?R AND 1 = of_bool s" using b [of "e + m"] assms by (intro bit_word_eqI) (auto simp: bit_simps)
    have W: "?R OR (if of_bool s \<noteq> (0 :: u32) then push_bit (e + m) (- 1) else 0) = with_sign (e + m) s a"
      using b w by (intro bit_word_eqI) (auto simp: bit_simps)
    show ?thesis unfolding DoExtend_def Let_def u S W using n assms by simp
  qed
qed

text \<open>
  The sign injection helpers change nothing but the sign: the result is the first operand with its
  sign bit set to that of the second operand, to the opposite, or to the exclusive or of the two, and is
  sign-extended to the register; no format of at most 32 bits shifts out of range.
\<close>

theorem sign_injection_exact:
  assumes "e + m < 32"
  shows "lib_flexfloat_sgnj a b e m = Some (with_sign (e + m) (bit b (e + m)) a) \<and>
    lib_flexfloat_sgnjn a b e m = Some (with_sign (e + m) (\<not> bit b (e + m)) a) \<and>
    lib_flexfloat_sgnjx a b e m = Some (with_sign (e + m) (bit a (e + m) \<noteq> bit b (e + m)) a)"
proof -
  have x: "(of_bool p XOR of_bool q :: u32) = of_bool (p \<noteq> q)" for p q by (cases p; cases q) simp_all
  show ?thesis
    unfolding lib_flexfloat_sgnj_def lib_flexfloat_sgnjn_def lib_flexfloat_sgnjx_def Let_def bit_at_bit x add.commute [of m e]
    using DoExtend_sign [OF assms, of a] by (simp add: add.commute)
qed

section \<open>Witnesses\<close>


theorem comparisons_decide_order_witness:
  "map_option fst (lib_flexfloat_lt 0x83FF 0x0001 5 10 fp_reset) =
     Some (of_bool (ff_val \<lparr>exp_bits = 5, frac_bits = 10\<rparr> 0x83FF < ff_val \<lparr>exp_bits = 5, frac_bits = 10\<rparr> 0x0001))"
proof -
  have "exp_field 0x83FF 5 10 \<noteq> low_ones 5" "exp_field 0x0001 5 10 \<noteq> low_ones 5" by code_simp+
  then show ?thesis using comparisons_decide_order [of 5 10 "0x83FF" "0x0001" fp_reset] by (simp add: ff_format_def)
qed


theorem sign_injection_exact_witness:
  "lib_flexfloat_sgnjn 0x3C00 0x3C00 5 10 = Some (with_sign 15 True 0x3C00)"
  using sign_injection_exact [of 5 10 "0x3C00" "0x3C00"] by simp

section \<open>Where the helpers deviate\<close>

text \<open>The conversion to a word leaves the host in the mode of the instruction: it restores the mode number of
  the instruction instead of the saved mode.\<close>

lemma cvt_w_leaves_rounding_mode:
  "map_option (fe_round \<circ> host \<circ> snd) (lib_flexfloat_cvt_w_ff_round 0x40200000 8 23 1 fp_reset) = Some FE_TOWARDZERO"
  by code_simp

text \<open>The conversion to an unsigned word in mode 4 returns the magnitude of a negative number.\<close>

lemma cvt_wu_ties_away_of_negative:
  "map_option fst (lib_flexfloat_cvt_wu_ff_round 0xC0200000 8 23 4 fp_reset) = Some 3"
  "map_option fst (lib_flexfloat_cvt_wu_ff_round 0xC0200000 8 23 0 fp_reset) = Some 0"
  by code_simp+

text \<open>The largest unsigned 64-bit number is converted to \<open>-1\<close>.\<close>

lemma cvt_lu_of_large:
  "map_option fst (lib_flexfloat_cvt_ff_lu_round 0xFFFFFFFFFFFFFFFF 8 23 0 fp_reset) = Some 0xBF800000"
  by code_simp

text \<open>A NaN is not unequal to a number.\<close>

lemma ne_of_nan: "map_option fst (lib_flexfloat_ne 0x7FC00000 0x3F800000 8 23 fp_reset) = Some 0"
  by code_simp

text \<open>The number \<open>2 ^ 31\<close> of the 16-bit alternative format passes both range checks and its conversion
  is undefined.\<close>

lemma cvt_x_of_two_31: "lib_flexfloat_cvt_x_ff_round 0x4F00 8 7 0 fp_reset = None"
  by code_simp

end
