(* ===== verification/Io_Req.thy ===== *)
theory Io_Req
  imports Gv_Prelude
begin

text \<open>
  Requests of the IO interface (\<^verbatim>\<open>engine/include/vp/itf/io.hpp\<close>). A request carries an address, a size and
  a pointer to the data of the initiator; targets copy bytes from or to that buffer. The buffer is part
  of the request here, \<open>rq_data\<close> is the index the pointer has in it and \<open>None\<close> the null pointer. Ports
  are numbers. A function gives \<open>None\<close> where the code writes outside an array.
\<close>

section \<open>Requests\<close>

datatype io_req_status_e = IO_REQ_OK | IO_REQ_INVALID | IO_REQ_DENIED | IO_REQ_PENDING

text \<open>What the argument stack of a request holds: a port or a null pointer, a number, a data pointer.\<close>

datatype io_arg = Arg_Port "nat option" | Arg_Long u64 | Arg_Data "nat option"

record io_req =
  rq_addr :: u64
  rq_size :: u64
  rq_data :: "nat option"
  rq_is_write :: bool
  rq_debug :: bool
  rq_latency :: u64
  rq_duration :: u64
  rq_resp_port :: "nat option"
  rq_args :: "io_arg list"
  rq_buf :: "u8 list"

definition set_duration :: "u64 \<Rightarrow> io_req \<Rightarrow> io_req" where
  "set_duration d rq = (if d > rq_duration rq then rq\<lparr>rq_duration := d\<rparr> else rq)"

definition inc_latency :: "u64 \<Rightarrow> io_req \<Rightarrow> io_req" where
  "inc_latency incr rq = rq\<lparr>rq_latency := rq_latency rq + incr\<rparr>"

definition set_latency :: "u64 \<Rightarrow> io_req \<Rightarrow> io_req" where
  "set_latency l rq = rq\<lparr>rq_latency := l\<rparr>"

definition get_full_latency :: "io_req \<Rightarrow> u64" where
  "get_full_latency rq = rq_latency rq + rq_duration rq"

definition rq_prepare :: "io_req \<Rightarrow> io_req" where
  "rq_prepare rq = rq\<lparr>rq_latency := 0, rq_duration := 0, rq_debug := False\<rparr>"

definition rq_init :: "io_req \<Rightarrow> io_req" where
  "rq_init rq = (rq_prepare rq)\<lparr>rq_args := []\<rparr>"

text \<open>The stack has \<^verbatim>\<open>IO_REQ_NB_ARGS\<close> places; the top is the head of the list.\<close>

definition IO_REQ_NB_ARGS :: nat where "IO_REQ_NB_ARGS = 16"

definition arg_push :: "io_arg \<Rightarrow> io_req \<Rightarrow> io_req option" where
  "arg_push x rq = (if length (rq_args rq) < IO_REQ_NB_ARGS then Some (rq\<lparr>rq_args := x # rq_args rq\<rparr>) else None)"

definition arg_pop :: "io_req \<Rightarrow> (io_arg \<times> io_req) option" where
  "arg_pop rq = (case rq_args rq of [] \<Rightarrow> None | x # xs \<Rightarrow> Some (x, rq\<lparr>rq_args := xs\<rparr>))"

definition rq_save :: "io_req \<Rightarrow> io_req option" where
  "rq_save rq =
     Option.bind (arg_push (Arg_Long (rq_addr rq)) rq) (\<lambda>r1.
     Option.bind (arg_push (Arg_Long (rq_size rq)) r1) (\<lambda>r2.
     Option.bind (arg_push (Arg_Data (rq_data rq)) r2) (\<lambda>r3.
     arg_push (Arg_Long (of_bool (rq_is_write rq))) r3)))"

text \<open>The arguments come back in the reverse order; another kind of argument on the stack is a misuse.\<close>

definition rq_restore :: "io_req \<Rightarrow> io_req option" where
  "rq_restore rq =
     Option.bind (arg_pop rq) (\<lambda>(a1, r1).
     Option.bind (arg_pop r1) (\<lambda>(a2, r2).
     Option.bind (arg_pop r2) (\<lambda>(a3, r3).
     Option.bind (arg_pop r3) (\<lambda>(a4, r4).
       case (a1, a2, a3, a4) of
         (Arg_Long w, Arg_Data d, Arg_Long s, Arg_Long a) \<Rightarrow>
           Some (r4\<lparr>rq_is_write := (w \<noteq> 0), rq_data := d, rq_size := s, rq_addr := a\<rparr>)
       | _ \<Rightarrow> None))))"

section \<open>Copying\<close>

definition patch :: "'a list \<Rightarrow> nat \<Rightarrow> 'a list \<Rightarrow> 'a list" where
  "patch xs j ys = take j xs @ ys @ drop (j + length ys) xs"

text \<open>\<^verbatim>\<open>memcpy(&dst[j], &src[i], n)\<close>.\<close>

definition memcpy :: "u8 list \<Rightarrow> nat \<Rightarrow> u8 list \<Rightarrow> nat \<Rightarrow> nat \<Rightarrow> u8 list option" where
  "memcpy dst j src i n =
     (if j + n \<le> length dst \<and> i + n \<le> length src
      then Some (patch dst j (take n (drop i src))) else None)"

section \<open>Targets\<close>

text \<open>What answers requests: a function from the port, the request and the state of the targets to the status, the
  changed request and the new state.\<close>

type_synonym 'w target_meth = "nat \<Rightarrow> io_req \<Rightarrow> 'w \<Rightarrow> (io_req_status_e \<times> io_req \<times> 'w) option"

section \<open>Lemmas\<close>

text \<open>The fields that say what is accessed.\<close>

definition same_access :: "io_req \<Rightarrow> io_req \<Rightarrow> bool" where
  "same_access r q \<longleftrightarrow> rq_addr r = rq_addr q \<and> rq_size r = rq_size q \<and> rq_data r = rq_data q \<and>
     rq_is_write r = rq_is_write q \<and> rq_debug r = rq_debug q"

lemma save_restore:
  "length (rq_args rq) + 4 \<le> IO_REQ_NB_ARGS \<Longrightarrow> Option.bind (rq_save rq) rq_restore = Some rq"
  by (simp add: rq_save_def rq_restore_def arg_push_def arg_pop_def)

lemma patch_simps [simp]: "j + length ys \<le> length xs \<Longrightarrow> length (patch xs j ys) = length xs"
  by (simp add: patch_def)

lemma patch_nth:
  "j + length ys \<le> length xs \<Longrightarrow> k < length xs \<Longrightarrow>
   patch xs j ys ! k = (if j \<le> k \<and> k < j + length ys then ys ! (k - j) else xs ! k)"
  by (auto simp: patch_def nth_append)

lemma set_duration_fields [simp]:
  "rq_addr (set_duration d r) = rq_addr r" "rq_size (set_duration d r) = rq_size r" "rq_data (set_duration d r) = rq_data r"
  "rq_is_write (set_duration d r) = rq_is_write r" "rq_debug (set_duration d r) = rq_debug r"
  "rq_args (set_duration d r) = rq_args r" "rq_buf (set_duration d r) = rq_buf r" "rq_latency (set_duration d r) = rq_latency r"
  by (simp_all add: set_duration_def)

lemma inc_latency_fields [simp]:
  "rq_addr (inc_latency d r) = rq_addr r" "rq_size (inc_latency d r) = rq_size r" "rq_data (inc_latency d r) = rq_data r"
  "rq_is_write (inc_latency d r) = rq_is_write r" "rq_debug (inc_latency d r) = rq_debug r"
  "rq_args (inc_latency d r) = rq_args r" "rq_buf (inc_latency d r) = rq_buf r"
  by (simp_all add: inc_latency_def)

lemma set_latency_fields [simp]:
  "rq_addr (set_latency d r) = rq_addr r" "rq_size (set_latency d r) = rq_size r" "rq_data (set_latency d r) = rq_data r"
  "rq_is_write (set_latency d r) = rq_is_write r" "rq_debug (set_latency d r) = rq_debug r"
  "rq_args (set_latency d r) = rq_args r" "rq_buf (set_latency d r) = rq_buf r"
  by (simp_all add: set_latency_def)

text \<open>An \<^verbatim>\<open>int\<close> that holds a small size.\<close>

lemma small_casts:
  assumes "n < 2 ^ 31"
  shows "ucast (of_nat n :: u64) = (of_nat n :: u32)" "scast (of_nat n :: u32) = (of_nat n :: u64)" "unat (of_nat n :: u64) = n"
proof -
  have s: "sint (of_nat n :: u32) = int n"
    using assms by (simp add: signed_of_nat signed_take_bit_int_eq_self)
  show "scast (of_nat n :: u32) = (of_nat n :: u64)" using s by (metis of_int_of_nat_eq of_int_sint)
  show "unat (of_nat n :: u64) = n" using assms by (simp add: unat_of_nat)
  show "ucast (of_nat n :: u64) = (of_nat n :: u32)" using assms by (simp add: unsigned_of_nat take_bit_nat_eq_self)
qed

lemma clipped_size:
  fixes sz :: u64
  assumes "m < 2 ^ 31"
  shows "scast (if scast (of_nat m :: u32) > sz then ucast sz else of_nat m :: u32) = (of_nat (min m (unat sz)) :: u64)"
proof (cases "sz < (of_nat m :: u64)")
  case True
  then have "unat sz < m" using small_casts(3) [OF assms] by (simp add: word_less_nat_alt)
  moreover have "sz = of_nat (unat sz)" by simp
  ultimately have "min m (unat sz) = unat sz" "scast (ucast sz :: u32) = (of_nat (unat sz) :: u64)"
    using small_casts [of "unat sz"] assms by simp_all
  then show ?thesis using True small_casts [OF assms] by simp
next
  case False
  then have "m \<le> unat sz" using small_casts(3) [OF assms] by (simp add: word_less_nat_alt)
  then show ?thesis using False small_casts [OF assms] by simp
qed

section \<open>Targets that hold bytes\<close>

text \<open>The interface an initiator or an interconnect relies on: behind each port is an array of bytes; an access inside the array,
  with room in the buffer, succeeds, moves exactly the bytes of the access, and leaves the other ports
  and the description of the access in the request alone.\<close>

locale byte_target =
  fixes tgt :: "'w target_meth"
    and bytes :: "nat \<Rightarrow> 'w \<Rightarrow> u8 list"
    and ready :: "'w \<Rightarrow> bool"
  assumes access: "ready w \<Longrightarrow> rq_data rq = Some d \<Longrightarrow> d + unat (rq_size rq) \<le> length (rq_buf rq) \<Longrightarrow>
      unat (rq_addr rq) + unat (rq_size rq) \<le> length (bytes p w) \<Longrightarrow> length (bytes p w) < 2 ^ 63 \<Longrightarrow>
      \<exists>rq' w'. tgt p rq w = Some (IO_REQ_OK, rq', w') \<and> ready w' \<and> same_access rq' rq \<and> rq_args rq' = rq_args rq \<and>
        bytes p w' = (if rq_is_write rq
           then patch (bytes p w) (unat (rq_addr rq)) (take (unat (rq_size rq)) (drop d (rq_buf rq))) else bytes p w) \<and>
        (\<forall>q. q \<noteq> p \<longrightarrow> bytes q w' = bytes q w) \<and>
        rq_buf rq' = (if rq_is_write rq then rq_buf rq
           else patch (rq_buf rq) d (take (unat (rq_size rq)) (drop (unat (rq_addr rq)) (bytes p w))))"


section \<open>Address spaces\<close>

text \<open>The bytes of the targets seen through a map of addresses: \<open>loc\<close> gives the port and the index of an address, \<open>None\<close> where nothing is
  mapped.\<close>

definition space_of :: "(nat \<Rightarrow> (nat \<times> nat) option) \<Rightarrow> (nat \<Rightarrow> 'w \<Rightarrow> u8 list) \<Rightarrow> 'w \<Rightarrow> nat \<Rightarrow> u8 option" where
  "space_of loc bytes w a = map_option (\<lambda>(p, l). bytes p w ! l) (loc a)"

text \<open>The map is injective and stays inside the arrays.\<close>

definition one_to_one :: "(nat \<Rightarrow> (nat \<times> nat) option) \<Rightarrow> bool" where
  "one_to_one loc \<longleftrightarrow> (\<forall>a b x. loc a = Some x \<longrightarrow> loc b = Some x \<longrightarrow> a = b)"

definition inside :: "(nat \<Rightarrow> (nat \<times> nat) option) \<Rightarrow> (nat \<Rightarrow> 'w \<Rightarrow> u8 list) \<Rightarrow> 'w \<Rightarrow> bool" where
  "inside loc bytes w \<longleftrightarrow> (\<forall>a p l. loc a = Some (p, l) \<longrightarrow> l < length (bytes p w))"

text \<open>The effect of an access of \<open>n\<close> bytes at \<open>off\<close> on an address space and on the buffer.\<close>

definition moved ::
    "bool \<Rightarrow> (nat \<Rightarrow> u8 option) \<Rightarrow> (nat \<Rightarrow> u8 option) \<Rightarrow> nat \<Rightarrow> nat \<Rightarrow> nat \<Rightarrow> u8 list \<Rightarrow> u8 list \<Rightarrow> bool" where
  "moved wr s s' off n d buf buf' \<longleftrightarrow>
     s' = (\<lambda>a. if wr \<and> off \<le> a \<and> a < off + n then Some (buf ! (d + (a - off))) else s a) \<and>
     length buf' = length buf \<and>
     (\<forall>k<length buf. buf' ! k = (if \<not> wr \<and> d \<le> k \<and> k < d + n then the (s (off + (k - d))) else buf ! k))"

lemma moved_none: "moved wr s s off 0 d buf buf"
  by (auto simp: moved_def fun_eq_iff)

lemma moved_append:
  assumes "moved wr s s1 off n d buf buf1" "moved wr s1 s2 (off + n) k (d + n) buf1 buf2" "d + n + k \<le> length buf"
  shows "moved wr s s2 off (n + k) d buf buf2"
proof -
  have A: "s1 = (\<lambda>a. if wr \<and> off \<le> a \<and> a < off + n then Some (buf ! (d + (a - off))) else s a)" "length buf1 = length buf"
    "\<And>i. i < length buf \<Longrightarrow> buf1 ! i = (if \<not> wr \<and> d \<le> i \<and> i < d + n then the (s (off + (i - d))) else buf ! i)"
    using assms(1) by (simp_all add: moved_def)
  have B: "s2 = (\<lambda>a. if wr \<and> off + n \<le> a \<and> a < off + n + k then Some (buf1 ! (d + n + (a - (off + n)))) else s1 a)" "length buf2 = length buf"
    "\<And>i. i < length buf \<Longrightarrow> buf2 ! i = (if \<not> wr \<and> d + n \<le> i \<and> i < d + n + k then the (s1 (off + n + (i - (d + n)))) else buf1 ! i)"
    using assms(2) A(2) by (simp_all add: moved_def)
  show ?thesis
  proof (cases wr)
    case True
    have "s2 a = (if off \<le> a \<and> a < off + (n + k) then Some (buf ! (d + (a - off))) else s a)" for a
      using A(3) [of "d + n + (a - (off + n))"] assms(3) True by (auto simp: A(1) B(1))
    then show ?thesis using True A B by (auto simp: moved_def)
  next
    case False
    have f: "s1 = s" using False by (simp add: A(1))
    have "buf2 ! i = (if d \<le> i \<and> i < d + (n + k) then the (s (off + (i - d))) else buf ! i)" if "i < length buf" for i
      using A(3) [OF that] B(3) [OF that] False f by auto
    then show ?thesis using False A B f by (auto simp: moved_def)
  qed
qed

text \<open>A piece that the map sends to consecutive bytes of one target.\<close>

lemma piece_moved:
  assumes "one_to_one loc" "inside loc bytes w" "\<And>k. k < n \<Longrightarrow> loc (off + k) = Some (p, l + k)"
    "l + n \<le> length (bytes p w)" "d + n \<le> length buf"
    "bytes p w' = (if wr then patch (bytes p w) l (take n (drop d buf)) else bytes p w)" "\<And>q. q \<noteq> p \<Longrightarrow> bytes q w' = bytes q w"
    "buf' = (if wr then buf else patch buf d (take n (drop l (bytes p w))))"
  shows "moved wr (space_of loc bytes w) (space_of loc bytes w') off n d buf buf'" "inside loc bytes w'"
proof -
  have len: "length (bytes q w') = length (bytes q w)" for q
    using assms(4-7) by (cases "q = p") simp_all
  then show "inside loc bytes w'" using assms(2) by (simp add: inside_def)
  show "moved wr (space_of loc bytes w) (space_of loc bytes w') off n d buf buf'"
  proof (cases wr)
    case True
    have nth: "bytes p w' ! m = (if l \<le> m \<and> m < l + n then buf ! (d + (m - l)) else bytes p w ! m)" if "m < length (bytes p w)" for m
      using patch_nth [of l "take n (drop d buf)" "bytes p w" m] that assms(4-6) True by auto
    have "space_of loc bytes w' a = (if off \<le> a \<and> a < off + n then Some (buf ! (d + (a - off))) else space_of loc bytes w a)" for a
    proof (cases "off \<le> a \<and> a < off + n")
      case True
      then obtain k where k: "a = off + k" "k < n" by (metis le_Suc_ex add_less_cancel_left)
      then show ?thesis using True nth [of "l + k"] assms(3) [of k] assms(4) by (simp add: space_of_def)
    next
      case out: False
      have "bytes q w' ! m = bytes q w ! m" if "loc a = Some (q, m)" for q m
      proof (cases "q = p")
        case True
        have "\<not> (l \<le> m \<and> m < l + n)"
        proof
          assume "l \<le> m \<and> m < l + n"
          then obtain k where k: "m = l + k" "k < n" by (metis le_Suc_ex add_less_cancel_left)
          then have "a = off + k" using assms(1) assms(3) [of k] that True by (auto simp: one_to_one_def)
          then show False using out k by simp
        qed
        then show ?thesis using nth assms(2) that True by (auto simp: inside_def)
      qed (simp add: assms(7))
      then show ?thesis unfolding if_not_P [OF out] by (cases "loc a") (auto simp: space_of_def)
    qed
    then show ?thesis using True assms(8) by (auto simp: moved_def)
  next
    case False
    then have "bytes q w' = bytes q w" for q using assms(6,7) by (cases "q = p") simp_all
    then have same: "space_of loc bytes w' = space_of loc bytes w" by (simp add: fun_eq_iff space_of_def)
    have "buf' ! k = (if d \<le> k \<and> k < d + n then the (space_of loc bytes w (off + (k - d))) else buf ! k)" if "k < length buf" for k
      using patch_nth [of d "take n (drop l (bytes p w))" buf k] that assms(3) [of "k - d"] assms(4,5,8) False by (auto simp: space_of_def)
    then show ?thesis using False assms(4,5,8) same by (auto simp: moved_def)
  qed
qed

end
