(* ===== verification/Memory.thy ===== *)
theory Memory
  imports Io_Req
begin

text \<open>
  The memory model (\<^verbatim>\<open>models/memory/memory_impl.cpp\<close>): an array of bytes behind an IO port, with an
  optional map of the bytes that were written, a bandwidth, and a power switch. The calls into the power
  model are kept as logs: the quanta of energy (write or read, size) and the captures (started or stopped), newest first. Cycle counts and
  times, 64 bits wide in the code, are \<open>int\<close>; the cycle and the time at which a request arrives are arguments.
\<close>

record memory =
  mem_size :: u64
  mem_width_bits :: nat
  mem_data :: "u8 list"
  check_mem :: "u8 list option"
  next_packet_start :: int
  powered_up :: bool
  power_trigger :: bool
  power_active :: bool
  last_access_timestamp :: int
  mem_energy :: "(bool \<times> nat) list"
  mem_captures :: "bool list"

text \<open>\<^verbatim>\<open>memory::start\<close> without a stimuli file; \<open>init\<close> is the unspecified contents of the map.\<close>

definition mem_start :: "u64 \<Rightarrow> bool \<Rightarrow> nat \<Rightarrow> u8 list \<Rightarrow> memory \<Rightarrow> memory" where
  "mem_start sz check width_bits init m =
     m\<lparr>mem_size := sz, mem_width_bits := width_bits, mem_data := replicate (unat sz) 0x57, last_access_timestamp := -1,
       check_mem := (if check then Some (take (unat ((sz + 7) div 8)) init) else None)\<rparr>"

definition mem_reset :: "bool \<Rightarrow> memory \<Rightarrow> memory" where
  "mem_reset active m = (if active then m\<lparr>next_packet_start := 0, powered_up := True\<rparr> else m)"

definition power_ctrl_sync :: "bool \<Rightarrow> memory \<Rightarrow> memory" where
  "power_ctrl_sync value m = m\<lparr>powered_up := value\<rparr>"

text \<open>The impact of the bandwidth on the request. The duration is an \<^verbatim>\<open>int\<close>.\<close>

definition mem_bandwidth :: "int \<Rightarrow> io_req \<Rightarrow> memory \<Rightarrow> io_req \<times> memory" where
  "mem_bandwidth cycles rq m =
     (if mem_width_bits m \<noteq> 0 then
        let duration = sint (ucast (max (drop_bit (mem_width_bits m) (rq_size rq)) 1) :: u32);
            rq1 = set_duration (word_of_int duration) rq;
            diff = next_packet_start m - cycles;
            rq2 = (if diff > 0 then inc_latency (word_of_int diff) rq1 else rq1)
        in (rq2, m\<lparr>next_packet_start := max (next_packet_start m) cycles + duration\<rparr>)
      else (rq, m))"

text \<open>The quantum of energy of an access of 1, 2 or 4 bytes.\<close>

definition mem_power :: "int \<Rightarrow> io_req \<Rightarrow> memory \<Rightarrow> memory" where
  "mem_power time rq m =
     (if power_active m then
        m\<lparr>last_access_timestamp := time,
          mem_energy := (if rq_size rq = 1 then [(rq_is_write rq, 8)] else if rq_size rq = 2 then [(rq_is_write rq, 16)]
                         else if rq_size rq = 4 then [(rq_is_write rq, 32)] else []) @ mem_energy m\<rparr>
      else m)"

text \<open>\<^verbatim>\<open>*(uint32_t *)data\<close>, on a little-endian host.\<close>

definition load32 :: "io_req \<Rightarrow> u32 option" where
  "load32 rq =
     (case rq_data rq of
        Some d \<Rightarrow> if d + 4 \<le> length (rq_buf rq)
                  then Some (ucast (rq_buf rq ! d) OR push_bit 8 (ucast (rq_buf rq ! (d + 1))) OR
                    push_bit 16 (ucast (rq_buf rq ! (d + 2))) OR push_bit 24 (ucast (rq_buf rq ! (d + 3)))) else None
      | None \<Rightarrow> None)"

text \<open>The words that start and stop a capture when they are written to offset 0.\<close>

definition mem_capture :: "io_req \<Rightarrow> memory \<Rightarrow> memory option" where
  "mem_capture rq m =
     (if power_trigger m \<and> rq_is_write rq \<and> rq_size rq = 4 \<and> rq_addr rq = 0 then
        map_option (\<lambda>x. if x = 0xabbaabba then m\<lparr>mem_captures := True # mem_captures m\<rparr>
                        else if x = 0xdeadcaca then m\<lparr>mem_captures := False # mem_captures m\<rparr> else m) (load32 rq)
      else Some m)"

text \<open>The loops over the map of written bytes, from position \<open>p\<close> for \<open>n\<close> bytes. Their counter has 32 bits: for a larger size it never
  gets to the end.\<close>

fun check_mark :: "nat \<Rightarrow> nat \<Rightarrow> u8 list \<Rightarrow> u8 list option" where
  "check_mark p 0 cm = Some cm"
| "check_mark p (Suc n) cm =
     (if p div 8 < length cm
      then check_mark (Suc p) n (cm[p div 8 := cm ! (p div 8) OR push_bit (p mod 8) 1]) else None)"

fun check_read :: "nat \<Rightarrow> nat \<Rightarrow> u8 list \<Rightarrow> bool option" where
  "check_read p 0 cm = Some True"
| "check_read p (Suc n) cm =
     (if p div 8 < length cm then
        if drop_bit (p mod 8) (cm ! (p div 8)) AND 1 = 0 then Some False else check_read (Suc p) n cm
      else None)"

definition mark_written :: "io_req \<Rightarrow> u8 list \<Rightarrow> u8 list option" where
  "mark_written rq cm =
     (if rq_size rq < 0x100000000 then check_mark (unat (rq_addr rq)) (unat (rq_size rq)) cm else None)"

definition test_written :: "io_req \<Rightarrow> u8 list \<Rightarrow> bool option" where
  "test_written rq cm =
     (if rq_size rq < 0x100000000 then check_read (unat (rq_addr rq)) (unat (rq_size rq)) cm
      else if check_read (unat (rq_addr rq)) 0x100000000 cm = Some False then Some False else None)"

definition mem_write :: "io_req \<Rightarrow> memory \<Rightarrow> (io_req_status_e \<times> io_req \<times> memory) option" where
  "mem_write rq m =
     Option.bind (case check_mem m of
                    None \<Rightarrow> Some m
                  | Some cm \<Rightarrow> map_option (\<lambda>cm'. m\<lparr>check_mem := Some cm'\<rparr>) (mark_written rq cm))
       (\<lambda>m1. case rq_data rq of
          None \<Rightarrow> Some (IO_REQ_OK, rq, m1)
        | Some d \<Rightarrow> map_option (\<lambda>bytes. (IO_REQ_OK, rq, m1\<lparr>mem_data := bytes\<rparr>))
                     (memcpy (mem_data m1) (unat (rq_addr rq)) (rq_buf rq) d (unat (rq_size rq))))"

definition mem_read :: "io_req \<Rightarrow> memory \<Rightarrow> (io_req_status_e \<times> io_req \<times> memory) option" where
  "mem_read rq m =
     Option.bind (case check_mem m of
                    None \<Rightarrow> Some True
                  | Some cm \<Rightarrow> test_written rq cm)
       (\<lambda>access.
          if \<not> access then Some (IO_REQ_INVALID, rq, m)
          else case rq_data rq of
            None \<Rightarrow> Some (IO_REQ_OK, rq, m)
          | Some d \<Rightarrow> map_option (\<lambda>bytes. (IO_REQ_OK, rq\<lparr>rq_buf := bytes\<rparr>, m))
                       (memcpy (rq_buf rq) d (mem_data m) (unat (rq_addr rq)) (unat (rq_size rq))))"

text \<open>\<^verbatim>\<open>memory::req\<close>. The sum of offset and size wraps.\<close>

definition mem_req :: "int \<Rightarrow> int \<Rightarrow> memory \<Rightarrow> io_req \<Rightarrow> (io_req_status_e \<times> io_req \<times> memory) option" where
  "mem_req cycles time m rq =
     (if \<not> powered_up m then Some (IO_REQ_INVALID, rq, m)
      else
        Option.bind
          (if rq_debug rq then Some (rq, m)
           else let (rq1, m1) = mem_bandwidth cycles rq m
                in map_option (Pair rq1) (mem_capture rq1 (mem_power time rq1 m1)))
          (\<lambda>(rq2, m2).
             if rq_addr rq + rq_size rq > mem_size m2 then Some (IO_REQ_INVALID, rq2, m2)
             else if rq_is_write rq then mem_write rq2 m2
             else mem_read rq2 m2))"

section \<open>Specification\<close>

text \<open>The arrays have the size the memory was built with.\<close>

definition mem_inv :: "memory \<Rightarrow> bool" where
  "mem_inv m \<longleftrightarrow> length (mem_data m) = unat (mem_size m) \<and>
     (case check_mem m of None \<Rightarrow> True | Some cm \<Rightarrow> unat (mem_size m) \<le> 8 * length cm)"

text \<open>Was byte \<open>p\<close> written, as far as the map knows?\<close>

definition written :: "memory \<Rightarrow> nat \<Rightarrow> bool" where
  "written m p = (case check_mem m of None \<Rightarrow> True | Some cm \<Rightarrow> bit (cm ! (p div 8)) (p mod 8))"

text \<open>The access is inside the memory and the data pointer, unless null, has room for it.\<close>

definition in_bounds :: "io_req \<Rightarrow> memory \<Rightarrow> bool" where
  "in_bounds rq m \<longleftrightarrow> unat (rq_addr rq) + unat (rq_size rq) \<le> unat (mem_size m)"

definition has_room :: "io_req \<Rightarrow> bool" where
  "has_room rq \<longleftrightarrow> (case rq_data rq of None \<Rightarrow> True | Some d \<Rightarrow> d + unat (rq_size rq) \<le> length (rq_buf rq))"

text \<open>The request is one the handler ends for: its end does not wrap around, it has data where the trigger looks at them, and
  it is smaller than the counter of the loops over the map of written bytes can count.\<close>

definition regular :: "io_req \<Rightarrow> memory \<Rightarrow> bool" where
  "regular rq m \<longleftrightarrow> has_room rq \<and> unat (rq_addr rq) + unat (rq_size rq) < 2 ^ 64 \<and>
     (power_trigger m \<longrightarrow> rq_data rq \<noteq> None) \<and> (check_mem m \<noteq> None \<longrightarrow> rq_size rq < 0x100000000)"

text \<open>When the request succeeds.\<close>

definition mem_ok :: "io_req \<Rightarrow> memory \<Rightarrow> bool" where
  "mem_ok rq m \<longleftrightarrow> powered_up m \<and> in_bounds rq m \<and>
     (rq_is_write rq \<or> list_all (written m) [unat (rq_addr rq)..<unat (rq_addr rq) + unat (rq_size rq)])"

text \<open>What a request that succeeds does to the bytes of the memory and of the buffer.\<close>

definition mem_bytes :: "io_req \<Rightarrow> memory \<Rightarrow> u8 list" where
  "mem_bytes rq m =
     (case rq_data rq of
        Some d \<Rightarrow> if rq_is_write rq
                  then patch (mem_data m) (unat (rq_addr rq)) (take (unat (rq_size rq)) (drop d (rq_buf rq))) else mem_data m
      | None \<Rightarrow> mem_data m)"

definition buf_bytes :: "io_req \<Rightarrow> memory \<Rightarrow> u8 list" where
  "buf_bytes rq m =
     (case rq_data rq of
        Some d \<Rightarrow> if rq_is_write rq then rq_buf rq
                  else patch (rq_buf rq) d (take (unat (rq_size rq)) (drop (unat (rq_addr rq)) (mem_data m)))
      | None \<Rightarrow> rq_buf rq)"

section \<open>Lemmas\<close>

lemma check_mark_length: "check_mark p n cm = Some cm' \<Longrightarrow> length cm' = length cm"
  by (induction p n cm rule: check_mark.induct) (auto split: if_splits)

lemma check_mark_some: "p + n \<le> 8 * length cm \<Longrightarrow> \<exists>cm'. check_mark p n cm = Some cm'"
proof (induction p n cm rule: check_mark.induct)
  case (2 p n cm)
  then have "p div 8 < length cm" by (simp add: div_less_iff_less_mult)
  then show ?case using 2 by simp
qed simp

lemma check_read_eq:
  "p + n \<le> 8 * length cm \<Longrightarrow>
   check_read p n cm = Some (list_all (\<lambda>q. bit (cm ! (q div 8)) (q mod 8)) [p..<p + n])"
proof (induction p n cm rule: check_read.induct)
  case (2 p n cm)
  then have "p div 8 < length cm" by (simp add: div_less_iff_less_mult)
  moreover have "[p..<p + Suc n] = p # [Suc p..<Suc p + n]" by (simp add: upt_conv_Cons)
  moreover have "drop_bit k (x :: u8) AND 1 = 0 \<longleftrightarrow> \<not> bit x k" for k x
    by (simp add: and_one_eq even_iff_mod_2_eq_zero bit_iff_odd_drop_bit)
  ultimately show ?case using 2 by auto
qed simp

lemma mem_bandwidth_keeps:
  "mem_bandwidth cycles rq m = (rq1, m1) \<Longrightarrow> same_access rq1 rq \<and> rq_args rq1 = rq_args rq \<and> rq_buf rq1 = rq_buf rq \<and>
     mem_size m1 = mem_size m \<and> mem_data m1 = mem_data m \<and> check_mem m1 = check_mem m \<and> powered_up m1 = powered_up m \<and>
     power_trigger m1 = power_trigger m"
  by (auto simp: mem_bandwidth_def Let_def same_access_def split: if_splits)

lemma mem_power_keeps [simp]:
  "mem_size (mem_power t rq m) = mem_size m" "mem_data (mem_power t rq m) = mem_data m" "check_mem (mem_power t rq m) = check_mem m"
  "powered_up (mem_power t rq m) = powered_up m" "power_trigger (mem_power t rq m) = power_trigger m"
  by (simp_all add: mem_power_def)

lemma mem_capture_some:
  assumes "has_room rq" "power_trigger m \<longrightarrow> rq_data rq \<noteq> None"
  obtains m' where "mem_capture rq m = Some m'" "mem_size m' = mem_size m" "mem_data m' = mem_data m" "check_mem m' = check_mem m"
    "powered_up m' = powered_up m" "power_trigger m' = power_trigger m"
proof (cases "power_trigger m \<and> rq_is_write rq \<and> rq_size rq = 4 \<and> rq_addr rq = 0")
  case True
  then obtain d x where "rq_data rq = Some d" "load32 rq = Some x" using assms by (auto simp: load32_def has_room_def)
  then show ?thesis
    using that [of "if x = 0xabbaabba then m\<lparr>mem_captures := True # mem_captures m\<rparr>
      else if x = 0xdeadcaca then m\<lparr>mem_captures := False # mem_captures m\<rparr> else m"] True by (simp add: mem_capture_def split: if_splits)
next
  case False
  then have "mem_capture rq m = Some m" by (auto simp: mem_capture_def)
  then show ?thesis by (rule that) simp_all
qed

text \<open>What comes before the range check.\<close>

lemma mem_preamble:
  assumes "regular rq m"
  obtains rq1 m1 where "(if rq_debug rq then Some (rq, m)
      else let (rq1, m1) = mem_bandwidth cycles rq m in map_option (Pair rq1) (mem_capture rq1 (mem_power time rq1 m1))) = Some (rq1, m1)"
    "same_access rq1 rq" "rq_args rq1 = rq_args rq" "rq_buf rq1 = rq_buf rq"
    "mem_size m1 = mem_size m" "mem_data m1 = mem_data m" "check_mem m1 = check_mem m" "powered_up m1 = powered_up m"
    "power_trigger m1 = power_trigger m"
proof (cases "rq_debug rq")
  case True
  then show ?thesis using that [of rq m] by (simp add: same_access_def)
next
  case False
  obtain rq1 m1 where b: "mem_bandwidth cycles rq m = (rq1, m1)" by fastforce
  note K = mem_bandwidth_keeps [OF b]
  have "has_room rq1" "power_trigger (mem_power time rq1 m1) \<longrightarrow> rq_data rq1 \<noteq> None"
    using assms K by (auto simp: regular_def has_room_def same_access_def split: option.splits)
  then obtain m2 where "mem_capture rq1 (mem_power time rq1 m1) = Some m2" "mem_size m2 = mem_size m1" "mem_data m2 = mem_data m1"
    "check_mem m2 = check_mem m1" "powered_up m2 = powered_up m1" "power_trigger m2 = power_trigger m1"
    by (rule mem_capture_some) simp_all
  then show ?thesis using that [of rq1 m2] False b K by simp
qed

lemma mem_write_spec:
  assumes "mem_inv m" "in_bounds rq m" "regular rq m" "rq_is_write rq"
  obtains m' where "mem_write rq m = Some (IO_REQ_OK, rq, m')" "mem_inv m'" "mem_size m' = mem_size m"
    "powered_up m' = powered_up m" "mem_data m' = mem_bytes rq m" "check_mem m' = None \<longleftrightarrow> check_mem m = None"
proof -
  let ?a = "unat (rq_addr rq)" and ?n = "unat (rq_size rq)"
  obtain m1 where c: "(case check_mem m of None \<Rightarrow> Some m
      | Some cm \<Rightarrow> map_option (\<lambda>cm'. m\<lparr>check_mem := Some cm'\<rparr>) (mark_written rq cm)) = Some m1"
    and m1: "mem_inv m1" "mem_size m1 = mem_size m" "mem_data m1 = mem_data m" "powered_up m1 = powered_up m"
      "check_mem m1 = None \<longleftrightarrow> check_mem m = None"
  proof (cases "check_mem m")
    case None
    then show ?thesis using that [of m] assms(1) by simp
  next
    case (Some cm)
    then have "?a + ?n \<le> 8 * length cm" using assms(1,2) by (simp add: mem_inv_def in_bounds_def)
    then obtain cm' where "check_mark ?a ?n cm = Some cm'" using check_mark_some by blast
    moreover from this have "mark_written rq cm = Some cm'" using assms(3) Some by (simp add: mark_written_def regular_def)
    ultimately show ?thesis using that [of "m\<lparr>check_mem := Some cm'\<rparr>"] Some assms(1) check_mark_length by (simp add: mem_inv_def)
  qed
  show ?thesis
  proof (cases "rq_data rq")
    case None
    then show ?thesis using that [of m1] m1 c by (simp add: mem_write_def mem_bytes_def)
  next
    case (Some d)
    have "?a + ?n \<le> length (mem_data m)" "d + ?n \<le> length (rq_buf rq)"
      using assms Some by (simp_all add: mem_inv_def in_bounds_def has_room_def regular_def)
    then show ?thesis
      using that [of "m1\<lparr>mem_data := patch (mem_data m) ?a (take ?n (drop d (rq_buf rq)))\<rparr>"] m1 c Some assms(4)
      by (simp add: mem_write_def mem_bytes_def memcpy_def mem_inv_def cong: option.case_cong)
  qed
qed

lemma mem_read_spec:
  assumes "mem_inv m" "in_bounds rq m" "regular rq m" "\<not> rq_is_write rq"
  defines "ok \<equiv> list_all (written m) [unat (rq_addr rq)..<unat (rq_addr rq) + unat (rq_size rq)]"
  shows "mem_read rq m = Some (if ok then IO_REQ_OK else IO_REQ_INVALID, rq\<lparr>rq_buf := (if ok then buf_bytes rq m else rq_buf rq)\<rparr>, m)"
proof -
  let ?a = "unat (rq_addr rq)" and ?n = "unat (rq_size rq)"
  have c: "(case check_mem m of None \<Rightarrow> Some True | Some cm \<Rightarrow> test_written rq cm) = Some ok"
  proof (cases "check_mem m")
    case None
    then show ?thesis by (simp add: ok_def written_def list_all_iff)
  next
    case (Some cm)
    then have "?a + ?n \<le> 8 * length cm" using assms(1,2) by (simp add: mem_inv_def in_bounds_def)
    then show ?thesis using Some assms(3) check_read_eq [of ?a ?n cm] by (auto simp: ok_def written_def list_all_iff test_written_def regular_def)
  qed
  show ?thesis
  proof (cases "rq_data rq")
    case None
    then show ?thesis using c by (simp add: mem_read_def buf_bytes_def)
  next
    case (Some d)
    have "?a + ?n \<le> length (mem_data m)" "d + ?n \<le> length (rq_buf rq)"
      using assms(1-3) Some by (simp_all add: mem_inv_def in_bounds_def has_room_def regular_def)
    then show ?thesis using c Some assms(4) by (simp add: mem_read_def buf_bytes_def memcpy_def)
  qed
qed

text \<open>The range check as it is written, when the sum does not wrap.\<close>

lemma range_check:
  assumes "unat (rq_addr rq) + unat (rq_size rq) < 2 ^ 64"
  shows "rq_addr rq + rq_size rq > mem_size m \<longleftrightarrow> \<not> in_bounds rq m"
proof -
  have "unat (rq_addr rq + rq_size rq) = unat (rq_addr rq) + unat (rq_size rq)"
    using assms by (simp add: unat_word_ariths)
  then show ?thesis by (simp add: word_less_nat_alt in_bounds_def not_le)
qed

lemma mem_req_spec:
  assumes "mem_inv m" "regular rq m"
  shows "\<exists>rq' m'. mem_req cycles time m rq = Some (if mem_ok rq m then IO_REQ_OK else IO_REQ_INVALID, rq', m') \<and>
    mem_inv m' \<and> mem_size m' = mem_size m \<and> powered_up m' = powered_up m \<and> (check_mem m' = None \<longleftrightarrow> check_mem m = None) \<and>
    mem_data m' = (if mem_ok rq m then mem_bytes rq m else mem_data m) \<and>
    rq_buf rq' = (if mem_ok rq m then buf_bytes rq m else rq_buf rq) \<and>
    same_access rq' rq \<and> rq_args rq' = rq_args rq"
proof (cases "powered_up m")
  case False
  then show ?thesis using assms(1) by (simp add: mem_req_def mem_ok_def same_access_def)
next
  case True
  obtain rq1 m1 where b: "(if rq_debug rq then Some (rq, m)
      else let (rq1, m1) = mem_bandwidth cycles rq m in map_option (Pair rq1) (mem_capture rq1 (mem_power time rq1 m1))) = Some (rq1, m1)"
    and K: "same_access rq1 rq" "rq_args rq1 = rq_args rq" "rq_buf rq1 = rq_buf rq"
    "mem_size m1 = mem_size m" "mem_data m1 = mem_data m" "check_mem m1 = check_mem m" "powered_up m1 = powered_up m"
    "power_trigger m1 = power_trigger m"
    by (rule mem_preamble [OF assms(2)])
  have acc: "rq_addr rq1 = rq_addr rq" "rq_size rq1 = rq_size rq" "rq_data rq1 = rq_data rq" "rq_is_write rq1 = rq_is_write rq"
    "rq_buf rq1 = rq_buf rq" using K by (simp_all add: same_access_def)
  have e: "mem_inv m1 = mem_inv m" "in_bounds rq1 m1 = in_bounds rq m" "regular rq1 m1 = regular rq m" "written m1 = written m"
    "mem_bytes rq1 m1 = mem_bytes rq m" "buf_bytes rq1 m1 = buf_bytes rq m"
    using K acc by (simp_all add: mem_inv_def in_bounds_def regular_def has_room_def written_def mem_bytes_def buf_bytes_def fun_eq_iff cong: option.case_cong if_cong)
  have rc: "rq_addr rq + rq_size rq > mem_size m1 \<longleftrightarrow> \<not> in_bounds rq m" using range_check [of rq m] assms(2) K by (simp add: regular_def)
  show ?thesis
  proof (cases "in_bounds rq m")
    case False
    then show ?thesis using True b rc K assms(1) e by (simp add: mem_req_def mem_ok_def)
  next
    case inb: True
    show ?thesis
    proof (cases "rq_is_write rq")
      case True
      then have ok: "mem_ok rq m" "buf_bytes rq m = rq_buf rq" using \<open>powered_up m\<close> inb by (auto simp: mem_ok_def buf_bytes_def split: option.split)
      obtain m' where "mem_write rq1 m1 = Some (IO_REQ_OK, rq1, m')" "mem_inv m'" "mem_size m' = mem_size m1"
        "powered_up m' = powered_up m1" "mem_data m' = mem_bytes rq1 m1" "check_mem m' = None \<longleftrightarrow> check_mem m1 = None"
        using mem_write_spec [of m1 rq1] assms(1,2) inb True e acc by metis
      then show ?thesis using ok True \<open>powered_up m\<close> b rc inb K e by (simp add: mem_req_def)
    next
      case rd: False
      let ?ok = "list_all (written m) [unat (rq_addr rq)..<unat (rq_addr rq) + unat (rq_size rq)]"
      have ok: "mem_ok rq m \<longleftrightarrow> ?ok" "mem_bytes rq m = mem_data m"
        using rd \<open>powered_up m\<close> inb by (auto simp: mem_ok_def mem_bytes_def split: option.split)
      have "mem_read rq1 m1 = Some (if ?ok then IO_REQ_OK else IO_REQ_INVALID, rq1\<lparr>rq_buf := (if ?ok then buf_bytes rq m else rq_buf rq)\<rparr>, m1)"
        using mem_read_spec [of m1 rq1] assms(1,2) inb rd e acc by simp
      then show ?thesis using ok rd \<open>powered_up m\<close> b rc inb K e assms(1) by (simp add: mem_req_def same_access_def)
    qed
  qed
qed


definition sample_memory :: memory where
  "sample_memory = mem_reset True (mem_start 16 True 2 [0, 0] \<lparr>mem_size = 0, mem_width_bits = 0, mem_data = [], check_mem = None,
     next_packet_start = 0, powered_up = False, power_trigger = True, power_active = True, last_access_timestamp = 0, mem_energy = [], mem_captures = []\<rparr>)"

definition sample_req :: "u64 \<Rightarrow> u64 \<Rightarrow> bool \<Rightarrow> io_req" where
  "sample_req addr sz wr = \<lparr>rq_addr = addr, rq_size = sz, rq_data = Some 1, rq_is_write = wr, rq_debug = False, rq_latency = 0,
     rq_duration = 0, rq_resp_port = None, rq_args = [], rq_buf = [1, 2, 3, 4, 5, 6]\<rparr>"

lemma sample_memory_inv: "mem_inv sample_memory"
  by code_simp


text \<open>When the end of the request wraps around, the range check lets it through and the copy is outside the
  array.\<close>

lemma range_check_wraps: "mem_req 0 0 (sample_memory\<lparr>check_mem := None\<rparr>) (sample_req (- 4) 5 True) = None"
  by (simp add: sample_memory_def sample_req_def mem_reset_def mem_start_def mem_req_def mem_bandwidth_def mem_power_def mem_capture_def set_duration_def Let_def
    mem_write_def memcpy_def)

section \<open>Memories behind ports\<close>

definition mem_target :: "int \<Rightarrow> int \<Rightarrow> (nat \<Rightarrow> memory) target_meth" where
  "mem_target cycles time p rq mems = map_option (\<lambda>(status, rq', m'). (status, rq', mems(p := m'))) (mem_req cycles time (mems p) rq)"

definition mems_ready :: "(nat \<Rightarrow> memory) \<Rightarrow> bool" where
  "mems_ready mems \<longleftrightarrow> (\<forall>p. mem_inv (mems p) \<and> powered_up (mems p) \<and> check_mem (mems p) = None)"

interpretation mem: byte_target "mem_target cycles time" "\<lambda>p mems. mem_data (mems p)" mems_ready
  for cycles time
proof
  fix mems :: "nat \<Rightarrow> memory" and rq :: io_req and d p
  assume a: "mems_ready mems" "rq_data rq = Some d" "d + unat (rq_size rq) \<le> length (rq_buf rq)"
    "unat (rq_addr rq) + unat (rq_size rq) \<le> length (mem_data (mems p))" "length (mem_data (mems p)) < 2 ^ 63"
  have i: "mem_inv (mems p)" "powered_up (mems p)" "check_mem (mems p) = None" using a(1) by (simp_all add: mems_ready_def)
  have ok: "mem_ok rq (mems p)" using i a(4) by (auto simp: mem_ok_def in_bounds_def mem_inv_def written_def list_all_iff)
  have "regular rq (mems p)" using a i by (simp add: regular_def has_room_def)
  then obtain rq' m' where m: "mem_req cycles time (mems p) rq = Some (IO_REQ_OK, rq', m')" "mem_inv m'" "powered_up m' = powered_up (mems p)"
    "check_mem m' = None \<longleftrightarrow> check_mem (mems p) = None" "mem_data m' = mem_bytes rq (mems p)" "rq_buf rq' = buf_bytes rq (mems p)"
    "same_access rq' rq" "rq_args rq' = rq_args rq"
    using mem_req_spec [OF i(1), of rq cycles time] ok by auto
  show "\<exists>rq' mems'. mem_target cycles time p rq mems = Some (IO_REQ_OK, rq', mems') \<and> mems_ready mems' \<and> same_access rq' rq \<and>
      rq_args rq' = rq_args rq \<and>
      mem_data (mems' p) = (if rq_is_write rq
        then patch (mem_data (mems p)) (unat (rq_addr rq)) (take (unat (rq_size rq)) (drop d (rq_buf rq))) else mem_data (mems p)) \<and>
      (\<forall>q. q \<noteq> p \<longrightarrow> mem_data (mems' q) = mem_data (mems q)) \<and>
      rq_buf rq' = (if rq_is_write rq then rq_buf rq
        else patch (rq_buf rq) d (take (unat (rq_size rq)) (drop (unat (rq_addr rq)) (mem_data (mems p)))))"
    using m a(1,2) i by (intro exI [of _ rq'] exI [of _ "mems(p := m')"]) (auto simp: mem_target_def mems_ready_def mem_bytes_def buf_bytes_def)
qed

end
