(* ===== verification/Router.thy ===== *)
theory Router
  imports Io_Req "HOL-Library.Monad_Syntax"
begin

text \<open>
  The interconnect router (\<^verbatim>\<open>models/interco/router_impl.cpp\<close>): a table of address ranges, searched through
  a binary tree that is built at the first request, and the loop that cuts a request at the ends of
  the ranges and forwards the pieces. Map entries are numbers, their attributes a function; the intrusive
  list of entries is a list. The targets behind the ports are a parameter \<open>tgt\<close>, a function from the port, the
  request and the state of the targets to the status, the changed request and the new state.
\<close>

section \<open>State\<close>

datatype me_target = Me_Port nat | Me_Itf nat | Me_None

record map_entry =
  me_base :: u64
  me_size :: u64
  me_remove_offset :: u64
  me_add_offset :: u64
  me_latency :: u32
  me_id :: int
  me_target :: me_target
  me_next_packet_time :: int

record perf_counter =
  nb_read :: int
  nb_write :: int
  read_stalls :: int
  write_stalls :: int

text \<open>The inner nodes of the search tree hold the base the search compares with.\<close>

datatype map_tree = MLeaf nat | MNode u64 map_tree map_tree

record router =
  rt_entries :: "nat \<Rightarrow> map_entry"
  rt_init :: bool
  firstMapEntry :: "nat list"
  defaultMapEntry :: "nat option"
  errorMapEntry :: "nat option"
  topMapEntry :: "map_tree option"
  rt_bandwidth :: u32
  rt_latency :: u32
  rt_counters :: "int \<Rightarrow> perf_counter"

abbreviation entry :: "router \<Rightarrow> nat \<Rightarrow> map_entry" where
  "entry rt e \<equiv> rt_entries rt e"

abbreviation base_of :: "router \<Rightarrow> nat \<Rightarrow> u64" where
  "base_of rt e \<equiv> me_base (rt_entries rt e)"

section \<open>The table\<close>

definition me_insert :: "nat \<Rightarrow> router \<Rightarrow> router" where
  "me_insert e rt =
     (if me_size (entry rt e) \<noteq> 0 then
        if me_target (entry rt e) \<noteq> Me_None then
          rt\<lparr>firstMapEntry := ins_lt (base_of rt) (base_of rt e) e (firstMapEntry rt)\<rparr>
        else rt\<lparr>errorMapEntry := Some e\<rparr>
      else rt\<lparr>defaultMapEntry := Some e\<rparr>)"

fun lowestBase :: "(nat \<Rightarrow> u64) \<Rightarrow> map_tree \<Rightarrow> u64" where
  "lowestBase b (MLeaf e) = b e"
| "lowestBase b (MNode x l r) = lowestBase b l"

text \<open>One level: entries are merged two by two, a last one alone is carried over.\<close>

fun merge_level :: "(nat \<Rightarrow> u64) \<Rightarrow> map_tree list \<Rightarrow> map_tree list" where
  "merge_level b (left # current # ts) = MNode (lowestBase b current) left current # merge_level b ts"
| "merge_level b ts = ts"

lemma merge_level_length: "length (merge_level b ts) = (length ts + 1) div 2"
  by (induction b ts rule: merge_level.induct) auto

function merge_all :: "(nat \<Rightarrow> u64) \<Rightarrow> map_tree list \<Rightarrow> map_tree option" where
  "merge_all b [] = None"
| "merge_all b [t] = Some t"
| "merge_all b (t # u # ts) = merge_all b (merge_level b (t # u # ts))"
  by pat_completeness auto
termination
  by (relation "measure (length \<circ> snd)") (auto simp: merge_level_length simp del: merge_level.simps)

definition init_entries :: "router \<Rightarrow> router" where
  "init_entries rt = rt\<lparr>topMapEntry := merge_all (base_of rt) (map MLeaf (firstMapEntry rt))\<rparr>"

text \<open>The search loop.\<close>

fun descend :: "u64 \<Rightarrow> map_tree \<Rightarrow> nat" where
  "descend offset (MLeaf e) = e"
| "descend offset (MNode b l r) = (if offset \<ge> b then descend offset r else descend offset l)"

definition find_entry :: "router \<Rightarrow> u64 \<Rightarrow> u64 \<Rightarrow> nat option" where
  "find_entry rt offset sz =
     (let found = (case topMapEntry rt of
                     None \<Rightarrow> None
                   | Some t \<Rightarrow>
                       let e = descend offset t in
                       if offset < base_of rt e \<or> offset > base_of rt e + me_size (entry rt e) - 1 then None else Some e)
      in case found of
           Some e \<Rightarrow> Some e
         | None \<Rightarrow>
             (case errorMapEntry rt of
                Some x \<Rightarrow>
                  if offset \<ge> base_of rt x \<and> offset + sz - 1 \<le> base_of rt x + me_size (entry rt x) - 1 then None
                  else defaultMapEntry rt
              | None \<Rightarrow> defaultMapEntry rt))"

section \<open>Requests\<close>

text \<open>The latency and the bandwidth, at cycle \<open>cycles\<close>.\<close>

definition router_timing :: "int \<Rightarrow> nat \<Rightarrow> u64 \<Rightarrow> io_req \<Rightarrow> router \<Rightarrow> io_req \<times> router" where
  "router_timing cycles e sz rq rt =
     (if rq_debug rq then (rq, rt)
      else if rt_bandwidth rt \<noteq> 0 then
        let bw = scast (rt_bandwidth rt) :: u64;
            packet_duration = sint ((sz + bw - 1) div bw);
            rq1 = set_duration (word_of_int packet_duration) rq;
            latency = max (sint (rq_latency rq1)) (me_next_packet_time (entry rt e) - cycles);
            rq2 = set_latency (word_of_int (latency + uint (me_latency (entry rt e)))) rq1;
            router_time = max cycles (me_next_packet_time (entry rt e))
        in (rq2, rt\<lparr>rt_entries := (rt_entries rt)
                     (e := (entry rt e)\<lparr>me_next_packet_time := router_time + packet_duration\<rparr>)\<rparr>)
      else (inc_latency (ucast (me_latency (entry rt e) + rt_latency rt)) rq, rt))"

text \<open>The size of the piece, an \<^verbatim>\<open>int\<close> that is compared with the unsigned size.\<close>

definition iter_size :: "router \<Rightarrow> nat \<Rightarrow> u64 \<Rightarrow> u64 \<Rightarrow> u32" where
  "iter_size rt e offset sz =
     (let n = (if defaultMapEntry rt = Some e then ucast sz
               else ucast (me_size (entry rt e) - (offset - base_of rt e)) :: u32)
      in if (scast n :: u64) > sz then ucast sz else n)"

definition piece :: "router \<Rightarrow> nat \<Rightarrow> u64 \<Rightarrow> u32 \<Rightarrow> nat option \<Rightarrow> io_req \<Rightarrow> io_req" where
  "piece rt e offset n data rq =
     (let me = entry rt e;
          addr = (if me_add_offset me \<noteq> 0 then offset + me_add_offset me
                  else if me_remove_offset me \<noteq> 0 then offset - me_remove_offset me
                  else offset)
      in rq\<lparr>rq_addr := addr, rq_size := scast n, rq_data := data\<rparr>)"

text \<open>The call through \<^verbatim>\<open>io_master::req\<close>: the port to answer to is pushed, and popped when the answer is immediate.\<close>

definition forward :: "'w target_meth \<Rightarrow> io_arg \<Rightarrow> nat \<Rightarrow> io_req \<Rightarrow> 'w \<Rightarrow> (io_req_status_e \<times> io_req \<times> 'w) option" where
  "forward tgt arg port rq w = do {
     rq1 \<leftarrow> arg_push arg rq;
     (result, rq2, w') \<leftarrow> tgt port (rq1\<lparr>rq_resp_port := Some port\<rparr>) w;
     if result = IO_REQ_OK then do { (_, rq3) \<leftarrow> arg_pop rq2; Some (result, rq3, w') }
     else Some (result, rq2, w')
   }"

definition count_access :: "int \<Rightarrow> io_req \<Rightarrow> bool \<Rightarrow> router \<Rightarrow> router" where
  "count_access i rq isRead rt =
     (if i \<noteq> -1 then
        let duration = sint (rq_duration rq);
            latency = sint (rq_latency rq) + (if duration > 1 then duration - 1 else 0);
            c = rt_counters rt i;
            c' = (if isRead then c\<lparr>read_stalls := read_stalls c + latency, nb_read := nb_read c + 1\<rparr>
                  else c\<lparr>write_stalls := write_stalls c + latency, nb_write := nb_write c + 1\<rparr>)
        in rt\<lparr>rt_counters := (rt_counters rt)(i := c')\<rparr>
      else rt)"

text \<open>One iteration of the loop: an early return (\<open>Inl\<close>) or the result of the piece and the number of bytes
  done (\<open>Inr\<close>).\<close>

definition router_iter ::
    "'w target_meth \<Rightarrow> (nat \<Rightarrow> bool) \<Rightarrow> int \<Rightarrow> u64 \<Rightarrow> u64 \<Rightarrow> nat option \<Rightarrow> io_req \<Rightarrow> router \<Rightarrow> 'w \<Rightarrow>
     ((io_req_status_e + io_req_status_e \<times> u64) \<times> io_req \<times> router \<times> 'w) option" where
  "router_iter tgt bound cycles offset sz data rq rt w =
     (case find_entry rt offset sz of
        None \<Rightarrow> Some (Inl IO_REQ_INVALID, rq, rt, w)
      | Some e \<Rightarrow>
          let (rq1, rt1) = router_timing cycles e sz rq rt;
              n = iter_size rt1 e offset sz;
              rq2 = piece rt1 e offset n data rq1;
              fin = (\<lambda>(result, rq3, w'). (Inr (result, scast n), rq3,
                        count_access (me_id (entry rt1 e)) rq3 (\<not> rq_is_write rq) rt1, w'))
          in case me_target (entry rt1 e) of
               Me_Port p \<Rightarrow> map_option fin (forward tgt (Arg_Port None) p rq2 w)
             | Me_Itf i \<Rightarrow>
                 if bound i then map_option fin (forward tgt (Arg_Port (rq_resp_port rq2)) i rq2 w)
                 else Some (Inl IO_REQ_INVALID, rq2, rt1, w)
             | Me_None \<Rightarrow> Some (fin (IO_REQ_OK, rq2, w)))"

text \<open>The loop. A piece of size zero makes it run forever; a null data pointer that is advanced for
  a further piece is undefined: both are \<open>None\<close>.\<close>

partial_function (option) router_loop ::
    "'w target_meth \<Rightarrow> (nat \<Rightarrow> bool) \<Rightarrow> int \<Rightarrow> u64 \<Rightarrow> u64 \<Rightarrow> nat option \<Rightarrow> io_req \<Rightarrow> router \<Rightarrow> 'w \<Rightarrow>
     ((io_req_status_e + io_req_status_e) \<times> io_req \<times> router \<times> 'w) option" where
  "router_loop tgt bound cycles offset sz data rq rt w =
     (case router_iter tgt bound cycles offset sz data rq rt w of
        None \<Rightarrow> None
      | Some (Inl result, rq', rt', w') \<Rightarrow> Some (Inl result, rq', rt', w')
      | Some (Inr (result, n), rq', rt', w') \<Rightarrow>
          if sz - n = 0 then Some (Inr result, rq', rt', w')
          else (case data of
                  None \<Rightarrow> None
                | Some d \<Rightarrow> router_loop tgt bound cycles (offset + n) (sz - n) (Some (d + unat n)) rq' rt' w'))"

declare router_loop.simps [code]

text \<open>\<^verbatim>\<open>router::req\<close>. For a request of size zero the status is an uninitialized variable.\<close>

definition router_req ::
    "'w target_meth \<Rightarrow> (nat \<Rightarrow> bool) \<Rightarrow> int \<Rightarrow> io_req \<Rightarrow> router \<Rightarrow> 'w \<Rightarrow>
     (io_req_status_e \<times> io_req \<times> router \<times> 'w) option" where
  "router_req tgt bound cycles rq rt w =
     (let rt1 = (if rt_init rt then rt else init_entries (rt\<lparr>rt_init := True\<rparr>))
      in if rq_size rq = 0 then None
         else case router_loop tgt bound cycles (rq_addr rq) (rq_size rq) (rq_data rq) rq rt1 w of
                None \<Rightarrow> None
              | Some (Inl result, rq', rt', w') \<Rightarrow> Some (result, rq', rt', w')
              | Some (Inr result, rq', rt', w') \<Rightarrow>
                  Some (result,
                        if result = IO_REQ_OK
                        then rq'\<lparr>rq_addr := rq_addr rq, rq_size := rq_size rq, rq_data := rq_data rq\<rparr> else rq',
                        rt', w'))"

text \<open>The callbacks of the answers: \<open>Some port\<close> is the port whose \<^verbatim>\<open>grant\<close> or \<^verbatim>\<open>resp\<close> is called.\<close>

definition router_grant :: "io_req \<Rightarrow> (nat option \<times> io_req) option" where
  "router_grant rq = do {
     (x, rq1) \<leftarrow> arg_pop rq;
     case x of Arg_Port p \<Rightarrow> do { rq2 \<leftarrow> arg_push (Arg_Port p) rq1; Some (p, rq2) } | _ \<Rightarrow> None
   }"

definition router_response :: "io_req \<Rightarrow> (nat option \<times> io_req) option" where
  "router_response rq = do {
     (x, rq1) \<leftarrow> arg_pop rq;
     case x of Arg_Port p \<Rightarrow> Some (p, rq1) | _ \<Rightarrow> None
   }"

section \<open>Performance counters\<close>

definition stalls_sync_back :: "perf_counter \<Rightarrow> u32" where
  "stalls_sync_back c = word_of_int (read_stalls c + write_stalls c)"

definition stalls_sync :: "u32 \<Rightarrow> perf_counter \<Rightarrow> perf_counter" where
  "stalls_sync v c = c\<lparr>read_stalls := uint v, write_stalls := uint v\<rparr>"

definition nb_read_sync_back :: "perf_counter \<Rightarrow> u32" where
  "nb_read_sync_back c = word_of_int (nb_read c)"

definition nb_read_sync :: "u32 \<Rightarrow> perf_counter \<Rightarrow> perf_counter" where
  "nb_read_sync v c = c\<lparr>nb_read := uint v\<rparr>"

definition nb_write_sync_back :: "perf_counter \<Rightarrow> u32" where
  "nb_write_sync_back c = word_of_int (nb_write c)"

definition nb_write_sync :: "u32 \<Rightarrow> perf_counter \<Rightarrow> perf_counter" where
  "nb_write_sync v c = c\<lparr>nb_write := uint v\<rparr>"

definition read_stalls_sync_back :: "perf_counter \<Rightarrow> u32" where
  "read_stalls_sync_back c = word_of_int (read_stalls c)"

definition read_stalls_sync :: "u32 \<Rightarrow> perf_counter \<Rightarrow> perf_counter" where
  "read_stalls_sync v c = c\<lparr>read_stalls := uint v\<rparr>"

definition write_stalls_sync_back :: "perf_counter \<Rightarrow> u32" where
  "write_stalls_sync_back c = word_of_int (write_stalls c)"

definition write_stalls_sync :: "u32 \<Rightarrow> perf_counter \<Rightarrow> perf_counter" where
  "write_stalls_sync v c = c\<lparr>write_stalls := uint v\<rparr>"

section \<open>Specification of the table\<close>

definition contains :: "router \<Rightarrow> nat \<Rightarrow> nat \<Rightarrow> bool" where
  "contains rt a e \<longleftrightarrow> unat (base_of rt e) \<le> a \<and> a < unat (base_of rt e) + unat (me_size (entry rt e))"

text \<open>A range that is not empty and does not wrap around; ranges that do not overlap.\<close>

definition good_range :: "router \<Rightarrow> nat \<Rightarrow> bool" where
  "good_range rt e \<longleftrightarrow> me_size (entry rt e) \<noteq> 0 \<and> me_target (entry rt e) \<noteq> Me_None \<and>
     unat (base_of rt e) + unat (me_size (entry rt e)) \<le> 2 ^ 64"

definition apart :: "router \<Rightarrow> nat \<Rightarrow> nat \<Rightarrow> bool" where
  "apart rt e f \<longleftrightarrow> unat (base_of rt e) + unat (me_size (entry rt e)) \<le> unat (base_of rt f) \<or>
     unat (base_of rt f) + unat (me_size (entry rt f)) \<le> unat (base_of rt e)"

text \<open>A table of separate ranges, in order, whose search tree is built.\<close>

definition table_ok :: "router \<Rightarrow> bool" where
  "table_ok rt \<longleftrightarrow> sorted (map (base_of rt) (firstMapEntry rt)) \<and> distinct (firstMapEntry rt) \<and>
     pairwise (apart rt) (set (firstMapEntry rt)) \<and> list_all (good_range rt) (firstMapEntry rt) \<and>
     topMapEntry rt = merge_all (base_of rt) (map MLeaf (firstMapEntry rt))"

fun leaves :: "map_tree \<Rightarrow> nat list" where
  "leaves (MLeaf e) = [e]"
| "leaves (MNode b l r) = leaves l @ leaves r"

fun tree_ok :: "(nat \<Rightarrow> u64) \<Rightarrow> map_tree \<Rightarrow> bool" where
  "tree_ok b (MLeaf e) = True"
| "tree_ok b (MNode x l r) = (x = b (hd (leaves r)) \<and> tree_ok b l \<and> tree_ok b r)"

text \<open>The linear search: the last entry that starts at or before the offset, or the first entry.\<close>

fun pick :: "(nat \<Rightarrow> u64) \<Rightarrow> u64 \<Rightarrow> nat list \<Rightarrow> nat" where
  "pick b off (e # f # es) = (if off \<ge> b f then pick b off (f # es) else e)"
| "pick b off es = hd es"

section \<open>The tree finds what a linear search finds\<close>

lemma leaves_not_Nil [simp]: "leaves t \<noteq> []"
  by (induction t) simp_all

lemma lowestBase_hd: "lowestBase b t = b (hd (leaves t))"
  by (induction t) simp_all

lemma pick_append:
  "xs \<noteq> [] \<Longrightarrow> ys \<noteq> [] \<Longrightarrow> sorted (map b (xs @ ys)) \<Longrightarrow>
   pick b off (xs @ ys) = (if off \<ge> b (hd ys) then pick b off ys else pick b off xs)"
proof (induction xs rule: induct_list012)
  case (2 x)
  then show ?case by (cases ys) simp_all
next
  case (3 x x' xs)
  have "b x' \<le> b (hd ys)" using 3(4,5) by (cases ys) (auto simp: sorted_append)
  moreover have "pick b off ((x' # xs) @ ys) = (if off \<ge> b (hd ys) then pick b off ys else pick b off (x' # xs))"
    using 3 by simp
  ultimately show ?case by auto
qed simp

lemma descend_pick: "tree_ok b t \<Longrightarrow> sorted (map b (leaves t)) \<Longrightarrow> descend off t = pick b off (leaves t)"
proof (induction t)
  case (MNode x l r)
  then have "descend off l = pick b off (leaves l)" "descend off r = pick b off (leaves r)" by (simp_all add: sorted_append)
  moreover have "pick b off (leaves l @ leaves r) = (if off \<ge> b (hd (leaves r)) then pick b off (leaves r) else pick b off (leaves l))"
    using MNode.prems by (intro pick_append) simp_all
  ultimately show ?case using MNode.prems by simp
qed simp

lemma merge_level_ok:
  "concat (map leaves (merge_level b ts)) = concat (map leaves ts)"
  "list_all (tree_ok b) ts \<Longrightarrow> list_all (tree_ok b) (merge_level b ts)"
  by (induction b ts rule: merge_level.induct) (simp_all add: lowestBase_hd)

lemma merge_all_ok:
  "list_all (tree_ok b) ts \<Longrightarrow>
   case merge_all b ts of None \<Rightarrow> ts = [] | Some t \<Rightarrow> leaves t = concat (map leaves ts) \<and> tree_ok b t"
proof (induction b ts rule: merge_all.induct)
  case (3 b t u ts)
  have "merge_level b (t # u # ts) \<noteq> []" by simp
  moreover have "case merge_all b (merge_level b (t # u # ts)) of None \<Rightarrow> merge_level b (t # u # ts) = []
      | Some x \<Rightarrow> leaves x = concat (map leaves (merge_level b (t # u # ts))) \<and> tree_ok b x"
    using 3(1) merge_level_ok(2) [OF 3(2)] by blast
  ultimately show ?case
    using merge_level_ok(1) [of b "t # u # ts"] unfolding merge_all.simps by (simp del: merge_level.simps split: option.splits)
qed simp_all

lemma init_entries_top:
  assumes "sorted (map (base_of rt) (firstMapEntry rt))"
  shows "case topMapEntry (init_entries rt) of None \<Rightarrow> firstMapEntry rt = []
     | Some t \<Rightarrow> firstMapEntry rt \<noteq> [] \<and> descend off t = pick (base_of rt) off (firstMapEntry rt)"
proof -
  have "list_all (tree_ok (base_of rt)) (map MLeaf (firstMapEntry rt))" by (simp add: list_all_iff)
  from merge_all_ok [OF this] show ?thesis
    using assms descend_pick [of "base_of rt" _ off] leaves_not_Nil
    by (auto simp: init_entries_def comp_def split: option.splits)
qed

text \<open>In a sorted table of separate ranges the entry picked is the only one that can contain the offset.\<close>

lemma pick_mem: "es \<noteq> [] \<Longrightarrow> pick b off es \<in> set es"
  by (induction b off es rule: pick.induct) auto

lemma pick_contains:
  assumes "sorted (map (base_of rt) es)" "pairwise (apart rt) (set es)" "distinct es" "e \<in> set es" "contains rt (unat off) e"
    "\<forall>e\<in>set es. me_size (entry rt e) \<noteq> 0"
  shows "pick (base_of rt) off es = e"
  using assms
proof (induction "base_of rt" off es rule: pick.induct)
  case (1 off x y es)
  show ?case
  proof (cases "base_of rt y \<le> off")
    case True
    have "e \<noteq> x"
    proof
      assume "e = x"
      have "apart rt x y" using 1 by (simp add: pairwise_def)
      moreover have "unat (base_of rt x) \<le> unat (base_of rt y)" using 1(2) by (simp add: word_le_nat_alt)
      moreover have "0 < unat (me_size (entry rt x))" "0 < unat (me_size (entry rt y))" using 1(7) by (auto simp: unat_gt_0)
      ultimately show False using 1(6) True \<open>e = x\<close> by (auto simp: apart_def contains_def word_le_nat_alt)
    qed
    then show ?thesis using 1 True by (auto simp: pairwise_insert)
  next
    case False
    have "base_of rt y \<le> base_of rt z" if "z \<in> set (y # es)" for z using 1(2) that by auto
    then have "e \<notin> set (y # es)" using 1(6) False unfolding contains_def word_le_nat_alt by (meson order_trans)
    then have "e = x" using 1(5) by simp
    then show ?thesis using False by simp
  qed
qed (auto)

lemma range_contains:
  assumes "good_range rt e"
  shows "off < base_of rt e \<or> off > base_of rt e + me_size (entry rt e) - 1 \<longleftrightarrow> \<not> contains rt (unat off) e"
proof -
  let ?b = "base_of rt e" and ?s = "me_size (entry rt e)"
  have p: "0 < unat ?s" "unat ?b + unat ?s \<le> 2 ^ 64" using assms by (auto simp: good_range_def unat_gt_0)
  have s1: "unat (?s - 1) = unat ?s - 1" using p(1) by (simp add: unat_minus_one unat_gt_0)
  have e: "?b + ?s - 1 = ?b + (?s - 1)" by simp
  have "unat (?b + ?s - 1) = (unat ?b + (unat ?s - 1)) mod 2 ^ 64" unfolding e unat_word_ariths(1) s1 by simp
  then have "unat (?b + ?s - 1) = unat ?b + unat ?s - 1" using p by simp
  then show ?thesis using p by (auto simp: contains_def word_less_nat_alt)
qed

lemma find_unique:
  assumes "e \<in> set es" "P e" "\<And>f. f \<in> set es \<Longrightarrow> P f \<Longrightarrow> f = e"
  shows "find P es = Some e"
proof (cases "find P es")
  case None
  then show ?thesis using assms(1,2) by (auto simp: find_None_iff)
next
  case (Some f)
  then have "f \<in> set es \<and> P f" by (auto simp: find_Some_iff)
  then show ?thesis using Some assms(3) by simp
qed

lemma contains_unique:
  assumes "pairwise (apart rt) (set es)" "e \<in> set es" "f \<in> set es" "contains rt off e" "contains rt off f"
  shows "f = e"
  using assms unfolding pairwise_def apart_def contains_def by force

lemma table_lookup:
  assumes "table_ok rt"
  shows "(case topMapEntry rt of None \<Rightarrow> None
     | Some t \<Rightarrow> let e = descend off t in
         if off < base_of rt e \<or> off > base_of rt e + me_size (entry rt e) - 1 then None else Some e)
     = find (contains rt (unat off)) (firstMapEntry rt)"
proof -
  let ?es = "firstMapEntry rt"
  have T: "sorted (map (base_of rt) ?es)" "distinct ?es" "pairwise (apart rt) (set ?es)" "list_all (good_range rt) ?es"
    and top: "topMapEntry rt = topMapEntry (init_entries rt)" using assms by (simp_all add: table_ok_def init_entries_def)
  show ?thesis
  proof (cases "topMapEntry rt")
    case None
    then show ?thesis using init_entries_top [OF T(1)] top by simp
  next
    case (Some t)
    then have ne: "?es \<noteq> []" and d: "descend off t = pick (base_of rt) off ?es"
      using init_entries_top [OF T(1), of off] top by simp_all
    let ?e = "pick (base_of rt) off ?es"
    have mem: "?e \<in> set ?es" by (rule pick_mem [OF ne])
    then have g: "good_range rt ?e" using T(4) by (simp add: list_all_iff)
    show ?thesis
    proof (cases "contains rt (unat off) ?e")
      case True
      then have "find (contains rt (unat off)) ?es = Some ?e" using mem contains_unique [OF T(3)] by (intro find_unique) blast+
      then show ?thesis using True Some d range_contains [OF g] by (simp add: Let_def)
    next
      case False
      have "\<not> contains rt (unat off) e" if "e \<in> set ?es" for e
        using pick_contains [OF T(1,3,2) that] False T(4) by (auto simp: list_all_iff good_range_def)
      then have "find (contains rt (unat off)) ?es = None" by (simp add: find_None_iff)
      then show ?thesis using False Some d range_contains [OF g] by (simp add: Let_def)
    qed
  qed
qed

lemma find_entry_table:
  assumes "table_ok rt"
  shows "find_entry rt off sz = (case find (contains rt (unat off)) (firstMapEntry rt) of
     Some e \<Rightarrow> Some e
   | None \<Rightarrow> (case errorMapEntry rt of
         Some x \<Rightarrow> if off \<ge> base_of rt x \<and> off + sz - 1 \<le> base_of rt x + me_size (entry rt x) - 1 then None else defaultMapEntry rt
       | None \<Rightarrow> defaultMapEntry rt))"
  unfolding find_entry_def table_lookup [OF assms] unfolding Let_def ..

lemma me_insert_good:
  "good_range rt e \<Longrightarrow> me_insert e rt = rt\<lparr>firstMapEntry := ins_lt (base_of rt) (base_of rt e) e (firstMapEntry rt)\<rparr>"
  by (simp add: me_insert_def good_range_def)

lemma insert_entries:
  "list_all (good_range rt) es \<Longrightarrow> sorted (map (base_of rt) (firstMapEntry rt)) \<Longrightarrow> distinct (firstMapEntry rt @ es) \<Longrightarrow>
   (\<exists>fs. fold me_insert es rt = rt\<lparr>firstMapEntry := fs\<rparr> \<and> set fs = set (firstMapEntry rt @ es) \<and> distinct fs \<and>
     sorted (map (base_of rt) fs))"
proof (induction es arbitrary: rt)
  case Nil
  then show ?case by (intro exI [of _ "firstMapEntry rt"]) simp
next
  case (Cons e es)
  let ?f = "ins_lt (base_of rt) (base_of rt e) e (firstMapEntry rt)" and ?r = "me_insert e rt"
  have r: "?r = rt\<lparr>firstMapEntry := ?f\<rparr>" using Cons.prems by (simp add: me_insert_good)
  have "\<exists>fs. fold me_insert es ?r = ?r\<lparr>firstMapEntry := fs\<rparr> \<and> set fs = set (firstMapEntry ?r @ es) \<and> distinct fs \<and>
      sorted (map (base_of ?r) fs)"
    using Cons.prems by (intro Cons.IH) (auto simp: r good_range_def list_all_iff sorted_ins_lt)
  then obtain fs where "fold me_insert es ?r = ?r\<lparr>firstMapEntry := fs\<rparr>" "set fs = set (firstMapEntry ?r @ es)" "distinct fs"
    "sorted (map (base_of ?r) fs)" by blast
  then show ?case by (intro exI [of _ fs]) (auto simp: r)
qed

text \<open>The table that registering entries and building the tree gives.\<close>

lemma registered_table:
  assumes "list_all (good_range rt) es" "distinct es" "pairwise (apart rt) (set es)" "firstMapEntry rt = []"
  obtains fs where "fold me_insert es rt = rt\<lparr>firstMapEntry := fs\<rparr>" "set fs = set es" "table_ok (init_entries (rt\<lparr>firstMapEntry := fs\<rparr>))"
    "\<And>a. find (contains rt a) fs = find (contains rt a) es"
proof -
  obtain fs where f: "fold me_insert es rt = rt\<lparr>firstMapEntry := fs\<rparr>" "set fs = set es" "distinct fs" "sorted (map (base_of rt) fs)"
    using insert_entries [OF assms(1)] assms(2,4) by auto
  let ?r = "init_entries (rt\<lparr>firstMapEntry := fs\<rparr>)"
  have e: "entry ?r = entry rt" "good_range ?r = good_range rt" "apart ?r = apart rt"
    by (simp_all add: init_entries_def fun_eq_iff good_range_def apart_def)
  have "table_ok ?r" using assms(1,3) f e by (simp add: table_ok_def list_all_iff) (simp add: init_entries_def)
  moreover have "find (contains rt a) fs = find (contains rt a) es" for a
  proof (cases "find (contains rt a) es")
    case None
    then have "find (contains rt a) fs = None" using f(2) by (simp add: find_None_iff)
    then show ?thesis using None by simp
  next
    case (Some x)
    then have x: "x \<in> set es" "contains rt a x" by (auto simp: find_Some_iff)
    then have "find (contains rt a) fs = Some x" using f(2) contains_unique [OF assms(3)] by (intro find_unique) blast+
    then show ?thesis using Some by simp
  qed
  ultimately show ?thesis using f by (intro that)
qed

text \<open>
  C11. The routing table is exact: whatever the order in which entries with separate ranges are registered, the balanced
  search tree that is built from them finds, for every offset, the entry whose range contains it, and
  none when there is none.
\<close>

theorem routing_table_exact:
  assumes "list_all (good_range rt) es" "distinct es" "pairwise (apart rt) (set es)"
    "firstMapEntry rt = []" "defaultMapEntry rt = None" "errorMapEntry rt = None"
  shows "find_entry (init_entries (fold me_insert es rt)) off sz = find (contains rt (unat off)) es"
proof -
  obtain fs where f: "fold me_insert es rt = rt\<lparr>firstMapEntry := fs\<rparr>" "table_ok (init_entries (rt\<lparr>firstMapEntry := fs\<rparr>))"
    "find (contains rt (unat off)) fs = find (contains rt (unat off)) es"
    using registered_table [OF assms(1-4)] by metis
  let ?r = "init_entries (rt\<lparr>firstMapEntry := fs\<rparr>)"
  have "contains ?r (unat off) = contains rt (unat off)" "firstMapEntry ?r = fs" "defaultMapEntry ?r = None" "errorMapEntry ?r = None"
    using assms(5,6) by (simp_all add: init_entries_def contains_def fun_eq_iff)
  then show ?thesis using f(3) unfolding f(1) find_entry_table [OF f(2)] by (simp split: option.split)
qed

text \<open>Three ranges registered out of order.\<close>

definition sample_router :: router where
  "sample_router =
     \<lparr>rt_entries = (\<lambda>e. \<lparr>me_base = (if e = 0 then 0x100 else if e = 1 then 0x10 else 0x110), me_size = 0x10,
        me_remove_offset = (if e = 0 then 0x100 else if e = 1 then 0x10 else 0x110), me_add_offset = 0, me_latency = 2, me_id = -1,
        me_target = Me_Itf e, me_next_packet_time = 0\<rparr>),
      rt_init = False, firstMapEntry = [], defaultMapEntry = None, errorMapEntry = None, topMapEntry = None, rt_bandwidth = 4, rt_latency = 0,
      rt_counters = (\<lambda>_. \<lparr>nb_read = 0, nb_write = 0, read_stalls = 0, write_stalls = 0\<rparr>)\<rparr>"

lemma sample_router_table:
  "list_all (good_range sample_router) [0, 1, 2]" "pairwise (apart sample_router) (set [0, 1, 2])"
  by (simp_all add: sample_router_def good_range_def apart_def pairwise_insert)

theorem routing_table_exact_witness:
  "find_entry (init_entries (fold me_insert [0, 1, 2] sample_router)) 0x105 4 = Some 0"
  by (subst routing_table_exact [OF sample_router_table(1) _ sample_router_table(2)])
    (simp_all add: sample_router_def contains_def)

section \<open>Oddities\<close>

text \<open>The status of a piece overwrites the status of the pieces before it: here the first piece is refused.\<close>

lemma status_of_first_piece_is_lost:
  "map_option fst (router_req (\<lambda>p rq (w :: unit). Some (if p = 0 then IO_REQ_INVALID else IO_REQ_OK, rq, w)) (\<lambda>_. True) 0
     \<lparr>rq_addr = 0x10e, rq_size = 4, rq_data = Some 0, rq_is_write = True, rq_debug = False, rq_latency = 0, rq_duration = 0,
      rq_resp_port = None, rq_args = [], rq_buf = [1, 2, 3, 4]\<rparr>
     (fold me_insert [0, 1, 2] sample_router) ()) = Some IO_REQ_OK"
  by code_simp

text \<open>The remaining size of a range is truncated to an \<^verbatim>\<open>int\<close>: at the start of a range of 4 GB the piece is empty, and the loop does
  not advance.\<close>

lemma piece_of_4G_range_is_empty:
  "me_size (entry rt e) = 0x100000000 \<Longrightarrow> defaultMapEntry rt \<noteq> Some e \<Longrightarrow> iter_size rt e (base_of rt e) sz = 0"
  by (simp add: iter_size_def)

text \<open>An added offset replaces a removed one instead of being combined with it.\<close>

lemma added_offset_wins:
  "me_add_offset (entry rt e) \<noteq> 0 \<Longrightarrow> rq_addr (piece rt e off n data rq) = off + me_add_offset (entry rt e)"
  by (simp add: piece_def Let_def)

section \<open>A router in front of targets that hold bytes\<close>

definition port_of :: "router \<Rightarrow> nat \<Rightarrow> nat" where
  "port_of rt e = (case me_target (entry rt e) of Me_Port p \<Rightarrow> p | Me_Itf p \<Rightarrow> p | Me_None \<Rightarrow> 0)"

text \<open>An entry that maps its range to the start of its target; the range is smaller than 2 GB.\<close>

definition window :: "(nat \<Rightarrow> bool) \<Rightarrow> router \<Rightarrow> nat \<Rightarrow> bool" where
  "window bound rt e \<longleftrightarrow> me_remove_offset (entry rt e) = base_of rt e \<and> me_add_offset (entry rt e) = 0 \<and>
     unat (me_size (entry rt e)) < 2 ^ 31 \<and> (case me_target (entry rt e) of Me_Itf i \<Rightarrow> bound i | _ \<Rightarrow> True)"

definition map_ok :: "(nat \<Rightarrow> bool) \<Rightarrow> router \<Rightarrow> bool" where
  "map_ok bound rt \<longleftrightarrow> table_ok rt \<and> defaultMapEntry rt = None \<and> list_all (window bound rt) (firstMapEntry rt) \<and>
     inj_on (port_of rt) (set (firstMapEntry rt))"

text \<open>The address space the router shows: the byte at an address, if the address is mapped; the targets
  hold at least the ranges mapped to them.\<close>

definition loc_of :: "router \<Rightarrow> nat \<Rightarrow> (nat \<times> nat) option" where
  "loc_of rt a = map_option (\<lambda>e. (port_of rt e, a - unat (base_of rt e))) (find (contains rt a) (firstMapEntry rt))"

abbreviation flat :: "(nat \<Rightarrow> 'w \<Rightarrow> u8 list) \<Rightarrow> router \<Rightarrow> 'w \<Rightarrow> nat \<Rightarrow> u8 option" where
  "flat bytes rt \<equiv> space_of (loc_of rt) bytes"

definition fits :: "(nat \<Rightarrow> 'w \<Rightarrow> u8 list) \<Rightarrow> router \<Rightarrow> 'w \<Rightarrow> bool" where
  "fits bytes rt w \<longleftrightarrow> list_all (\<lambda>e. unat (me_size (entry rt e)) \<le> length (bytes (port_of rt e) w) \<and>
     length (bytes (port_of rt e) w) < 2 ^ 63) (firstMapEntry rt)"

text \<open>What requests change in a router: the time of the next packet of an entry, and the counters.\<close>

definition rt_same :: "router \<Rightarrow> router \<Rightarrow> bool" where
  "rt_same rt rt' \<longleftrightarrow> (\<exists>t c. rt' = rt\<lparr>rt_entries := (\<lambda>e. (entry rt e)\<lparr>me_next_packet_time := t e\<rparr>), rt_counters := c\<rparr>)"

lemma rt_sameD:
  assumes "rt_same rt rt'"
  shows "base_of rt' e = base_of rt e" "me_size (entry rt' e) = me_size (entry rt e)" "me_target (entry rt' e) = me_target (entry rt e)"
    "me_remove_offset (entry rt' e) = me_remove_offset (entry rt e)" "me_add_offset (entry rt' e) = me_add_offset (entry rt e)"
    "firstMapEntry rt' = firstMapEntry rt" "defaultMapEntry rt' = defaultMapEntry rt" "errorMapEntry rt' = errorMapEntry rt"
    "topMapEntry rt' = topMapEntry rt" "rt_init rt' = rt_init rt"
  using assms by (auto simp: rt_same_def)

lemma rt_same_keeps:
  assumes "rt_same rt rt'"
  shows "contains rt' = contains rt" "map_ok bound rt' = map_ok bound rt" "port_of rt' = port_of rt"
  using rt_sameD [OF assms]
  by (auto simp: fun_eq_iff contains_def map_ok_def table_ok_def port_of_def window_def good_range_def apart_def [abs_def] list_all_iff inj_on_def)

lemma rt_same_refl: "rt_same rt rt"
  unfolding rt_same_def by (intro exI [of _ "\<lambda>e. me_next_packet_time (entry rt e)"] exI [of _ "rt_counters rt"]) simp

lemma rt_same_trans: "rt_same a b \<Longrightarrow> rt_same b c \<Longrightarrow> rt_same a c"
  unfolding rt_same_def by force

lemma router_timing_keeps:
  assumes "router_timing cycles e sz rq rt = (rq1, rt1)"
  shows "rt_same rt rt1" "same_access rq1 rq" "rq_args rq1 = rq_args rq" "rq_buf rq1 = rq_buf rq"
proof -
  have "rt_same rt (rt\<lparr>rt_entries := (rt_entries rt)(e := (entry rt e)\<lparr>me_next_packet_time := t\<rparr>)\<rparr>)" for t
    unfolding rt_same_def
    by (intro exI [of _ "\<lambda>f. if f = e then t else me_next_packet_time (entry rt f)"] exI [of _ "rt_counters rt"]) (simp add: fun_eq_iff)
  then show "rt_same rt rt1" "same_access rq1 rq" "rq_args rq1 = rq_args rq" "rq_buf rq1 = rq_buf rq"
    using assms rt_same_refl by (auto simp: router_timing_def Let_def same_access_def split: if_splits)
qed

lemma count_access_same: "rt_same rt (count_access i rq b rt)"
  unfolding rt_same_def
  by (intro exI [of _ "\<lambda>e. me_next_packet_time (entry rt e)"] exI [of _ "rt_counters (count_access i rq b rt)"])
    (simp add: count_access_def Let_def)

text \<open>The size of a piece: up to the end of the range or of the request.\<close>

lemma iter_size_eq:
  fixes sz :: u64
  assumes "map_ok bound rt" "e \<in> set (firstMapEntry rt)" "contains rt (unat off) e"
  defines "n \<equiv> min (unat (base_of rt e) + unat (me_size (entry rt e)) - unat off) (unat sz)"
  shows "n < 2 ^ 31" "scast (iter_size rt e off sz) = (of_nat n :: u64)"
proof -
  let ?b = "base_of rt e" and ?s = "me_size (entry rt e)"
  define m where "m = unat ?b + unat ?s - unat off"
  have c: "unat ?b \<le> unat off" "unat off < unat ?b + unat ?s" using assms(3) by (simp_all add: contains_def)
  have w: "unat ?s < 2 ^ 31" using assms(1,2) by (simp add: map_ok_def window_def list_all_iff)
  have "unat (off - ?b) = unat off - unat ?b" using c by (simp add: unat_sub word_le_nat_alt)
  then have "unat (?s - (off - ?b)) = m" using c by (simp add: unat_sub word_le_nat_alt m_def)
  then have sm: "?s - (off - ?b) = of_nat m" by (metis of_nat_unat ucast_id)
  have m31: "m < 2 ^ 31" using c w by (simp add: m_def)
  show n31: "n < 2 ^ 31" using m31 by (simp add: n_def m_def)
  have nd: "defaultMapEntry rt \<noteq> Some e" using assms(1) by (simp add: map_ok_def)
  have "n = min m (unat sz)" by (simp add: n_def m_def)
  then show "scast (iter_size rt e off sz) = (of_nat n :: u64)"
    using clipped_size [OF m31, of sz] nd small_casts(1) [OF m31] by (simp add: iter_size_def Let_def sm)
qed

context byte_target
begin

text \<open>The call of a target through a port: the argument that was pushed is gone again.\<close>

lemma forward_access:
  assumes "ready w" "rq_data rq = Some d" "d + unat (rq_size rq) \<le> length (rq_buf rq)"
    "unat (rq_addr rq) + unat (rq_size rq) \<le> length (bytes p w)" "length (bytes p w) < 2 ^ 63" "length (rq_args rq) < IO_REQ_NB_ARGS"
  obtains rq' w' where "forward tgt x p rq w = Some (IO_REQ_OK, rq', w')" "ready w'" "rq_args rq' = rq_args rq"
    "rq_is_write rq' = rq_is_write rq"
    "bytes p w' = (if rq_is_write rq
       then patch (bytes p w) (unat (rq_addr rq)) (take (unat (rq_size rq)) (drop d (rq_buf rq))) else bytes p w)"
    "\<And>q. q \<noteq> p \<Longrightarrow> bytes q w' = bytes q w"
    "rq_buf rq' = (if rq_is_write rq then rq_buf rq
       else patch (rq_buf rq) d (take (unat (rq_size rq)) (drop (unat (rq_addr rq)) (bytes p w))))"
proof -
  let ?r = "rq\<lparr>rq_args := x # rq_args rq, rq_resp_port := Some p\<rparr>"
  obtain rq1 w' where t: "tgt p ?r w = Some (IO_REQ_OK, rq1, w')" "ready w'" "same_access rq1 ?r" "rq_args rq1 = x # rq_args rq"
    "bytes p w' = (if rq_is_write rq
       then patch (bytes p w) (unat (rq_addr rq)) (take (unat (rq_size rq)) (drop d (rq_buf rq))) else bytes p w)"
    "\<And>q. q \<noteq> p \<Longrightarrow> bytes q w' = bytes q w"
    "rq_buf rq1 = (if rq_is_write rq then rq_buf rq
       else patch (rq_buf rq) d (take (unat (rq_size rq)) (drop (unat (rq_addr rq)) (bytes p w))))"
    using access [of w ?r d p] assms by auto
  have "forward tgt x p rq w = Some (IO_REQ_OK, rq1\<lparr>rq_args := rq_args rq\<rparr>, w')"
    using assms(6) t(1,4) by (simp add: forward_def arg_push_def arg_pop_def)
  then show ?thesis by (rule that) (use t in \<open>simp_all add: same_access_def\<close>)
qed

lemma iter_access:
  assumes "map_ok bound rt" "ready w" "e \<in> set (firstMapEntry rt)" "contains rt (unat off) e"
    "unat (me_size (entry rt e)) \<le> length (bytes (port_of rt e) w)" "length (bytes (port_of rt e) w) < 2 ^ 63"
    "d + unat sz \<le> length (rq_buf rq)" "length (rq_args rq) < IO_REQ_NB_ARGS"
  defines "n \<equiv> min (unat (base_of rt e) + unat (me_size (entry rt e)) - unat off) (unat sz)"
    and "a \<equiv> unat off - unat (base_of rt e)" and "p \<equiv> port_of rt e"
  obtains rq' rt' w' where "router_iter tgt bound cycles off sz (Some d) rq rt w = Some (Inr (IO_REQ_OK, of_nat n), rq', rt', w')"
    "rt_same rt rt'" "ready w'" "rq_args rq' = rq_args rq" "rq_is_write rq' = rq_is_write rq"
    "bytes p w' = (if rq_is_write rq then patch (bytes p w) a (take n (drop d (rq_buf rq))) else bytes p w)"
    "\<And>q. q \<noteq> p \<Longrightarrow> bytes q w' = bytes q w"
    "rq_buf rq' = (if rq_is_write rq then rq_buf rq else patch (rq_buf rq) d (take n (drop a (bytes p w))))"
proof -
  have T: "table_ok rt" "defaultMapEntry rt = None" and W: "window bound rt e" and P: "pairwise (apart rt) (set (firstMapEntry rt))"
    using assms(1,3) by (simp_all add: map_ok_def list_all_iff table_ok_def)
  have g: "good_range rt e" using T(1) assms(3) by (simp add: table_ok_def list_all_iff)
  have "find (contains rt (unat off)) (firstMapEntry rt) = Some e"
    using contains_unique [OF P] assms(3,4) by (intro find_unique) blast+
  then have f: "find_entry rt off sz = Some e" using find_entry_table [OF T(1)] by simp
  obtain rq1 rt1 where t: "router_timing cycles e sz rq rt = (rq1, rt1)" by fastforce
  note K = router_timing_keeps [OF t] and R = rt_sameD [OF router_timing_keeps(1) [OF t]]
  have S: "map_ok bound rt1" "e \<in> set (firstMapEntry rt1)" "contains rt1 (unat off) e"
    using rt_same_keeps [OF K(1)] R assms(1,3,4) by simp_all
  have N: "n < 2 ^ 31" "scast (iter_size rt1 e off sz) = (of_nat n :: u64)"
    using iter_size_eq [OF S, of sz] by (simp_all add: n_def R)
  note C = small_casts [OF N(1)]
  have c: "unat (base_of rt e) \<le> unat off" using assms(4) by (simp add: contains_def)
  have addr: "(if me_add_offset (entry rt1 e) \<noteq> 0 then off + me_add_offset (entry rt1 e)
      else if me_remove_offset (entry rt1 e) \<noteq> 0 then off - me_remove_offset (entry rt1 e) else off) = off - base_of rt e"
    using W R by (simp add: window_def)
  have ua: "unat (off - base_of rt e) = a" using c by (simp add: a_def unat_sub word_le_nat_alt)
  define rq2 where "rq2 = piece rt1 e off (iter_size rt1 e off sz) (Some d) rq1"
  have q: "rq_addr rq2 = off - base_of rt e" "rq_size rq2 = of_nat n" "rq_data rq2 = Some d" "rq_is_write rq2 = rq_is_write rq"
    "rq_args rq2 = rq_args rq" "rq_buf rq2 = rq_buf rq"
    using K(2-4) addr N(2) by (simp_all add: rq2_def piece_def Let_def same_access_def)
  have an: "a + n \<le> length (bytes p w)" using assms(4,5) by (auto simp: a_def n_def p_def contains_def min_def)
  have nsz: "n \<le> unat sz" by (simp add: n_def)
  have fw: "\<exists>rq3 w'. forward tgt x p rq2 w = Some (IO_REQ_OK, rq3, w') \<and> ready w' \<and> rq_args rq3 = rq_args rq \<and>
      rq_is_write rq3 = rq_is_write rq \<and>
      bytes p w' = (if rq_is_write rq then patch (bytes p w) a (take n (drop d (rq_buf rq))) else bytes p w) \<and>
      (\<forall>q. q \<noteq> p \<longrightarrow> bytes q w' = bytes q w) \<and>
      rq_buf rq3 = (if rq_is_write rq then rq_buf rq else patch (rq_buf rq) d (take n (drop a (bytes p w))))" for x
    by (rule forward_access [of w rq2 d p x]) (use assms(2,6-8) q ua C an nsz in \<open>auto simp: p_def\<close>)
  note result = that
  have done': thesis if it: "router_iter tgt bound cycles off sz (Some d) rq rt w =
      map_option (\<lambda>(result, rq3, w'). (Inr (result, of_nat n), rq3, count_access (me_id (entry rt1 e)) rq3 (\<not> rq_is_write rq) rt1, w'))
        (forward tgt x p rq2 w)" for x
  proof -
    obtain rq3 w' where w: "forward tgt x p rq2 w = Some (IO_REQ_OK, rq3, w')" and
      r: "ready w'" "rq_args rq3 = rq_args rq" "rq_is_write rq3 = rq_is_write rq"
      "bytes p w' = (if rq_is_write rq then patch (bytes p w) a (take n (drop d (rq_buf rq))) else bytes p w)"
      "\<forall>q. q \<noteq> p \<longrightarrow> bytes q w' = bytes q w"
      "rq_buf rq3 = (if rq_is_write rq then rq_buf rq else patch (rq_buf rq) d (take n (drop a (bytes p w))))"
      using fw [of x] by blast
    show thesis
      by (rule result [of rq3 "count_access (me_id (entry rt1 e)) rq3 (\<not> rq_is_write rq) rt1" w']) (use it w r rt_same_trans [OF K(1) count_access_same] in auto)
  qed
  show thesis
  proof (cases "me_target (entry rt e)")
    case (Me_Port x)
    then show ?thesis using R by (intro done' [of "Arg_Port None"]) (simp add: router_iter_def f t rq2_def N(2) port_of_def p_def)
  next
    case (Me_Itf x)
    then have "bound x" using W by (simp add: window_def)
    then show ?thesis using R Me_Itf
      by (intro done' [of "Arg_Port (rq_resp_port rq2)"]) (simp add: router_iter_def f t rq2_def N(2) port_of_def p_def Let_def)
  next
    case Me_None
    then show ?thesis using g by (simp add: good_range_def)
  qed
qed

end

text \<open>The map of addresses that a table gives.\<close>

lemma loc_of_Some:
  assumes "map_ok bound rt"
  shows "loc_of rt a = Some (p, l) \<longleftrightarrow>
    (\<exists>e\<in>set (firstMapEntry rt). contains rt a e \<and> p = port_of rt e \<and> l = a - unat (base_of rt e))"
proof -
  have "pairwise (apart rt) (set (firstMapEntry rt))" using assms by (simp add: map_ok_def table_ok_def)
  note U = contains_unique [OF this]
  have "find (contains rt a) (firstMapEntry rt) = Some e" if "e \<in> set (firstMapEntry rt)" "contains rt a e" for e
    using U that by (intro find_unique) blast+
  moreover have "e \<in> set (firstMapEntry rt) \<and> contains rt a e" if "find (contains rt a) (firstMapEntry rt) = Some e" for e
    using that by (auto simp: find_Some_iff)
  ultimately have "find (contains rt a) (firstMapEntry rt) = Some e \<longleftrightarrow> e \<in> set (firstMapEntry rt) \<and> contains rt a e" for e by blast
  then show ?thesis by (auto simp: loc_of_def)
qed

lemma loc_of_one_to_one:
  assumes "map_ok bound rt"
  shows "one_to_one (loc_of rt)"
proof -
  have "inj_on (port_of rt) (set (firstMapEntry rt))" using assms by (simp add: map_ok_def)
  then show ?thesis
    unfolding one_to_one_def by (auto simp: loc_of_Some [OF assms] contains_def dest!: inj_onD)
qed

lemma fits_inside:
  assumes "map_ok bound rt" "fits bytes rt w"
  shows "inside (loc_of rt) bytes w"
  unfolding inside_def
proof (intro allI impI)
  fix a p l
  assume "loc_of rt a = Some (p, l)"
  then obtain e where "e \<in> set (firstMapEntry rt)" "contains rt a e" "p = port_of rt e" "l = a - unat (base_of rt e)"
    by (auto simp: loc_of_Some [OF assms(1)])
  moreover from this have "unat (me_size (entry rt e)) \<le> length (bytes p w)" using assms(2) by (simp add: fits_def list_all_iff)
  ultimately show "l < length (bytes p w)" by (auto simp: contains_def)
qed

lemma flat_SomeD:
  assumes "flat bytes rt w a \<noteq> None"
  obtains e where "e \<in> set (firstMapEntry rt)" "contains rt a e"
proof -
  obtain e where "find (contains rt a) (firstMapEntry rt) = Some e" using assms by (auto simp: space_of_def loc_of_def)
  then have "e \<in> set (firstMapEntry rt)" "contains rt a e" by (auto simp: find_Some_iff)
  then show ?thesis by (rule that)
qed

lemma loc_of_same: "rt_same rt rt' \<Longrightarrow> loc_of rt' = loc_of rt" "rt_same rt rt' \<Longrightarrow> fits bytes rt' w = fits bytes rt w"
  by (simp_all only: loc_of_def fits_def fun_eq_iff rt_same_keeps [of rt rt'] rt_sameD [of rt rt'] simp_thms)

text \<open>The router after the construction of the tree at the first request.\<close>

definition rt_setup :: "router \<Rightarrow> router" where
  "rt_setup rt = (if rt_init rt then rt else init_entries (rt\<lparr>rt_init := True\<rparr>))"

context byte_target
begin

lemma loop_access:
  assumes "map_ok bound rt" "ready w" "fits bytes rt w" "sz \<noteq> 0" "unat off + unat sz < 2 ^ 64"
    "list_all (\<lambda>a. flat bytes rt w a \<noteq> None) [unat off..<unat off + unat sz]"
    "d + unat sz \<le> length (rq_buf rq)" "length (rq_args rq) < IO_REQ_NB_ARGS"
  shows "\<exists>rq' rt' w'. router_loop tgt bound cycles off sz (Some d) rq rt w = Some (Inr IO_REQ_OK, rq', rt', w') \<and>
    rt_same rt rt' \<and> ready w' \<and> fits bytes rt w' \<and> rq_args rq' = rq_args rq \<and> rq_is_write rq' = rq_is_write rq \<and>
    moved (rq_is_write rq) (flat bytes rt w) (flat bytes rt w') (unat off) (unat sz) d (rq_buf rq) (rq_buf rq')"
  using assms
proof (induction "unat sz" arbitrary: sz off d rq rt w rule: less_induct)
  case less
  have pos: "0 < unat sz" using less.prems(4) by (simp add: unat_gt_0)
  then have "flat bytes rt w (unat off) \<noteq> None" using less.prems(6) by (simp add: list_all_iff)
  then obtain e where e: "e \<in> set (firstMapEntry rt)" "contains rt (unat off) e" by (rule flat_SomeD)
  define n where "n = min (unat (base_of rt e) + unat (me_size (entry rt e)) - unat off) (unat sz)"
  have n: "0 < n" "n \<le> unat sz" "unat off + n \<le> unat (base_of rt e) + unat (me_size (entry rt e))"
    using e(2) pos by (auto simp: n_def contains_def)
  have un: "unat (of_nat n :: u64) = n" using n(2) less.prems(5) by (simp add: unat_of_nat)
  have lens: "unat (me_size (entry rt e)) \<le> length (bytes (port_of rt e) w)" "length (bytes (port_of rt e) w) < 2 ^ 63"
    using less.prems(3) e(1) by (simp_all add: fits_def list_all_iff)
  obtain rq1 rt1 w1 where it: "router_iter tgt bound cycles off sz (Some d) rq rt w = Some (Inr (IO_REQ_OK, of_nat n), rq1, rt1, w1)"
    and s1: "rt_same rt rt1" "ready w1" "rq_args rq1 = rq_args rq" "rq_is_write rq1 = rq_is_write rq"
    and b1: "bytes (port_of rt e) w1 = (if rq_is_write rq
       then patch (bytes (port_of rt e) w) (unat off - unat (base_of rt e)) (take n (drop d (rq_buf rq))) else bytes (port_of rt e) w)"
      "\<And>q. q \<noteq> port_of rt e \<Longrightarrow> bytes q w1 = bytes q w"
      "rq_buf rq1 = (if rq_is_write rq then rq_buf rq
         else patch (rq_buf rq) d (take n (drop (unat off - unat (base_of rt e)) (bytes (port_of rt e) w))))"
    unfolding n_def using iter_access [OF less.prems(1,2) e lens less.prems(7,8), of cycles thesis] by blast
  have dn: "d + n \<le> length (rq_buf rq)" using less.prems(7) n(2) by simp
  have P: "moved (rq_is_write rq) (flat bytes rt w) (flat bytes rt w1) (unat off) n d (rq_buf rq) (rq_buf rq1)" "fits bytes rt w1"
  proof -
    have "loc_of rt (unat off + k) = Some (port_of rt e, unat off - unat (base_of rt e) + k)" if "k < n" for k
      unfolding loc_of_Some [OF less.prems(1)] using e that n(3) by (intro bexI [of _ e]) (auto simp: contains_def)
    moreover have on: "unat off - unat (base_of rt e) + n \<le> length (bytes (port_of rt e) w)" using lens e(2) n(3) by (auto simp: contains_def)
    ultimately show "moved (rq_is_write rq) (flat bytes rt w) (flat bytes rt w1) (unat off) n d (rq_buf rq) (rq_buf rq1)"
      by (rule piece_moved(1) [OF loc_of_one_to_one [OF less.prems(1)] fits_inside [OF less.prems(1,3)] _ _ dn b1])
    have "length (bytes q w1) = length (bytes q w)" for q
      using b1(1,2) on dn by (cases "q = port_of rt e") simp_all
    then show "fits bytes rt w1" using less.prems(3) by (simp add: fits_def)
  qed
  show ?case
  proof (cases "n = unat sz")
    case True
    then have "router_loop tgt bound cycles off sz (Some d) rq rt w = Some (Inr IO_REQ_OK, rq1, rt1, w1)"
      using it by (subst router_loop.simps) simp
    then show ?thesis using s1 P True by auto
  next
    case False
    let ?n = "of_nat n :: u64"
    have rest: "unat (sz - ?n) = unat sz - n" "unat (off + ?n) = unat off + n"
      using un n(2) less.prems(5) by (simp_all add: unat_sub word_le_nat_alt unat_word_ariths)
    have nz: "sz - ?n \<noteq> 0" using False un by auto
    have loop: "router_loop tgt bound cycles off sz (Some d) rq rt w =
        router_loop tgt bound cycles (off + ?n) (sz - ?n) (Some (d + n)) rq1 rt1 w1"
      using it nz un by (subst router_loop.simps) simp
    have len1: "length (rq_buf rq1) = length (rq_buf rq)" using P(1) by (simp add: moved_def)
    have mapped: "flat bytes rt w1 a \<noteq> None" if "flat bytes rt w a \<noteq> None" for a
      using P(1) that by (simp add: moved_def)
    have "\<exists>rq' rt' w'. router_loop tgt bound cycles (off + ?n) (sz - ?n) (Some (d + n)) rq1 rt1 w1 = Some (Inr IO_REQ_OK, rq', rt', w') \<and>
      rt_same rt1 rt' \<and> ready w' \<and> fits bytes rt1 w' \<and> rq_args rq' = rq_args rq1 \<and> rq_is_write rq' = rq_is_write rq1 \<and>
      moved (rq_is_write rq1) (flat bytes rt1 w1) (flat bytes rt1 w') (unat (off + ?n)) (unat (sz - ?n)) (d + n) (rq_buf rq1) (rq_buf rq')"
    proof (rule less.hyps)
      show "unat (sz - ?n) < unat sz" using rest n by simp
      show "map_ok bound rt1" using less.prems(1) rt_same_keeps [OF s1(1)] by simp
      show "fits bytes rt1 w1" using P(2) unfolding loc_of_same(2) [OF s1(1)] .
      show "unat (off + ?n) + unat (sz - ?n) < 2 ^ 64" using rest n less.prems(5) by simp
      show "list_all (\<lambda>a. flat bytes rt1 w1 a \<noteq> None) [unat (off + ?n)..<unat (off + ?n) + unat (sz - ?n)]"
        using less.prems(6) rest n mapped unfolding loc_of_same(1) [OF s1(1)] by (simp add: list_all_iff)
      show "d + n + unat (sz - ?n) \<le> length (rq_buf rq1)" using rest n less.prems(7) len1 by simp
      show "length (rq_args rq1) < IO_REQ_NB_ARGS" using s1 less.prems(8) by simp
    qed (use s1 nz in simp_all)
    then obtain rq' rt' w' where r: "router_loop tgt bound cycles off sz (Some d) rq rt w = Some (Inr IO_REQ_OK, rq', rt', w')"
      "rt_same rt1 rt'" "ready w'" "fits bytes rt w'" "rq_args rq' = rq_args rq" "rq_is_write rq' = rq_is_write rq"
      "moved (rq_is_write rq) (flat bytes rt w1) (flat bytes rt w') (unat off + n) (unat sz - n) (d + n) (rq_buf rq1) (rq_buf rq')"
      unfolding loop rest s1 loc_of_same [OF s1(1)] by blast
    have "moved (rq_is_write rq) (flat bytes rt w) (flat bytes rt w') (unat off) (n + (unat sz - n)) d (rq_buf rq) (rq_buf rq')"
      using n(2) less.prems(7) by (intro moved_append [OF P(1) r(7)]) simp
    then show ?thesis using r n(2) rt_same_trans [OF s1(1) r(2)] by auto
  qed
qed

text \<open>A request, from the state the router is in when the loop starts.\<close>

lemma req_access:
  assumes "map_ok bound (rt_setup rt)" "ready w" "fits bytes (rt_setup rt) w" "rq_size rq \<noteq> 0" "unat (rq_addr rq) + unat (rq_size rq) < 2 ^ 64"
    "list_all (\<lambda>a. flat bytes (rt_setup rt) w a \<noteq> None) [unat (rq_addr rq)..<unat (rq_addr rq) + unat (rq_size rq)]"
    "rq_data rq = Some d" "d + unat (rq_size rq) \<le> length (rq_buf rq)" "length (rq_args rq) < IO_REQ_NB_ARGS"
  shows "\<exists>rq' rt' w'. router_req tgt bound cycles rq rt w = Some (IO_REQ_OK, rq', rt', w') \<and>
    rt_same (rt_setup rt) rt' \<and> ready w' \<and> fits bytes (rt_setup rt) w' \<and> rq_args rq' = rq_args rq \<and>
    rq_addr rq' = rq_addr rq \<and> rq_size rq' = rq_size rq \<and> rq_data rq' = rq_data rq \<and> rq_is_write rq' = rq_is_write rq \<and>
    moved (rq_is_write rq) (flat bytes (rt_setup rt) w) (flat bytes (rt_setup rt) w') (unat (rq_addr rq)) (unat (rq_size rq)) d (rq_buf rq) (rq_buf rq')"
proof -
  obtain rq' rt' w' where "router_loop tgt bound cycles (rq_addr rq) (rq_size rq) (Some d) rq (rt_setup rt) w = Some (Inr IO_REQ_OK, rq', rt', w')"
    "rt_same (rt_setup rt) rt'" "ready w'" "fits bytes (rt_setup rt) w'" "rq_args rq' = rq_args rq" "rq_is_write rq' = rq_is_write rq"
    "moved (rq_is_write rq) (flat bytes (rt_setup rt) w) (flat bytes (rt_setup rt) w') (unat (rq_addr rq)) (unat (rq_size rq)) d (rq_buf rq) (rq_buf rq')"
    using loop_access [OF assms(1-6,8,9), of cycles] by blast
  then show ?thesis using assms(4,7) by (simp add: router_req_def rt_setup_def [symmetric])
qed

end

end
