(* ===== verification/Memory_Map.thy ===== *)
theory Memory_Map
  imports Memory Router
begin

text \<open>
  A router in front of memories. Entries with separate ranges, each mapped to the start of a memory of its
  own, are registered in any order; requests that touch mapped addresses only then act on one flat address space, even where they
  cross from one range to the next and are cut into pieces.
\<close>

text \<open>How the entries are to be configured, before the first request.\<close>

definition configured :: "(nat \<Rightarrow> bool) \<Rightarrow> router \<Rightarrow> nat list \<Rightarrow> bool" where
  "configured bound rt es \<longleftrightarrow> list_all (good_range rt) es \<and> distinct es \<and> pairwise (apart rt) (set es) \<and>
     list_all (window bound rt) es \<and> inj_on (port_of rt) (set es) \<and>
     firstMapEntry rt = [] \<and> defaultMapEntry rt = None \<and> \<not> rt_init rt"

text \<open>The memories are powered, do not check for unwritten bytes and hold the ranges mapped to them.\<close>

definition behind :: "router \<Rightarrow> nat list \<Rightarrow> (nat \<Rightarrow> memory) \<Rightarrow> bool" where
  "behind rt es mems \<longleftrightarrow> mems_ready mems \<and>
     list_all (\<lambda>e. unat (me_size (entry rt e)) \<le> length (mem_data (mems (port_of rt e))) \<and>
       length (mem_data (mems (port_of rt e))) < 2 ^ 63) es"

text \<open>The flat address space.\<close>

definition space :: "router \<Rightarrow> nat list \<Rightarrow> (nat \<Rightarrow> memory) \<Rightarrow> nat \<Rightarrow> u8 option" where
  "space rt es mems a =
     map_option (\<lambda>e. mem_data (mems (port_of rt e)) ! (a - unat (base_of rt e))) (find (contains rt a) es)"

text \<open>A request with data at index \<open>d\<close> of its buffer, room in it, a free place on its argument stack, and mapped addresses only.\<close>

definition mapped_req :: "router \<Rightarrow> nat list \<Rightarrow> nat \<Rightarrow> io_req \<Rightarrow> bool" where
  "mapped_req rt es d rq \<longleftrightarrow> rq_size rq \<noteq> 0 \<and> unat (rq_addr rq) + unat (rq_size rq) < 2 ^ 64 \<and> rq_data rq = Some d \<and>
     d + unat (rq_size rq) \<le> length (rq_buf rq) \<and> length (rq_args rq) < IO_REQ_NB_ARGS \<and>
     list_all (\<lambda>a. list_ex (contains rt a) es) [unat (rq_addr rq)..<unat (rq_addr rq) + unat (rq_size rq)]"

lemma configured_table:
  assumes "configured bound rt es"
  defines "rt1 \<equiv> rt_setup (fold me_insert es rt)"
  shows "map_ok bound rt1" "\<And>mems. flat (\<lambda>p m. mem_data (m p)) rt1 mems = space rt es mems"
    "\<And>mems. behind rt es mems \<Longrightarrow> fits (\<lambda>p m. mem_data (m p)) rt1 mems"
proof -
  have c: "list_all (good_range rt) es" "distinct es" "pairwise (apart rt) (set es)" "firstMapEntry rt = []" "\<not> rt_init rt"
    "list_all (window bound rt) es" "inj_on (port_of rt) (set es)" "defaultMapEntry rt = None"
    using assms(1) by (simp_all add: configured_def)
  obtain fs where f: "fold me_insert es rt = rt\<lparr>firstMapEntry := fs\<rparr>" "set fs = set es" "table_ok (init_entries (rt\<lparr>firstMapEntry := fs\<rparr>))"
    "\<And>a. find (contains rt a) fs = find (contains rt a) es"
    using registered_table [OF c(1-4)] by metis
  have r: "rt1 = (init_entries (rt\<lparr>firstMapEntry := fs\<rparr>))\<lparr>rt_init := True\<rparr>"
    using c(5) by (simp add: rt1_def rt_setup_def f(1) init_entries_def)
  have e: "entry rt1 = entry rt" "firstMapEntry rt1 = fs" "defaultMapEntry rt1 = None" "contains rt1 = contains rt" "port_of rt1 = port_of rt"
    "window bound rt1 = window bound rt"
    using c(8) by (simp_all add: r init_entries_def fun_eq_iff contains_def port_of_def window_def)
  have "table_ok rt1" using f(3) by (simp add: r table_ok_def good_range_def [abs_def] apart_def [abs_def])
  then show "map_ok bound rt1" using c(6,7) f(2) e by (simp add: map_ok_def list_all_iff)
  show "flat (\<lambda>p m. mem_data (m p)) rt1 mems = space rt es mems" for mems
    by (simp add: fun_eq_iff space_of_def loc_of_def space_def e f(4) option.map_comp comp_def)
  show "fits (\<lambda>p m. mem_data (m p)) rt1 mems" if "behind rt es mems" for mems
    using that f(2) by (simp add: fits_def behind_def e list_all_iff)
qed

text \<open>
  C9. A router with memories behind it implements one flat address space. A request over mapped addresses succeeds, whatever pieces
  it is cut into; a write puts the bytes of its buffer at its addresses and changes no other address, a
  read puts the bytes at its addresses into the buffer and changes nothing else; the request comes back with its own address, size, data pointer
  and arguments, and the router and the memories are ready for the next one.
\<close>

theorem router_memories_flat:
  assumes "configured bound rt es" "behind rt es mems" "mapped_req rt es d rq"
  shows "\<exists>rq' rt' mems'. router_req (mem_target cycles time) bound cycles rq (fold me_insert es rt) mems = Some (IO_REQ_OK, rq', rt', mems') \<and>
    rt_same (rt_setup (fold me_insert es rt)) rt' \<and> mems_ready mems' \<and> rq_args rq' = rq_args rq \<and> rq_addr rq' = rq_addr rq \<and>
    rq_size rq' = rq_size rq \<and> rq_data rq' = rq_data rq \<and> rq_is_write rq' = rq_is_write rq \<and>
    space rt es mems' = (\<lambda>a. if rq_is_write rq \<and> unat (rq_addr rq) \<le> a \<and> a < unat (rq_addr rq) + unat (rq_size rq)
      then Some (rq_buf rq ! (d + (a - unat (rq_addr rq)))) else space rt es mems a) \<and>
    rq_buf rq' = map (\<lambda>k. if \<not> rq_is_write rq \<and> d \<le> k \<and> k < d + unat (rq_size rq)
      then the (space rt es mems (unat (rq_addr rq) + (k - d))) else rq_buf rq ! k) [0..<length (rq_buf rq)]"
proof -
  let ?rt = "rt_setup (fold me_insert es rt)" and ?b = "\<lambda>p m. mem_data (m p)"
  note T = configured_table [OF assms(1)]
  have q: "rq_size rq \<noteq> 0" "unat (rq_addr rq) + unat (rq_size rq) < 2 ^ 64" "rq_data rq = Some d" "d + unat (rq_size rq) \<le> length (rq_buf rq)"
    "length (rq_args rq) < IO_REQ_NB_ARGS"
    and m: "list_all (\<lambda>a. list_ex (contains rt a) es) [unat (rq_addr rq)..<unat (rq_addr rq) + unat (rq_size rq)]"
    using assms(3) by (simp_all add: mapped_req_def)
  have "space rt es mems a \<noteq> None" if "list_ex (contains rt a) es" for a
    using that by (auto simp: space_def find_None_iff list_ex_iff)
  then have "list_all (\<lambda>a. space rt es mems a \<noteq> None) [unat (rq_addr rq)..<unat (rq_addr rq) + unat (rq_size rq)]"
    using m by (simp add: list_all_iff)
  then obtain rq' rt' mems' where "router_req (mem_target cycles time) bound cycles rq (fold me_insert es rt) mems = Some (IO_REQ_OK, rq', rt', mems')"
    "rt_same ?rt rt'" "mems_ready mems'" "rq_args rq' = rq_args rq" "rq_addr rq' = rq_addr rq" "rq_size rq' = rq_size rq"
    "rq_data rq' = rq_data rq" "rq_is_write rq' = rq_is_write rq"
    and A: "moved (rq_is_write rq) (space rt es mems) (space rt es mems') (unat (rq_addr rq)) (unat (rq_size rq)) d (rq_buf rq) (rq_buf rq')"
    using byte_target.req_access [OF mem.byte_target_axioms T(1) _ T(3) [OF assms(2)] q(1,2) _ q(3,4,5), of cycles] assms(2)
    unfolding T(2) behind_def by blast
  moreover have "rq_buf rq' = map (\<lambda>k. if \<not> rq_is_write rq \<and> d \<le> k \<and> k < d + unat (rq_size rq)
      then the (space rt es mems (unat (rq_addr rq) + (k - d))) else rq_buf rq ! k) [0..<length (rq_buf rq)]"
    using A [unfolded moved_def, THEN conjunct2] by (intro nth_equalityI) simp_all
  moreover note A [unfolded moved_def, THEN conjunct1]
  ultimately show ?thesis by blast
qed

text \<open>A write across the boundary of two ranges of the sample.\<close>

definition sample_mems :: "nat \<Rightarrow> memory" where
  "sample_mems = (\<lambda>p. sample_memory\<lparr>check_mem := None\<rparr>)"

lemma sample_behind: "behind sample_router [0, 1, 2] sample_mems"
proof -
  have "length (mem_data (sample_mems p)) = 16" "mem_inv (sample_mems p)" "powered_up (sample_mems p)" "check_mem (sample_mems p) = None" for p
    by (simp_all add: sample_mems_def sample_memory_def mem_start_def mem_reset_def mem_inv_def)
  then show ?thesis by (simp add: behind_def mems_ready_def sample_router_def)
qed

lemma sample_configured: "configured (\<lambda>_. True) sample_router [0, 1, 2]"
proof -
  have "list_all (window (\<lambda>_. True) sample_router) [0, 1, 2]" "inj_on (port_of sample_router) (set [0, 1, 2])"
    by (simp_all add: sample_router_def window_def port_of_def)
  moreover have "firstMapEntry sample_router = []" "defaultMapEntry sample_router = None" "\<not> rt_init sample_router"
    by (simp_all add: sample_router_def)
  ultimately show ?thesis using sample_router_table by (simp only: configured_def) simp
qed

theorem router_memories_flat_witness:
  "\<exists>rq' rt' mems'. router_req (mem_target 3 30) (\<lambda>_. True) 3 (sample_req 0x10e 5 True) (fold me_insert [0, 1, 2] sample_router) sample_mems =
     Some (IO_REQ_OK, rq', rt', mems') \<and> space sample_router [0, 1, 2] mems' 0x110 = Some 4"
proof -
  have "mapped_req sample_router [0, 1, 2] 1 (sample_req 0x10e 5 True)"
    by (simp add: mapped_req_def sample_req_def sample_router_def contains_def IO_REQ_NB_ARGS_def)
  from router_memories_flat [OF sample_configured sample_behind this, of 3 30] obtain rq' rt' mems' where
    r: "router_req (mem_target 3 30) (\<lambda>_. True) 3 (sample_req 0x10e 5 True) (fold me_insert [0, 1, 2] sample_router) sample_mems =
      Some (IO_REQ_OK, rq', rt', mems')"
    and s: "space sample_router [0, 1, 2] mems' = (\<lambda>a. if rq_is_write (sample_req 0x10e 5 True) \<and> unat (rq_addr (sample_req 0x10e 5 True)) \<le> a \<and>
        a < unat (rq_addr (sample_req 0x10e 5 True)) + unat (rq_size (sample_req 0x10e 5 True))
      then Some (rq_buf (sample_req 0x10e 5 True) ! (1 + (a - unat (rq_addr (sample_req 0x10e 5 True))))) else space sample_router [0, 1, 2] sample_mems a)"
    by blast
  have "space sample_router [0, 1, 2] mems' 0x110 = Some 4" unfolding s by (simp add: sample_req_def)
  then show ?thesis using r by blast
qed

end
