(* ===== verification/Interleaver.thy ===== *)
theory Interleaver
  imports Memory
begin

unbundle bit_operations_syntax

text \<open>
  The interleaver (\<^verbatim>\<open>models/interco/interleaver_impl.cpp\<close>): consecutive blocks of \<open>2 ^ interleaving_bits\<close> bytes go to
  consecutive ports; a request is cut at the ends of the blocks. The targets are a parameter, as for
  the router.
\<close>

record interleaver =
  il_out :: "nat option list"
  interleaving_bits :: nat
  stage_bits :: nat
  offset_mask :: u64
  il_remove_offset :: u64

text \<open>\<^verbatim>\<open>log2\<close>, truncated to an integer.\<close>

fun ilog2 :: "nat \<Rightarrow> nat" where
  "ilog2 n = (if n \<le> 1 then 0 else Suc (ilog2 (n div 2)))"

declare ilog2.simps [simp del]

text \<open>\<^verbatim>\<open>(1 << n) - 1\<close>, an \<^verbatim>\<open>int\<close>.\<close>

definition low_bits :: "nat \<Rightarrow> u32" where
  "low_bits n = push_bit n 1 - 1"

definition il_build :: "nat \<Rightarrow> nat \<Rightarrow> nat \<Rightarrow> u64 \<Rightarrow> interleaver" where
  "il_build nb_slaves stage ib remove =
     (let sb = (if stage = 0 then ilog2 nb_slaves else stage)
      in \<lparr>il_out = map Some [0..<nb_slaves], interleaving_bits = ib, stage_bits = sb,
          offset_mask = -1 AND scast (NOT (low_bits (ib + sb))), il_remove_offset = remove\<rparr>)"

text \<open>The bytes up to the end of the first block, zero at its start.\<close>

definition align_size :: "interleaver \<Rightarrow> u64 \<Rightarrow> u32" where
  "align_size il offset =
     (let port_size = push_bit (interleaving_bits il) 1 :: u32;
          a = ucast (offset AND scast (port_size - 1)) :: u32
      in if a \<noteq> 0 then port_size - a else a)"

definition loop_size :: "interleaver \<Rightarrow> u32 \<Rightarrow> u64 \<Rightarrow> u32" where
  "loop_size il align sz =
     (let n = (if align \<noteq> 0 then align else push_bit (interleaving_bits il) 1) :: u32
      in if (scast n :: u64) > sz then ucast sz else n)"

definition output_id :: "interleaver \<Rightarrow> u64 \<Rightarrow> nat" where
  "output_id il offset = unat (drop_bit (interleaving_bits il) offset AND scast (low_bits (stage_bits il)))"

definition new_offset :: "interleaver \<Rightarrow> u64 \<Rightarrow> u64" where
  "new_offset il offset =
     drop_bit (stage_bits il) (offset AND offset_mask il) + (offset AND scast (low_bits (interleaving_bits il)))"

text \<open>The loop: \<open>Inl\<close> is an early return. An index beyond the array of ports is undefined.\<close>

partial_function (option) il_loop ::
    "'w target_meth \<Rightarrow> interleaver \<Rightarrow> u64 \<Rightarrow> u64 \<Rightarrow> u32 \<Rightarrow> nat option \<Rightarrow> io_req \<Rightarrow> 'w \<Rightarrow>
     ((io_req_status_e + unit) \<times> io_req \<times> 'w) option" where
  "il_loop tgt il offset sz align data rq w =
     (if sz = 0 then Some (Inr (), rq, w)
      else if output_id il offset \<ge> length (il_out il) then None
      else case il_out il ! output_id il offset of
             None \<Rightarrow> Some (Inl IO_REQ_INVALID, rq, w)
           | Some p \<Rightarrow>
               (case tgt p (rq\<lparr>rq_addr := new_offset il offset, rq_size := scast (loop_size il align sz), rq_data := data\<rparr>) w of
                  None \<Rightarrow> None
                | Some (err, rq', w') \<Rightarrow>
                    if err \<noteq> IO_REQ_OK then
                      Some (Inl (if err = IO_REQ_PENDING \<and> sz = scast (loop_size il align sz) then IO_REQ_PENDING else IO_REQ_INVALID),
                            rq', w')
                    else il_loop tgt il (offset + scast (loop_size il align sz)) (sz - scast (loop_size il align sz)) 0
                           (map_option (\<lambda>d. d + unat (scast (loop_size il align sz) :: u64)) data) rq' w'))"

declare il_loop.simps [code]

definition il_req :: "'w target_meth \<Rightarrow> interleaver \<Rightarrow> io_req \<Rightarrow> 'w \<Rightarrow> (io_req_status_e \<times> io_req \<times> 'w) option" where
  "il_req tgt il rq w =
     (case il_loop tgt il (rq_addr rq - il_remove_offset il) (rq_size rq) (align_size il (rq_addr rq)) (rq_data rq) rq w of
        None \<Rightarrow> None
      | Some (Inl status, rq', w') \<Rightarrow> Some (status, rq', w')
      | Some (Inr _, rq', w') \<Rightarrow>
          Some (IO_REQ_OK, rq'\<lparr>rq_addr := rq_addr rq, rq_size := rq_size rq, rq_data := rq_data rq\<rparr>, w'))"

section \<open>Specification\<close>

text \<open>As many ports as stages can number, the mask that \<open>il_build\<close> computes, a removed offset at a block boundary.\<close>

definition il_ok :: "interleaver \<Rightarrow> bool" where
  "il_ok il \<longleftrightarrow> interleaving_bits il + stage_bits il < 31 \<and> length (il_out il) = 2 ^ stage_bits il \<and> distinct (il_out il) \<and>
     list_all (\<lambda>p. p \<noteq> None) (il_out il) \<and> offset_mask il = NOT (mask (interleaving_bits il + stage_bits il)) \<and>
     2 ^ interleaving_bits il dvd unat (il_remove_offset il)"

text \<open>Where a byte is: the number of the block modulo the number of ports gives the port.\<close>

definition bank :: "interleaver \<Rightarrow> nat \<Rightarrow> nat" where
  "bank il a = the (il_out il ! ((a div 2 ^ interleaving_bits il) mod 2 ^ stage_bits il))"

definition local_index :: "interleaver \<Rightarrow> nat \<Rightarrow> nat" where
  "local_index il a = (a div 2 ^ (interleaving_bits il + stage_bits il)) * 2 ^ interleaving_bits il + a mod 2 ^ interleaving_bits il"

definition il_loc :: "interleaver \<Rightarrow> nat \<Rightarrow> nat \<Rightarrow> (nat \<times> nat) option" where
  "il_loc il rows a =
     (if a < rows * 2 ^ (interleaving_bits il + stage_bits il) then Some (bank il a, local_index il a) else None)"

section \<open>Lemmas\<close>

lemma low_bits_eq:
  assumes "n < 31"
  shows "(scast (low_bits n) :: u64) = mask n" "low_bits n = mask n" "low_bits n = of_nat (2 ^ n - 1)" "push_bit n 1 = (of_nat (2 ^ n) :: u32)"
proof -
  show a: "low_bits n = of_nat (2 ^ n - 1)" by (simp add: low_bits_def push_bit_of_1)
  show "low_bits n = mask n" by (simp add: low_bits_def mask_eq_exp_minus_1 push_bit_of_1)
  have "(2 :: nat) ^ n < 2 ^ 31" using assms by (intro power_strict_increasing) simp_all
  then have "(2 :: nat) ^ n - 1 < 2 ^ 31" by simp
  from small_casts(2) [OF this] show "(scast (low_bits n) :: u64) = mask n" by (simp add: a mask_eq_exp_minus_1)
  show "push_bit n 1 = (of_nat (2 ^ n) :: u32)" by (simp add: push_bit_of_1)
qed

lemma scast_not: "scast (NOT x :: u32) = NOT (scast x :: u64)"
  by (rule bit_word_eqI) (auto simp: bit_simps min_def)

lemma unat_and_mask: "unat (x AND mask n :: u64) = unat x mod 2 ^ n"
  unfolding take_bit_eq_mask [symmetric] unsigned_take_bit_eq by (rule take_bit_eq_mod)

lemma unat_drop_div: "unat (drop_bit n x :: u64) = unat x div 2 ^ n"
  unfolding unat_drop_bit_eq by (rule drop_bit_eq_div)

lemma unat_times_exp:
  assumes "unat x * 2 ^ n < 2 ^ 64" "n < 64"
  shows "unat (x * 2 ^ n :: u64) = unat x * 2 ^ n"
proof -
  have "(2 :: nat) ^ n < 2 ^ 64" using assms(2) by (intro power_strict_increasing) simp_all
  then have "unat (2 ^ n :: u64) = 2 ^ n" using unat_of_nat [of "2 ^ n", where 'a = 64] by simp
  then show ?thesis using assms(1) by (simp add: unat_word_ariths)
qed

lemma output_id_eq:
  assumes "il_ok il"
  shows "output_id il off = (unat off div 2 ^ interleaving_bits il) mod 2 ^ stage_bits il"
proof -
  have "stage_bits il < 31" using assms by (simp add: il_ok_def)
  then show ?thesis by (simp only: output_id_def low_bits_eq(1) unat_and_mask unat_drop_div)
qed

lemma new_offset_eq:
  assumes "il_ok il"
  shows "unat (new_offset il off) = local_index il (unat off)"
proof -
  define i s where "i = interleaving_bits il" and "s = stage_bits il"
  have k: "i + s < 31" "offset_mask il = NOT (mask (i + s))" using assms by (simp_all add: il_ok_def i_def s_def)
  have "drop_bit s (off AND NOT (mask (i + s))) = push_bit i (drop_bit (i + s) off)"
    by (rule bit_word_eqI) (auto simp: bit_simps algebra_simps dest: bit_imp_le_length)
  moreover have "off AND scast (low_bits i) = off AND mask i" using k(1) by (simp only: low_bits_eq(1))
  ultimately have n: "new_offset il off = push_bit i (drop_bit (i + s) off) + (off AND mask i)"
    by (simp add: new_offset_def k(2) flip: i_def s_def)
  have "unat off div 2 ^ (i + s) * 2 ^ i \<le> unat off div 2 ^ i * 2 ^ i" 
    by (simp add: div_le_mono2 power_add div_mult2_eq)
  then have le: "unat off div 2 ^ (i + s) * 2 ^ i + unat off mod 2 ^ i \<le> unat off"
    by (metis add_le_mono1 div_mult_mod_eq)
  have less: "unat off < 2 ^ 64" using unsigned_less [of off, where 'a = nat] by simp
  have "unat (drop_bit (i + s) off) * 2 ^ i < 2 ^ 64" unfolding unat_drop_div using le less by linarith
  then have "unat (drop_bit (i + s) off * 2 ^ i) = unat off div 2 ^ (i + s) * 2 ^ i"
    using unat_times_exp [of "drop_bit (i + s) off" i] k(1) unfolding unat_drop_div by simp
  then have "unat (new_offset il off) = unat off div 2 ^ (i + s) * 2 ^ i + unat off mod 2 ^ i"
    using le less unfolding n push_bit_eq_mult unat_word_ariths unat_and_mask by simp
  then show ?thesis by (simp add: local_index_def i_def s_def)
qed

text \<open>The bytes up to the end of a block.\<close>

definition to_block_end :: "interleaver \<Rightarrow> nat \<Rightarrow> nat" where
  "to_block_end il a = 2 ^ interleaving_bits il - a mod 2 ^ interleaving_bits il"

definition aligned_to :: "interleaver \<Rightarrow> nat \<Rightarrow> u32 \<Rightarrow> bool" where
  "aligned_to il a align \<longleftrightarrow> align = (if a mod 2 ^ interleaving_bits il = 0 then 0 else of_nat (to_block_end il a))"

lemma block_bounds:
  assumes "il_ok il"
  shows "0 < to_block_end il a" "to_block_end il a \<le> 2 ^ interleaving_bits il" "to_block_end il a < 2 ^ 31"
proof -
  have "interleaving_bits il < 31" using assms by (simp add: il_ok_def)
  then have "(2 :: nat) ^ interleaving_bits il < 2 ^ 31" by (intro power_strict_increasing) simp_all
  then show "to_block_end il a < 2 ^ 31" "to_block_end il a \<le> 2 ^ interleaving_bits il" by (simp_all add: to_block_end_def)
  show "0 < to_block_end il a" by (simp add: to_block_end_def)
qed

lemma loop_size_eq:
  assumes "il_ok il" "aligned_to il a align"
  shows "scast (loop_size il align sz) = (of_nat (min (to_block_end il a) (unat sz)) :: u64)"
proof -
  have "(of_nat (to_block_end il a) :: u32) \<noteq> 0"
    using block_bounds [OF assms(1), of a] by (auto simp: word_of_nat_eq_0_iff dest: nat_dvd_not_less)
  then have "(if align \<noteq> 0 then align else push_bit (interleaving_bits il) 1) = (of_nat (to_block_end il a) :: u32)"
    using assms(2) by (auto simp: aligned_to_def to_block_end_def push_bit_of_1)
  then show ?thesis using clipped_size [OF block_bounds(3) [OF assms(1)]] by (simp add: loop_size_def Let_def)
qed

lemma align_size_eq:
  assumes "il_ok il"
  shows "aligned_to il (unat off) (align_size il off)"
proof -
  let ?i = "interleaving_bits il" and ?m = "unat off mod 2 ^ interleaving_bits il"
  have i: "?i < 31" using assms by (simp add: il_ok_def)
  have m: "?m < 2 ^ ?i" by simp
  have "(2 :: nat) ^ ?i < 2 ^ 31" using i by (intro power_strict_increasing) simp_all
  then have m31: "?m < 2 ^ 31" using m by linarith
  have "off AND scast (push_bit ?i 1 - 1 :: u32) = off AND mask ?i" using low_bits_eq(1) [OF i] unfolding low_bits_def by simp
  also have "\<dots> = of_nat ?m" by (metis of_nat_unat ucast_id unat_and_mask)
  finally have a: "ucast (off AND scast (push_bit ?i 1 - 1 :: u32)) = (of_nat ?m :: u32)"
    using small_casts(1) [OF m31] by simp
  have z: "(of_nat ?m :: u32) = 0 \<longleftrightarrow> ?m = 0"
    using m31 by (auto simp: word_of_nat_eq_0_iff dest: nat_dvd_not_less)
  have "push_bit ?i 1 - (of_nat ?m :: u32) = of_nat (2 ^ ?i - ?m)" using m by (simp add: push_bit_of_1 of_nat_diff)
  then show ?thesis using a z by (simp add: aligned_to_def align_size_def to_block_end_def Let_def)
qed

lemma il_loc_piece:
  assumes "off < rows * 2 ^ (interleaving_bits il + stage_bits il)" "k < to_block_end il off"
  shows "il_loc il rows (off + k) = Some (bank il off, local_index il off + k)"
proof -
  define I S where "I = (2 :: nat) ^ interleaving_bits il" and "S = (2 :: nat) ^ stage_bits il"
  have p: "2 ^ (interleaving_bits il + stage_bits il) = I * S" by (simp add: I_def S_def power_add)
  have k: "off mod I + k < I" using assms(2) by (simp add: to_block_end_def I_def)
  have q: "(I * q + r) div I = q" "(I * q + r) mod I = r" if "r < I" for q r using that by simp_all
  have "off + k = I * (off div I) + (off mod I + k)" by simp
  then have d: "(off + k) div I = off div I" "(off + k) mod I = off mod I + k" using q [OF k] by metis+
  have "off div (I * S) < rows" using assms(1) by (simp add: p less_mult_imp_div_less)
  moreover have "(off + k) div (I * S) = off div (I * S)" by (simp add: div_mult2_eq d)
  moreover have "0 < I * S" by (simp add: I_def S_def)
  ultimately have "off + k < rows * (I * S)" by (metis div_less_iff_less_mult)
  then show ?thesis using d by (simp add: il_loc_def bank_def local_index_def p div_mult2_eq flip: I_def S_def)
qed

lemma il_loc_one_to_one:
  assumes "il_ok il"
  shows "one_to_one (il_loc il rows)"
  unfolding one_to_one_def
proof (intro allI impI)
  fix a b x
  assume "il_loc il rows a = Some x" "il_loc il rows b = Some x"
  then have e: "bank il a = bank il b" "local_index il a = local_index il b" by (auto simp: il_loc_def split: if_splits)
  define I S where "I = (2 :: nat) ^ interleaving_bits il" and "S = (2 :: nat) ^ stage_bits il"
  have p: "2 ^ (interleaving_bits il + stage_bits il) = I * S" "0 < I" "0 < S" by (simp_all add: I_def S_def power_add)
  have l: "local_index il c div I = c div I div S" "local_index il c mod I = c mod I" for c
    using p by (simp_all add: local_index_def p div_mult2_eq flip: I_def)
  have o: "il_out il ! (c div I mod S) \<noteq> None" for c
    using assms p by (simp add: il_ok_def list_all_length S_def)
  have "il_out il ! (a div I mod S) = il_out il ! (b div I mod S)"
    using e(1) o [of a] o [of b] by (auto simp: bank_def simp flip: I_def S_def)
  then have "a div I mod S = b div I mod S"
    using assms p by (subst (asm) nth_eq_iff_index_eq) (simp_all add: il_ok_def flip: S_def)
  moreover have "a div I div S = b div I div S" "a mod I = b mod I" using l e(2) by metis+
  ultimately show "a = b" by (metis div_mult_mod_eq)
qed

definition il_fits :: "(nat \<Rightarrow> 'w \<Rightarrow> u8 list) \<Rightarrow> interleaver \<Rightarrow> nat \<Rightarrow> 'w \<Rightarrow> bool" where
  "il_fits bytes il rows w \<longleftrightarrow>
     list_all (\<lambda>p. rows * 2 ^ interleaving_bits il \<le> length (bytes (the p) w) \<and> length (bytes (the p) w) < 2 ^ 63) (il_out il)"

lemma bank_fits:
  assumes "il_ok il" "il_fits bytes il rows w"
  shows "rows * 2 ^ interleaving_bits il \<le> length (bytes (bank il a) w)" "length (bytes (bank il a) w) < 2 ^ 63"
  using assms by (simp_all add: il_fits_def bank_def list_all_length il_ok_def)

lemma local_bound:
  assumes "a < rows * 2 ^ (interleaving_bits il + stage_bits il)"
  shows "local_index il a + to_block_end il a \<le> rows * 2 ^ interleaving_bits il"
proof -
  define I where "I = (2 :: nat) ^ interleaving_bits il"
  have "a div 2 ^ (interleaving_bits il + stage_bits il) < rows" using assms by (simp add: less_mult_imp_div_less)
  then have "Suc (a div 2 ^ (interleaving_bits il + stage_bits il)) * I \<le> rows * I" by (intro mult_le_mono1) simp
  moreover have "a mod I < I" by (simp add: I_def)
  ultimately show ?thesis by (simp add: local_index_def to_block_end_def flip: I_def)
qed

lemma il_inside:
  assumes "il_ok il" "il_fits bytes il rows w"
  shows "inside (il_loc il rows) bytes w"
  unfolding inside_def
proof (intro allI impI)
  fix a p l
  assume "il_loc il rows a = Some (p, l)"
  then have "a < rows * 2 ^ (interleaving_bits il + stage_bits il)" "p = bank il a" "l = local_index il a"
    by (auto simp: il_loc_def split: if_splits)
  then show "l < length (bytes p w)"
    using local_bound [of a rows il] bank_fits [OF assms, of a] block_bounds(1) [OF assms(1), of a] by simp
qed

context byte_target
begin

lemma il_loop_access:
  assumes "il_ok il" "ready w" "il_fits bytes il rows w" "sz = 0 \<or> aligned_to il (unat off) align"
    "unat off + unat sz \<le> rows * 2 ^ (interleaving_bits il + stage_bits il)" "unat off + unat sz < 2 ^ 64"
    "d + unat sz \<le> length (rq_buf rq)"
  shows "\<exists>rq' w'. il_loop tgt il off sz align (Some d) rq w = Some (Inr (), rq', w') \<and>
    ready w' \<and> il_fits bytes il rows w' \<and> rq_args rq' = rq_args rq \<and> rq_is_write rq' = rq_is_write rq \<and> rq_debug rq' = rq_debug rq \<and>
    moved (rq_is_write rq) (space_of (il_loc il rows) bytes w) (space_of (il_loc il rows) bytes w') (unat off) (unat sz) d (rq_buf rq) (rq_buf rq')"
  using assms
proof (induction "unat sz" arbitrary: sz off align d rq w rule: less_induct)
  case less
  show ?case
  proof (cases "sz = 0")
    case True
    then show ?thesis using less.prems by (subst il_loop.simps) (simp add: moved_none)
  next
    case False
    let ?e = "to_block_end il (unat off)"
    define n where "n = min ?e (unat sz)"
    note B = block_bounds [OF less.prems(1), of "unat off"]
    have n: "0 < n" "n \<le> unat sz" "n \<le> ?e" using B False by (simp_all add: n_def unat_gt_0)
    have sn: "scast (loop_size il align sz) = (of_nat n :: u64)" using loop_size_eq [OF less.prems(1)] less.prems(4) False by (simp add: n_def)
    have un: "unat (of_nat n :: u64) = n" using n(3) B(3) by (intro small_casts(3)) linarith
    have in_range: "unat off < rows * 2 ^ (interleaving_bits il + stage_bits il)" using n less.prems(5) by linarith
    have id: "output_id il off < length (il_out il)" "il_out il ! output_id il off = Some (bank il (unat off))"
      using less.prems(1) by (auto simp: output_id_eq bank_def il_ok_def list_all_length)
    let ?p = "bank il (unat off)" and ?l = "local_index il (unat off)"
    have len: "?l + n \<le> length (bytes ?p w)" "length (bytes ?p w) < 2 ^ 63"
      using local_bound [OF in_range] bank_fits [OF less.prems(1,3), of "unat off"] n(3) by linarith+
    let ?rq = "rq\<lparr>rq_addr := new_offset il off, rq_size := of_nat n, rq_data := Some d\<rparr>"
    obtain rq1 w1 where t: "tgt ?p ?rq w = Some (IO_REQ_OK, rq1, w1)" "ready w1" "same_access rq1 ?rq" "rq_args rq1 = rq_args ?rq"
      and b1: "bytes ?p w1 = (if rq_is_write rq then patch (bytes ?p w) ?l (take n (drop d (rq_buf rq))) else bytes ?p w)"
        "\<And>q. q \<noteq> ?p \<Longrightarrow> bytes q w1 = bytes q w"
        "rq_buf rq1 = (if rq_is_write rq then rq_buf rq else patch (rq_buf rq) d (take n (drop ?l (bytes ?p w))))"
      using access [of w ?rq d ?p] less.prems(2,7) n(2) un len new_offset_eq [OF less.prems(1), of off] by auto
    have dn: "d + n \<le> length (rq_buf rq)" using less.prems(7) n(2) by linarith
    have loc: "il_loc il rows (unat off + k) = Some (?p, ?l + k)" if "k < n" for k
      using il_loc_piece [OF in_range] that n(3) by simp
    note P = piece_moved [OF il_loc_one_to_one [OF less.prems(1)] il_inside [OF less.prems(1,3)] loc len(1) dn b1]
    have "length (bytes q w1) = length (bytes q w)" for q using b1 len(1) dn by (cases "q = ?p") simp_all
    then have f1: "il_fits bytes il rows w1" using less.prems(3) by (simp add: il_fits_def)
    have loop: "il_loop tgt il off sz align (Some d) rq w = il_loop tgt il (off + of_nat n) (sz - of_nat n) 0 (Some (d + n)) rq1 w1"
      by (subst il_loop.simps) (simp add: False id id(1) [unfolded not_le [symmetric]] t(1) sn un)
    have rest: "unat (sz - of_nat n) = unat sz - n" "unat (off + of_nat n) = unat off + n"
      using un n(2) less.prems(6) by (simp_all add: unat_sub word_le_nat_alt unat_word_ariths)
    have w: "rq_is_write rq1 = rq_is_write rq" "rq_debug rq1 = rq_debug rq" using t(3) by (simp_all add: same_access_def)
    have len1: "length (rq_buf rq1) = length (rq_buf rq)" using P(1) by (simp add: moved_def)
    have al: "sz - of_nat n = 0 \<or> aligned_to il (unat (off + of_nat n)) 0"
    proof (cases "n = unat sz")
      case False
      then have "n = ?e" by (auto simp: n_def)
      moreover have "unat off + ?e = (unat off div 2 ^ interleaving_bits il + 1) * 2 ^ interleaving_bits il"
        by (simp add: to_block_end_def algebra_simps minus_mod_eq_mult_div [symmetric]) 
      ultimately have "(unat off + n) mod 2 ^ interleaving_bits il = 0" by (metis mod_mult_self2_is_0)
      then show ?thesis unfolding aligned_to_def rest by simp
    qed simp
    have "\<exists>rq' w'. il_loop tgt il (off + of_nat n) (sz - of_nat n) 0 (Some (d + n)) rq1 w1 = Some (Inr (), rq', w') \<and>
      ready w' \<and> il_fits bytes il rows w' \<and> rq_args rq' = rq_args rq1 \<and> rq_is_write rq' = rq_is_write rq1 \<and> rq_debug rq' = rq_debug rq1 \<and>
      moved (rq_is_write rq1) (space_of (il_loc il rows) bytes w1) (space_of (il_loc il rows) bytes w') (unat (off + of_nat n))
        (unat (sz - of_nat n)) (d + n) (rq_buf rq1) (rq_buf rq')"
      using less.prems rest n len1 by (intro less.hyps f1 t(2) al) simp_all
    then obtain rq' w' where r: "il_loop tgt il off sz align (Some d) rq w = Some (Inr (), rq', w')" "ready w'" "il_fits bytes il rows w'"
      "rq_args rq' = rq_args rq" "rq_is_write rq' = rq_is_write rq" "rq_debug rq' = rq_debug rq"
      "moved (rq_is_write rq) (space_of (il_loc il rows) bytes w1) (space_of (il_loc il rows) bytes w') (unat off + n) (unat sz - n) (d + n)
        (rq_buf rq1) (rq_buf rq')"
      using t(4) unfolding loop rest w by auto
    have "moved (rq_is_write rq) (space_of (il_loc il rows) bytes w) (space_of (il_loc il rows) bytes w') (unat off) (n + (unat sz - n)) d
        (rq_buf rq) (rq_buf rq')"
    proof (rule moved_append [OF P(1) r(7)])
      have "d + n + (unat sz - n) = d + unat sz" using n(2) by simp
      then show "d + n + (unat sz - n) \<le> length (rq_buf rq)" using less.prems(7) by simp
    qed
    then show ?thesis using r n(2) by auto
  qed
qed

text \<open>A request, at the address it has in the banks once the offset is removed.\<close>

lemma il_req_access:
  assumes "il_ok il" "ready w" "il_fits bytes il rows w" "unat (il_remove_offset il) \<le> unat (rq_addr rq)"
    "unat (rq_addr rq) - unat (il_remove_offset il) + unat (rq_size rq) \<le> rows * 2 ^ (interleaving_bits il + stage_bits il)"
    "unat (rq_addr rq) + unat (rq_size rq) < 2 ^ 64" "rq_data rq = Some d" "d + unat (rq_size rq) \<le> length (rq_buf rq)"
  shows "\<exists>rq' w'. il_req tgt il rq w = Some (IO_REQ_OK, rq', w') \<and> ready w' \<and> il_fits bytes il rows w' \<and>
    same_access rq' rq \<and> rq_args rq' = rq_args rq \<and>
    moved (rq_is_write rq) (space_of (il_loc il rows) bytes w) (space_of (il_loc il rows) bytes w')
      (unat (rq_addr rq) - unat (il_remove_offset il)) (unat (rq_size rq)) d (rq_buf rq) (rq_buf rq')"
proof -
  let ?r = "unat (il_remove_offset il)" and ?o = "rq_addr rq - il_remove_offset il"
  have u: "unat ?o = unat (rq_addr rq) - ?r" using assms(4) by (simp add: unat_sub word_le_nat_alt)
  obtain c where c: "?r = 2 ^ interleaving_bits il * c" using assms(1) by (auto simp: il_ok_def dvd_def)
  have "unat (rq_addr rq) mod 2 ^ interleaving_bits il = unat ?o mod 2 ^ interleaving_bits il"
    using assms(4) c u by (metis le_add_diff_inverse mod_mult_self4)
  then have "aligned_to il (unat ?o) (align_size il (rq_addr rq))"
    using align_size_eq [OF assms(1), of "rq_addr rq"] by (simp add: aligned_to_def to_block_end_def)
  moreover have "unat ?o + unat (rq_size rq) < 2 ^ 64" "unat ?o + unat (rq_size rq) \<le> rows * 2 ^ (interleaving_bits il + stage_bits il)"
    using u assms(5,6) by linarith+
  ultimately obtain rq' w' where "il_loop tgt il ?o (rq_size rq) (align_size il (rq_addr rq)) (Some d) rq w = Some (Inr (), rq', w')"
    "ready w'" "il_fits bytes il rows w'" "rq_args rq' = rq_args rq" "rq_is_write rq' = rq_is_write rq" "rq_debug rq' = rq_debug rq"
    "moved (rq_is_write rq) (space_of (il_loc il rows) bytes w) (space_of (il_loc il rows) bytes w') (unat ?o) (unat (rq_size rq)) d
      (rq_buf rq) (rq_buf rq')"
    using il_loop_access [OF assms(1-3), of "rq_size rq" ?o "align_size il (rq_addr rq)" d rq] assms(8) by blast
  then show ?thesis using assms(7) u by (simp add: il_req_def same_access_def)
qed

end

section \<open>Banks of memory\<close>

lemma ilog2_exp: "ilog2 (2 ^ n) = n"
proof (induction n)
  case (Suc n)
  have "(1 :: nat) < 2 ^ Suc n" by (rule one_less_power) simp_all
  then have "(2 :: nat) ^ Suc n div 2 = 2 ^ n" "\<not> (2 :: nat) ^ Suc n \<le> 1" by (simp, linarith)
  then show ?case using Suc by (subst ilog2.simps) simp
qed (simp add: ilog2.simps)

text \<open>What \<open>il_build\<close> makes of a configuration whose number of ports is a power of two.\<close>

lemma il_build_ok:
  assumes "ib + sb < 31" "stage = 0 \<or> stage = sb" "2 ^ ib dvd unat remove"
  shows "il_ok (il_build (2 ^ sb) stage ib remove)" "interleaving_bits (il_build (2 ^ sb) stage ib remove) = ib"
    "stage_bits (il_build (2 ^ sb) stage ib remove) = sb" "il_out (il_build (2 ^ sb) stage ib remove) = map Some [0..<2 ^ sb]"
    "il_remove_offset (il_build (2 ^ sb) stage ib remove) = remove"
proof -
  let ?il = "il_build (2 ^ sb) stage ib remove"
  have s: "(if stage = 0 then ilog2 (2 ^ sb) else stage) = sb" using assms(2) by (auto simp: ilog2_exp)
  show f: "interleaving_bits ?il = ib" "stage_bits ?il = sb" "il_out ?il = map Some [0..<2 ^ sb]" "il_remove_offset ?il = remove"
    by (simp_all add: il_build_def s Let_def)
  have "offset_mask ?il = NOT (scast (low_bits (ib + sb)))" by (simp add: il_build_def s Let_def scast_not)
  then have "offset_mask ?il = NOT (mask (ib + sb))" by (simp only: low_bits_eq(1) [OF assms(1)])
  then show "il_ok ?il" using assms by (simp add: il_ok_def f distinct_map list_all_iff)
qed

text \<open>
  C10. An interleaver over a power of two memories implements one flat address space: block after block goes to
  memory after memory. A request inside the banks succeeds, wherever it starts and however many blocks it crosses; it moves exactly its
  bytes, and comes back as it was.
\<close>

theorem interleaver_memories_flat:
  assumes "ib + sb < 31" "stage = 0 \<or> stage = sb" "2 ^ ib dvd unat remove" "mems_ready mems"
    "list_all (\<lambda>p. rows * 2 ^ ib \<le> length (mem_data (mems p)) \<and> length (mem_data (mems p)) < 2 ^ 63) [0..<2 ^ sb]"
    "unat remove \<le> unat (rq_addr rq)" "unat (rq_addr rq) - unat remove + unat (rq_size rq) \<le> rows * 2 ^ (ib + sb)"
    "unat (rq_addr rq) + unat (rq_size rq) < 2 ^ 64" "rq_data rq = Some d" "d + unat (rq_size rq) \<le> length (rq_buf rq)"
  defines "il \<equiv> il_build (2 ^ sb) stage ib remove"
    and "space \<equiv> \<lambda>m a. if a < rows * 2 ^ (ib + sb)
      then Some (mem_data (m (a div 2 ^ ib mod 2 ^ sb)) ! (a div 2 ^ (ib + sb) * 2 ^ ib + a mod 2 ^ ib)) else None"
  shows "\<exists>rq' mems'. il_req (mem_target cycles time) il rq mems = Some (IO_REQ_OK, rq', mems') \<and> mems_ready mems' \<and>
    same_access rq' rq \<and> rq_args rq' = rq_args rq \<and>
    moved (rq_is_write rq) (space mems) (space mems') (unat (rq_addr rq) - unat remove) (unat (rq_size rq)) d (rq_buf rq) (rq_buf rq')"
proof -
  note B = il_build_ok [OF assms(1-3), folded il_def]
  have sp: "space_of (il_loc il rows) (\<lambda>p m. mem_data (m p)) m = space m" for m
    by (simp add: fun_eq_iff space_of_def il_loc_def bank_def local_index_def space_def B(2-4))
  have "il_fits (\<lambda>p m. mem_data (m p)) il rows mems"
    using assms(5) by (simp add: il_fits_def B(2-4) list_all_iff)
  then show ?thesis
    using byte_target.il_req_access [OF mem.byte_target_axioms [of cycles time], OF B(1) assms(4), of rows rq d] assms(6-10)
    unfolding B(2,3,5) sp by blast
qed

theorem interleaver_memories_flat_witness:
  "\<exists>rq' mems'. il_req (mem_target 3 30) (il_build 2 0 2 0x100) (sample_req 0x106 5 True) (\<lambda>_. sample_memory\<lparr>check_mem := None\<rparr>) =
     Some (IO_REQ_OK, rq', mems') \<and> mem_data (mems' 0) ! 4 = 4"
proof -
  let ?m = "\<lambda>_ :: nat. sample_memory\<lparr>check_mem := None\<rparr>"
  have m: "mems_ready ?m" "length (mem_data sample_memory) = 16"
    by (simp_all add: mems_ready_def mem_inv_def sample_memory_def mem_start_def mem_reset_def)
  have q: "rq_addr (sample_req 0x106 5 True) = 0x106" "rq_size (sample_req 0x106 5 True) = 5" "rq_data (sample_req 0x106 5 True) = Some 1"
    "rq_buf (sample_req 0x106 5 True) = [1, 2, 3, 4, 5, 6]" "rq_is_write (sample_req 0x106 5 True)"
    by (simp_all add: sample_req_def)
  obtain rq' mems' where
    r: "il_req (mem_target 3 30) (il_build 2 0 2 0x100) (sample_req 0x106 5 True) ?m = Some (IO_REQ_OK, rq', mems')"
    and mv: "moved True (\<lambda>a. if a < 4 * 2 ^ (2 + 1)
        then Some (mem_data (?m (a div 2 ^ 2 mod 2 ^ 1)) ! (a div 2 ^ (2 + 1) * 2 ^ 2 + a mod 2 ^ 2)) else None)
      (\<lambda>a. if a < 4 * 2 ^ (2 + 1)
        then Some (mem_data (mems' (a div 2 ^ 2 mod 2 ^ 1)) ! (a div 2 ^ (2 + 1) * 2 ^ 2 + a mod 2 ^ 2)) else None)
      6 5 1 [1, 2, 3, 4, 5, 6] (rq_buf rq')"
    using interleaver_memories_flat [of 2 1 0 "0x100" ?m 4 "sample_req 0x106 5 True" 1 3 30] m by (auto simp: q list_all_iff)
  have "mem_data (mems' 0) ! 4 = 4"
    using fun_cong [OF mv [unfolded moved_def, THEN conjunct1], of 8] by simp
  then show ?thesis using r by blast
qed

text \<open>With a number of ports that is not a power of two a block can be sent beyond the array of ports.\<close>

lemma three_ports_overrun: "il_req (mem_target 0 0) (il_build 3 2 2 0) (sample_req 12 1 True) mems = None"
proof -
  have "output_id (il_build 3 2 2 0) 12 = 3" "length (il_out (il_build 3 2 2 0)) = 3" by code_simp+
  then show ?thesis by (simp add: il_req_def il_loop.simps sample_req_def il_build_def Let_def)
qed

end
