(* ===== verification/Vp_Queue.thy ===== *)
theory Vp_Queue
  imports Gv_Prelude "HOL-Library.Monad_Syntax"
begin

text \<open>
  The intrusive queue of the engine (\<^verbatim>\<open>engine/src/queue.cpp\<close>). Elements are numbers; their \<^verbatim>\<open>next\<close> fields and whether their cancel
  callback is set are part of the state, because the queue never resets them. A function gives \<open>None\<close> where the code follows a null
  pointer; the walk through the list is \<open>None\<close> when it does not end.
\<close>

section \<open>The queue\<close>

record queue =
  q_first :: "nat option"
  q_last :: "nat option"
  q_next :: "nat \<Rightarrow> nat option"
  q_owned :: "nat \<Rightarrow> bool"

definition q_empty :: "queue \<Rightarrow> bool" where
  "q_empty q \<longleftrightarrow> q_first q = None"

definition q_reset :: "queue \<Rightarrow> queue" where
  "q_reset q = q\<lparr>q_first := None\<rparr>"

definition push_back :: "nat \<Rightarrow> queue \<Rightarrow> queue option" where
  "push_back e q =
     map_option (\<lambda>q1. q1\<lparr>q_last := Some e, q_next := (q_next q1)(e := None), q_owned := (q_owned q1)(e := True)\<rparr>)
       (case q_first q of
          Some _ \<Rightarrow> (case q_last q of Some l \<Rightarrow> Some (q\<lparr>q_next := (q_next q)(l := Some e)\<rparr>) | None \<Rightarrow> None)
        | None \<Rightarrow> Some (q\<lparr>q_first := Some e\<rparr>))"

definition push_front :: "nat \<Rightarrow> queue \<Rightarrow> queue" where
  "push_front e q =
     (let q1 = (if q_first q = None then q\<lparr>q_last := Some e\<rparr> else q)
      in q1\<lparr>q_next := (q_next q1)(e := q_first q1), q_first := Some e, q_owned := (q_owned q1)(e := True)\<rparr>)"

definition q_head :: "queue \<Rightarrow> nat option" where
  "q_head q = q_first q"

definition q_pop :: "queue \<Rightarrow> nat option \<times> queue" where
  "q_pop q = (q_first q, case q_first q of Some e \<Rightarrow> q\<lparr>q_first := q_next q e\<rparr> | None \<Rightarrow> q)"

text \<open>The walk of \<^verbatim>\<open>cancel_callback\<close>: the element before, and the element itself or null.\<close>

partial_function (option) q_walk :: "(nat \<Rightarrow> nat option) \<Rightarrow> nat \<Rightarrow> nat option \<Rightarrow> nat option \<Rightarrow> (nat option \<times> nat option) option" where
  "q_walk next e prev current =
     (if current = None then Some (prev, None)
      else if current = Some e then Some (prev, current)
      else q_walk next e current (next (the current)))"

declare q_walk.simps [code]

definition cancel_callback :: "nat \<Rightarrow> queue \<Rightarrow> queue option" where
  "cancel_callback e q = do {
     (prev, current) \<leftarrow> q_walk (q_next q) e None (q_first q);
     c \<leftarrow> current;
     Some (case prev of
             Some p \<Rightarrow> q\<lparr>q_next := (q_next q)(p := q_next q c)\<rparr>
           | None \<Rightarrow> q\<lparr>q_first := q_next q c\<rparr>)
   }"

text \<open>\<^verbatim>\<open>queue_elem::cancel\<close> calls through the callback, which is set once the element was pushed.\<close>

definition q_cancel :: "nat \<Rightarrow> queue \<Rightarrow> queue option" where
  "q_cancel e q = (if q_owned q e then cancel_callback e q else None)"

section \<open>Specification\<close>

text \<open>The elements from the first on, linked by their \<^verbatim>\<open>next\<close> fields; the last field names the last one.\<close>

fun chain :: "(nat \<Rightarrow> nat option) \<Rightarrow> nat option \<Rightarrow> nat list \<Rightarrow> bool" where
  "chain next p [] \<longleftrightarrow> p = None"
| "chain next p (x # xs) \<longleftrightarrow> p = Some x \<and> chain next (next x) xs"

definition holds :: "queue \<Rightarrow> nat list \<Rightarrow> bool" where
  "holds q xs \<longleftrightarrow> chain (q_next q) (q_first q) xs \<and> distinct xs \<and> list_all (q_owned q) xs \<and> (xs \<noteq> [] \<longrightarrow> q_last q = Some (last xs))"

datatype queue_op = Push_Back nat | Push_Front nat | Pop | Cancel nat

text \<open>One operation on the implementation, with the element that is popped, and on a list. An operation is legal
  when it does not insert an element twice and does not cancel the last of several elements.\<close>

fun q_step :: "queue_op \<Rightarrow> queue \<Rightarrow> (nat option \<times> queue) option" where
  "q_step (Push_Back e) q = map_option (Pair None) (push_back e q)"
| "q_step (Push_Front e) q = Some (None, push_front e q)"
| "q_step Pop q = Some (q_pop q)"
| "q_step (Cancel e) q = map_option (Pair None) (q_cancel e q)"

fun l_step :: "queue_op \<Rightarrow> nat list \<Rightarrow> nat option \<times> nat list" where
  "l_step (Push_Back e) xs = (None, xs @ [e])"
| "l_step (Push_Front e) xs = (None, e # xs)"
| "l_step Pop xs = (case xs of [] \<Rightarrow> (None, []) | x # ys \<Rightarrow> (Some x, ys))"
| "l_step (Cancel e) xs = (None, remove1 e xs)"

fun legal :: "queue_op \<Rightarrow> nat list \<Rightarrow> bool" where
  "legal (Push_Back e) xs \<longleftrightarrow> e \<notin> set xs"
| "legal (Push_Front e) xs \<longleftrightarrow> e \<notin> set xs"
| "legal Pop xs \<longleftrightarrow> True"
| "legal (Cancel e) xs \<longleftrightarrow> e \<in> set xs \<and> (xs = [e] \<or> e \<noteq> last xs)"

text \<open>Sequences of operations, with the elements that were popped.\<close>

fun run_with :: "(queue_op \<Rightarrow> 'q \<Rightarrow> (nat option \<times> 'q) option) \<Rightarrow> queue_op list \<Rightarrow> 'q \<Rightarrow> (nat option list \<times> 'q) option" where
  "run_with step [] q = Some ([], q)"
| "run_with step (x # xs) q = do { (r, q1) \<leftarrow> step x q; (rs, q2) \<leftarrow> run_with step xs q1; Some (r # rs, q2) }"

fun l_run :: "queue_op list \<Rightarrow> nat list \<Rightarrow> nat option list \<times> nat list" where
  "l_run [] ys = ([], ys)"
| "l_run (x # xs) ys = (let (r, y1) = l_step x ys; (rs, y2) = l_run xs y1 in (r # rs, y2))"

fun legal_run :: "queue_op list \<Rightarrow> nat list \<Rightarrow> bool" where
  "legal_run [] ys \<longleftrightarrow> True"
| "legal_run (x # xs) ys \<longleftrightarrow> legal x ys \<and> legal_run xs (snd (l_step x ys))"

section \<open>Lemmas\<close>

lemma chain_upd [simp]: "x \<notin> set xs \<Longrightarrow> chain (f(x := v)) p xs = chain f p xs"
  by (induction f p xs rule: chain.induct) auto

lemma chain_suffix: "chain f p (xs @ x # ys) \<Longrightarrow> chain f (f x) ys"
  by (induction f p xs rule: chain.induct) auto

text \<open>Linking a new tail to the last element.\<close>

lemma chain_relink:
  "chain f p (xs @ x # zs) \<Longrightarrow> x \<notin> set xs \<Longrightarrow> chain (f(x := v)) p (xs @ x # ys) \<longleftrightarrow> chain (f(x := v)) v ys"
  by (induction f p xs rule: chain.induct) auto

lemma push_back_holds:
  assumes "holds q xs" "e \<notin> set xs"
  shows "\<exists>q'. push_back e q = Some q' \<and> holds q' (xs @ [e])"
proof (cases xs rule: rev_cases)
  case Nil
  then show ?thesis using assms by (simp add: push_back_def holds_def)
next
  case (snoc ys y)
  then have "q_first q \<noteq> None" using assms(1) by (cases ys) (auto simp: holds_def)
  moreover have l: "q_last q = Some y" using assms(1) snoc by (simp add: holds_def)
  moreover have "chain ((q_next q)(y := Some e, e := None)) (q_first q) (ys @ y # [e])"
  proof -
    have "chain ((q_next q)(e := None)) (q_first q) (ys @ [y])" "y \<notin> set ys" "y \<noteq> e"
      using assms snoc by (auto simp: holds_def)
    from chain_relink [OF this(1,2), of "Some e" "[e]"] this(3) show ?thesis by (simp add: fun_upd_twist)
  qed
  ultimately show ?thesis using assms snoc by (auto simp: push_back_def holds_def list_all_iff)
qed

lemma push_front_holds: "holds q xs \<Longrightarrow> e \<notin> set xs \<Longrightarrow> holds (push_front e q) (e # xs)"
  by (cases xs) (auto simp: holds_def push_front_def Let_def list_all_iff)

lemma pop_holds: "holds q xs \<Longrightarrow> fst (q_pop q) = fst (l_step Pop xs) \<and> holds (snd (q_pop q)) (snd (l_step Pop xs))"
  by (cases xs) (auto simp: holds_def q_pop_def)

lemma walk_chain:
  "chain f p (ys @ e # zs) \<Longrightarrow> e \<notin> set ys \<Longrightarrow> q_walk f e prev p = Some (if ys = [] then prev else Some (last ys), Some e)"
proof (induction ys arbitrary: p prev)
  case Nil
  then show ?case by (simp add: q_walk.simps)
next
  case (Cons y ys)
  then have "q_walk f e prev p = q_walk f e (Some y) (f y)" by (subst q_walk.simps) simp
  then show ?case using Cons by simp
qed

lemma cancel_holds:
  assumes "holds q xs" "e \<in> set xs" "xs = [e] \<or> e \<noteq> last xs"
  shows "\<exists>q'. q_cancel e q = Some q' \<and> holds q' (remove1 e xs)"
proof -
  obtain ys zs where xs: "xs = ys @ e # zs" "e \<notin> set ys" using split_list_first [OF assms(2)] by blast
  have h: "chain (q_next q) (q_first q) (ys @ e # zs)" "distinct (ys @ e # zs)" "q_owned q e" "list_all (q_owned q) (ys @ zs)"
    "q_last q = Some (last (ys @ e # zs))"
    using assms(1) xs by (auto simp: holds_def)
  have w: "q_walk (q_next q) e None (q_first q) = Some (if ys = [] then None else Some (last ys), Some e)"
    using walk_chain [OF h(1) xs(2)] by simp
  have r: "remove1 e xs = ys @ zs" using xs by (simp add: remove1_append)
  have tl: "chain (q_next q) (q_next q e) zs"
    using chain_suffix [OF h(1)] .
  have nz: "ys @ zs \<noteq> [] \<Longrightarrow> zs \<noteq> []" using assms(3) xs by auto
  then have last: "ys @ zs \<noteq> [] \<Longrightarrow> q_last q = Some (last (ys @ zs))" using h(5) by simp
  show ?thesis
  proof (cases ys rule: rev_cases)
    case Nil
    then show ?thesis using w h r tl last by (simp add: q_cancel_def cancel_callback_def holds_def)
  next
    case (snoc us u)
    have "chain (q_next q) (q_first q) (us @ u # e # zs)" using h(1) snoc by simp
    then have "chain ((q_next q)(u := q_next q e)) (q_first q) (us @ u # zs)"
      using h(2) snoc tl by (subst chain_relink [of "q_next q" "q_first q" us u "e # zs"]) auto
    then show ?thesis using w h r last snoc by (simp add: q_cancel_def cancel_callback_def holds_def)
  qed
qed

section \<open>The interface\<close>

text \<open>What a client relies on: each legal operation does to the queue what it does to a list. Then so does every sequence.\<close>

locale list_queue =
  fixes step :: "queue_op \<Rightarrow> 'q \<Rightarrow> (nat option \<times> 'q) option"
    and repr :: "'q \<Rightarrow> nat list \<Rightarrow> bool"
  assumes step_repr: "repr q xs \<Longrightarrow> legal x xs \<Longrightarrow> \<exists>q'. step x q = Some (fst (l_step x xs), q') \<and> repr q' (snd (l_step x xs))"
begin

lemma run_repr: "repr q ys \<Longrightarrow> legal_run xs ys \<Longrightarrow> \<exists>q'. run_with step xs q = Some (fst (l_run xs ys), q') \<and> repr q' (snd (l_run xs ys))"
proof (induction xs arbitrary: q ys)
  case (Cons x xs)
  obtain q1 where q1: "step x q = Some (fst (l_step x ys), q1)" "repr q1 (snd (l_step x ys))"
    using step_repr [of q ys x] Cons.prems by auto
  then obtain q2 where "run_with step xs q1 = Some (fst (l_run xs (snd (l_step x ys))), q2)" "repr q2 (snd (l_run xs (snd (l_step x ys))))"
    using Cons.IH [of q1 "snd (l_step x ys)"] Cons.prems(2) by auto
  then show ?case using q1 by (simp add: case_prod_beta Let_def)
qed simp

end

interpretation vq: list_queue q_step holds
proof
  show "\<exists>q'. q_step x q = Some (fst (l_step x xs), q') \<and> holds q' (snd (l_step x xs))" if "holds q xs" "legal x xs" for q xs x
  proof (cases x)
    case (Push_Back e)
    then show ?thesis using push_back_holds [OF that(1), of e] that(2) by auto
  next
    case (Push_Front e)
    then show ?thesis using push_front_holds [OF that(1), of e] that(2) by auto
  next
    case Pop
    then show ?thesis using pop_holds [OF that(1)] by (cases "q_pop q") simp
  next
    case (Cancel e)
    then show ?thesis using cancel_holds [OF that(1), of e] that(2) by auto
  qed
qed

lemma reset_holds: "holds (q_reset q) []"
  by (simp add: holds_def q_reset_def)

text \<open>
  C24. After a reset, any legal sequence of insertions at either end, removals and cancellations gives the results a list
  gives and ends in a queue whose links are that list.
\<close>

theorem queue_refines_list:
  assumes "legal_run xs []"
  shows "\<exists>q'. run_with q_step xs (q_reset q) = Some (fst (l_run xs []), q') \<and> holds q' (snd (l_run xs []))"
  using reset_holds assms by (rule vq.run_repr)

definition fresh_queue :: queue where
  "fresh_queue = \<lparr>q_first = None, q_last = None, q_next = (\<lambda>_. None), q_owned = (\<lambda>_. False)\<rparr>"

theorem queue_refines_list_witness:
  "\<exists>q'. run_with q_step [Push_Back 4, Push_Back 2, Push_Front 7, Push_Back 9, Cancel 2, Pop, Pop] (q_reset fresh_queue) =
     Some ([None, None, None, None, None, Some 7, Some 4], q') \<and> holds q' [9]"
  using queue_refines_list [of "[Push_Back 4, Push_Back 2, Push_Front 7, Push_Back 9, Cancel 2, Pop, Pop]" fresh_queue] by simp

text \<open>The last field is not updated when the last element is cancelled: an element that is pushed afterwards is linked to
  the cancelled one and never comes out.\<close>

lemma pushed_after_cancel_is_lost:
  "map_option fst (run_with q_step [Push_Back 1, Push_Back 2, Cancel 2, Push_Back 3, Pop, Pop] fresh_queue) =
     Some [None, None, None, None, Some 1, None]"
  by code_simp

end
