(* ===== verification/Cache.thy ===== *)
theory Cache
  imports Memory "HOL-Library.Monad_Syntax"
begin

unbundle bit_operations_syntax

text \<open>
  The cache (\<^verbatim>\<open>models/cache/cache_impl.cpp\<close>): sets of ways that are replaced in the order of a shift register, one refill at a
  time, and a queue of the requests that wait for it. The queue is a list. The buffer of a
  refill request is the data of the line it fills; the target of refills is a parameter. Cycles are \<open>int\<close> and an argument. Requests that are
  answered later are returned as a list of responses.
\<close>

section \<open>State\<close>

record cache_line =
  ln_tag :: u32
  ln_data :: "u8 list"
  ln_timestamp :: int

record cache =
  nb_ways_bits :: nat
  line_size_bits :: nat
  nb_sets_bits :: nat
  c_enabled :: bool
  refill_latency :: int
  refill_shift :: nat
  add_offset :: u32
  refill_timestamp :: int
  lru_out :: u8
  c_lines :: "cache_line list"
  flush_line_addr :: u32
  pending_refill :: bool
  refill_pending_reqs :: "io_req list"
  refill_line :: nat
  refill_tag :: u32
  fsm_enqueued :: bool
  flush_acks :: nat

abbreviation nb_ways :: "cache \<Rightarrow> nat" where "nb_ways c \<equiv> 2 ^ nb_ways_bits c"

abbreviation nb_sets :: "cache \<Rightarrow> nat" where "nb_sets c \<equiv> 2 ^ nb_sets_bits c"

abbreviation line_size :: "cache \<Rightarrow> nat" where "line_size c \<equiv> 2 ^ line_size_bits c"

text \<open>The lines that \<^verbatim>\<open>Cache::build\<close> makes; the contents of their data are unspecified.\<close>

definition build_lines :: "u8 list \<Rightarrow> cache \<Rightarrow> cache" where
  "build_lines init c = c\<lparr>c_lines := replicate (nb_sets c * nb_ways c) \<lparr>ln_tag = -1, ln_data = take (line_size c) init, ln_timestamp = -1\<rparr>,
     refill_timestamp := -1, lru_out := 0\<rparr>"

definition get_line_base :: "cache \<Rightarrow> u32 \<Rightarrow> u32" where
  "get_line_base c addr = addr AND NOT (mask (line_size_bits c))"

definition get_line_index :: "cache \<Rightarrow> u32 \<Rightarrow> nat" where
  "get_line_index c addr = unat (drop_bit (line_size_bits c) addr AND mask (nb_sets_bits c))"

section \<open>Operations\<close>

definition stepLru :: "cache \<Rightarrow> nat \<times> cache" where
  "stepLru c =
     (let x = lru_out c;
          feedback = \<not> (((bit x 7 \<noteq> bit x 3) \<noteq> bit x 2) \<noteq> bit x 1);
          x' = push_bit 1 x OR (if feedback then 1 else 0)
      in (take_bit (nb_ways_bits c) (unat (drop_bit 1 x')), c\<lparr>lru_out := x'\<rparr>))"

text \<open>\<^verbatim>\<open>Cache::get_line\<close>: the tag, the index of the set, and the position of the line if it is there.\<close>

definition get_line :: "io_req \<Rightarrow> cache \<Rightarrow> u32 \<times> nat \<times> nat option" where
  "get_line rq c =
     (let tag = ucast (drop_bit (line_size_bits c) (rq_addr rq)) :: u32;
          index = unat (tag AND mask (nb_sets_bits c))
      in (tag, index, find (\<lambda>i. ln_tag (c_lines c ! i) = tag) [index * nb_ways c..<index * nb_ways c + nb_ways c]))"

text \<open>The request for a line, in the request structure of the cache.\<close>

definition refill_req :: "cache \<Rightarrow> nat \<Rightarrow> u32 \<Rightarrow> io_req" where
  "refill_req c i addr =
     \<lparr>rq_addr = ucast (get_line_base c (push_bit (refill_shift c) addr) + add_offset c), rq_size = of_nat (line_size c), rq_data = Some 0,
      rq_is_write = False, rq_debug = False, rq_latency = 0, rq_duration = 0, rq_resp_port = Some 0, rq_args = [],
      rq_buf = ln_data (c_lines c ! i)\<rparr>"

definition refill_timing :: "int \<Rightarrow> nat \<Rightarrow> io_req \<Rightarrow> io_req \<Rightarrow> cache \<Rightarrow> io_req \<times> cache" where
  "refill_timing cycles i rrq rq c =
     (if rq_debug rq then (rq, c)
      else let latency = (if cycles < refill_timestamp c then refill_timestamp c - cycles else 0) +
                         (sint (get_full_latency rrq) + refill_latency c)
           in (inc_latency (word_of_int latency) rq,
               c\<lparr>refill_timestamp := cycles + latency,
                 c_lines := (c_lines c)[i := (c_lines c ! i)\<lparr>ln_timestamp := cycles + latency\<rparr>]\<rparr>))"

text \<open>The line, if there is one, and whether the request waits for it.\<close>

definition cache_refill ::
    "'w target_meth \<Rightarrow> int \<Rightarrow> nat \<Rightarrow> u32 \<Rightarrow> u32 \<Rightarrow> io_req \<Rightarrow> cache \<Rightarrow> 'w \<Rightarrow> ((nat option \<times> bool) \<times> io_req \<times> cache \<times> 'w) option" where
  "cache_refill tgt cycles index addr tag rq c w =
     (if pending_refill c then do {
        rq1 \<leftarrow> rq_save rq;
        Some ((None, True), rq1, c\<lparr>refill_pending_reqs := refill_pending_reqs c @ [rq1]\<rparr>, w)
      }
      else let (way, c1) = stepLru c; i = index * nb_ways c + way mod nb_ways c in
        if i \<ge> length (c_lines c) then None
        else do {
          (err, rrq, w1) \<leftarrow> tgt 0 (refill_req c1 i addr) w;
          let c2 = c1\<lparr>c_lines := (c_lines c)[i := (c_lines c ! i)\<lparr>ln_data := rq_buf rrq\<rparr>]\<rparr>;
          (if err = IO_REQ_OK then
             let c3 = c2\<lparr>c_lines := (c_lines c2)[i := (c_lines c2 ! i)\<lparr>ln_tag := tag\<rparr>]\<rparr>;
                 (rq1, c4) = refill_timing cycles i rrq rq c3
             in Some ((Some i, False), rq1, c4, w1)
           else if err = IO_REQ_PENDING then do {
             rq1 \<leftarrow> rq_save rq;
             Some ((None, True), rq1, c2\<lparr>refill_pending_reqs := rq1 # refill_pending_reqs c2, refill_line := i, refill_tag := tag,
                                         pending_refill := True\<rparr>, w1)
           }
           else Some ((None, False), rq, c2, w1))
        })"

text \<open>The copy between the request and a line, from the start of the line.\<close>

definition copy_line :: "bool \<Rightarrow> nat \<Rightarrow> io_req \<Rightarrow> cache \<Rightarrow> (io_req \<times> cache) option" where
  "copy_line is_write i rq c =
     (case rq_data rq of
        None \<Rightarrow> Some (rq, c)
      | Some d \<Rightarrow>
          if \<not> is_write
          then map_option (\<lambda>bytes. (rq\<lparr>rq_buf := bytes\<rparr>, c)) (memcpy (rq_buf rq) d (ln_data (c_lines c ! i)) 0 (unat (rq_size rq)))
          else map_option (\<lambda>bytes. (rq, c\<lparr>c_lines := (c_lines c)[i := (c_lines c ! i)\<lparr>ln_data := bytes\<rparr>]\<rparr>))
                 (memcpy (ln_data (c_lines c ! i)) 0 (rq_buf rq) d (unat (rq_size rq))))"

definition handle_req :: "'w target_meth \<Rightarrow> int \<Rightarrow> io_req \<Rightarrow> cache \<Rightarrow> 'w \<Rightarrow> (io_req_status_e \<times> io_req \<times> cache \<times> 'w) option" where
  "handle_req tgt cycles rq c w =
     (let (tag, index, hit) = get_line rq c in
      case hit of
        None \<Rightarrow> do {
          ((line, pending), rq1, c1, w1) \<leftarrow> cache_refill tgt cycles index (ucast (rq_addr rq)) tag rq c w;
          (case line of
             None \<Rightarrow> Some (if pending then IO_REQ_PENDING else IO_REQ_INVALID, rq1, c1, w1)
           | Some i \<Rightarrow> map_option (\<lambda>(rq2, c2). (IO_REQ_OK, rq2, c2, w1)) (copy_line (rq_is_write rq) i rq1 c1))
        }
      | Some i \<Rightarrow>
          let t = ln_timestamp (c_lines c ! i);
              rq1 = (if \<not> rq_debug rq \<and> cycles < t then inc_latency (word_of_int (t - cycles)) rq else rq)
          in map_option (\<lambda>(rq2, c2). (IO_REQ_OK, rq2, c2, w)) (copy_line (rq_is_write rq) i rq1 c))"

definition cache_req :: "'w target_meth \<Rightarrow> int \<Rightarrow> io_req \<Rightarrow> cache \<Rightarrow> 'w \<Rightarrow> (io_req_status_e \<times> io_req \<times> cache \<times> 'w) option" where
  "cache_req tgt cycles rq c w =
     (if \<not> c_enabled c
      then map_option (\<lambda>(err, rq1, w1). (err, rq1, c, w1))
             (tgt 0 (rq\<lparr>rq_addr := push_bit (refill_shift c) (rq_addr rq) + ucast (add_offset c)\<rparr>) w)
      else handle_req tgt cycles rq c w)"

definition c_check_state :: "cache \<Rightarrow> cache" where
  "c_check_state c = (if \<not> pending_refill c \<and> refill_pending_reqs c \<noteq> [] then c\<lparr>fsm_enqueued := True\<rparr> else c)"

text \<open>The end of a refill that was not immediate; \<open>rrq\<close> is the request of the cache, whose buffer is the line.\<close>

definition refill_response :: "io_req \<Rightarrow> cache \<Rightarrow> (io_req list \<times> cache) option" where
  "refill_response rrq c =
     (case refill_pending_reqs c of
        [] \<Rightarrow> None
      | q # qs \<Rightarrow> do {
          rq \<leftarrow> rq_restore q;
          let i = refill_line c;
          let c1 = c\<lparr>refill_pending_reqs := qs, pending_refill := False,
                     c_lines := (c_lines c)[i := (c_lines c ! i)\<lparr>ln_data := rq_buf rrq\<rparr>]\<rparr>;
          let c2 = (if rq_data rq = None then c1
                    else c1\<lparr>c_lines := (c_lines c1)[i := (c_lines c1 ! i)\<lparr>ln_tag := refill_tag c\<rparr>]\<rparr>);
          (rq1, c3) \<leftarrow> copy_line (rq_is_write rrq) i rq c2;
          Some ([rq1], c_check_state c3)
        })"

text \<open>The event that resumes a waiting request.\<close>

definition fsm_handler :: "'w target_meth \<Rightarrow> int \<Rightarrow> cache \<Rightarrow> 'w \<Rightarrow> (io_req list \<times> cache \<times> 'w) option" where
  "fsm_handler tgt cycles c w =
     (let c0 = c\<lparr>fsm_enqueued := False\<rparr> in
      if \<not> pending_refill c0 \<and> refill_pending_reqs c0 \<noteq> [] then do {
        rq \<leftarrow> rq_restore (hd (refill_pending_reqs c0));
        (status, rq1, c1, w1) \<leftarrow> handle_req tgt cycles rq (c0\<lparr>refill_pending_reqs := tl (refill_pending_reqs c0)\<rparr>) w;
        Some (if status = IO_REQ_OK then [rq1] else [], c_check_state c1, w1)
      }
      else Some ([], c_check_state c0, w))"

definition c_flush_line :: "u32 \<Rightarrow> cache \<Rightarrow> cache" where
  "c_flush_line addr c =
     (let tag = drop_bit (line_size_bits c) addr; n = get_line_index c addr * nb_ways c
      in c\<lparr>c_lines := map (\<lambda>i. if n \<le> i \<and> i < n + nb_ways c \<and> ln_tag (c_lines c ! i) = tag then (c_lines c ! i)\<lparr>ln_tag := -1\<rparr>
                              else c_lines c ! i) [0..<length (c_lines c)]\<rparr>)"

text \<open>The acknowledge is sent when its port is bound.\<close>

definition c_flush :: "bool \<Rightarrow> cache \<Rightarrow> cache" where
  "c_flush ack_bound c = c\<lparr>c_lines := map (\<lambda>l. l\<lparr>ln_tag := -1\<rparr>) (c_lines c), flush_acks := (if ack_bound then 1 else 0) + flush_acks c\<rparr>"

definition enable_sync :: "bool \<Rightarrow> cache \<Rightarrow> cache" where
  "enable_sync active c = c\<lparr>c_enabled := active\<rparr>"

definition flush_sync :: "bool \<Rightarrow> bool \<Rightarrow> cache \<Rightarrow> cache" where
  "flush_sync ack_bound active c = (if active then c_flush ack_bound c else c)"

definition flush_line_sync :: "bool \<Rightarrow> cache \<Rightarrow> cache" where
  "flush_line_sync active c = (if active then c_flush_line (flush_line_addr c) c else c)"

definition flush_line_addr_sync :: "u32 \<Rightarrow> cache \<Rightarrow> cache" where
  "flush_line_addr_sync addr c = c\<lparr>flush_line_addr := addr\<rparr>"

section \<open>Specification\<close>

text \<open>The shape of the cache.\<close>

definition cache_inv :: "cache \<Rightarrow> bool" where
  "cache_inv c \<longleftrightarrow> 0 < line_size_bits c \<and> line_size_bits c + nb_sets_bits c < 32 \<and> length (c_lines c) = nb_sets c * nb_ways c \<and>
     list_all (\<lambda>l. length (ln_data l) = line_size c) (c_lines c)"

text \<open>The address of a line behind the cache, when addresses are not shifted.\<close>

definition line_addr :: "cache \<Rightarrow> u32 \<Rightarrow> nat" where
  "line_addr c tag = unat (push_bit (line_size_bits c) tag + add_offset c)"

text \<open>Every valid line is in its set and holds the bytes behind the cache.\<close>

definition coherent :: "u8 list \<Rightarrow> cache \<Rightarrow> bool" where
  "coherent mem c \<longleftrightarrow> list_all (\<lambda>i. ln_tag (c_lines c ! i) = -1 \<or>
       ln_data (c_lines c ! i) = take (line_size c) (drop (line_addr c (ln_tag (c_lines c ! i))) mem)) [0..<length (c_lines c)]"

text \<open>What reads do not change.\<close>

definition same_cache :: "cache \<Rightarrow> cache \<Rightarrow> bool" where
  "same_cache c c' \<longleftrightarrow> nb_ways_bits c' = nb_ways_bits c \<and> line_size_bits c' = line_size_bits c \<and> nb_sets_bits c' = nb_sets_bits c \<and>
     c_enabled c' = c_enabled c \<and> refill_shift c' = refill_shift c \<and> add_offset c' = add_offset c \<and> pending_refill c' = pending_refill c \<and>
     refill_pending_reqs c' = refill_pending_reqs c"

section \<open>Lemmas\<close>

lemma stepLru_same: "stepLru c = (way, c1) \<Longrightarrow> same_cache c c1 \<and> c_lines c1 = c_lines c"
  by (auto simp: stepLru_def Let_def same_cache_def)

lemma refill_timing_same:
  assumes "refill_timing cycles i rrq rq c = (rq1, c1)"
  shows "same_cache c c1" "same_access rq1 rq" "rq_args rq1 = rq_args rq" "rq_buf rq1 = rq_buf rq"
    "\<exists>t. c_lines c1 = (c_lines c)[i := (c_lines c ! i)\<lparr>ln_timestamp := t\<rparr>]"
  using assms by (auto simp: refill_timing_def Let_def same_cache_def same_access_def split: if_splits intro: exI [of _ "ln_timestamp (c_lines c ! i)"])

lemma same_cache_trans: "same_cache a b \<Longrightarrow> same_cache b c \<Longrightarrow> same_cache a c"
  by (simp add: same_cache_def)

lemma get_line_props:
  assumes "cache_inv c" "get_line rq c = (tag, index, hit)"
  shows "tag = ucast (drop_bit (line_size_bits c) (rq_addr rq))" "index < nb_sets c"
    "hit = Some i \<Longrightarrow> i < length (c_lines c) \<and> ln_tag (c_lines c ! i) = tag"
proof -
  have "nb_sets_bits c < 32" using assms(1) by (simp add: cache_inv_def)
  then have m: "unat (x AND mask (nb_sets_bits c) :: u32) < nb_sets c" for x :: u32
    by (metis take_bit_eq_mask take_bit_nat_less_exp unsigned_take_bit_eq)
  show "tag = ucast (drop_bit (line_size_bits c) (rq_addr rq))" and ix: "index < nb_sets c"
    using assms(2) m by (auto simp: get_line_def Let_def)
  have "Suc index * nb_ways c \<le> nb_sets c * nb_ways c" using ix by (intro mult_le_mono1) simp
  then show "hit = Some i \<Longrightarrow> i < length (c_lines c) \<and> ln_tag (c_lines c ! i) = tag"
    using assms by (auto simp: get_line_def Let_def find_Some_iff cache_inv_def)
qed

text \<open>A 32-bit address: its tag is not the mark of an invalid line, and gives the start of the line back.\<close>

lemma line_tag:
  assumes "cache_inv c" "unat (rq_addr rq) < 2 ^ 32" "refill_shift c = 0"
  defines "tag \<equiv> ucast (drop_bit (line_size_bits c) (rq_addr rq)) :: u32"
  shows "tag \<noteq> -1" "unat (get_line_base c (push_bit (refill_shift c) (ucast (rq_addr rq))) + add_offset c) = line_addr c tag"
proof -
  let ?n = "line_size_bits c" and ?a = "ucast (rq_addr rq) :: u32"
  have n: "0 < ?n" "?n < 32" using assms(1) by (simp_all add: cache_inv_def)
  have "take_bit 32 (rq_addr rq) = rq_addr rq"
    using assms(2) by (simp add: word_unat_eq_iff unsigned_take_bit_eq take_bit_nat_eq_self)
  then have hi: "bit (rq_addr rq) k \<Longrightarrow> k < 32" for k by (metis bit_take_bit_iff)
  have t: "tag = drop_bit ?n ?a"
    unfolding tag_def by (rule bit_word_eqI) (use hi in \<open>auto simp: bit_simps\<close>)
  have "\<not> bit tag 31" using n by (simp add: t bit_simps)
  then show "tag \<noteq> -1" by (auto simp: bit_simps)
  have "push_bit ?n tag = ?a AND NOT (mask ?n)" unfolding t by (rule bit_word_eqI) (auto simp: bit_simps)
  then show "unat (get_line_base c (push_bit (refill_shift c) (ucast (rq_addr rq))) + add_offset c) = line_addr c tag"
    by (simp add: get_line_base_def line_addr_def assms(3))
qed

lemma unat_ucast64: "unat (ucast (x :: u32) :: u64) = unat x"
proof -
  have "unat x < 2 ^ 64" using unsigned_less [of x, where 'a = nat] by simp
  then show ?thesis by (simp add: unsigned_ucast_eq take_bit_nat_eq_self)
qed

lemma coherentD:
  "coherent mem c \<Longrightarrow> i < length (c_lines c) \<Longrightarrow> ln_tag (c_lines c ! i) = tag \<Longrightarrow> tag \<noteq> -1 \<Longrightarrow>
   ln_data (c_lines c ! i) = take (line_size c) (drop (line_addr c tag) mem)"
  by (auto simp: coherent_def list_all_iff)

lemma nth_line: "i < length (c_lines c) \<Longrightarrow> cache_inv c \<Longrightarrow> length (ln_data (c_lines c ! i)) = line_size c"
  by (simp add: cache_inv_def list_all_length)

lemma line_size_word: "cache_inv c \<Longrightarrow> unat (of_nat (line_size c) :: u64) = line_size c"
proof -
  assume "cache_inv c"
  then have "line_size c < 2 ^ 64" unfolding cache_inv_def by (intro power_strict_increasing) simp_all
  then show ?thesis unfolding unat_of_nat by (simp add: take_bit_nat_eq_self)
qed

text \<open>A line with a tag and data of the memory replaces another one.\<close>

lemma coherent_update:
  assumes "cache_inv c" "coherent mem c" "i < length (c_lines c)" "same_cache c c'" "c_lines c' = (c_lines c)[i := l]"
    "ln_data l = take (line_size c) (drop (line_addr c (ln_tag l)) mem)" "line_addr c (ln_tag l) + line_size c \<le> length mem"
  shows "cache_inv c'" "coherent mem c'"
proof -
  have s: "nb_ways_bits c' = nb_ways_bits c" "line_size_bits c' = line_size_bits c" "nb_sets_bits c' = nb_sets_bits c" "add_offset c' = add_offset c"
    using assms(4) by (simp_all add: same_cache_def)
  then show "cache_inv c'" using assms(1,3,5-7) by (simp add: cache_inv_def list_all_length nth_list_update)
  have "line_addr c' = line_addr c" using s by (simp add: line_addr_def fun_eq_iff)
  then show "coherent mem c'" using assms(2,3,5,6) s by (auto simp: coherent_def list_all_iff nth_list_update)
qed

context byte_target
begin

lemma refill_access:
  assumes "ready w" "cache_inv c" "\<not> pending_refill c" "refill_shift c = 0" "index < nb_sets c" "unat (rq_addr rq) < 2 ^ 32"
  defines "tag \<equiv> ucast (drop_bit (line_size_bits c) (rq_addr rq)) :: u32"
  assumes "line_addr c tag + line_size c \<le> length (bytes 0 w)" "length (bytes 0 w) < 2 ^ 63"
  obtains i rq' c' w' l where "cache_refill tgt cycles index (ucast (rq_addr rq)) tag rq c w = Some ((Some i, False), rq', c', w')"
    "i < length (c_lines c)" "same_cache c c'" "c_lines c' = (c_lines c)[i := l]" "ln_tag l = tag"
    "ln_data l = take (line_size c) (drop (line_addr c tag) (bytes 0 w))"
    "same_access rq' rq" "rq_args rq' = rq_args rq" "rq_buf rq' = rq_buf rq" "ready w'" "\<And>q. bytes q w' = bytes q w"
proof -
  obtain way c1 where st: "stepLru c = (way, c1)" by fastforce
  note S = stepLru_same [OF st]
  define i where "i = index * nb_ways c + way mod nb_ways c"
  have "way mod nb_ways c < nb_ways c" by simp
  moreover have "Suc index * nb_ways c \<le> nb_sets c * nb_ways c" using assms(5) by (intro mult_le_mono1) simp
  ultimately have "i < nb_sets c * nb_ways c" unfolding i_def mult_Suc by linarith
  then have i: "i < length (c_lines c)" using assms(2) by (simp add: cache_inv_def)
  let ?r = "refill_req c1 i (ucast (rq_addr rq))"
  have sc: "line_size_bits c1 = line_size_bits c" "add_offset c1 = add_offset c" "refill_shift c1 = refill_shift c" "c_lines c1 = c_lines c"
    using S by (simp_all add: same_cache_def)
  have ad: "unat (rq_addr ?r) = line_addr c tag"
    using line_tag(2) [OF assms(2,6,4)] sc by (simp add: refill_req_def get_line_base_def tag_def unat_ucast64)
  have q: "rq_size ?r = of_nat (line_size c)" "rq_data ?r = Some 0" "\<not> rq_is_write ?r" "rq_buf ?r = ln_data (c_lines c ! i)"
    using sc by (simp_all add: refill_req_def)
  obtain rrq w' where t: "tgt 0 ?r w = Some (IO_REQ_OK, rrq, w')" "ready w'" "bytes 0 w' = bytes 0 w" "\<And>q. q \<noteq> 0 \<Longrightarrow> bytes q w' = bytes q w"
    "rq_buf rrq = patch (ln_data (c_lines c ! i)) 0 (take (line_size c) (drop (line_addr c tag) (bytes 0 w)))"
    using access [of w ?r 0 0] assms(1,8,9) q ad line_size_word [OF assms(2)] nth_line [OF i assms(2)] by auto
  have data: "rq_buf rrq = take (line_size c) (drop (line_addr c tag) (bytes 0 w))"
    using t(5) assms(8) nth_line [OF i assms(2)] by (simp add: patch_def)
  define c3 where "c3 = c1\<lparr>c_lines := (c_lines c)[i := (c_lines c ! i)\<lparr>ln_data := rq_buf rrq, ln_tag := tag\<rparr>]\<rparr>"
  obtain rq' c' where tm: "refill_timing cycles i rrq rq c3 = (rq', c')" by fastforce
  note T = refill_timing_same [OF tm]
  obtain ts where ts: "c_lines c' = (c_lines c3)[i := (c_lines c3 ! i)\<lparr>ln_timestamp := ts\<rparr>]" using T(5) by blast
  have "same_cache c c'" using S T(1) by (simp add: c3_def same_cache_def)
  moreover have "cache_refill tgt cycles index (ucast (rq_addr rq)) tag rq c w = Some ((Some i, False), rq', c', w')"
    using assms(3) i t(1) tm sc by (simp add: cache_refill_def st Let_def i_def [symmetric] not_le c3_def)
  moreover have "bytes q w' = bytes q w" for q using t(3,4) by (cases "q = 0") simp_all
  ultimately show ?thesis
    using that [of i rq' c' w' "(c_lines c ! i)\<lparr>ln_data := rq_buf rrq, ln_tag := tag, ln_timestamp := ts\<rparr>"] i ts T t(2) data by (simp add: c3_def)
qed

lemma read_access:
  assumes "ready w" "cache_inv c" "coherent (bytes 0 w) c" "\<not> pending_refill c" "refill_shift c = 0" "unat (rq_addr rq) < 2 ^ 32"
    "\<not> rq_is_write rq" "rq_data rq = Some d" "d + unat (rq_size rq) \<le> length (rq_buf rq)" "unat (rq_size rq) \<le> line_size c"
  defines "a \<equiv> line_addr c (ucast (drop_bit (line_size_bits c) (rq_addr rq)))"
  assumes "a + line_size c \<le> length (bytes 0 w)" "length (bytes 0 w) < 2 ^ 63"
  shows "\<exists>rq' c' w'. handle_req tgt cycles rq c w = Some (IO_REQ_OK, rq', c', w') \<and> same_cache c c' \<and> cache_inv c' \<and> coherent (bytes 0 w') c' \<and>
    ready w' \<and> (\<forall>q. bytes q w' = bytes q w) \<and> same_access rq' rq \<and> rq_args rq' = rq_args rq \<and>
    rq_buf rq' = patch (rq_buf rq) d (take (unat (rq_size rq)) (drop a (bytes 0 w)))"
proof -
  obtain tag index hit where g: "get_line rq c = (tag, index, hit)" by (metis prod_cases3)
  note G = get_line_props [OF assms(2) g]
  note L = line_tag [OF assms(2,6,5)]
  have copy: "copy_line False i rq1 c1 = Some (rq1\<lparr>rq_buf := patch (rq_buf rq) d (take (unat (rq_size rq)) (drop a (bytes 0 w)))\<rparr>, c1)"
    if "ln_data (c_lines c1 ! i) = take (line_size c) (drop a (bytes 0 w))" "same_access rq1 rq" "rq_buf rq1 = rq_buf rq" for i rq1 c1
  proof -
    have "length (take (line_size c) (drop a (bytes 0 w))) = line_size c" using assms(12) by simp
    then show ?thesis using that assms(8-10) by (simp add: copy_line_def memcpy_def same_access_def min_absorb1)
  qed
  show ?thesis
  proof (cases hit)
    case None
    obtain i rq1 c1 w1 l where r: "cache_refill tgt cycles index (ucast (rq_addr rq)) tag rq c w = Some ((Some i, False), rq1, c1, w1)"
      "i < length (c_lines c)" "same_cache c c1" "c_lines c1 = (c_lines c)[i := l]" "ln_tag l = tag"
      "ln_data l = take (line_size c) (drop a (bytes 0 w))"
      "same_access rq1 rq" "rq_args rq1 = rq_args rq" "rq_buf rq1 = rq_buf rq" "ready w1" "\<And>q. bytes q w1 = bytes q w"
      using refill_access [OF assms(1,2,4,5) G(2) assms(6), of cycles] assms(12,13) G(1) unfolding a_def by metis
    have "cache_inv c1" "coherent (bytes 0 w) c1"
      using coherent_update [OF assms(2,3) r(2-4)] r(5,6) assms(12) G(1) unfolding a_def by simp_all
    then show ?thesis using None g r copy [of c1 i rq1] assms(7) by (simp add: handle_req_def same_access_def)
  next
    case (Some i)
    then have i: "i < length (c_lines c)" "ln_tag (c_lines c ! i) = tag" using G(3) by simp_all
    then have "ln_data (c_lines c ! i) = take (line_size c) (drop a (bytes 0 w))"
      using coherentD [OF assms(3) i L(1) [folded G(1)]] G(1) by (simp add: a_def)
    then show ?thesis using Some g copy [of c i] assms(1-3,7)
      by (auto simp: handle_req_def Let_def same_access_def same_cache_def)
  qed
qed

end

section \<open>A cache in front of a memory\<close>

text \<open>The other operations of a cache, between reads.\<close>

datatype cache_op = Read io_req | Flush bool | Flush_Line u32

text \<open>A sequence of reads and flushes; the buffers of the reads are collected.\<close>

fun cache_run :: "'w target_meth \<Rightarrow> int \<Rightarrow> cache_op list \<Rightarrow> cache \<Rightarrow> 'w \<Rightarrow> ((io_req_status_e \<times> u8 list) list \<times> cache \<times> 'w) option" where
  "cache_run tgt cycles [] c w = Some ([], c, w)"
| "cache_run tgt cycles (Read rq # ops) c w = do {
     (status, rq', c', w') \<leftarrow> cache_req tgt cycles rq c w;
     (rs, r) \<leftarrow> cache_run tgt cycles ops c' w';
     Some ((status, rq_buf rq') # rs, r)
   }"
| "cache_run tgt cycles (Flush b # ops) c w = cache_run tgt cycles ops (flush_sync b True c) w"
| "cache_run tgt cycles (Flush_Line a # ops) c w = cache_run tgt cycles ops (flush_line_sync True (flush_line_addr_sync a c)) w"

text \<open>What the reads are to give: the bytes of the memory at the offset of the cache.\<close>

fun expected :: "u8 list \<Rightarrow> u32 \<Rightarrow> cache_op list \<Rightarrow> (io_req_status_e \<times> u8 list) list" where
  "expected mem off [] = []"
| "expected mem off (Read rq # ops) =
     (IO_REQ_OK, patch (rq_buf rq) (the (rq_data rq))
        (take (unat (rq_size rq)) (drop (unat (ucast (rq_addr rq) + off)) mem))) # expected mem off ops"
| "expected mem off (op # ops) = expected mem off ops"

text \<open>A read of at most a line, from the start of a line that the memory holds.\<close>

definition line_read :: "cache \<Rightarrow> u8 list \<Rightarrow> io_req \<Rightarrow> bool" where
  "line_read c mem rq \<longleftrightarrow> unat (rq_addr rq) < 2 ^ 32 \<and> unat (rq_addr rq) mod line_size c = 0 \<and> \<not> rq_is_write rq \<and>
     (case rq_data rq of Some d \<Rightarrow> d + unat (rq_size rq) \<le> length (rq_buf rq) | None \<Rightarrow> False) \<and> unat (rq_size rq) \<le> line_size c \<and>
     unat (ucast (rq_addr rq) + add_offset c) + line_size c \<le> length mem"

definition good_op :: "cache \<Rightarrow> u8 list \<Rightarrow> cache_op \<Rightarrow> bool" where
  "good_op c mem op = (case op of Read rq \<Rightarrow> line_read c mem rq | _ \<Rightarrow> True)"

lemma aligned_line:
  assumes "cache_inv c" "refill_shift c = 0" "unat (rq_addr rq) < 2 ^ 32" "unat (rq_addr rq) mod line_size c = 0"
  shows "line_addr c (ucast (drop_bit (line_size_bits c) (rq_addr rq))) = unat (ucast (rq_addr rq) + add_offset c)"
proof -
  let ?n = "line_size_bits c" and ?a = "ucast (rq_addr rq) :: u32"
  have n: "?n < 32" using assms(1) by (simp add: cache_inv_def)
  have "unat ?a = unat (rq_addr rq)" using assms(3) by (simp add: unsigned_ucast_eq take_bit_nat_eq_self)
  then have "unat (take_bit ?n ?a) = 0" 
    using assms(4) unfolding unsigned_take_bit_eq by (simp add: take_bit_eq_mod)
  then have z: "take_bit ?n ?a = 0" by (simp add: unat_eq_0)
  have "bit ?a k \<Longrightarrow> \<not> k < ?n" for k using arg_cong [OF z, of "\<lambda>x. bit x k"] by (simp add: bit_simps)
  then have "?a AND NOT (mask ?n) = ?a" by (intro bit_word_eqI) (auto simp: bit_simps)
  then show ?thesis using line_tag(2) [OF assms(1,3,2)] assms(2) by (simp add: get_line_base_def)
qed

lemma invalidate_coherent:
  assumes "cache_inv c" "coherent mem c" "length ls = length (c_lines c)"
    "\<And>i. i < length ls \<Longrightarrow> ls ! i = c_lines c ! i \<or> ls ! i = (c_lines c ! i)\<lparr>ln_tag := -1\<rparr>"
  shows "cache_inv (c\<lparr>c_lines := ls\<rparr>)" "coherent mem (c\<lparr>c_lines := ls\<rparr>)"
proof -
  have "length (ln_data (ls ! i)) = line_size c" if "i < length ls" for i
    using assms(4) [OF that] nth_line [OF _ assms(1), of i] that assms(3) by auto
  then show "cache_inv (c\<lparr>c_lines := ls\<rparr>)" using assms(1,3) by (simp add: cache_inv_def list_all_length)
  have "ln_tag (ls ! i) = -1 \<or> ln_data (ls ! i) = take (line_size c) (drop (line_addr c (ln_tag (ls ! i))) mem)" if "i < length ls" for i
    using assms(4) [OF that] coherentD [OF assms(2), of i] that assms(3) by fastforce
  then show "coherent mem (c\<lparr>c_lines := ls\<rparr>)" by (simp add: coherent_def list_all_iff line_addr_def)
qed

context byte_target
begin

lemma run_reads:
  assumes "ready w" "cache_inv c" "coherent (bytes 0 w) c" "\<not> pending_refill c" "refill_shift c = 0" "c_enabled c" "length (bytes 0 w) < 2 ^ 63"
    "list_all (good_op c (bytes 0 w)) ops"
  shows "\<exists>c' w'. cache_run tgt cycles ops c w = Some (expected (bytes 0 w) (add_offset c) ops, c', w') \<and>
    coherent (bytes 0 w) c' \<and> (\<forall>q. bytes q w' = bytes q w)"
  using assms
proof (induction ops arbitrary: c w)
  case Nil
  then show ?case by simp
next
  case (Cons op ops)
  have step: "\<exists>c' w'. cache_run tgt cycles ops c1 w1 = Some (expected (bytes 0 w) (add_offset c) ops, c', w') \<and>
      coherent (bytes 0 w) c' \<and> (\<forall>q. bytes q w' = bytes q w)"
    if "ready w1" "cache_inv c1" "coherent (bytes 0 w) c1" "same_cache c c1" "\<And>q. bytes q w1 = bytes q w" for c1 w1
  proof -
    have s: "line_size_bits c1 = line_size_bits c" "add_offset c1 = add_offset c" "refill_shift c1 = refill_shift c" "c_enabled c1 = c_enabled c"
      "pending_refill c1 = pending_refill c"
      using that(4) by (simp_all add: same_cache_def)
    have "good_op c1 (bytes 0 w1) = good_op c (bytes 0 w)"
      using that(5) s by (simp add: fun_eq_iff good_op_def line_read_def split: cache_op.split)
    then show ?thesis using Cons.IH [of w1 c1] Cons.prems that s by simp
  qed
  show ?case
  proof (cases op)
    case (Read rq)
    then have r: "line_read c (bytes 0 w) rq" using Cons.prems(8) by (simp add: good_op_def)
    then obtain d where d: "rq_data rq = Some d" "d + unat (rq_size rq) \<le> length (rq_buf rq)"
      by (auto simp: line_read_def split: option.splits)
    have a: "line_addr c (ucast (drop_bit (line_size_bits c) (rq_addr rq))) = unat (ucast (rq_addr rq) + add_offset c)"
      by (rule aligned_line [OF Cons.prems(2,5)]) (use r in \<open>simp_all add: line_read_def\<close>)
    obtain rq' c1 w1 where h: "handle_req tgt cycles rq c w = Some (IO_REQ_OK, rq', c1, w1)" "same_cache c c1" "cache_inv c1" "coherent (bytes 0 w1) c1"
      "ready w1" "\<And>q. bytes q w1 = bytes q w"
      "rq_buf rq' = patch (rq_buf rq) d (take (unat (rq_size rq)) (drop (unat (ucast (rq_addr rq) + add_offset c)) (bytes 0 w)))"
      using read_access [OF Cons.prems(1-5), of rq d cycles] r d Cons.prems(7) a by (auto simp: line_read_def)
    then show ?thesis using step [of w1 c1] Read d Cons.prems(6) by (auto simp: cache_req_def)
  next
    case (Flush b)
    let ?c = "flush_sync b True c"
    have "cache_inv ?c" "coherent (bytes 0 w) ?c"
      using invalidate_coherent [OF Cons.prems(2,3), of "map (\<lambda>l. l\<lparr>ln_tag := -1\<rparr>) (c_lines c)"]
      by (simp_all add: flush_sync_def c_flush_def cache_inv_def coherent_def line_addr_def)
    then show ?thesis using step [of w ?c] Flush Cons.prems(1) by (simp add: flush_sync_def c_flush_def same_cache_def)
  next
    case (Flush_Line x)
    let ?c = "flush_line_sync True (flush_line_addr_sync x c)"
    define ls where "ls = c_lines ?c"
    have ls: "length ls = length (c_lines c)" "i < length ls \<Longrightarrow> ls ! i = c_lines c ! i \<or> ls ! i = (c_lines c ! i)\<lparr>ln_tag := -1\<rparr>" for i
      by (auto simp: ls_def flush_line_sync_def flush_line_addr_sync_def c_flush_line_def Let_def)
    have c: "?c = c\<lparr>c_lines := ls, flush_line_addr := x\<rparr>"
      by (simp add: ls_def flush_line_sync_def flush_line_addr_sync_def c_flush_line_def Let_def)
    have "cache_inv ?c" "coherent (bytes 0 w) ?c"
      using invalidate_coherent [OF Cons.prems(2,3) ls] unfolding c by (simp_all add: cache_inv_def coherent_def line_addr_def)
    moreover have "same_cache c ?c" unfolding c by (simp add: same_cache_def)
    ultimately show ?thesis using step [of w ?c] Flush_Line Cons.prems(1) by simp
  qed
qed

end

text \<open>
  C12. Reads of lines through an enabled cache in front of a memory give the bytes of the memory, whatever was read before,
  whichever lines were evicted, and however flushes of lines and of the whole cache come in between; the memory does not change and every valid line keeps the
  bytes of the memory.
\<close>

theorem cached_reads_transparent:
  assumes "mems_ready mems" "cache_inv c" "coherent (mem_data (mems 0)) c" "\<not> pending_refill c" "refill_shift c = 0" "c_enabled c"
    "length (mem_data (mems 0)) < 2 ^ 63" "list_all (good_op c (mem_data (mems 0))) ops"
  shows "\<exists>c' mems'. cache_run (mem_target cycles time) cycles ops c mems = Some (expected (mem_data (mems 0)) (add_offset c) ops, c', mems') \<and>
    coherent (mem_data (mems 0)) c' \<and> (\<forall>p. mem_data (mems' p) = mem_data (mems p))"
  using assms by (rule mem.run_reads)

definition sample_cache :: cache where
  "sample_cache = enable_sync True (build_lines (replicate 4 0) \<lparr>nb_ways_bits = 1, line_size_bits = 2, nb_sets_bits = 1, c_enabled = False,
     refill_latency = 3, refill_shift = 0, add_offset = 0, refill_timestamp = 0, lru_out = 0, c_lines = [], flush_line_addr = 0,
     pending_refill = False, refill_pending_reqs = [], refill_line = 0, refill_tag = 0, fsm_enqueued = False, flush_acks = 0\<rparr>)"

definition counting_mems :: "nat \<Rightarrow> memory" where
  "counting_mems = (\<lambda>_. sample_memory\<lparr>check_mem := None, mem_data := map of_nat [0..<16]\<rparr>)"

lemma sample_cache_ok: "cache_inv sample_cache" "coherent mem sample_cache"
  by (simp_all add: sample_cache_def enable_sync_def build_lines_def cache_inv_def coherent_def list_all_iff del: upt_Suc)

theorem cached_reads_transparent_witness:
  "\<exists>c' mems'. cache_run (mem_target 5 50) 5 [Read (sample_req 4 3 False), Flush_Line 4, Read (sample_req 4 2 False), Flush True, Read (sample_req 12 4 False)]
       sample_cache counting_mems =
     Some ([(IO_REQ_OK, [1, 4, 5, 6, 5, 6]), (IO_REQ_OK, [1, 4, 5, 4, 5, 6]), (IO_REQ_OK, [1, 12, 13, 14, 15, 6])], c', mems')"
proof -
  let ?ops = "[Read (sample_req 4 3 False), Flush_Line 4, Read (sample_req 4 2 False), Flush True, Read (sample_req 12 4 False)]"
  have "mems_ready counting_mems" "length (mem_data (counting_mems 0)) < 2 ^ 63" "\<not> pending_refill sample_cache" "refill_shift sample_cache = 0"
    "c_enabled sample_cache"
    by (simp_all add: mems_ready_def counting_mems_def mem_inv_def sample_memory_def mem_start_def mem_reset_def sample_cache_def enable_sync_def
        build_lines_def)
  moreover have "list_all (good_op sample_cache (mem_data (counting_mems 0))) ?ops"
    by (simp add: good_op_def line_read_def sample_req_def sample_cache_def enable_sync_def build_lines_def counting_mems_def)
  moreover have "expected (mem_data (counting_mems 0)) (add_offset sample_cache) ?ops =
      [(IO_REQ_OK, [1, 4, 5, 6, 5, 6]), (IO_REQ_OK, [1, 4, 5, 4, 5, 6]), (IO_REQ_OK, [1, 12, 13, 14, 15, 6])]"
    by code_simp
  ultimately show ?thesis
    using cached_reads_transparent [of counting_mems sample_cache ?ops 5 50] sample_cache_ok by auto
qed

section \<open>Where the cache is not transparent\<close>

text \<open>The copy starts at the start of the line: a read at offset 6 of a memory that holds its addresses gives the bytes from offset 4.\<close>

lemma unaligned_read_gives_line_start:
  "map_option fst (cache_run (mem_target 0 0) 0 [Read (sample_req 6 2 False)] sample_cache counting_mems) = Some [(IO_REQ_OK, [1, 4, 5, 4, 5, 6])]"
  by code_simp

text \<open>A write stays in the cache and is lost when its line is flushed.\<close>

lemma write_is_lost:
  "map_option fst (cache_run (mem_target 0 0) 0 [Read (sample_req 4 2 True), Read (sample_req 4 2 False), Flush False, Read (sample_req 4 2 False)]
     sample_cache counting_mems) =
   Some [(IO_REQ_OK, [1, 2, 3, 4, 5, 6]), (IO_REQ_OK, [1, 2, 3, 4, 5, 6]), (IO_REQ_OK, [1, 4, 5, 4, 5, 6])]"
  by code_simp

text \<open>The end of a refill looks whether the request of the cache, which is a read, is a write: a write that waited for a refill
  is answered like a read.\<close>

lemma pending_write_becomes_read:
  "Option.bind (cache_req (\<lambda>p rq (w :: unit). Some (IO_REQ_PENDING, rq, w)) 0 (sample_req 4 2 True) sample_cache ())
     (\<lambda>(status, rq, c, w). map_option (map rq_buf \<circ> fst) (refill_response ((refill_req c (refill_line c) 4)\<lparr>rq_buf := [9, 9, 9, 9]\<rparr>) c)) =
   Some [[1, 9, 9, 4, 5, 6]]"
  by code_simp

end
