(* ===== verification/Insn_Cache.thy ===== *)
theory Insn_Cache
  imports Gv_Prelude
begin

text \<open>
  The cache of decoded instructions of the instruction set simulator (\<^verbatim>\<open>iss/src/insn_cache.cpp\<close>, types of
  \<^verbatim>\<open>iss/include/types.hpp\<close>): blocks of 256 entries, one entry per even address, in 4096 chains. The chain of \<^verbatim>\<open>next\<close> pointers of a
  bucket is a list. Blocks are never freed and keep their address, so a pointer to an entry is the address of its
  block and the index in it. The configuration is the one with 32-bit registers. The arguments kept for traces are
  left out of the instruction.
\<close>

section \<open>State\<close>

type_synonym iptr = "u32 \<times> nat"

text \<open>The functions an instruction may point to: the ones of the simulator, and the handlers of the
  instruction set, numbered.\<close>

datatype iss_handler =
    Iss_Decode_Pc | Iss_Exec_Insn_Illegal | Iss_Resource_Offload | Iss_Exec_Stalled_Insn | Iss_Exec_Stalled_Insn_Fast
  | Iss_Exec_Insn_With_Trace | Hwloop_Check_Exec | Isa_Exec nat | Isa_Exec_Fast nat

record iss_insn =
  i_addr :: u32
  i_opcode :: u32
  fetched :: bool
  fast_handler :: "iss_handler option"
  handler :: "iss_handler option"
  resource_handler :: "iss_handler option"
  hwloop_handler :: "iss_handler option"
  stall_handler :: "iss_handler option"
  stall_fast_handler :: "iss_handler option"
  i_size :: u32
  nb_out_reg :: int
  nb_in_reg :: int
  out_regs :: "nat \<Rightarrow> int"
  in_regs :: "nat \<Rightarrow> int"
  uim :: "nat \<Rightarrow> u32"
  sim :: "nat \<Rightarrow> u32"
  i_next :: "iptr option"
  resource_id :: int
  resource_latency :: int
  resource_bandwidth :: int
  input_latency :: int
  input_latency_reg :: int
  saved_handler :: "iss_handler option"
  i_branch :: "iptr option"
  i_latency :: int

record iss_insn_block =
  b_pc :: u32
  b_insns :: "iss_insn list"
  is_init :: bool

text \<open>\<open>ic_fresh\<close> is what the memory that is allocated for a block happens to contain.\<close>

record iss_insn_cache =
  ic_blocks :: "nat \<Rightarrow> iss_insn_block list"
  ic_fresh :: "nat \<Rightarrow> iss_insn"

definition ISS_INSN_BLOCK_SIZE :: nat where "ISS_INSN_BLOCK_SIZE = 256"

definition ISS_INSN_NB_BLOCKS :: nat where "ISS_INSN_NB_BLOCKS = 4096"

section \<open>Operations\<close>

definition insn_init :: "u32 \<Rightarrow> iss_insn \<Rightarrow> iss_insn" where
  "insn_init addr insn =
     insn\<lparr>handler := Some Iss_Decode_Pc, fast_handler := Some Iss_Decode_Pc, i_addr := addr, i_next := None, hwloop_handler := None,
       fetched := False, input_latency_reg := -1\<rparr>"

definition insn_block_init :: "u32 \<Rightarrow> iss_insn_block \<Rightarrow> iss_insn_block" where
  "insn_block_init pc b =
     b\<lparr>is_init := True, b_insns := map (\<lambda>i. insn_init (pc + push_bit 1 (of_nat i)) (b_insns b ! i)) [0..<ISS_INSN_BLOCK_SIZE]\<rparr>"

definition insn_cache_init :: "iss_insn_cache \<Rightarrow> iss_insn_cache" where
  "insn_cache_init c = c\<lparr>ic_blocks := \<lambda>_. []\<rparr>"

text \<open>The blocks of every bucket, one after the other.\<close>

definition flush_blocks :: "iss_insn_cache \<Rightarrow> iss_insn_cache" where
  "flush_blocks c =
     c\<lparr>ic_blocks := \<lambda>i. if i < ISS_INSN_NB_BLOCKS then map (\<lambda>b. insn_block_init (b_pc b) b) (ic_blocks c i) else ic_blocks c i\<rparr>"

definition pc_base :: "u32 \<Rightarrow> u32" where "pc_base pc = pc AND NOT 0x1FF"

definition insn_id :: "u32 \<Rightarrow> nat" where "insn_id pc = unat (drop_bit 1 pc AND 0xFF)"

definition block_id :: "u32 \<Rightarrow> nat" where "block_id base = unat (base AND 0xFFF)"

text \<open>The search loop: the position of the block, or of the last block that is not in use.\<close>

fun find_block :: "u32 \<Rightarrow> nat \<Rightarrow> nat option \<Rightarrow> iss_insn_block list \<Rightarrow> nat + nat option" where
  "find_block base k first_free [] = Inr first_free"
| "find_block base k first_free (b # bs) =
     (if is_init b then if b_pc b = base then Inl k else find_block base (Suc k) first_free bs
      else find_block base (Suc k) (Some k) bs)"

definition insn_ptr :: "u32 \<Rightarrow> iptr" where
  "insn_ptr pc = (pc_base pc, insn_id pc)"

definition insn_cache_get :: "u32 \<Rightarrow> iss_insn_cache \<Rightarrow> iptr \<times> iss_insn_cache" where
  "insn_cache_get pc c =
     (let base = pc_base pc; id = block_id base; bs = ic_blocks c id in
      case find_block base 0 None bs of
        Inl _ \<Rightarrow> (insn_ptr pc, c)
      | Inr first_free \<Rightarrow>
          let bs' = (case first_free of
                       None \<Rightarrow> insn_block_init base \<lparr>b_pc = base, b_insns = map (ic_fresh c) [0..<ISS_INSN_BLOCK_SIZE], is_init = False\<rparr> # bs
                     | Some k \<Rightarrow> bs[k := insn_block_init base ((bs ! k)\<lparr>b_pc := base\<rparr>)])
          in (insn_ptr pc, c\<lparr>ic_blocks := (ic_blocks c)(id := bs')\<rparr>))"

text \<open>The instruction behind a pointer, and its update.\<close>

definition insn_at :: "iss_insn_cache \<Rightarrow> iptr \<Rightarrow> iss_insn option" where
  "insn_at c p = (case find (\<lambda>b. b_pc b = fst p) (ic_blocks c (block_id (fst p))) of
                    None \<Rightarrow> None
                  | Some b \<Rightarrow> if snd p < length (b_insns b) then Some (b_insns b ! snd p) else None)"

definition block_put :: "(iss_insn \<Rightarrow> iss_insn) \<Rightarrow> iptr \<Rightarrow> iss_insn_block \<Rightarrow> iss_insn_block" where
  "block_put f p b = (if b_pc b = fst p then b\<lparr>b_insns := (b_insns b)[snd p := f (b_insns b ! snd p)]\<rparr> else b)"

definition insn_update :: "(iss_insn \<Rightarrow> iss_insn) \<Rightarrow> iptr \<Rightarrow> iss_insn_cache \<Rightarrow> iss_insn_cache" where
  "insn_update f p c = c\<lparr>ic_blocks := (ic_blocks c)(block_id (fst p) := map (block_put f p) (ic_blocks c (block_id (fst p))))\<rparr>"

section \<open>Invariant\<close>

text \<open>The address an entry is for.\<close>

definition ptr_addr :: "iptr \<Rightarrow> u32" where
  "ptr_addr p = fst p + push_bit 1 (of_nat (snd p))"

text \<open>Every block is in use, in its bucket, with the address of a block and the addresses of its
  entries, and no address has two blocks.\<close>

definition block_ok :: "nat \<Rightarrow> iss_insn_block \<Rightarrow> bool" where
  "block_ok k b \<longleftrightarrow> is_init b \<and> block_id (b_pc b) = k \<and> length (b_insns b) = ISS_INSN_BLOCK_SIZE \<and>
     (\<forall>i<ISS_INSN_BLOCK_SIZE. i_addr (b_insns b ! i) = ptr_addr (b_pc b, i))"

definition ic_inv :: "iss_insn_cache \<Rightarrow> bool" where
  "ic_inv c \<longleftrightarrow> (\<forall>k. list_all (block_ok k) (ic_blocks c k) \<and> distinct (map b_pc (ic_blocks c k)))"

lemma insn_init_simps [simp]:
  "i_addr (insn_init a x) = a" "handler (insn_init a x) = Some Iss_Decode_Pc" "fetched (insn_init a x) = False" "hwloop_handler (insn_init a x) = None"
  by (simp_all add: insn_init_def)

lemma insn_block_init_simps [simp]:
  "b_pc (insn_block_init a b) = b_pc b" "is_init (insn_block_init a b) = True" "length (b_insns (insn_block_init a b)) = ISS_INSN_BLOCK_SIZE"
  "i < ISS_INSN_BLOCK_SIZE \<Longrightarrow> b_insns (insn_block_init a b) ! i = insn_init (ptr_addr (a, i)) (b_insns b ! i)"
  by (simp_all add: insn_block_init_def ptr_addr_def)

lemma block_ok_init: "block_id (b_pc b) = k \<Longrightarrow> block_ok k (insn_block_init (b_pc b) b)"
  by (simp add: block_ok_def)

lemma insn_cache_init_inv: "ic_inv (insn_cache_init c)"
  by (simp add: ic_inv_def insn_cache_init_def)

text \<open>In a well-formed cache no block is free, and the search is a search by address.\<close>

lemma find_block_used:
  "list_all is_init bs \<Longrightarrow> find_block base k ff bs =
     (if \<exists>b\<in>set bs. b_pc b = base then Inl (k + length (takeWhile (\<lambda>b. b_pc b \<noteq> base) bs)) else Inr ff)"
  by (induction base k ff bs rule: find_block.induct) auto

lemma ic_inv_used: "ic_inv c \<Longrightarrow> list_all is_init (ic_blocks c k)"
  by (auto simp: ic_inv_def block_ok_def list_all_iff)

lemma insn_cache_get_eq:
  assumes "ic_inv c"
  shows "insn_cache_get pc c =
     (insn_ptr pc,
      if \<exists>b\<in>set (ic_blocks c (block_id (pc_base pc))). b_pc b = pc_base pc then c
      else c\<lparr>ic_blocks := (ic_blocks c)(block_id (pc_base pc) :=
        insn_block_init (pc_base pc) \<lparr>b_pc = pc_base pc, b_insns = map (ic_fresh c) [0..<ISS_INSN_BLOCK_SIZE], is_init = False\<rparr> #
        ic_blocks c (block_id (pc_base pc)))\<rparr>)"
  using find_block_used [OF ic_inv_used [OF assms], of "pc_base pc" 0 None] by (simp add: insn_cache_get_def Let_def)

lemma insn_cache_get_inv:
  assumes "ic_inv c"
  shows "ic_inv (snd (insn_cache_get pc c))"
proof (cases "\<exists>b\<in>set (ic_blocks c (block_id (pc_base pc))). b_pc b = pc_base pc")
  case True
  then show ?thesis using assms by (simp add: insn_cache_get_eq [OF assms])
next
  case False
  let ?b = "\<lparr>b_pc = pc_base pc, b_insns = map (ic_fresh c) [0..<ISS_INSN_BLOCK_SIZE], is_init = False\<rparr>"
  have "block_ok (block_id (pc_base pc)) (insn_block_init (pc_base pc) ?b)" using block_ok_init [of ?b] by simp
  then show ?thesis using False assms by (auto simp: insn_cache_get_eq [OF assms] ic_inv_def)
qed

lemma find_distinct:
  "distinct (map f xs) \<Longrightarrow> x \<in> set xs \<Longrightarrow> find (\<lambda>y. f y = f x) xs = Some x"
  by (induction xs) (auto simp: rev_image_eqI)

lemma bit_masks: "(0x1FF :: u32) = mask 9" "(0xFF :: u32) = mask 8" "(1 :: u32) = mask 1"
  by (simp_all add: mask_eq_exp_minus_1)

lemma insn_id_eq: "insn_id pc = unat (take_bit 8 (drop_bit 1 pc))"
  by (simp only: insn_id_def bit_masks take_bit_eq_mask)

lemma insn_id_less: "insn_id pc < ISS_INSN_BLOCK_SIZE"
proof -
  have "unat (take_bit 8 (drop_bit 1 pc)) = take_bit 8 (unat (drop_bit 1 pc))" by (simp add: unsigned_take_bit_eq)
  then show ?thesis using take_bit_nat_less_exp [of 8 "unat (drop_bit 1 pc)"] by (simp add: insn_id_eq ISS_INSN_BLOCK_SIZE_def)
qed

text \<open>The address of the entry is the program counter without its lowest bit.\<close>

lemmas bitwise = bit_and_iff bit_or_iff bit_push_bit_iff bit_take_bit_iff bit_drop_bit_eq bit_not_iff bit_mask_iff comp_def bit_0_eq bot_apply

lemma entry_addr: "ptr_addr (insn_ptr pc) = pc AND NOT 1"
proof -
  have p: "of_nat (insn_id pc) = take_bit 8 (drop_bit 1 pc)" by (simp add: insn_id_eq)
  have "(pc AND NOT (mask 9)) AND push_bit 1 (take_bit 8 (drop_bit 1 pc)) = 0"
    by (rule bit_eqI, unfold bitwise) auto
  then have "ptr_addr (insn_ptr pc) = (pc AND NOT (mask 9)) OR push_bit 1 (take_bit 8 (drop_bit 1 pc))"
    by (simp only: ptr_addr_def insn_ptr_def fst_conv snd_conv p pc_base_def bit_masks(1) disjunctive_add_eq_or)
  also have "\<dots> = pc AND NOT (mask 1)" by (rule bit_eqI, unfold bitwise) auto
  finally show ?thesis by (simp only: bit_masks(3))
qed

lemma insn_ptr_inj: "insn_ptr pc = insn_ptr pc' \<longleftrightarrow> pc AND NOT 1 = pc' AND NOT 1"
proof
  assume "insn_ptr pc = insn_ptr pc'"
  then show "pc AND NOT 1 = pc' AND NOT 1" using entry_addr [of pc] entry_addr [of pc'] by simp
next
  assume a: "pc AND NOT 1 = pc' AND NOT 1"
  have b: "pc_base x = (x AND NOT 1) AND NOT (mask 9)" for x :: u32
    unfolding pc_base_def bit_masks(1,3) by (rule bit_eqI, unfold bitwise) auto
  have "drop_bit 1 x = drop_bit 1 (x AND NOT 1)" for x :: u32
    unfolding bit_masks(3) by (rule bit_eqI, unfold bitwise) (auto dest: bit_imp_le_length)
  then have "drop_bit 1 pc = drop_bit 1 pc'" using a by metis
  then show "insn_ptr pc = insn_ptr pc'" using a by (simp add: insn_ptr_def b insn_id_def)
qed

section \<open>The cache as a map\<close>

lemma insn_at_Some:
  assumes "ic_inv c" "b \<in> set (ic_blocks c (block_id (b_pc b)))" "i < ISS_INSN_BLOCK_SIZE"
  shows "insn_at c (b_pc b, i) = Some (b_insns b ! i)"
proof -
  have "block_ok (block_id (b_pc b)) b" "distinct (map b_pc (ic_blocks c (block_id (b_pc b))))"
    using assms(1,2) by (auto simp: ic_inv_def list_all_iff)
  then show ?thesis using find_distinct [OF _ assms(2), of b_pc] assms(3) by (simp add: insn_at_def block_ok_def)
qed

lemma insn_at_addr:
  assumes "ic_inv c" "insn_at c p = Some i"
  shows "i_addr i = ptr_addr p" "snd p < ISS_INSN_BLOCK_SIZE"
proof -
  obtain b where b: "find (\<lambda>b. b_pc b = fst p) (ic_blocks c (block_id (fst p))) = Some b" "i = b_insns b ! snd p" "snd p < length (b_insns b)"
    using assms(2) by (auto simp: insn_at_def split: option.splits if_splits)
  then have m: "b \<in> set (ic_blocks c (block_id (fst p)))" "b_pc b = fst p" by (auto simp: find_Some_iff in_set_conv_nth)
  then have "block_ok (block_id (fst p)) b" using assms(1) by (auto simp: ic_inv_def list_all_iff)
  then show "i_addr i = ptr_addr p" "snd p < ISS_INSN_BLOCK_SIZE" using b m by (simp_all add: block_ok_def ptr_addr_def)
qed

text \<open>Pointers stay valid.\<close>

lemma insn_cache_get_keeps:
  assumes "ic_inv c" "insn_at c p = Some i"
  shows "insn_at (snd (insn_cache_get pc c)) p = Some i"
proof -
  have "find (\<lambda>b. b_pc b = fst p) (ic_blocks c (block_id (fst p))) \<noteq> None"
    using assms(2) by (auto simp: insn_at_def split: option.splits)
  then have "\<exists>b\<in>set (ic_blocks c (block_id (fst p))). b_pc b = fst p" by (auto simp: find_None_iff)
  then show ?thesis using assms by (auto simp: insn_cache_get_eq insn_at_def)
qed

lemma insn_cache_get_entry:
  assumes "ic_inv c"
  shows "\<exists>i. insn_at (snd (insn_cache_get pc c)) (insn_ptr pc) = Some i \<and> i_addr i = pc AND NOT 1 \<and>
    (insn_at c (insn_ptr pc) = None \<longrightarrow> handler i = Some Iss_Decode_Pc \<and> \<not> fetched i \<and> hwloop_handler i = None)"
proof (cases "\<exists>b\<in>set (ic_blocks c (block_id (pc_base pc))). b_pc b = pc_base pc")
  case True
  then obtain b where b: "b \<in> set (ic_blocks c (block_id (b_pc b)))" "b_pc b = pc_base pc" by metis
  then have "insn_at c (insn_ptr pc) = Some (b_insns b ! insn_id pc)"
    using insn_at_Some [OF assms, of b "insn_id pc"] insn_id_less by (simp add: insn_ptr_def)
  then show ?thesis using True insn_at_addr(1) [OF assms] by (auto simp: insn_cache_get_eq [OF assms] entry_addr)
next
  case False
  then show ?thesis
    using insn_id_less [of pc] entry_addr [of pc] by (simp add: insn_cache_get_eq [OF assms] insn_at_def insn_ptr_def)
qed

lemma insn_cache_get_again:
  assumes "ic_inv c"
  shows "insn_cache_get pc (snd (insn_cache_get pc c)) = insn_cache_get pc c"
  using insn_cache_get_eq [OF insn_cache_get_inv [OF assms, of pc], of pc] insn_cache_get_eq [OF assms, of pc] by (auto split: if_splits)

text \<open>A flush keeps the blocks and the addresses, and every instruction is to be decoded again.\<close>

lemma block_id_less: "block_id a < ISS_INSN_NB_BLOCKS"
proof -
  have m: "(0xFFF :: u32) = mask 12" by (simp add: mask_eq_exp_minus_1)
  have "block_id a = take_bit 12 (unat a)" unfolding block_id_def m take_bit_eq_mask [symmetric] by (simp add: unsigned_take_bit_eq)
  then show ?thesis using take_bit_nat_less_exp [of 12 "unat a"] by (simp add: ISS_INSN_NB_BLOCKS_def)
qed

lemma flush_blocks_inv: "ic_inv c \<Longrightarrow> ic_inv (flush_blocks c)"
  by (auto simp: ic_inv_def flush_blocks_def list_all_iff block_ok_def comp_def)

lemma find_map_same: "(\<And>b. P (f b) = P b) \<Longrightarrow> find P (map f xs) = map_option f (find P xs)"
  by (induction xs) auto

lemma insn_at_flush:
  assumes "ic_inv c"
  shows "insn_at (flush_blocks c) p = map_option (insn_init (ptr_addr p)) (insn_at c p)"
proof -
  have f: "find (\<lambda>b. b_pc b = fst p) (ic_blocks (flush_blocks c) (block_id (fst p))) =
      map_option (\<lambda>b. insn_block_init (b_pc b) b) (find (\<lambda>b. b_pc b = fst p) (ic_blocks c (block_id (fst p))))"
    using block_id_less by (simp add: flush_blocks_def find_map_same)
  show ?thesis
  proof (cases "find (\<lambda>b. b_pc b = fst p) (ic_blocks c (block_id (fst p)))")
    case (Some b)
    then have "block_ok (block_id (fst p)) b" "b_pc b = fst p"
      using assms by (auto simp: find_Some_iff ic_inv_def list_all_iff)
    then show ?thesis using Some f by (cases p) (simp add: insn_at_def block_ok_def)
  qed (simp add: insn_at_def f)
qed

text \<open>A pointer that is valid is found again without a change.\<close>

lemma insn_cache_get_hit:
  assumes "ic_inv c" "insn_at c (insn_ptr pc) \<noteq> None"
  shows "insn_cache_get pc c = (insn_ptr pc, c)"
proof -
  have "find (\<lambda>b. b_pc b = pc_base pc) (ic_blocks c (block_id (pc_base pc))) \<noteq> None"
    using assms(2) by (auto simp: insn_at_def insn_ptr_def split: option.splits)
  then show ?thesis by (auto simp: insn_cache_get_eq [OF assms(1)] find_None_iff)
qed

lemma fst_insn_cache_get: "fst (insn_cache_get pc c) = insn_ptr pc"
  by (simp add: insn_cache_get_def Let_def split: sum.splits)

section \<open>Histories\<close>

datatype ic_op = IC_Get u32 | IC_Flush

fun ic_step :: "ic_op \<Rightarrow> iss_insn_cache \<Rightarrow> iss_insn_cache" where
  "ic_step (IC_Get pc) c = snd (insn_cache_get pc c)"
| "ic_step IC_Flush c = flush_blocks c"

lemma ic_step_inv: "ic_inv c \<Longrightarrow> ic_inv (ic_step x c)"
  by (cases x) (simp_all add: insn_cache_get_inv flush_blocks_inv)

lemma ic_step_valid: "ic_inv c \<Longrightarrow> insn_at c p \<noteq> None \<Longrightarrow> insn_at (ic_step x c) p \<noteq> None"
  by (cases x) (auto simp: insn_cache_get_keeps insn_at_flush)

lemma ic_run_inv: "ic_inv c \<Longrightarrow> ic_inv (fold ic_step xs c)"
  by (induction xs arbitrary: c) (simp_all add: ic_step_inv)

lemma ic_run_valid: "ic_inv c \<Longrightarrow> insn_at c p \<noteq> None \<Longrightarrow> insn_at (fold ic_step xs c) p \<noteq> None"
proof (induction xs arbitrary: c)
  case (Cons x xs)
  then show ?case using ic_step_inv [of c x] ic_step_valid [of c p x] by simp
qed simp

lemma ic_run_got:
  assumes "IC_Get pc \<in> set xs" "ic_inv c"
  shows "insn_at (fold ic_step xs c) (insn_ptr pc) \<noteq> None"
proof -
  obtain ys zs where xs: "xs = ys @ IC_Get pc # zs" using assms(1) by (meson split_list)
  let ?c = "fold ic_step ys c"
  have i: "ic_inv ?c" by (rule ic_run_inv [OF assms(2)])
  have "insn_at (snd (insn_cache_get pc ?c)) (insn_ptr pc) \<noteq> None" using insn_cache_get_entry [OF i, of pc] by auto
  then have "insn_at (fold ic_step zs (snd (insn_cache_get pc ?c))) (insn_ptr pc) \<noteq> None"
    by (rule ic_run_valid [OF insn_cache_get_inv [OF i]])
  then show ?thesis by (simp add: xs)
qed

text \<open>C23. The cache of decoded instructions after any history of lookups and flushes: a lookup returns the one entry for the address (up to the lowest
  bit), it keeps every entry that is there, and an address that was ever looked up is found in place, so that
  pointers to instructions are never dangling.\<close>

theorem insn_cache_one_entry_per_address:
  assumes "c = fold ic_step xs (insn_cache_init c0)"
  shows "(\<exists>i. insn_at (snd (insn_cache_get pc c)) (fst (insn_cache_get pc c)) = Some i \<and> i_addr i = pc AND NOT 1 \<and>
           (insn_at c (fst (insn_cache_get pc c)) = None \<longrightarrow> handler i = Some Iss_Decode_Pc \<and> \<not> fetched i)) \<and>
    (\<forall>p x. insn_at c p = Some x \<longrightarrow> insn_at (snd (insn_cache_get pc c)) p = Some x \<and> i_addr x = ptr_addr p) \<and>
    (IC_Get pc \<in> set xs \<longrightarrow> snd (insn_cache_get pc c) = c) \<and>
    (fst (insn_cache_get pc c) = fst (insn_cache_get pc' c) \<longleftrightarrow> pc AND NOT 1 = pc' AND NOT 1)"
proof -
  have i: "ic_inv c" unfolding assms by (rule ic_run_inv [OF insn_cache_init_inv])
  have "IC_Get pc \<in> set xs \<longrightarrow> snd (insn_cache_get pc c) = c"
    using ic_run_got [OF _ insn_cache_init_inv] insn_cache_get_hit [OF i, of pc] by (simp add: assms)
  then show ?thesis
    using insn_cache_get_entry [OF i, of pc] insn_cache_get_keeps [OF i] insn_at_addr(1) [OF i] by (auto simp: fst_insn_cache_get insn_ptr_inj)
qed

definition sample_insn :: iss_insn where
  "sample_insn = \<lparr>i_addr = 0, i_opcode = 0, fetched = True, fast_handler = None, handler = None, resource_handler = None, hwloop_handler = None,
     stall_handler = None, stall_fast_handler = None, i_size = 4, nb_out_reg = 1, nb_in_reg = 2, out_regs = (\<lambda>_. 0), in_regs = (\<lambda>_. 0),
     uim = (\<lambda>_. 0), sim = (\<lambda>_. 0), i_next = None, resource_id = -1, resource_latency = 0, resource_bandwidth = 0, input_latency = 0,
     input_latency_reg = -1, saved_handler = None, i_branch = None, i_latency = 0\<rparr>"

definition sample_cache0 :: iss_insn_cache where
  "sample_cache0 = \<lparr>ic_blocks = \<lambda>_. [], ic_fresh = \<lambda>_. sample_insn\<rparr>"

text \<open>The entries of the addresses 0x1C000081 and 0x1C000080 are the same, and a flush does not move them.\<close>

theorem insn_cache_one_entry_per_address_witness:
  "\<exists>c i. c = fold ic_step [IC_Get 0x1C000080, IC_Flush] (insn_cache_init sample_cache0) \<and>
     insn_cache_get 0x1C000080 c = (fst (insn_cache_get 0x1C000081 c), c) \<and>
     insn_at c (fst (insn_cache_get 0x1C000080 c)) = Some i \<and> i_addr i = 0x1C000080"
proof -
  let ?xs = "[IC_Get 0x1C000080, IC_Flush]"
  let ?c = "fold ic_step ?xs (insn_cache_init sample_cache0)"
  note t = insn_cache_one_entry_per_address [OF refl, of "0x1C000080" ?xs sample_cache0 "0x1C000081"]
  have m: "(0x1C000080 :: u32) AND NOT 1 = 0x1C000080" "(0x1C000081 :: u32) AND NOT 1 = 0x1C000080" by simp_all
  have g: "snd (insn_cache_get 0x1C000080 ?c) = ?c" using t by (simp del: fold_simps)
  then obtain i where "insn_at ?c (fst (insn_cache_get 0x1C000080 ?c)) = Some i" "i_addr i = 0x1C000080"
    using t m(1) by (metis (no_types, lifting))
  moreover have "fst (insn_cache_get 0x1C000080 ?c) = fst (insn_cache_get 0x1C000081 ?c)"
    using t m by (simp del: fold_simps)
  ultimately show ?thesis using g by (metis prod.collapse)
qed

end
