(* ===== verification/Iss_Core.thy ===== *)
theory Iss_Core
  imports Insn_Cache Io_Req Isa_Scalar "HOL-Library.Monad_Syntax"
begin

text \<open>
  The core of the instruction set simulator: the state (\<^verbatim>\<open>iss/include/types.hpp\<close> and the wrapper
  \<^verbatim>\<open>iss/vp/include/iss_wrapper.hpp\<close>), the register file, the performance counters, exceptions, and the load and store unit with the
  split of accesses that cross a word. The configuration is 32 bits wide; \<open>priv_1_10\<close> says whether \<^verbatim>\<open>PRIV_1_10\<close> is defined.
  Traces, power and statistics are left out of the state. An \<^verbatim>\<open>int\<close> that counts cycles is a 32-bit word. The clock
  engine is seen through the events that are enqueued and the delay they were enqueued with. \<open>None\<close> is the end of the simulation by
  \<^verbatim>\<open>iss_fatal\<close>, or a null pointer that is followed. What the core sends through its wires (acknowledged interrupts, halt status, flush requests)
  and to the debugger is logged; \<open>ext_counter\<close> is the value of the external counters, where they are connected. The options of the build (\<^verbatim>\<open>ISS_SINGLE_REGFILE\<close>, \<^verbatim>\<open>PIPELINE_STAGES\<close>) and whether
  instructions are traced are fields too.
\<close>

section \<open>State\<close>

datatype stall_cb = Iss_Lsu_Load_Resume | Iss_Lsu_Elw_Resume | Iss_Lsu_Load_Signed_Resume | Iss_Lsu_Store_Resume

datatype fetch_cb = Prefetcher_Fetch_Value_Resume_0 | Prefetcher_Fetch_Value_Resume_1

datatype iss_event = Instr_Event | Check_All_Event | Misaligned_Event | Irq_Sync_Event

text \<open>Where the data pointer of an access points to.\<close>

datatype reg_ref = Reg_Ref int | Null_Reg_Ref

record iss =
  regs :: "int \<Rightarrow> u32"
  null_reg :: u32
  insn_cache :: iss_insn_cache
  pf_data :: "u8 list"
  pf_addr :: u32
  current_insn :: "iptr option"
  prev_insn :: "iptr option"
  stall_insn :: "iptr option"
  prefetch_insn :: "iptr option"
  hwloop_start_insn :: "nat \<Rightarrow> iptr option"
  hwloop_end_insn :: "nat \<Rightarrow> iptr option"
  hwloop_next_insn :: "iptr option"
  hwloop_regs :: "nat \<Rightarrow> u32"
  insn_cycles :: u32
  fetch_cycles :: u32
  stall_callback :: "stall_cb option"
  fetch_stall_callback :: "fetch_cb option"
  fetch_stall_opcode :: u32
  stall_reg :: int
  stall_size :: nat
  do_fetch :: bool
  elw_insn :: "iptr option"
  elw_stalled :: bool
  elw_interrupted :: bool
  debug_mode :: bool
  priv_1_10 :: bool
  cf_debug_handler :: u32
  vectors :: "nat \<Rightarrow> iptr option"
  irq_enable :: bool
  saved_irq_enable :: bool
  debug_saved_irq_enable :: bool
  req_irq :: int
  req_debug :: bool
  vector_base :: u32
  debug_handler :: "iptr option"
  csr_epc :: u32
  csr_depc :: u32
  csr_dcsr :: u32
  csr_mcause :: u32
  pccr :: "nat \<Rightarrow> u32"
  pcer :: u32
  pcmr :: u32
  stack_conf :: u32
  stack_start :: u32
  stack_end :: u32
  data_io_req :: io_req
  data_ref :: reg_ref
  fetch_io_req :: io_req
  stalled :: u8
  wfi :: bool
  misaligned_access :: bool
  misaligned_size :: u32
  misaligned_data :: nat
  misaligned_addr :: u32
  misaligned_is_write :: bool
  misaligned_latency :: u64
  is_active_reg :: bool
  halted :: bool
  fetch_enable_reg :: bool
  step_mode :: bool
  do_step :: bool
  riscv_dbg_unit :: bool
  halt_cause :: u32
  wakeup_latency :: u64
  wr_irq_req :: int
  wr_irq_req_value :: int
  current_event :: iss_event
  enqueued :: "iss_event \<Rightarrow> u64 option"
  irq_acks :: "int list"
  res_cycles :: "int \<Rightarrow> int"
  clock_cycles :: int
  single_regfile :: bool
  pipeline_stages :: int
  insn_traced :: bool
  bootaddr_reg :: u32
  bootaddr_offset :: u32
  ppc :: u32
  npc :: u32
  hit_reg :: u32
  iss_opened :: bool
  gdbserver :: bool
  gdb_signals :: nat
  clock_retained :: int
  halt_status :: "bool list"
  flush_bound :: bool
  flush_reqs :: nat
  csr_status :: u32
  csr_mtvec :: u32
  csr_scratch0 :: u32
  csr_scratch1 :: u32
  csr_mscratch :: u32
  fcsr_raw :: u32
  fcsr_frm :: u32
  fprec :: u32
  cf_mhartid :: u32
  cf_misa :: u32
  cf_secure :: bool
  pulpv2_hwloop :: bool
  ext_counter :: "nat \<Rightarrow> u32 option"

section \<open>Registers\<close>

definition iss_reg_ref :: "int \<Rightarrow> reg_ref" where
  "iss_reg_ref r = (if r = 0 then Null_Reg_Ref else Reg_Ref r)"

definition iss_reg_store_ref :: "int \<Rightarrow> reg_ref" where
  "iss_reg_store_ref r = Reg_Ref r"

definition iss_set_reg :: "int \<Rightarrow> u32 \<Rightarrow> iss \<Rightarrow> iss" where
  "iss_set_reg r v s = (if r \<noteq> 0 then s\<lparr>regs := (regs s)(r := v)\<rparr> else s)"

definition iss_get_reg_untimed :: "iss \<Rightarrow> int \<Rightarrow> u32" where
  "iss_get_reg_untimed s r = regs s r"

definition iss_get_reg :: "iss \<Rightarrow> int \<Rightarrow> u32" where
  "iss_get_reg s r = iss_get_reg_untimed s r"

definition iss_get_reg64_untimed :: "iss \<Rightarrow> int \<Rightarrow> u64" where
  "iss_get_reg64_untimed s r = (if r = 0 then 0 else push_bit 32 (ucast (regs s (r + 1))) + ucast (regs s r))"

definition iss_set_reg64 :: "int \<Rightarrow> u64 \<Rightarrow> iss \<Rightarrow> iss" where
  "iss_set_reg64 r v s =
     (if r \<noteq> 0 then s\<lparr>regs := (regs s)(r := ucast (v AND 0xFFFFFFFF), r + 1 := ucast (drop_bit 32 v))\<rparr> else s)"

definition iss_get_reg64 :: "iss \<Rightarrow> int \<Rightarrow> u64" where
  "iss_get_reg64 s r = iss_get_reg64_untimed s r"

definition iss_get_reg_for_jump :: "iss \<Rightarrow> int \<Rightarrow> u32" where
  "iss_get_reg_for_jump s r = iss_get_reg_untimed s r"

text \<open>The macros of \<^verbatim>\<open>isa_lib/macros.h\<close>.\<close>

abbreviation REG_IN :: "iss_insn \<Rightarrow> nat \<Rightarrow> int" where "REG_IN insn k \<equiv> in_regs insn k"

abbreviation REG_OUT :: "iss_insn \<Rightarrow> nat \<Rightarrow> int" where "REG_OUT insn k \<equiv> out_regs insn k"

definition REG_GET :: "iss \<Rightarrow> iss_insn \<Rightarrow> nat \<Rightarrow> u32" where "REG_GET s insn k = iss_get_reg s (in_regs insn k)"

definition REG_SET :: "iss_insn \<Rightarrow> nat \<Rightarrow> u32 \<Rightarrow> iss \<Rightarrow> iss" where "REG_SET insn k v s = iss_set_reg (out_regs insn k) v s"

definition IN_REG_SET :: "iss_insn \<Rightarrow> nat \<Rightarrow> u32 \<Rightarrow> iss \<Rightarrow> iss" where "IN_REG_SET insn k v s = iss_set_reg (in_regs insn k) v s"

abbreviation SIM_GET :: "iss_insn \<Rightarrow> nat \<Rightarrow> u32" where "SIM_GET insn k \<equiv> sim insn k"

abbreviation UIM_GET :: "iss_insn \<Rightarrow> nat \<Rightarrow> u32" where "UIM_GET insn k \<equiv> uim insn k"

section \<open>Bit fields\<close>

text \<open>\<^verbatim>\<open>iss/include/utils.hpp\<close>; the widths are the ones the shifts are defined for.\<close>

definition iss_get_field :: "u32 \<Rightarrow> nat \<Rightarrow> nat \<Rightarrow> u32" where
  "iss_get_field v shift bits = drop_bit shift v AND (push_bit bits 1 - 1)"

definition iss_get_signed_value :: "u32 \<Rightarrow> nat \<Rightarrow> u32" where
  "iss_get_signed_value v bits = signed_drop_bit (32 - bits) (push_bit (32 - bits) v)"

definition iss_get_zext_value :: "u32 \<Rightarrow> nat \<Rightarrow> u32" where
  "iss_get_zext_value v bits = drop_bit (32 - bits) (push_bit (32 - bits) v)"

section \<open>Performance counters\<close>

definition CSR_PCER_CYCLES :: nat where "CSR_PCER_CYCLES = 0"
definition CSR_PCER_INSTR :: nat where "CSR_PCER_INSTR = 1"
definition CSR_PCER_LD_STALL :: nat where "CSR_PCER_LD_STALL = 2"
definition CSR_PCER_IMISS :: nat where "CSR_PCER_IMISS = 4"
definition CSR_PCER_LD :: nat where "CSR_PCER_LD = 5"
definition CSR_PCER_ST :: nat where "CSR_PCER_ST = 6"
definition CSR_PCER_JUMP :: nat where "CSR_PCER_JUMP = 7"
definition CSR_PCER_BRANCH :: nat where "CSR_PCER_BRANCH = 8"
definition CSR_PCER_TAKEN_BRANCH :: nat where "CSR_PCER_TAKEN_BRANCH = 9"
definition CSR_PCER_RVC :: nat where "CSR_PCER_RVC = 10"
definition CSR_PCER_MISALIGNED :: nat where "CSR_PCER_MISALIGNED = 29"
definition CSR_PCMR_ACTIVE :: u32 where "CSR_PCMR_ACTIVE = 1"

text \<open>Is the counting active, for an event?\<close>

definition pccr_active :: "iss \<Rightarrow> nat \<Rightarrow> bool" where
  "pccr_active s event \<longleftrightarrow> pcmr s AND CSR_PCMR_ACTIVE \<noteq> 0 \<and> pcer s AND push_bit event 1 \<noteq> 0"

definition iss_pccr_account_event :: "nat \<Rightarrow> u32 \<Rightarrow> iss \<Rightarrow> iss" where
  "iss_pccr_account_event event incr s =
     (if pccr_active s event then s\<lparr>pccr := (pccr s)(event := pccr s event + incr)\<rparr> else s)"

definition iss_perf_account_taken_branch :: "iss \<Rightarrow> iss" where
  "iss_perf_account_taken_branch s = s\<lparr>insn_cycles := insn_cycles s + 2\<rparr>"

definition iss_perf_account_dependency_stall :: "u32 \<Rightarrow> iss \<Rightarrow> iss" where
  "iss_perf_account_dependency_stall latency s = s\<lparr>insn_cycles := insn_cycles s + (latency - 1)\<rparr>"

definition iss_perf_account_jump :: "iss \<Rightarrow> iss" where
  "iss_perf_account_jump s = s\<lparr>insn_cycles := insn_cycles s + 1\<rparr>"

text \<open>External counters are read here only when they are traced.\<close>

definition iss_exec_account_cycles :: "u32 \<Rightarrow> iss \<Rightarrow> iss" where
  "iss_exec_account_cycles cycles s =
     (if pcmr s AND CSR_PCMR_ACTIVE \<noteq> 0 \<and> sint cycles \<ge> 0 \<and> pcer s AND push_bit CSR_PCER_CYCLES 1 \<noteq> 0
      then s\<lparr>pccr := (pccr s)(CSR_PCER_CYCLES := pccr s CSR_PCER_CYCLES + cycles)\<rparr> else s)"

definition iss_exec_insn_terminate :: "iss \<Rightarrow> iss" where
  "iss_exec_insn_terminate s = iss_exec_account_cycles (insn_cycles s) s"

definition iss_exec_insn_stall :: "iss \<Rightarrow> iss" where
  "iss_exec_insn_stall s = s\<lparr>stall_insn := current_insn s, stalled := stalled s + 1\<rparr>"

definition iss_unstall :: "iss \<Rightarrow> iss" where
  "iss_unstall s = s\<lparr>stalled := stalled s - 1\<rparr>"

section \<open>Instructions\<close>

definition iss_insn_get :: "u32 \<Rightarrow> iss \<Rightarrow> iptr \<times> iss" where
  "iss_insn_get pc s = (let (p, c) = insn_cache_get pc (insn_cache s) in (p, s\<lparr>insn_cache := c\<rparr>))"

definition insn_of :: "iss \<Rightarrow> iptr option \<Rightarrow> iss_insn option" where
  "insn_of s p = (case p of None \<Rightarrow> None | Some q \<Rightarrow> insn_at (insn_cache s) q)"

definition insn_put :: "(iss_insn \<Rightarrow> iss_insn) \<Rightarrow> iptr \<Rightarrow> iss \<Rightarrow> iss" where
  "insn_put f p s = s\<lparr>insn_cache := insn_update f p (insn_cache s)\<rparr>"

section \<open>Exceptions\<close>

definition ISS_EXCEPT_ILLEGAL :: nat where "ISS_EXCEPT_ILLEGAL = 1"
definition ISS_EXCEPT_ECALL :: nat where "ISS_EXCEPT_ECALL = 2"
definition ISS_EXCEPT_DEBUG :: nat where "ISS_EXCEPT_DEBUG = 3"

definition vector_or_first :: "nat \<Rightarrow> iss \<Rightarrow> iptr option \<times> iss" where
  "vector_or_first k s =
     (case vectors s k of
        Some p \<Rightarrow> (Some p, s)
      | None \<Rightarrow> let (p, s') = iss_insn_get 0 s in (Some p, s'))"

definition iss_except_raise :: "nat \<Rightarrow> iss \<Rightarrow> (iptr option \<times> iss) option" where
  "iss_except_raise eid s = do {
     insn \<leftarrow> insn_of s (current_insn s);
     Some (if priv_1_10 s \<and> eid = ISS_EXCEPT_DEBUG then
             (debug_handler s, s\<lparr>csr_depc := i_addr insn, debug_saved_irq_enable := irq_enable s, irq_enable := False\<rparr>)
           else
             vector_or_first (if priv_1_10 s then 0 else 32 + eid)
               (s\<lparr>csr_epc := i_addr insn, saved_irq_enable := irq_enable s, irq_enable := False, csr_mcause := 0xb\<rparr>))
   }"

section \<open>Data accesses\<close>

text \<open>A register as bytes in memory, on a little-endian host.\<close>

definition word_bytes :: "u32 \<Rightarrow> u8 list" where
  "word_bytes v = [ucast v, ucast (drop_bit 8 v), ucast (drop_bit 16 v), ucast (drop_bit 24 v)]"

definition bytes_word :: "u8 list \<Rightarrow> u32" where
  "bytes_word bs = ucast (bs ! 0) OR push_bit 8 (ucast (bs ! 1)) OR push_bit 16 (ucast (bs ! 2)) OR push_bit 24 (ucast (bs ! 3))"

definition ref_get :: "reg_ref \<Rightarrow> iss \<Rightarrow> u32" where
  "ref_get r s = (case r of Reg_Ref k \<Rightarrow> regs s k | Null_Reg_Ref \<Rightarrow> null_reg s)"

definition ref_put :: "reg_ref \<Rightarrow> u32 \<Rightarrow> iss \<Rightarrow> iss" where
  "ref_put r v s = (case r of Reg_Ref k \<Rightarrow> s\<lparr>regs := (regs s)(k := v)\<rparr> | Null_Reg_Ref \<Rightarrow> s\<lparr>null_reg := v\<rparr>)"

text \<open>The data pointer is the register and the offset of a byte in it.\<close>

definition data_req_aligned ::
    "'w target_meth \<Rightarrow> u32 \<Rightarrow> reg_ref \<Rightarrow> nat \<Rightarrow> u32 \<Rightarrow> bool \<Rightarrow> iss \<Rightarrow> 'w \<Rightarrow> (io_req_status_e \<times> iss \<times> 'w) option" where
  "data_req_aligned tgt addr r off sz is_write s w = do {
     let rq = (rq_init (data_io_req s))\<lparr>rq_addr := ucast addr, rq_size := scast sz, rq_is_write := is_write, rq_data := Some off,
                rq_buf := word_bytes (ref_get r s), rq_resp_port := Some 0\<rparr>;
     (err, rq', w') \<leftarrow> tgt 0 rq w;
     let s1 = (ref_put r (bytes_word (rq_buf rq')) s)\<lparr>data_io_req := rq', data_ref := r\<rparr>;
     Some (err, if err = IO_REQ_OK then s1\<lparr>insn_cycles := insn_cycles s1 + ucast (rq_latency rq')\<rparr> else s1, w')
   }"

definition data_misaligned_req ::
    "'w target_meth \<Rightarrow> u32 \<Rightarrow> reg_ref \<Rightarrow> u32 \<Rightarrow> bool \<Rightarrow> iss \<Rightarrow> 'w \<Rightarrow> (io_req_status_e \<times> iss \<times> 'w) option" where
  "data_misaligned_req tgt addr r sz is_write s w = do {
     let addr1 = (addr + sz - 1) AND NOT 3;
     let size0 = addr1 - addr;
     let size1 = sz - size0;
     let s1 = (iss_pccr_account_event CSR_PCER_MISALIGNED 1 s)\<lparr>misaligned_access := True, misaligned_size := size1, misaligned_data := unat size0,
                misaligned_addr := addr1, misaligned_is_write := is_write\<rparr>;
     (err, s2, w2) \<leftarrow> data_req_aligned tgt addr r 0 size0 is_write s1 w;
     Some (if err = IO_REQ_OK then (IO_REQ_PENDING, s2\<lparr>misaligned_latency := rq_latency (data_io_req s2) + 1\<rparr>, w2)
           else (IO_REQ_OK, s2, w2))
   }"

definition data_req :: "'w target_meth \<Rightarrow> u32 \<Rightarrow> reg_ref \<Rightarrow> u32 \<Rightarrow> bool \<Rightarrow> iss \<Rightarrow> 'w \<Rightarrow> (io_req_status_e \<times> iss \<times> 'w) option" where
  "data_req tgt addr r sz is_write s w =
     (if addr AND NOT 3 = (addr + sz - 1) AND NOT 3 then data_req_aligned tgt addr r 0 sz is_write s w
      else data_misaligned_req tgt addr r sz is_write s w)"

definition enqueue_next_instr :: "u64 \<Rightarrow> iss \<Rightarrow> iss" where
  "enqueue_next_instr cycles s =
     (if is_active_reg s then s\<lparr>enqueued := (enqueued s)(current_event s := Some cycles)\<rparr> else s)"

text \<open>The second half of an access that crosses a word, when its event is executed.\<close>

definition exec_misaligned :: "'w target_meth \<Rightarrow> iss \<Rightarrow> 'w \<Rightarrow> (iss \<times> 'w) option" where
  "exec_misaligned tgt s w = do {
     let s1 = iss_unstall s;
     let s2 = iss_pccr_account_event CSR_PCER_LD 1 (s1\<lparr>insn_cycles := insn_cycles s1 + 1\<rparr>);
     (err, s3, w') \<leftarrow> data_req_aligned tgt (misaligned_addr s2) (data_ref s2) (misaligned_data s2) (misaligned_size s2) (misaligned_is_write s2) s2 w;
     Some (if err = IO_REQ_OK
           then let s4 = (iss_exec_insn_terminate s3)\<lparr>misaligned_access := False\<rparr>
                in (enqueue_next_instr (rq_latency (data_io_req s4) + 1) s4, w')
           else (s3, w'))
   }"

section \<open>Loads and stores\<close>

definition iss_lsu_load_resume :: "iss \<Rightarrow> iss" where
  "iss_lsu_load_resume s = s"

definition iss_lsu_elw_resume :: "iss \<Rightarrow> iss" where
  "iss_lsu_elw_resume s = s\<lparr>elw_insn := None\<rparr>"

definition iss_lsu_load_signed_resume :: "iss \<Rightarrow> iss" where
  "iss_lsu_load_signed_resume s =
     iss_set_reg (stall_reg s) (iss_get_signed_value (iss_get_reg_untimed s (stall_reg s)) (stall_size s * 8)) s"

definition iss_lsu_store_resume :: "iss \<Rightarrow> iss" where
  "iss_lsu_store_resume s = s"

definition stall_resume :: "stall_cb option \<Rightarrow> iss \<Rightarrow> iss option" where
  "stall_resume cb s =
     (case cb of
        None \<Rightarrow> None
      | Some Iss_Lsu_Load_Resume \<Rightarrow> Some (iss_lsu_load_resume s)
      | Some Iss_Lsu_Elw_Resume \<Rightarrow> Some (iss_lsu_elw_resume s)
      | Some Iss_Lsu_Load_Signed_Resume \<Rightarrow> Some (iss_lsu_load_signed_resume s)
      | Some Iss_Lsu_Store_Resume \<Rightarrow> Some (iss_lsu_store_resume s))"

definition iss_lsu_load :: "'w target_meth \<Rightarrow> u32 \<Rightarrow> nat \<Rightarrow> int \<Rightarrow> iss \<Rightarrow> 'w \<Rightarrow> (iss \<times> 'w) option" where
  "iss_lsu_load tgt addr sz r s w = do {
     (err, s1, w1) \<leftarrow> data_req tgt addr (iss_reg_ref r) (of_nat sz) False (iss_set_reg r 0 s) w;
     Some (if err = IO_REQ_OK then s1
           else iss_exec_insn_stall (s1\<lparr>stall_callback := Some Iss_Lsu_Load_Resume, stall_reg := r\<rparr>), w1)
   }"

definition iss_lsu_elw :: "'w target_meth \<Rightarrow> u32 \<Rightarrow> nat \<Rightarrow> int \<Rightarrow> iss \<Rightarrow> 'w \<Rightarrow> (iss \<times> 'w) option" where
  "iss_lsu_elw tgt addr sz r s w = do {
     (err, s1, w1) \<leftarrow> data_req tgt addr (iss_reg_ref r) (of_nat sz) False (iss_set_reg r 0 s) w;
     Some (if err = IO_REQ_OK then s1
           else iss_exec_insn_stall (s1\<lparr>stall_callback := Some Iss_Lsu_Elw_Resume, stall_reg := r\<rparr>), w1)
   }"

definition iss_lsu_load_signed :: "'w target_meth \<Rightarrow> u32 \<Rightarrow> nat \<Rightarrow> int \<Rightarrow> iss \<Rightarrow> 'w \<Rightarrow> (iss \<times> 'w) option" where
  "iss_lsu_load_signed tgt addr sz r s w = do {
     (err, s1, w1) \<leftarrow> data_req tgt addr (iss_reg_ref r) (of_nat sz) False s w;
     Some (if err = IO_REQ_OK then iss_set_reg r (iss_get_signed_value (iss_get_reg_untimed s1 r) (sz * 8)) s1
           else iss_exec_insn_stall (s1\<lparr>stall_callback := Some Iss_Lsu_Load_Signed_Resume, stall_reg := r, stall_size := sz\<rparr>), w1)
   }"

definition iss_lsu_store :: "'w target_meth \<Rightarrow> u32 \<Rightarrow> nat \<Rightarrow> int \<Rightarrow> iss \<Rightarrow> 'w \<Rightarrow> (iss \<times> 'w) option" where
  "iss_lsu_store tgt addr sz r s w = do {
     (err, s1, w1) \<leftarrow> data_req tgt addr (iss_reg_store_ref r) (of_nat sz) True s w;
     Some (if err = IO_REQ_OK then s1
           else iss_exec_insn_stall (s1\<lparr>stall_callback := Some Iss_Lsu_Store_Resume, stall_reg := r\<rparr>), w1)
   }"

definition iss_lsu_load_perf :: "'w target_meth \<Rightarrow> u32 \<Rightarrow> nat \<Rightarrow> int \<Rightarrow> iss \<Rightarrow> 'w \<Rightarrow> (iss \<times> 'w) option" where
  "iss_lsu_load_perf tgt addr sz r s w = iss_lsu_load tgt addr sz r (iss_pccr_account_event CSR_PCER_LD 1 s) w"

definition iss_lsu_elw_perf :: "'w target_meth \<Rightarrow> u32 \<Rightarrow> nat \<Rightarrow> int \<Rightarrow> iss \<Rightarrow> 'w \<Rightarrow> (iss \<times> 'w) option" where
  "iss_lsu_elw_perf tgt addr sz r s w = iss_lsu_elw tgt addr sz r (iss_pccr_account_event CSR_PCER_LD 1 s) w"

definition iss_lsu_load_signed_perf :: "'w target_meth \<Rightarrow> u32 \<Rightarrow> nat \<Rightarrow> int \<Rightarrow> iss \<Rightarrow> 'w \<Rightarrow> (iss \<times> 'w) option" where
  "iss_lsu_load_signed_perf tgt addr sz r s w = iss_lsu_load_signed tgt addr sz r (iss_pccr_account_event CSR_PCER_LD 1 s) w"

definition iss_lsu_store_perf :: "'w target_meth \<Rightarrow> u32 \<Rightarrow> nat \<Rightarrow> int \<Rightarrow> iss \<Rightarrow> 'w \<Rightarrow> (iss \<times> 'w) option" where
  "iss_lsu_store_perf tgt addr sz r s w = iss_lsu_store tgt addr sz r (iss_pccr_account_event CSR_PCER_ST 1 s) w"

text \<open>An access relative to the stack pointer outside the stack ends the simulation.\<close>

definition iss_lsu_check_stack_access :: "int \<Rightarrow> u32 \<Rightarrow> iss \<Rightarrow> iss option" where
  "iss_lsu_check_stack_access r addr s =
     (if stack_conf s \<noteq> 0 \<and> r = 2 \<and> (addr < stack_start s \<or> addr \<ge> stack_end s) then None else Some s)"

end
