(* ===== verification/Iss_Lsu.thy ===== *)
theory Iss_Lsu
  imports Iss_Core Memory
begin

text \<open>
  What the load and store unit does with memories behind its port: stores write the bytes of the register, loads
  extend the bytes they read, also where an access crosses a word and is done in two steps.
\<close>

section \<open>Bytes of a word\<close>

lemma length_word_bytes [simp]: "length (word_bytes v) = 4"
  by (simp add: word_bytes_def)

lemma word_bytes_nth: "k < 4 \<Longrightarrow> word_bytes v ! k = ucast (drop_bit (8 * k) v)"
  by (auto simp: word_bytes_def numeral_eq_Suc less_Suc_eq)

lemma bit_bytes_word:
  "length bs = 4 \<Longrightarrow> bit (bytes_word bs) n \<longleftrightarrow> n < 32 \<and> bit (bs ! (n div 8)) (n mod 8)"
proof -
  assume l: "length bs = 4"
  have c: "n < 8 \<or> 8 \<le> n \<and> n < 16 \<or> 16 \<le> n \<and> n < 24 \<or> 24 \<le> n \<and> n < 32 \<or> 32 \<le> n" by arith
  have d: "8 \<le> n \<and> n < 16 \<Longrightarrow> n div 8 = 1 \<and> n mod 8 = n - 8" "16 \<le> n \<and> n < 24 \<Longrightarrow> n div 8 = 2 \<and> n mod 8 = n - 16"
    "24 \<le> n \<and> n < 32 \<Longrightarrow> n div 8 = 3 \<and> n mod 8 = n - 24" by presburger+
  show ?thesis using c
    by (elim disjE) (auto simp: bytes_word_def bit_simps d dest: bit_imp_le_length)
qed

lemma bytes_word_inverse [simp]: "bytes_word (word_bytes v) = v"
proof (rule bit_eqI)
  fix n assume "possible_bit TYPE(u32) n"
  then have "n < 32" "n div 8 < 4" "n mod 8 < 8" "8 * (n div 8) + n mod 8 = n" by (simp_all add: possible_bit_word)
  then show "bit (bytes_word (word_bytes v)) n \<longleftrightarrow> bit v n" by (auto simp: bit_bytes_word word_bytes_nth bit_simps dest: bit_imp_le_length)
qed

lemma word_bytes_inverse: "length bs = 4 \<Longrightarrow> word_bytes (bytes_word bs) = bs"
proof (rule nth_equalityI)
  fix k assume l: "length bs = 4" and k: "k < length (word_bytes (bytes_word bs))"
  show "word_bytes (bytes_word bs) ! k = bs ! k"
  proof (rule bit_eqI)
    fix n assume "possible_bit TYPE(u8) n"
    then have n: "n < 8" by (simp add: possible_bit_word)
    then have "(8 * k + n) div 8 = k" "(8 * k + n) mod 8 = n" by simp_all
    then show "bit (word_bytes (bytes_word bs) ! k) n \<longleftrightarrow> bit (bs ! k) n"
      using k n by (simp add: word_bytes_nth bit_simps bit_bytes_word [OF l])
  qed
qed simp

lemma patch_patch:
  "a + length xs + length ys \<le> length m \<Longrightarrow> patch (patch m a xs) (a + length xs) ys = patch m a (xs @ ys)"
  by (simp add: patch_def ac_simps)

section \<open>Where an access is cut\<close>

lemma unat_align_mask: "unat (v AND NOT (mask n) :: u32) = 2 ^ n * (unat v div 2 ^ n)"
proof -
  have "(v AND NOT (mask n)) AND take_bit n v = 0" "(v AND NOT (mask n)) OR take_bit n v = v"
    by (rule bit_eqI, auto simp: bit_simps)+
  then have "v AND NOT (mask n) = v - take_bit n v" by (metis disjunctive_add_eq_or add_diff_cancel_right')
  moreover have "unat (take_bit n v) = unat v mod 2 ^ n" by (simp add: unsigned_take_bit_eq) (simp add: take_bit_eq_mod)
  moreover have "take_bit n v \<le> v" by (simp add: word_le_nat_alt calculation(2))
  ultimately show ?thesis by (simp add: unat_sub minus_mod_eq_mult_div)
qed

lemma unat_align: "unat (v AND NOT 3 :: u32) = 4 * (unat v div 4)"
proof -
  have "(3 :: u32) = mask 2" by (simp add: mask_eq_exp_minus_1)
  then show ?thesis using unat_align_mask [of v 2] by simp
qed

lemma next_word: "x div 4 \<noteq> (x + k) div 4 \<Longrightarrow> k \<le> 3 \<Longrightarrow> (x + k) div 4 = x div 4 + 1" for x k :: nat
  using div_le_mono [of "x + k" "x + 4" 4] div_le_mono [of x "x + k" 4] by simp

lemma cut_access:
  fixes addr :: u32
  assumes "0 < sz" "sz \<le> 4" "unat addr + sz \<le> 2 ^ 32" "addr AND NOT 3 \<noteq> (addr + of_nat sz - 1) AND NOT 3"
  defines "n \<equiv> unat ((addr + of_nat sz - 1 AND NOT 3) - addr)"
  shows "0 < n" "n < sz" "unat ((addr + of_nat sz - 1) AND NOT 3) = unat addr + n" "unat (of_nat sz - ((addr + of_nat sz - 1 AND NOT 3) - addr)) = sz - n"
proof -
  obtain k where k: "sz = Suc k" "k \<le> 3" using assms(1,2) by (cases sz) auto
  let ?a = "unat addr" and ?e = "addr + of_nat sz - 1" and ?c = "addr + of_nat sz - 1 AND NOT 3"
  have "?e = of_nat (?a + k)" by (simp add: k)
  then have e: "unat ?e = ?a + k" using assms(3) k by (simp only: unat_of_nat) (simp add: take_bit_nat_eq_self)
  have "4 * (?a div 4) \<noteq> 4 * ((?a + k) div 4)"
    using assms(4) unat_align [of addr] unat_align [of ?e] e by (metis word_unat_eq_iff)
  then have q: "(?a + k) div 4 = ?a div 4 + 1" using next_word [of ?a k] k by simp
  have c: "unat ?c = 4 * (?a div 4) + 4" "?a < 4 * (?a div 4) + 4" "4 * (?a div 4) + 4 \<le> ?a + k"
    using unat_align [of ?e] e q div_times_less_eq_dividend [of "?a + k" 4] dividend_less_times_div [of 4 ?a] by simp_all
  have n: "n = 4 * (?a div 4) + 4 - ?a" using c unfolding n_def by (subst unat_sub) (simp_all add: word_le_nat_alt)
  show l: "0 < n" "n < sz" "unat ?c = ?a + n" using c k n by arith+
  have "unat (of_nat sz :: u32) = sz" using assms(2) by (simp add: unat_of_nat take_bit_nat_eq_self)
  then show "unat (of_nat sz - (?c - addr)) = sz - n"
    using l(2) unfolding n_def by (subst unat_sub) (simp_all add: word_le_nat_alt)
qed

section \<open>Accesses\<close>

text \<open>The bytes of a register after an access of \<open>n\<close> bytes at \<open>off\<close>.\<close>

definition fill :: "bool \<Rightarrow> nat \<Rightarrow> u8 list \<Rightarrow> u32 \<Rightarrow> u32" where
  "fill wr off bs v = (if wr then v else bytes_word (patch (word_bytes v) off bs))"

text \<open>What is left to do for an instruction after its handler: the second half of an access that crosses a word.\<close>

definition lsu_done :: "'w target_meth \<Rightarrow> iss \<Rightarrow> 'w \<Rightarrow> (iss \<times> 'w) option" where
  "lsu_done tgt s w = (if misaligned_access s then exec_misaligned tgt s w else Some (s, w))"

lemma ref_put_simps [simp]:
  "ref_get r (ref_put r v s) = v" "ref_put r v (ref_put r u s) = ref_put r v s" "ref_put r (ref_get r s) s = s"
  "misaligned_access (ref_put r v s) = misaligned_access s" "misaligned_size (ref_put r v s) = misaligned_size s"
  "misaligned_data (ref_put r v s) = misaligned_data s" "misaligned_addr (ref_put r v s) = misaligned_addr s"
  "misaligned_is_write (ref_put r v s) = misaligned_is_write s" "insn_cycles (ref_put r v s) = insn_cycles s"
  by (cases r; simp add: ref_put_def ref_get_def)+

lemma account_event_keeps [simp]:
  "regs (iss_pccr_account_event e k s) = regs s" "null_reg (iss_pccr_account_event e k s) = null_reg s"
  "misaligned_access (iss_pccr_account_event e k s) = misaligned_access s" "misaligned_size (iss_pccr_account_event e k s) = misaligned_size s"
  "misaligned_data (iss_pccr_account_event e k s) = misaligned_data s" "misaligned_addr (iss_pccr_account_event e k s) = misaligned_addr s"
  "misaligned_is_write (iss_pccr_account_event e k s) = misaligned_is_write s" "data_ref (iss_pccr_account_event e k s) = data_ref s"
  "data_io_req (iss_pccr_account_event e k s) = data_io_req s" "stalled (iss_pccr_account_event e k s) = stalled s"
  by (simp_all add: iss_pccr_account_event_def)

text \<open>The part of the state an access works on.\<close>

definition lsu_view :: "iss \<Rightarrow> (int \<Rightarrow> u32) \<times> u32 \<times> bool \<times> u32 \<times> nat \<times> u32 \<times> bool \<times> reg_ref" where
  "lsu_view s = (regs s, null_reg s, misaligned_access s, misaligned_size s, misaligned_data s, misaligned_addr s, misaligned_is_write s, data_ref s)"

definition reg_view :: "iss \<Rightarrow> (int \<Rightarrow> u32) \<times> u32" where
  "reg_view s = (regs s, null_reg s)"

lemma ref_get_view: "reg_view s = reg_view s' \<Longrightarrow> ref_get r s = ref_get r s'"
  by (simp add: reg_view_def ref_get_def split: reg_ref.splits)

lemma ref_put_view: "reg_view s = reg_view s' \<Longrightarrow> reg_view (ref_put r v s) = reg_view (ref_put r v s')"
  by (simp add: reg_view_def ref_put_def split: reg_ref.splits)

lemma take_split: "n \<le> sz \<Longrightarrow> take n (drop a xs) @ take (sz - n) (drop (a + n) xs) = take sz (drop a xs)"
  by (metis add.commute drop_drop le_add_diff_inverse take_add)

lemma fill_fill:
  assumes "length xs + length ys \<le> 4"
  shows "fill wr (length xs) ys (fill wr 0 xs v) = fill wr 0 (xs @ ys) v"
  using assms patch_patch [of 0 xs ys "word_bytes v"] by (simp add: fill_def word_bytes_inverse)

text \<open>An access to one word is over at once; the rest of any other is done by the event, whatever happened to the rest of the state in
  between.\<close>

definition one_word :: "u32 \<Rightarrow> nat \<Rightarrow> bool" where
  "one_word addr sz \<longleftrightarrow> addr AND NOT 3 = (addr + of_nat sz - 1) AND NOT 3"

lemma exec_misaligned_eq:
  assumes "data_req_aligned tgt (misaligned_addr s) (data_ref s) (misaligned_data s) (misaligned_size s) (misaligned_is_write s)
      (iss_pccr_account_event CSR_PCER_LD 1 ((iss_unstall s)\<lparr>insn_cycles := insn_cycles s + 1\<rparr>)) w = Some (IO_REQ_OK, s1, w1)"
  shows "\<exists>s'. exec_misaligned tgt s w = Some (s', w1) \<and> reg_view s' = reg_view s1 \<and> \<not> misaligned_access s'"
  using assms
  by (auto simp: exec_misaligned_def Let_def iss_unstall_def reg_view_def enqueue_next_instr_def iss_exec_insn_terminate_def
      iss_exec_account_cycles_def)

context byte_target begin

lemma data_req_aligned_ok:
  assumes "ready w" "off + unat sz \<le> 4" "unat addr + unat sz \<le> length (bytes 0 w)" "length (bytes 0 w) < 2 ^ 63"
  shows "\<exists>rq w'. data_req_aligned tgt addr r off sz wr s w =
      Some (IO_REQ_OK, (ref_put r (fill wr off (take (unat sz) (drop (unat addr) (bytes 0 w))) (ref_get r s)) s)
        \<lparr>data_io_req := rq, data_ref := r, insn_cycles := insn_cycles s + ucast (rq_latency rq)\<rparr>, w') \<and> ready w' \<and>
      bytes 0 w' = (if wr then patch (bytes 0 w) (unat addr) (take (unat sz) (drop off (word_bytes (ref_get r s)))) else bytes 0 w)"
proof -
  let ?rq = "(rq_init (data_io_req s))\<lparr>rq_addr := ucast addr, rq_size := scast sz, rq_is_write := wr, rq_data := Some off,
      rq_buf := word_bytes (ref_get r s), rq_resp_port := Some 0\<rparr>"
  have "scast sz = (of_nat (unat sz) :: u64)" using small_casts(2) [of "unat sz"] assms(2) by simp
  then have sz: "unat (scast sz :: u64) = unat sz" using small_casts(3) [of "unat sz"] assms(2) by simp
  have ad: "unat (ucast addr :: u64) = unat addr" by (simp add: unsigned_ucast_eq take_bit_nat_eq_self [OF less_trans [OF unsigned_less [of addr]]])
  obtain rq' w' where t: "tgt 0 ?rq w = Some (IO_REQ_OK, rq', w')" "ready w'"
      "bytes 0 w' = (if wr then patch (bytes 0 w) (unat addr) (take (unat sz) (drop off (word_bytes (ref_get r s)))) else bytes 0 w)"
      "rq_buf rq' = (if wr then word_bytes (ref_get r s) else patch (word_bytes (ref_get r s)) off (take (unat sz) (drop (unat addr) (bytes 0 w))))"
    using access [of w ?rq off 0] assms sz ad by auto
  then show ?thesis
    by (intro exI [of _ rq'] exI [of _ w']) (simp add: data_req_aligned_def Let_def fill_def)
qed

lemma second_half:
  assumes "ready w" "misaligned_access s" "misaligned_data s + unat (misaligned_size s) \<le> 4"
    "unat (misaligned_addr s) + unat (misaligned_size s) \<le> length (bytes 0 w)" "length (bytes 0 w) < 2 ^ 63"
  defines "r \<equiv> data_ref s" and "wr \<equiv> misaligned_is_write s" and "a \<equiv> unat (misaligned_addr s)" and "n \<equiv> unat (misaligned_size s)"
  shows "\<exists>s' w'. lsu_done tgt s w = Some (s', w') \<and> ready w' \<and> \<not> misaligned_access s' \<and>
      reg_view s' = reg_view (ref_put r (fill wr (misaligned_data s) (take n (drop a (bytes 0 w))) (ref_get r s)) s) \<and>
      bytes 0 w' = (if wr then patch (bytes 0 w) a (take n (drop (misaligned_data s) (word_bytes (ref_get r s)))) else bytes 0 w)"
proof -
  let ?s = "iss_pccr_account_event CSR_PCER_LD 1 ((iss_unstall s)\<lparr>insn_cycles := insn_cycles s + 1\<rparr>)"
  let ?v = "fill wr (misaligned_data s) (take n (drop a (bytes 0 w))) (ref_get r ?s)"
  have v: "reg_view ?s = reg_view s" by (simp add: reg_view_def iss_unstall_def)
  obtain rq w' where d: "data_req_aligned tgt (misaligned_addr s) r (misaligned_data s) (misaligned_size s) wr ?s w =
      Some (IO_REQ_OK, (ref_put r ?v ?s)\<lparr>data_io_req := rq, data_ref := r, insn_cycles := insn_cycles ?s + ucast (rq_latency rq)\<rparr>, w')"
    "ready w'" "bytes 0 w' = (if wr then patch (bytes 0 w) a (take n (drop (misaligned_data s) (word_bytes (ref_get r ?s)))) else bytes 0 w)"
    using data_req_aligned_ok [OF assms(1,3,4,5), of r wr ?s] unfolding a_def n_def by metis
  obtain s' where "exec_misaligned tgt s w = Some (s', w')" "\<not> misaligned_access s'" "reg_view s' = reg_view (ref_put r ?v ?s)"
    using exec_misaligned_eq [OF d(1) [unfolded r_def wr_def]] by (auto simp: reg_view_def r_def wr_def)
  then show ?thesis using d(2,3) assms(2) ref_put_view [OF v, of r ?v] ref_get_view [OF v, of r] by (simp add: lsu_done_def)
qed

lemma first_half:
  assumes "ready w" "0 < sz" "sz \<le> 4" "unat addr + sz \<le> length (bytes 0 w)" "length (bytes 0 w) < 2 ^ 63" "unat addr + sz \<le> 2 ^ 32"
    "\<not> one_word addr sz"
  shows "\<exists>s1 w1 n. data_req tgt addr r (of_nat sz) wr s w = Some (IO_REQ_PENDING, s1, w1) \<and> ready w1 \<and> 0 < n \<and> n < sz \<and>
      misaligned_access s1 \<and> misaligned_data s1 = n \<and> unat (misaligned_size s1) = sz - n \<and> unat (misaligned_addr s1) = unat addr + n \<and>
      misaligned_is_write s1 = wr \<and> data_ref s1 = r \<and>
      reg_view s1 = reg_view (ref_put r (fill wr 0 (take n (drop (unat addr) (bytes 0 w))) (ref_get r s)) s) \<and>
      bytes 0 w1 = (if wr then patch (bytes 0 w) (unat addr) (take n (word_bytes (ref_get r s))) else bytes 0 w)"
proof -
  let ?c = "(addr + of_nat sz - 1) AND NOT 3" and ?z = "of_nat sz :: u32"
  let ?s = "(iss_pccr_account_event CSR_PCER_MISALIGNED 1 s)\<lparr>misaligned_access := True, misaligned_size := ?z - (?c - addr),
      misaligned_data := unat (?c - addr), misaligned_addr := ?c, misaligned_is_write := wr\<rparr>"
  have ne: "addr AND NOT 3 \<noteq> ?c" using assms(7) by (simp add: one_word_def)
  note c = cut_access [OF assms(2,3,6) ne]
  have v: "reg_view ?s = reg_view s" by (simp add: reg_view_def)
  obtain rq w1 where d: "data_req_aligned tgt addr r 0 (?c - addr) wr ?s w =
      Some (IO_REQ_OK, (ref_put r (fill wr 0 (take (unat (?c - addr)) (drop (unat addr) (bytes 0 w))) (ref_get r ?s)) ?s)
        \<lparr>data_io_req := rq, data_ref := r, insn_cycles := insn_cycles ?s + ucast (rq_latency rq)\<rparr>, w1)" "ready w1"
      "bytes 0 w1 = (if wr then patch (bytes 0 w) (unat addr) (take (unat (?c - addr)) (drop 0 (word_bytes (ref_get r ?s)))) else bytes 0 w)"
    using data_req_aligned_ok [of w 0 "?c - addr" addr r wr ?s] assms(1,3,4,5) c(1,2) by fastforce
  have g: "ref_get r ?s = ref_get r s" by (rule ref_get_view [OF v])
  define s1 where "s1 = ((ref_put r (fill wr 0 (take (unat (?c - addr)) (drop (unat addr) (bytes 0 w))) (ref_get r s)) ?s)
      \<lparr>data_io_req := rq, data_ref := r, insn_cycles := insn_cycles ?s + ucast (rq_latency rq)\<rparr>)\<lparr>misaligned_latency := rq_latency rq + 1\<rparr>"
  have "data_req tgt addr r ?z wr s w = data_misaligned_req tgt addr r ?z wr s w" unfolding data_req_def using ne by simp
  also have "\<dots> = Some (IO_REQ_PENDING, s1, w1)"
    unfolding data_misaligned_req_def Let_def d(1) s1_def g by simp
  finally have e: "data_req tgt addr r ?z wr s w = Some (IO_REQ_PENDING, s1, w1)" .
  have "reg_view s1 = reg_view (ref_put r (fill wr 0 (take (unat (?c - addr)) (drop (unat addr) (bytes 0 w))) (ref_get r s)) ?s)"
    unfolding s1_def by (simp add: reg_view_def)
  also have "\<dots> = reg_view (ref_put r (fill wr 0 (take (unat (?c - addr)) (drop (unat addr) (bytes 0 w))) (ref_get r s)) s)"
    by (rule ref_put_view [OF v])
  finally have rv: "reg_view s1 = reg_view (ref_put r (fill wr 0 (take (unat (?c - addr)) (drop (unat addr) (bytes 0 w))) (ref_get r s)) s)" .
  have fs: "misaligned_access s1" "misaligned_data s1 = unat (?c - addr)" "misaligned_size s1 = ?z - (?c - addr)" "misaligned_addr s1 = ?c"
    "misaligned_is_write s1 = wr" "data_ref s1 = r" unfolding s1_def by (simp_all del: not_numeral_eq)
  show ?thesis using e d(2,3) [unfolded g drop_0] c rv fs by (intro exI conjI) (assumption | simp only: fs c)+
qed

lemma access_done:
  assumes "ready w" "0 < sz" "sz \<le> 4" "unat addr + sz \<le> length (bytes 0 w)" "length (bytes 0 w) < 2 ^ 63" "unat addr + sz \<le> 2 ^ 32"
    "\<not> misaligned_access s"
  shows "\<exists>s1 w1. data_req tgt addr r (of_nat sz) wr s w = Some (if one_word addr sz then IO_REQ_OK else IO_REQ_PENDING, s1, w1) \<and>
    (one_word addr sz \<longrightarrow> \<not> misaligned_access s1) \<and>
    (\<forall>s2. lsu_view s2 = lsu_view s1 \<longrightarrow> (\<exists>s3 w3. lsu_done tgt s2 w1 = Some (s3, w3) \<and> ready w3 \<and> \<not> misaligned_access s3 \<and>
       (one_word addr sz \<longrightarrow> s3 = s2) \<and>
       reg_view s3 = reg_view (ref_put r (fill wr 0 (take sz (drop (unat addr) (bytes 0 w))) (ref_get r s)) s) \<and>
       bytes 0 w3 = (if wr then patch (bytes 0 w) (unat addr) (take sz (word_bytes (ref_get r s))) else bytes 0 w)))"
proof (cases "one_word addr sz")
  case True
  have z: "unat (of_nat sz :: u32) = sz" using assms(3) by (simp add: unat_of_nat take_bit_nat_eq_self)
  have "data_req tgt addr r (of_nat sz) wr s w = data_req_aligned tgt addr r 0 (of_nat sz) wr s w"
    using True by (simp add: data_req_def one_word_def)
  then show ?thesis
    using data_req_aligned_ok [of w 0 "of_nat sz" addr r wr s] assms z True by (auto simp: lsu_view_def lsu_done_def reg_view_def)
next
  case False
  obtain s1 w1 n where f: "data_req tgt addr r (of_nat sz) wr s w = Some (IO_REQ_PENDING, s1, w1)" "ready w1" "0 < n" "n < sz"
    "misaligned_access s1" "misaligned_data s1 = n" "unat (misaligned_size s1) = sz - n" "unat (misaligned_addr s1) = unat addr + n"
    "misaligned_is_write s1 = wr" "data_ref s1 = r"
    "reg_view s1 = reg_view (ref_put r (fill wr 0 (take n (drop (unat addr) (bytes 0 w))) (ref_get r s)) s)"
    "bytes 0 w1 = (if wr then patch (bytes 0 w) (unat addr) (take n (word_bytes (ref_get r s))) else bytes 0 w)"
    using first_half [OF assms(1-6) False, of r wr s] by blast
  let ?m = "bytes 0 w" and ?a = "unat addr" and ?v = "ref_get r s"
  have l: "length (bytes 0 w1) = length ?m" using f(4,12) assms(3,4) by simp
  have lt: "length (take n (drop ?a ?m)) = n" "length (take (sz - n) (drop (?a + n) ?m)) = sz - n" "length (take n (word_bytes ?v)) = n"
    "length (take (sz - n) (drop n (word_bytes ?v))) = sz - n"
    using f(4) assms(3,4) by simp_all
  have "\<exists>s3 w3. lsu_done tgt s2 w1 = Some (s3, w3) \<and> ready w3 \<and> \<not> misaligned_access s3 \<and>
       reg_view s3 = reg_view (ref_put r (fill wr 0 (take sz (drop ?a ?m)) ?v) s) \<and>
       bytes 0 w3 = (if wr then patch ?m ?a (take sz (word_bytes ?v)) else ?m)" if e: "lsu_view s2 = lsu_view s1" for s2
  proof -
    let ?x = "fill wr 0 (take n (drop ?a ?m)) ?v" and ?y = "take (sz - n) (drop (?a + n) (bytes 0 w1))"
    have e': "misaligned_access s2" "misaligned_data s2 = n" "unat (misaligned_size s2) = sz - n" "unat (misaligned_addr s2) = ?a + n"
      "misaligned_is_write s2 = wr" "data_ref s2 = r" "reg_view s2 = reg_view (ref_put r ?x s)"
      using e f by (simp_all add: lsu_view_def reg_view_def)
    have g: "ref_get r s2 = ?x" using ref_get_view [OF e'(7), of r] by simp
    obtain s3 w3 where h: "lsu_done tgt s2 w1 = Some (s3, w3)" "ready w3" "\<not> misaligned_access s3"
      "reg_view s3 = reg_view (ref_put r (fill wr n ?y (ref_get r s2)) s2)"
      "bytes 0 w3 = (if wr then patch (bytes 0 w1) (?a + n) (take (sz - n) (drop n (word_bytes (ref_get r s2)))) else bytes 0 w1)"
      using second_half [OF f(2) e'(1)] e' l f(3,4) assms(3-5) by auto
    have "reg_view s3 = reg_view (ref_put r (fill wr n ?y ?x) s)"
      using h(4) g ref_put_view [OF e'(7), of r "fill wr n ?y ?x"] by simp
    moreover have "fill wr n ?y ?x = fill wr 0 (take sz (drop ?a ?m)) ?v"
      using fill_fill [of "take n (drop ?a ?m)" "take (sz - n) (drop (?a + n) ?m)" wr ?v] lt f(4,12) assms(3) take_split [of n sz ?a ?m]
      by (cases wr) (simp_all add: fill_def)
    moreover have "bytes 0 w3 = (if wr then patch ?m ?a (take sz (word_bytes ?v)) else ?m)"
      using h(5) f(4,12) g lt patch_patch [of ?a "take n (word_bytes ?v)" "take (sz - n) (drop n (word_bytes ?v))" ?m] assms(3,4)
        take_split [of n sz 0 "word_bytes ?v"] by (simp add: fill_def)
    ultimately show ?thesis using h(1-3) by metis
  qed
  then show ?thesis using f(1) False by auto
qed

end

section \<open>Loads and stores\<close>

text \<open>The number a load without sign makes of the bytes.\<close>

definition zero_ext :: "u8 list \<Rightarrow> u32" where
  "zero_ext bs = bytes_word (patch (word_bytes 0) 0 bs)"

lemma zero_ext_bytes: "sz \<le> 4 \<Longrightarrow> zero_ext (take sz (word_bytes v)) = take_bit (8 * sz) v"
proof (rule bit_eqI)
  fix n assume sz: "sz \<le> 4" and "possible_bit TYPE(u32) n"
  then have n: "n < 32" "n div 8 < 4" "8 * (n div 8) + n mod 8 = n" by (simp_all add: possible_bit_word)
  have "n div 8 < sz \<longleftrightarrow> n < 8 * sz" by (simp add: div_less_iff_less_mult mult.commute)
  then show "bit (zero_ext (take sz (word_bytes v))) n \<longleftrightarrow> bit (take_bit (8 * sz) v) n"
    using sz n patch_nth [of 0 "take sz (word_bytes v)" "word_bytes 0" "n div 8"]
    by (auto simp: zero_ext_def bit_bytes_word word_bytes_nth bit_simps)
qed

lemma bit_fill_low:
  assumes "length bs = sz" "sz \<le> 4" "n < 8 * sz"
  shows "bit (fill False 0 bs v) n \<longleftrightarrow> bit (zero_ext bs) n"
proof -
  have "n < 32" "n div 8 < sz" using assms by (simp_all add: div_less_iff_less_mult mult.commute)
  then show ?thesis using assms(1,2) patch_nth [of 0 bs "word_bytes v" "n div 8"] patch_nth [of 0 bs "word_bytes 0" "n div 8"]
    by (simp add: fill_def zero_ext_def bit_bytes_word)
qed

lemma signed_value_eq:
  assumes "0 < k" "k \<le> 32"
  shows "iss_get_signed_value v k = signed_take_bit (k - 1) v"
proof (rule bit_eqI)
  fix n assume "possible_bit TYPE(u32) n"
  then have "n < 32" by (simp add: possible_bit_word)
  then show "bit (iss_get_signed_value v k) n \<longleftrightarrow> bit (signed_take_bit (k - 1) v) n"
    using assms by (cases "n = k - 1") (auto simp: iss_get_signed_value_def bit_simps min_def le_diff_conv)
qed

lemma signed_value_low:
  assumes "0 < k" "k \<le> 32" "\<And>n. n < k \<Longrightarrow> bit u n \<longleftrightarrow> bit v n"
  shows "iss_get_signed_value u k = iss_get_signed_value v k"
  unfolding signed_value_eq [OF assms(1,2)] using assms by (intro bit_eqI) (auto simp: bit_signed_take_bit_iff min_def)

lemma stall_view:
  "lsu_view (iss_exec_insn_stall (s\<lparr>stall_callback := cb, stall_reg := r\<rparr>)) = lsu_view s"
  "lsu_view (iss_exec_insn_stall (s\<lparr>stall_callback := cb, stall_reg := r, stall_size := k\<rparr>)) = lsu_view s"
  by (simp_all add: lsu_view_def iss_exec_insn_stall_def)

lemma set_reg_simps [simp]:
  "misaligned_access (iss_set_reg r v s) = misaligned_access s" "null_reg (iss_set_reg r v s) = null_reg s"
  "regs (iss_set_reg r v s) = (if r = 0 then regs s else (regs s)(r := v))"
  by (simp_all add: iss_set_reg_def)

context byte_target begin

text \<open>With what the instruction does when the access is not over.\<close>

lemma access_done_with:
  assumes "ready w" "0 < sz" "sz \<le> 4" "unat addr + sz \<le> length (bytes 0 w)" "length (bytes 0 w) < 2 ^ 63" "unat addr + sz \<le> 2 ^ 32"
    "\<not> misaligned_access s" "\<And>s. lsu_view (g s) = lsu_view s"
  obtains s1 w1 s3 w3 where
    "data_req tgt addr r (of_nat sz) wr s w = Some (if one_word addr sz then IO_REQ_OK else IO_REQ_PENDING, s1, w1)"
    "lsu_done tgt (if one_word addr sz then s1 else g s1) w1 = Some (s3, w3)" "ready w3" "\<not> misaligned_access s3"
    "one_word addr sz \<Longrightarrow> s3 = s1 \<and> w3 = w1"
    "reg_view s3 = reg_view (ref_put r (fill wr 0 (take sz (drop (unat addr) (bytes 0 w))) (ref_get r s)) s)"
    "bytes 0 w3 = (if wr then patch (bytes 0 w) (unat addr) (take sz (word_bytes (ref_get r s))) else bytes 0 w)"
proof -
  obtain s1 w1 where a: "data_req tgt addr r (of_nat sz) wr s w = Some (if one_word addr sz then IO_REQ_OK else IO_REQ_PENDING, s1, w1)"
    "one_word addr sz \<Longrightarrow> \<not> misaligned_access s1"
    "\<And>s2. lsu_view s2 = lsu_view s1 \<Longrightarrow> \<exists>s3 w3. lsu_done tgt s2 w1 = Some (s3, w3) \<and> ready w3 \<and> \<not> misaligned_access s3 \<and>
       (one_word addr sz \<longrightarrow> s3 = s2) \<and>
       reg_view s3 = reg_view (ref_put r (fill wr 0 (take sz (drop (unat addr) (bytes 0 w))) (ref_get r s)) s) \<and>
       bytes 0 w3 = (if wr then patch (bytes 0 w) (unat addr) (take sz (word_bytes (ref_get r s))) else bytes 0 w)"
    using access_done [OF assms(1-7), of r wr] by metis
  have "lsu_view (if one_word addr sz then s1 else g s1) = lsu_view s1" using assms(8) by simp
  then obtain s3 w3 where b: "lsu_done tgt (if one_word addr sz then s1 else g s1) w1 = Some (s3, w3)" "ready w3" "\<not> misaligned_access s3"
       "reg_view s3 = reg_view (ref_put r (fill wr 0 (take sz (drop (unat addr) (bytes 0 w))) (ref_get r s)) s)"
       "bytes 0 w3 = (if wr then patch (bytes 0 w) (unat addr) (take sz (word_bytes (ref_get r s))) else bytes 0 w)"
    using a(3) by metis
  have "one_word addr sz \<Longrightarrow> s3 = s1 \<and> w3 = w1" using b(1) a(2) by (simp add: lsu_done_def)
  then show ?thesis using that a(1) b by blast
qed

lemma store_done:
  assumes "ready w" "0 < sz" "sz \<le> 4" "unat addr + sz \<le> length (bytes 0 w)" "length (bytes 0 w) < 2 ^ 63" "unat addr + sz \<le> 2 ^ 32"
    "\<not> misaligned_access s"
  shows "\<exists>s1 w1 s2 w2. iss_lsu_store tgt addr sz r s w = Some (s1, w1) \<and> lsu_done tgt s1 w1 = Some (s2, w2) \<and> ready w2 \<and>
    \<not> misaligned_access s2 \<and> regs s2 = regs s \<and> bytes 0 w2 = patch (bytes 0 w) (unat addr) (take sz (word_bytes (regs s r)))"
proof -
  let ?g = "\<lambda>s. iss_exec_insn_stall (s\<lparr>stall_callback := Some Iss_Lsu_Store_Resume, stall_reg := r\<rparr>)"
  obtain s1 w1 s3 w3 where d: "data_req tgt addr (Reg_Ref r) (of_nat sz) True s w =
      Some (if one_word addr sz then IO_REQ_OK else IO_REQ_PENDING, s1, w1)"
    "lsu_done tgt (if one_word addr sz then s1 else ?g s1) w1 = Some (s3, w3)" "ready w3" "\<not> misaligned_access s3"
    "reg_view s3 = reg_view s" "bytes 0 w3 = patch (bytes 0 w) (unat addr) (take sz (word_bytes (regs s r)))"
    by (rule access_done_with [OF assms, where g = ?g and r = "Reg_Ref r" and wr = True])
      (auto simp: stall_view fill_def ref_put_def ref_get_def reg_view_def)
  moreover have "iss_lsu_store tgt addr sz r s w = Some (if one_word addr sz then s1 else ?g s1, w1)"
    using d(1) by (simp add: iss_lsu_store_def iss_reg_store_ref_def)
  ultimately show ?thesis by (auto simp: reg_view_def)
qed

lemma load_done:
  assumes "ready w" "0 < sz" "sz \<le> 4" "unat addr + sz \<le> length (bytes 0 w)" "length (bytes 0 w) < 2 ^ 63" "unat addr + sz \<le> 2 ^ 32"
    "\<not> misaligned_access s"
  shows "\<exists>s1 w1 s2 w2. iss_lsu_load tgt addr sz r s w = Some (s1, w1) \<and> lsu_done tgt s1 w1 = Some (s2, w2) \<and> ready w2 \<and>
    \<not> misaligned_access s2 \<and> bytes 0 w2 = bytes 0 w \<and>
    regs s2 = (if r = 0 then regs s else (regs s)(r := zero_ext (take sz (drop (unat addr) (bytes 0 w)))))"
proof -
  have m: "\<not> misaligned_access (iss_set_reg r 0 s)" using assms(7) by simp
  have k: "regs (ref_put (iss_reg_ref r) (fill False 0 bs (ref_get (iss_reg_ref r) (iss_set_reg r 0 s))) (iss_set_reg r 0 s)) =
      (if r = 0 then regs s else (regs s)(r := zero_ext bs))" for bs
    by (simp add: fill_def zero_ext_def iss_reg_ref_def ref_put_def ref_get_def)
  let ?g = "\<lambda>s. iss_exec_insn_stall (s\<lparr>stall_callback := Some Iss_Lsu_Load_Resume, stall_reg := r\<rparr>)"
  obtain s1 w1 s3 w3 where d: "data_req tgt addr (iss_reg_ref r) (of_nat sz) False (iss_set_reg r 0 s) w =
      Some (if one_word addr sz then IO_REQ_OK else IO_REQ_PENDING, s1, w1)"
    "lsu_done tgt (if one_word addr sz then s1 else ?g s1) w1 = Some (s3, w3)" "ready w3" "\<not> misaligned_access s3"
    "regs s3 = (if r = 0 then regs s else (regs s)(r := zero_ext (take sz (drop (unat addr) (bytes 0 w)))))" "bytes 0 w3 = bytes 0 w"
    by (rule access_done_with [OF assms(1-6) m, where g = ?g and r = "iss_reg_ref r" and wr = False]) (auto simp: reg_view_def k stall_view)
  moreover have "iss_lsu_load tgt addr sz r s w = Some (if one_word addr sz then s1 else ?g s1, w1)"
    using d(1) by (simp add: iss_lsu_load_def)
  ultimately show ?thesis by auto
qed

lemma load_signed_done:
  assumes "ready w" "0 < sz" "sz \<le> 4" "unat addr + sz \<le> length (bytes 0 w)" "length (bytes 0 w) < 2 ^ 63" "unat addr + sz \<le> 2 ^ 32"
    "\<not> misaligned_access s" "one_word addr sz"
  shows "\<exists>s1 w1. iss_lsu_load_signed tgt addr sz r s w = Some (s1, w1) \<and> ready w1 \<and> \<not> misaligned_access s1 \<and> bytes 0 w1 = bytes 0 w \<and>
    regs s1 = (if r = 0 then regs s
      else (regs s)(r := signed_take_bit (8 * sz - 1) (zero_ext (take sz (drop (unat addr) (bytes 0 w))))))"
proof -
  let ?bs = "take sz (drop (unat addr) (bytes 0 w))"
  have l: "length ?bs = sz" using assms(4) by simp
  have z: "iss_get_signed_value (fill False 0 ?bs v) (8 * sz) = signed_take_bit (8 * sz - 1) (zero_ext ?bs)" for v
    using signed_value_low [of "8 * sz" "fill False 0 ?bs v" "zero_ext ?bs"] signed_value_eq [of "8 * sz" "zero_ext ?bs"]
      bit_fill_low [OF l assms(3)] assms(2,3) by simp
  obtain s1 w1 where "data_req tgt addr (iss_reg_ref r) (of_nat sz) False s w = Some (IO_REQ_OK, s1, w1)" "ready w1" "\<not> misaligned_access s1"
    "reg_view s1 = reg_view (ref_put (iss_reg_ref r) (fill False 0 ?bs (ref_get (iss_reg_ref r) s)) s)" "bytes 0 w1 = bytes 0 w"
    by (rule access_done_with [OF assms(1-7), where g = "\<lambda>s. s" and r = "iss_reg_ref r" and wr = False]) (use assms(8) in auto)
  then show ?thesis
    by (auto simp: iss_lsu_load_signed_def iss_get_reg_untimed_def iss_reg_ref_def ref_put_def ref_get_def reg_view_def mult.commute [of sz] z
        fun_eq_iff split: if_splits)
qed

text \<open>A signed load that crosses a word is never extended: the callback that would do it is not called at the end of
  the second half, and the upper bytes of the register keep what they had before.\<close>

lemma load_signed_split:
  assumes "ready w" "0 < sz" "sz \<le> 4" "unat addr + sz \<le> length (bytes 0 w)" "length (bytes 0 w) < 2 ^ 63" "unat addr + sz \<le> 2 ^ 32"
    "\<not> misaligned_access s" "\<not> one_word addr sz" "r \<noteq> 0"
  shows "\<exists>s1 w1 s2 w2. iss_lsu_load_signed tgt addr sz r s w = Some (s1, w1) \<and> lsu_done tgt s1 w1 = Some (s2, w2) \<and>
    regs s2 = (regs s)(r := fill False 0 (take sz (drop (unat addr) (bytes 0 w))) (regs s r))"
proof -
  let ?g = "\<lambda>s. iss_exec_insn_stall (s\<lparr>stall_callback := Some Iss_Lsu_Load_Signed_Resume, stall_reg := r, stall_size := sz\<rparr>)"
  obtain s1 w1 s3 w3 where d: "data_req tgt addr (Reg_Ref r) (of_nat sz) False s w =
      Some (if one_word addr sz then IO_REQ_OK else IO_REQ_PENDING, s1, w1)"
    "lsu_done tgt (if one_word addr sz then s1 else ?g s1) w1 = Some (s3, w3)"
    "regs s3 = (regs s)(r := fill False 0 (take sz (drop (unat addr) (bytes 0 w))) (regs s r))"
    by (rule access_done_with [OF assms(1-7), where g = ?g and r = "Reg_Ref r" and wr = False])
      (auto simp: stall_view ref_put_def ref_get_def reg_view_def)
  moreover have "iss_lsu_load_signed tgt addr sz r s w = Some (?g s1, w1)"
    using d(1) assms(8,9) by (simp add: iss_lsu_load_signed_def iss_reg_ref_def)
  ultimately show ?thesis using assms(8) by auto
qed

end

section \<open>Round trip\<close>

text \<open>C20. A store followed by a load of the same size at the same address of the memory behind the data port, both carried to
  their end (accesses that cross a word take a second step, later): the memory has the bytes of the stored register at the address and is
  otherwise unchanged, and the loaded register has the stored number, zero-extended; register 0 is never
  changed by a load.\<close>

theorem store_load_roundtrip:
  fixes mems :: "nat \<Rightarrow> memory"
  assumes "mems_ready mems" "sz \<in> {1, 2, 4}" "unat addr + sz \<le> length (mem_data (mems 0))" "length (mem_data (mems 0)) \<le> 2 ^ 32"
    "\<not> misaligned_access s"
  shows "\<exists>s1 m1 s2 m2 s3 m3 s4 m4.
    iss_lsu_store (mem_target cycles time) addr sz r s mems = Some (s1, m1) \<and> lsu_done (mem_target cycles time) s1 m1 = Some (s2, m2) \<and>
    iss_lsu_load (mem_target cycles' time') addr sz r' s2 m2 = Some (s3, m3) \<and> lsu_done (mem_target cycles' time') s3 m3 = Some (s4, m4) \<and>
    mem_data (m4 0) = patch (mem_data (mems 0)) (unat addr) (take sz (word_bytes (regs s r))) \<and>
    regs s4 = (if r' = 0 then regs s else (regs s)(r' := take_bit (8 * sz) (regs s r)))"
proof -
  have z: "0 < sz" "sz \<le> 4" using assms(2) by auto
  have b: "length (mem_data (mems 0)) < 2 ^ 63" "unat addr + sz \<le> 2 ^ 32" using assms(3,4) by simp_all
  obtain s1 m1 s2 m2 where st: "iss_lsu_store (mem_target cycles time) addr sz r s mems = Some (s1, m1)"
    "lsu_done (mem_target cycles time) s1 m1 = Some (s2, m2)" "mems_ready m2" "\<not> misaligned_access s2" "regs s2 = regs s"
    "mem_data (m2 0) = patch (mem_data (mems 0)) (unat addr) (take sz (word_bytes (regs s r)))"
    using mem.store_done [OF assms(1) z assms(3) b assms(5), of cycles time r] by blast
  have l: "length (mem_data (m2 0)) = length (mem_data (mems 0))" using st(6) assms(3) z by simp
  have bytes: "take sz (drop (unat addr) (mem_data (m2 0))) = take sz (word_bytes (regs s r))"
    unfolding st(6) using assms(3) z by (simp add: patch_def)
  have "zero_ext (take sz (drop (unat addr) (mem_data (m2 0)))) = take_bit (8 * sz) (regs s r)"
    unfolding bytes by (rule zero_ext_bytes [OF z(2)])
  then show ?thesis
    using mem.load_done [OF st(3) z _ _ b(2) st(4), of cycles' time' r'] st l b assms(3) by auto
qed

definition sample_iss :: iss where
  "sample_iss = \<lparr>regs = (\<lambda>r. if r = 0 then 0 else 0x57575757), null_reg = 0, insn_cache = insn_cache_init sample_cache0, pf_data = replicate 16 0,
     pf_addr = - 1, current_insn = None, prev_insn = None, stall_insn = None, prefetch_insn = None, hwloop_start_insn = (\<lambda>_. None),
     hwloop_end_insn = (\<lambda>_. None), hwloop_next_insn = None, hwloop_regs = (\<lambda>_. 0), insn_cycles = 0, fetch_cycles = 0, stall_callback = None,
     fetch_stall_callback = None, fetch_stall_opcode = 0, stall_reg = 0, stall_size = 0, do_fetch = False, elw_insn = None, elw_stalled = False,
     elw_interrupted = False, debug_mode = False, priv_1_10 = False, cf_debug_handler = 0, vectors = (\<lambda>_. None), irq_enable = False,
     saved_irq_enable = False, debug_saved_irq_enable = False, req_irq = -1, req_debug = False, vector_base = 0, debug_handler = None, csr_epc = 0,
     csr_depc = 0, csr_dcsr = 0, csr_mcause = 0, pccr = (\<lambda>_. 0), pcer = 0, pcmr = 0, stack_conf = 0, stack_start = 0, stack_end = 0,
     data_io_req = sample_req 0 0 False, data_ref = Null_Reg_Ref, fetch_io_req = sample_req 0 0 False, stalled = 0, wfi = False, misaligned_access = False, misaligned_size = 0,
     misaligned_data = 0, misaligned_addr = 0, misaligned_is_write = False, misaligned_latency = 0, is_active_reg = True, halted = False,
     fetch_enable_reg = True, step_mode = False, do_step = False, riscv_dbg_unit = False, halt_cause = 0, wakeup_latency = 0, wr_irq_req = -1,
     wr_irq_req_value = 0, current_event = Instr_Event, enqueued = (\<lambda>_. None), irq_acks = [], res_cycles = (\<lambda>_. 0),
     clock_cycles = 0, single_regfile = False, pipeline_stages = 2, insn_traced = False, bootaddr_reg = 0, bootaddr_offset = 0, ppc = 0, npc = 0,
     hit_reg = 0, iss_opened = True, gdbserver = False, gdb_signals = 0, clock_retained = 0, halt_status = [], flush_bound = False, flush_reqs = 0,
     csr_status = 0x1800, csr_mtvec = 0, csr_scratch0 = 0, csr_scratch1 = 0, csr_mscratch = 0, fcsr_raw = 0, fcsr_frm = 0, fprec = 0, cf_mhartid = 0,
     cf_misa = 0, cf_secure = False, pulpv2_hwloop = True, ext_counter = (\<lambda>_. None)\<rparr>"

definition lsu_mems :: "nat \<Rightarrow> memory" where
  "lsu_mems p = sample_memory\<lparr>check_mem := None\<rparr>"

lemma lsu_mems_ready: "mems_ready lsu_mems" "length (mem_data (lsu_mems p)) = 16"
  by (simp_all add: mems_ready_def lsu_mems_def mem_inv_def sample_memory_def mem_reset_def mem_start_def)

text \<open>A word at address 6, over two words of the memory.\<close>

theorem store_load_roundtrip_witness:
  "\<exists>s1 m1 s2 m2 s3 m3 s4 m4. iss_lsu_store (mem_target 0 0) 6 4 5 sample_iss lsu_mems = Some (s1, m1) \<and> lsu_done (mem_target 0 0) s1 m1 = Some (s2, m2) \<and>
     iss_lsu_load (mem_target 1 9) 6 4 7 s2 m2 = Some (s3, m3) \<and> lsu_done (mem_target 1 9) s3 m3 = Some (s4, m4) \<and> regs s4 7 = 0x57575757 \<and>
     \<not> one_word 6 4"
proof -
  have "\<not> misaligned_access sample_iss" "regs sample_iss 5 = 0x57575757" by (simp_all add: sample_iss_def)
  moreover have "\<not> one_word 6 4" by (simp add: one_word_def)
  ultimately show ?thesis
    using store_load_roundtrip [OF lsu_mems_ready(1), of 4 6 sample_iss 0 0 5 1 9 7] lsu_mems_ready(2) [of 0] by auto
qed

end
