(* ===== verification/Iss_Decoder.thy ===== *)
theory Iss_Decoder
  imports Iss_Lsu
begin

text \<open>
  The decoder (\<^verbatim>\<open>iss/src/decoder.cpp\<close>): a walk through the tree of opcodes, which is generated from the description of the
  instruction sets and is an argument here, and the filling of the entry of the instruction from the description that was found.
  A description names its handlers and its decode function by a number; what the decode functions do is the argument \<open>dec\<close>. The latency of the
  resources is in \<^verbatim>\<open>iss/src/resource.cpp\<close>.
\<close>

section \<open>Descriptions\<close>

record decoder_range =
  rg_bit :: nat
  rg_width :: nat
  rg_shift :: nat

datatype arg_info = Value_Uim u32 | Value_Sim u32 | Value_Range "decoder_range list"

record reg_arg =
  ra_id :: nat
  ra_compressed :: bool
  ra_freg :: bool
  ra_latency :: int
  ra_info :: arg_info

record imm_arg =
  ia_signed :: bool
  ia_id :: nat
  ia_info :: arg_info

datatype decoder_arg = Arg_None | Arg_Out_Reg reg_arg | Arg_In_Reg reg_arg | Arg_Uimm imm_arg | Arg_Simm imm_arg
  | Arg_Indirect_Imm reg_arg imm_arg | Arg_Indirect_Reg reg_arg reg_arg | Arg_Flag

record insn_item =
  it_active :: bool
  it_label :: nat
  it_decode :: "nat option"
  it_size :: u32
  it_latency :: int
  it_args :: "decoder_arg list"
  it_resource_id :: int
  it_resource_latency :: int
  it_resource_bandwidth :: int

text \<open>The members of a group come with their opcode, \<open>None\<close> for the one that takes all other opcodes.\<close>

datatype decoder_item = Insn_Item insn_item | Group_Item nat nat "(u32 option \<times> decoder_item) list"

type_synonym insn_decode = "nat \<Rightarrow> iptr \<Rightarrow> iss \<Rightarrow> iss"

section \<open>Fields\<close>

fun decode_fields :: "u32 \<Rightarrow> decoder_range list \<Rightarrow> u32 \<Rightarrow> nat \<Rightarrow> u32 \<times> nat" where
  "decode_fields opcode [] result bits = (result, bits)"
| "decode_fields opcode (r # rs) result bits =
     decode_fields opcode rs (result OR push_bit (rg_shift r) (iss_get_field opcode (rg_bit r) (rg_width r))) (max bits (rg_width r + rg_shift r))"

definition decode_ranges :: "u32 \<Rightarrow> decoder_range list \<Rightarrow> bool \<Rightarrow> u32" where
  "decode_ranges opcode ranges is_signed =
     (let (result, bits) = decode_fields opcode ranges 0 0 in if is_signed then iss_get_signed_value result bits else result)"

definition decode_info :: "u32 \<Rightarrow> arg_info \<Rightarrow> bool \<Rightarrow> u32" where
  "decode_info opcode info is_signed =
     (case info of Value_Range rs \<Rightarrow> decode_ranges opcode rs is_signed | Value_Uim v \<Rightarrow> v | Value_Sim v \<Rightarrow> v)"

text \<open>Immediate arguments are always given by ranges.\<close>

definition info_ranges :: "arg_info \<Rightarrow> decoder_range list" where
  "info_ranges info = (case info of Value_Range rs \<Rightarrow> rs | _ \<Rightarrow> [])"

definition reg_index :: "u32 \<Rightarrow> reg_arg \<Rightarrow> int" where
  "reg_index opcode ra = sint (decode_info opcode (ra_info ra) False) + (if ra_compressed ra then 8 else 0)"

section \<open>Instructions\<close>

definition set_in_reg :: "nat \<Rightarrow> int \<Rightarrow> iss_insn \<Rightarrow> iss_insn" where
  "set_in_reg k v insn = insn\<lparr>in_regs := (in_regs insn)(k := v), nb_in_reg := (if int k \<ge> nb_in_reg insn then int k + 1 else nb_in_reg insn)\<rparr>"

definition set_out_reg :: "nat \<Rightarrow> int \<Rightarrow> iss_insn \<Rightarrow> iss_insn" where
  "set_out_reg k v insn = insn\<lparr>out_regs := (out_regs insn)(k := v), nb_out_reg := (if int k \<ge> nb_out_reg insn then int k + 1 else nb_out_reg insn)\<rparr>"

text \<open>The latency of a result is left in the entry of the next instruction.\<close>

definition set_next_latency :: "iptr \<Rightarrow> int \<Rightarrow> int \<Rightarrow> iss \<Rightarrow> iss option" where
  "set_next_latency p r latency s = do {
     insn \<leftarrow> insn_of s (Some p);
     let (next, s1) = iss_insn_get (i_addr insn + i_size insn) s;
     Some (insn_put (\<lambda>i. i\<lparr>input_latency_reg := r, input_latency := latency\<rparr>) next s1)
   }"

definition full_index :: "u32 \<Rightarrow> reg_arg \<Rightarrow> iss \<Rightarrow> int" where
  "full_index opcode ra s = reg_index opcode ra + (if \<not> single_regfile s \<and> ra_freg ra then 32 else 0)"

definition decode_arg :: "iptr \<Rightarrow> u32 \<Rightarrow> decoder_arg \<Rightarrow> iss \<Rightarrow> iss option" where
  "decode_arg p opcode arg s =
     (case arg of
        Arg_In_Reg ra \<Rightarrow> Some (insn_put (set_in_reg (ra_id ra) (full_index opcode ra s)) p s)
      | Arg_Out_Reg ra \<Rightarrow>
          let v = full_index opcode ra s; s1 = insn_put (set_out_reg (ra_id ra) v) p s
          in if ra_latency ra \<noteq> 0 then set_next_latency p v (ra_latency ra) s1 else Some s1
      | Arg_Uimm ia \<Rightarrow>
          Some (insn_put (\<lambda>i. i\<lparr>uim := (uim i)(ia_id ia := decode_ranges opcode (info_ranges (ia_info ia)) (ia_signed ia))\<rparr>) p s)
      | Arg_Simm ia \<Rightarrow>
          Some (insn_put (\<lambda>i. i\<lparr>sim := (sim i)(ia_id ia := decode_ranges opcode (info_ranges (ia_info ia)) (ia_signed ia))\<rparr>) p s)
      | Arg_Indirect_Imm ra ia \<Rightarrow>
          Some (insn_put (\<lambda>i. i\<lparr>sim := (sim i)(ia_id ia := decode_info opcode (ia_info ia) (ia_signed ia))\<rparr>) p
                 (insn_put (set_in_reg (ra_id ra) (reg_index opcode ra)) p s))
      | Arg_Indirect_Reg ra rb \<Rightarrow>
          Some (insn_put (set_in_reg (ra_id rb) (reg_index opcode rb)) p (insn_put (set_in_reg (ra_id ra) (reg_index opcode ra)) p s))
      | _ \<Rightarrow> Some s)"

fun decode_args :: "iptr \<Rightarrow> u32 \<Rightarrow> decoder_arg list \<Rightarrow> iss \<Rightarrow> iss option" where
  "decode_args p opcode [] s = Some s"
| "decode_args p opcode (a # as) s = Option.bind (decode_arg p opcode a s) (decode_args p opcode as)"

text \<open>The handlers before the arguments are decoded.\<close>

definition set_handlers :: "insn_item \<Rightarrow> iss_insn \<Rightarrow> iss_insn" where
  "set_handlers it insn =
     (let i1 = insn\<lparr>i_latency := 0, fast_handler := Some (Isa_Exec_Fast (it_label it)), handler := Some (Isa_Exec (it_label it)),
                 resource_id := it_resource_id it, resource_latency := it_resource_latency it, resource_bandwidth := it_resource_bandwidth it\<rparr>;
          i2 = (if hwloop_handler i1 \<noteq> None
                then i1\<lparr>hwloop_handler := handler i1, handler := hwloop_handler i1, fast_handler := hwloop_handler i1\<rparr> else i1);
          i3 = (if it_resource_id it \<noteq> -1
                then i2\<lparr>resource_handler := handler i2, fast_handler := Some Iss_Resource_Offload, handler := Some Iss_Resource_Offload\<rparr> else i2);
          n = length (it_args it)
      in i3\<lparr>i_size := it_size it, nb_out_reg := 0, nb_in_reg := 0, i_latency := it_latency it,
           out_regs := (\<lambda>k. if k < n then -1 else out_regs i3 k), in_regs := (\<lambda>k. if k < n then -1 else in_regs i3 k)\<rparr>)"

text \<open>The wait for the result of the instruction before, or for the stages of the pipeline.\<close>

definition add_input_latency :: "int \<Rightarrow> iss_insn \<Rightarrow> iss_insn" where
  "add_input_latency stages insn =
     (if input_latency_reg insn \<noteq> -1 then
        if \<exists>j \<in> {0..<nat (nb_in_reg insn)}. in_regs insn j = input_latency_reg insn
        then insn\<lparr>i_latency := i_latency insn + input_latency insn\<rparr>
        else if input_latency insn > stages then insn\<lparr>i_latency := i_latency insn + (input_latency insn - stages + 1)\<rparr> else insn
      else insn)"

definition set_stall_handlers :: "iss_insn \<Rightarrow> iss_insn" where
  "set_stall_handlers insn =
     (if i_latency insn \<noteq> 0
      then insn\<lparr>stall_handler := handler insn, stall_fast_handler := fast_handler insn, handler := Some Iss_Exec_Stalled_Insn,
             fast_handler := Some Iss_Exec_Stalled_Insn_Fast\<rparr>
      else insn)"

definition set_next :: "iptr \<Rightarrow> iss \<Rightarrow> iss option" where
  "set_next p s = do {
     insn \<leftarrow> insn_of s (Some p);
     let (next, s1) = iss_insn_get (i_addr insn + i_size insn) s;
     Some (insn_put (\<lambda>i. i\<lparr>i_next := Some next\<rparr>) p s1)
   }"

text \<open>The flag says whether the instruction is active.\<close>

definition decode_insn :: "insn_decode \<Rightarrow> iptr \<Rightarrow> u32 \<Rightarrow> insn_item \<Rightarrow> iss \<Rightarrow> (bool \<times> iss) option" where
  "decode_insn dec p opcode it s =
     (if \<not> it_active it then Some (False, s)
      else do {
        s1 \<leftarrow> decode_args p opcode (it_args it) (insn_put (set_handlers it) p s);
        s2 \<leftarrow> set_next p (insn_put (add_input_latency (pipeline_stages s1)) p s1);
        let s3 = (case it_decode it of None \<Rightarrow> s2 | Some k \<Rightarrow> dec k p s2);
        Some (True, insn_put set_stall_handlers p s3)
      })"

section \<open>The walk\<close>

text \<open>The loop over the members of a group: the first member with the opcode, otherwise the last one for the others.\<close>

fun find_member :: "u32 \<Rightarrow> (u32 option \<times> 'a) list \<Rightarrow> 'a option \<Rightarrow> 'a option" where
  "find_member g [] other = other"
| "find_member g ((opc, item) # ms) other =
     (if opc = Some g then Some item else find_member g ms (if opc = None then Some item else other))"

lemma find_member_in: "find_member g ms other = Some x \<Longrightarrow> x \<in> snd ` set ms \<or> other = Some x"
  by (induction g ms other rule: find_member.induct) (auto split: if_splits)

definition group_opcode :: "nat \<Rightarrow> nat \<Rightarrow> u32 \<Rightarrow> u32" where
  "group_opcode bt width opcode = drop_bit bt opcode AND (push_bit width 1 - 1)"

function find_item :: "u32 \<Rightarrow> decoder_item \<Rightarrow> insn_item option" where
  "find_item opcode (Insn_Item it) = Some it"
| "find_item opcode (Group_Item bt width ms) =
     (case find_member (group_opcode bt width opcode) ms None of None \<Rightarrow> None | Some item \<Rightarrow> find_item opcode item)"
  by pat_completeness auto
termination
proof (relation "measure (size \<circ> snd)")
  fix opcode bt width item and ms :: "(u32 option \<times> decoder_item) list"
  assume "find_member (group_opcode bt width opcode) ms None = Some item"
  then obtain o' where "(o', item) \<in> set ms" using find_member_in by fastforce
  then show "((opcode, item), opcode, Group_Item bt width ms) \<in> measure (size \<circ> snd)"
    by (induction ms) auto
qed simp

definition decode_item :: "insn_decode \<Rightarrow> iptr \<Rightarrow> u32 \<Rightarrow> decoder_item \<Rightarrow> iss \<Rightarrow> (bool \<times> iss) option" where
  "decode_item dec p opcode item s =
     (case find_item opcode item of None \<Rightarrow> Some (False, s) | Some it \<Rightarrow> decode_insn dec p opcode it s)"

fun decode_opcode :: "insn_decode \<Rightarrow> decoder_item list \<Rightarrow> iptr \<Rightarrow> u32 \<Rightarrow> iss \<Rightarrow> (bool \<times> iss) option" where
  "decode_opcode dec [] p opcode s = Some (False, s)"
| "decode_opcode dec (isa # isas) p opcode s = do {
     (ok, s1) \<leftarrow> decode_item dec p opcode isa s;
     if ok then Some (True, s1) else decode_opcode dec isas p opcode s1
   }"

definition iss_decode_pc_noexec :: "insn_decode \<Rightarrow> decoder_item list \<Rightarrow> iptr \<Rightarrow> iss \<Rightarrow> iss option" where
  "iss_decode_pc_noexec dec isas p s = do {
     insn \<leftarrow> insn_of s (Some p);
     (ok, s1) \<leftarrow> decode_opcode dec isas p (i_opcode insn) s;
     Some (if \<not> ok then insn_put (\<lambda>i. i\<lparr>handler := Some Iss_Exec_Insn_Illegal, fast_handler := Some Iss_Exec_Insn_Illegal\<rparr>) p s1
           else let s2 = insn_put (\<lambda>i. i\<lparr>i_opcode := i_opcode insn\<rparr>) p s1 in
             if insn_traced s2
             then insn_put (\<lambda>i. i\<lparr>saved_handler := handler i, handler := Some Iss_Exec_Insn_With_Trace, fast_handler := Some Iss_Exec_Insn_With_Trace\<rparr>) p s2
             else s2)
   }"

section \<open>Decoding keeps the cache\<close>

text \<open>The instruction of every pointer stays where it is, with its address.\<close>

definition cache_ext :: "iss_insn_cache \<Rightarrow> iss_insn_cache \<Rightarrow> bool" where
  "cache_ext c c' \<longleftrightarrow> ic_inv c' \<and> (\<forall>p. insn_at c p \<noteq> None \<longrightarrow> insn_at c' p \<noteq> None)"

lemma cache_ext_refl: "ic_inv c \<Longrightarrow> cache_ext c c"
  by (simp add: cache_ext_def)

lemma cache_ext_trans: "cache_ext a b \<Longrightarrow> cache_ext b c \<Longrightarrow> cache_ext a c"
  by (simp add: cache_ext_def)

lemma cache_ext_inv: "cache_ext c c' \<Longrightarrow> ic_inv c'"
  by (simp add: cache_ext_def)

lemma block_put_pc [simp]: "b_pc (block_put f p b) = b_pc b"
  by (simp add: block_put_def)

lemma block_put_ok:
  assumes "block_ok k b" "\<And>i. i_addr (f i) = i_addr i"
  shows "block_ok k (block_put f p b)"
  using assms by (auto simp: block_ok_def block_put_def) (metis nth_list_update_eq nth_list_update_neq)

lemma block_at_update:
  "find (\<lambda>b. b_pc b = a) (ic_blocks (insn_update f p c) (block_id a)) =
     (if a = fst p then map_option (block_put f p) (find (\<lambda>b. b_pc b = a) (ic_blocks c (block_id a)))
      else find (\<lambda>b. b_pc b = a) (ic_blocks c (block_id a)))"
proof -
  have m: "find (\<lambda>b. b_pc b = a') (map (block_put f p) xs) = map_option (block_put f p) (find (\<lambda>b. b_pc b = a') xs)" for xs a'
    by (rule find_map_same) simp
  have "map_option (block_put f p) (find (\<lambda>b. b_pc b = a) xs) = find (\<lambda>b. b_pc b = a) xs" if "a \<noteq> fst p" for xs
    using that by (induction xs) (auto simp: block_put_def)
  then show ?thesis by (simp add: insn_update_def m)
qed

lemma insn_at_update:
  "insn_at (insn_update f p c) q = (if q = p then map_option f (insn_at c p) else insn_at c q)"
proof (cases "find (\<lambda>b. b_pc b = fst p) (ic_blocks c (block_id (fst p)))")
  case None
  then show ?thesis by (simp add: insn_at_def block_at_update)
next
  case (Some b)
  then have "b_pc b = fst p" by (auto simp: find_Some_iff)
  then show ?thesis using Some by (cases p; cases q) (auto simp: insn_at_def block_at_update block_put_def)
qed

lemma insn_update_ext:
  assumes "ic_inv c" "\<And>i. i_addr (f i) = i_addr i"
  shows "cache_ext c (insn_update f p c)"
proof -
  have "map b_pc (map (block_put f p) xs) = map b_pc xs" for xs by simp
  moreover have "list_all (block_ok k) xs \<Longrightarrow> list_all (block_ok k) (map (block_put f p) xs)" for k xs
    using block_put_ok [OF _ assms(2)] by (simp add: list_all_iff)
  ultimately have "ic_inv (insn_update f p c)" using assms(1) by (simp add: ic_inv_def insn_update_def del: map_map)
  then show ?thesis by (simp add: cache_ext_def insn_at_update)
qed

lemma insn_put_ext:
  "ic_inv (insn_cache s) \<Longrightarrow> (\<And>i. i_addr (f i) = i_addr i) \<Longrightarrow> cache_ext (insn_cache s) (insn_cache (insn_put f p s))"
  by (simp add: insn_put_def insn_update_ext)

lemma iss_insn_get_ext:
  assumes "ic_inv (insn_cache s)"
  shows "cache_ext (insn_cache s) (insn_cache (snd (iss_insn_get pc s)))"
  using insn_cache_get_inv [OF assms] insn_cache_get_keeps [OF assms]
  by (auto simp: iss_insn_get_def split_def Let_def cache_ext_def)

lemma put_put_ext:
  assumes "ic_inv (insn_cache s)" "\<And>i. i_addr (f i) = i_addr i" "\<And>i. i_addr (g i) = i_addr i"
  shows "cache_ext (insn_cache s) (insn_cache (insn_put f p (insn_put g q s)))"
  using insn_put_ext [OF assms(1,3)] insn_put_ext [OF cache_ext_inv [OF insn_put_ext [OF assms(1,3)]] assms(2)] cache_ext_trans by blast

lemma cache_ext_valid: "cache_ext c c' \<Longrightarrow> insn_at c p \<noteq> None \<Longrightarrow> insn_at c' p \<noteq> None"
  unfolding cache_ext_def by blast

lemma insn_of_Some: "insn_of s (Some p) = insn_at (insn_cache s) p"
  by (simp add: insn_of_def)

text \<open>The steps of the decoder: they succeed for a valid pointer and extend the cache.\<close>

definition step_ok :: "iptr \<Rightarrow> iss \<Rightarrow> iss option \<Rightarrow> bool" where
  "step_ok p s r \<longleftrightarrow> (\<exists>s'. r = Some s' \<and> cache_ext (insn_cache s) (insn_cache s'))"

lemma step_okI: "cache_ext (insn_cache s) (insn_cache s') \<Longrightarrow> step_ok p s (Some s')"
  by (simp add: step_ok_def)

lemma step_ok_bind:
  assumes "step_ok p s r" "insn_at (insn_cache s) p \<noteq> None"
    "\<And>s'. r = Some s' \<Longrightarrow> ic_inv (insn_cache s') \<Longrightarrow> insn_at (insn_cache s') p \<noteq> None \<Longrightarrow> step_ok p s' (f s')"
  shows "step_ok p s (Option.bind r f)"
proof -
  obtain s' where s: "r = Some s'" "cache_ext (insn_cache s) (insn_cache s')" using assms(1) by (auto simp: step_ok_def)
  then have "step_ok p s' (f s')" using assms(3) [OF s(1) cache_ext_inv [OF s(2)] cache_ext_valid [OF s(2) assms(2)]] by blast
  then show ?thesis using s cache_ext_trans by (auto simp: step_ok_def)
qed

lemma insn_put_keeps: "insn_at (insn_cache s) p \<noteq> None \<Longrightarrow> insn_at (insn_cache (insn_put f q s)) p \<noteq> None"
  by (auto simp: insn_put_def insn_at_update)

lemma entry_fun_addr [simp]:
  "i_addr (set_in_reg k v i) = i_addr i" "i_addr (set_out_reg k v i) = i_addr i" "i_addr (set_handlers it i) = i_addr i"
  "i_addr (add_input_latency n i) = i_addr i" "i_addr (set_stall_handlers i) = i_addr i"
  by (simp_all add: set_in_reg_def set_out_reg_def set_handlers_def add_input_latency_def set_stall_handlers_def Let_def)

lemma put_after_get_ok:
  assumes "ic_inv (insn_cache s)" "insn_at (insn_cache s) p \<noteq> None" "\<And>x i. i_addr (f x i) = i_addr i"
  shows "step_ok p s (Option.bind (insn_of s (Some p)) (\<lambda>insn. let (next, s1) = iss_insn_get (g insn) s in Some (insn_put (f next) (h next) s1)))"
proof -
  obtain insn where i: "insn_of s (Some p) = Some insn" using assms(2) by (auto simp: insn_of_Some)
  obtain n s1 where g: "iss_insn_get (g insn) s = (n, s1)" by fastforce
  then have e: "cache_ext (insn_cache s) (insn_cache s1)" using iss_insn_get_ext [OF assms(1), of "g insn"] by simp
  have "cache_ext (insn_cache s1) (insn_cache (insn_put (f n) (h n) s1))" using insn_put_ext [OF cache_ext_inv [OF e]] assms(3) by simp
  then show ?thesis using i g cache_ext_trans [OF e] by (simp add: step_ok_def)
qed

lemma set_next_ok:
  assumes "ic_inv (insn_cache s)" "insn_at (insn_cache s) p \<noteq> None"
  shows "step_ok p s (set_next p s)"
  unfolding set_next_def Let_def [of "iss_insn_get _ _"]
  by (rule put_after_get_ok [OF assms, where g = "\<lambda>insn. i_addr insn + i_size insn" and h = "\<lambda>_. p", unfolded Let_def]) simp

lemma decode_arg_ok:
  assumes "ic_inv (insn_cache s)" "insn_at (insn_cache s) p \<noteq> None"
  shows "step_ok p s (decode_arg p opcode arg s)"
proof (cases arg)
  case (Arg_Out_Reg ra)
  let ?s = "insn_put (set_out_reg (ra_id ra) (full_index opcode ra s)) p s"
  have e: "cache_ext (insn_cache s) (insn_cache ?s)" using insn_put_ext [OF assms(1)] by simp
  have "step_ok p ?s (set_next_latency p (full_index opcode ra s) (ra_latency ra) ?s)"
    unfolding set_next_latency_def using put_after_get_ok [OF cache_ext_inv [OF e] insn_put_keeps [OF assms(2)]] by simp
  then show ?thesis using e cache_ext_trans [OF e] Arg_Out_Reg by (auto simp: step_ok_def decode_arg_def Let_def)
next
  case (Arg_Indirect_Imm ra ia)
  then show ?thesis using put_put_ext [OF assms(1)] by (simp add: step_ok_def decode_arg_def)
next
  case (Arg_Indirect_Reg ra rb)
  then show ?thesis using put_put_ext [OF assms(1)] by (simp add: step_ok_def decode_arg_def)
qed (use insn_put_ext [OF assms(1)] cache_ext_refl [OF assms(1)] in \<open>simp_all add: step_ok_def decode_arg_def\<close>)

lemma decode_args_ok:
  "ic_inv (insn_cache s) \<Longrightarrow> insn_at (insn_cache s) p \<noteq> None \<Longrightarrow> step_ok p s (decode_args p opcode args s)"
proof (induction args arbitrary: s)
  case Nil
  then show ?case by (simp add: step_ok_def cache_ext_refl)
next
  case (Cons a args)
  show ?case unfolding decode_args.simps
    by (rule step_ok_bind [OF decode_arg_ok [OF Cons.prems] Cons.prems(2)]) (rule Cons.IH)
qed

text \<open>What is asked of the decode functions of the instructions.\<close>

definition dec_ok :: "insn_decode \<Rightarrow> bool" where
  "dec_ok dec \<longleftrightarrow> (\<forall>k p s. ic_inv (insn_cache s) \<longrightarrow> cache_ext (insn_cache s) (insn_cache (dec k p s)))"

lemma dec_okD: "dec_ok dec \<Longrightarrow> ic_inv (insn_cache s) \<Longrightarrow> cache_ext (insn_cache s) (insn_cache (dec k p s))"
  unfolding dec_ok_def by blast

lemma decode_insn_ok:
  assumes "dec_ok dec" "ic_inv (insn_cache s)" "insn_at (insn_cache s) p \<noteq> None"
  shows "step_ok p s (map_option snd (decode_insn dec p opcode it s))" "map_option fst (decode_insn dec p opcode it s) = Some (it_active it)"
proof -
  have e: "cache_ext (insn_cache s) (insn_cache (insn_put (set_handlers it) p s))" using insn_put_ext [OF assms(2)] by simp
  obtain s1 where a: "decode_args p opcode (it_args it) (insn_put (set_handlers it) p s) = Some s1"
      "cache_ext (insn_cache (insn_put (set_handlers it) p s)) (insn_cache s1)"
    using decode_args_ok [OF cache_ext_inv [OF e] insn_put_keeps [OF assms(3)], of opcode "it_args it"] by (auto simp: step_ok_def)
  have e1: "cache_ext (insn_cache s) (insn_cache s1)" using cache_ext_trans [OF e a(2)] .
  let ?s = "insn_put (add_input_latency (pipeline_stages s1)) p s1"
  have e2: "cache_ext (insn_cache s1) (insn_cache ?s)" using insn_put_ext [OF cache_ext_inv [OF e1]] by simp
  have v: "insn_at (insn_cache ?s) p \<noteq> None" using cache_ext_valid [OF cache_ext_trans [OF e1 e2] assms(3)] .
  obtain s2 where n: "set_next p ?s = Some s2" "cache_ext (insn_cache ?s) (insn_cache s2)"
    using set_next_ok [OF cache_ext_inv [OF e2] v] by (auto simp: step_ok_def)
  let ?d = "case it_decode it of None \<Rightarrow> s2 | Some k \<Rightarrow> dec k p s2"
  have e3: "cache_ext (insn_cache s2) (insn_cache ?d)"
    using dec_okD [OF assms(1) cache_ext_inv [OF n(2)]] cache_ext_refl [OF cache_ext_inv [OF n(2)]] by (simp split: option.split)
  have e4: "cache_ext (insn_cache ?d) (insn_cache (insn_put set_stall_handlers p ?d))" using insn_put_ext [OF cache_ext_inv [OF e3]] by simp
  have "cache_ext (insn_cache s) (insn_cache (insn_put set_stall_handlers p ?d))"
    using cache_ext_trans [OF e1 cache_ext_trans [OF e2 cache_ext_trans [OF n(2) cache_ext_trans [OF e3 e4]]]] .
  then show "step_ok p s (map_option snd (decode_insn dec p opcode it s))" "map_option fst (decode_insn dec p opcode it s) = Some (it_active it)"
    using a(1) n(1) cache_ext_refl [OF assms(2)] by (auto simp: decode_insn_def step_ok_def Let_def)
qed

text \<open>The instruction sets in which an opcode is found, and active.\<close>

definition known :: "u32 \<Rightarrow> decoder_item \<Rightarrow> bool" where
  "known opcode isa \<longleftrightarrow> (case find_item opcode isa of None \<Rightarrow> False | Some it \<Rightarrow> it_active it)"

lemma decode_item_ok:
  assumes "dec_ok dec" "ic_inv (insn_cache s)" "insn_at (insn_cache s) p \<noteq> None"
  shows "step_ok p s (map_option snd (decode_item dec p opcode isa s))" "map_option fst (decode_item dec p opcode isa s) = Some (known opcode isa)"
  using decode_insn_ok [OF assms] cache_ext_refl [OF assms(2)] by (auto simp: decode_item_def known_def step_ok_def split: option.splits)

lemma decode_opcode_ok:
  assumes "dec_ok dec" "ic_inv (insn_cache s)" "insn_at (insn_cache s) p \<noteq> None"
  shows "step_ok p s (map_option snd (decode_opcode dec isas p opcode s)) \<and>
    map_option fst (decode_opcode dec isas p opcode s) = Some (list_ex (known opcode) isas)"
  using assms(2,3)
proof (induction isas arbitrary: s)
  case Nil
  then show ?case by (simp add: step_ok_def cache_ext_refl)
next
  case (Cons isa isas)
  obtain s1 where i: "decode_item dec p opcode isa s = Some (known opcode isa, s1)" "cache_ext (insn_cache s) (insn_cache s1)"
    using decode_item_ok [OF assms(1) Cons.prems, of opcode isa] by (auto simp: step_ok_def)
  show ?case
    using i Cons.IH [OF cache_ext_inv [OF i(2)] cache_ext_valid [OF i(2) Cons.prems(2)]] cache_ext_trans [OF i(2)] by (auto simp: step_ok_def)
qed

text \<open>What the entry of an instruction is once the opcode has been decoded.\<close>

definition decoded :: "decoder_item list \<Rightarrow> u32 \<Rightarrow> iss_insn \<Rightarrow> bool" where
  "decoded isas opcode i \<longleftrightarrow> (if list_ex (known opcode) isas then i_opcode i = opcode
     else handler i = Some Iss_Exec_Insn_Illegal \<and> fast_handler i = Some Iss_Exec_Insn_Illegal)"

lemma decode_pc_ok:
  assumes "dec_ok dec" "ic_inv (insn_cache s)" "insn_at (insn_cache s) p = Some insn"
  shows "\<exists>s' i. iss_decode_pc_noexec dec isas p s = Some s' \<and> ic_inv (insn_cache s') \<and>
    (\<forall>q. insn_at (insn_cache s) q \<noteq> None \<longrightarrow> insn_at (insn_cache s') q \<noteq> None) \<and>
    insn_at (insn_cache s') p = Some i \<and> i_addr i = i_addr insn \<and> decoded isas (i_opcode insn) i"
proof -
  obtain s1 where d: "decode_opcode dec isas p (i_opcode insn) s = Some (list_ex (known (i_opcode insn)) isas, s1)" "cache_ext (insn_cache s) (insn_cache s1)"
    using decode_opcode_ok [OF assms(1,2), of p isas "i_opcode insn"] assms(3) by (auto simp: step_ok_def)
  obtain i1 where i1: "insn_at (insn_cache s1) p = Some i1" using cache_ext_valid [OF d(2), of p] assms(3) by auto
  have a: "i_addr i1 = i_addr insn" using insn_at_addr(1) [OF assms(2,3)] insn_at_addr(1) [OF cache_ext_inv [OF d(2)] i1] by simp
  let ?ill = "\<lambda>i. i\<lparr>handler := Some Iss_Exec_Insn_Illegal, fast_handler := Some Iss_Exec_Insn_Illegal\<rparr>"
  let ?opc = "\<lambda>i. i\<lparr>i_opcode := i_opcode insn\<rparr>"
  let ?tr = "\<lambda>i. i\<lparr>saved_handler := handler i, handler := Some Iss_Exec_Insn_With_Trace, fast_handler := Some Iss_Exec_Insn_With_Trace\<rparr>"
  define s' where "s' = (if \<not> list_ex (known (i_opcode insn)) isas then insn_put ?ill p s1
      else if insn_traced (insn_put ?opc p s1) then insn_put ?tr p (insn_put ?opc p s1) else insn_put ?opc p s1)"
  have "iss_decode_pc_noexec dec isas p s = Some s'"
    using assms(3) d(1) by (simp add: iss_decode_pc_noexec_def insn_of_Some s'_def Let_def)
  moreover have e: "cache_ext (insn_cache s1) (insn_cache s')"
    using insn_put_ext [OF cache_ext_inv [OF d(2)], of ?ill] insn_put_ext [OF cache_ext_inv [OF d(2)], of ?opc]
      put_put_ext [OF cache_ext_inv [OF d(2)], of ?tr ?opc] by (simp add: s'_def)
  moreover note cache_ext_trans [OF d(2) e]
  moreover have "insn_at (insn_cache s') p = Some (if \<not> list_ex (known (i_opcode insn)) isas then ?ill i1
      else if insn_traced (insn_put ?opc p s1) then ?tr (?opc i1) else ?opc i1)"
    by (simp add: s'_def insn_put_def insn_at_update i1)
  ultimately show ?thesis using a by (auto simp: cache_ext_def decoded_def)
qed


definition sample_range :: "nat \<Rightarrow> nat \<Rightarrow> nat \<Rightarrow> arg_info" where
  "sample_range b n k = Value_Range [\<lparr>rg_bit = b, rg_width = n, rg_shift = k\<rparr>]"

text \<open>A tree with one instruction, \<open>addi\<close>.\<close>

definition addi_item :: insn_item where
  "addi_item = \<lparr>it_active = True, it_label = 0, it_decode = None, it_size = 4, it_latency = 0,
     it_args = [Arg_Out_Reg \<lparr>ra_id = 0, ra_compressed = False, ra_freg = False, ra_latency = 0, ra_info = sample_range 7 5 0\<rparr>,
       Arg_In_Reg \<lparr>ra_id = 0, ra_compressed = False, ra_freg = False, ra_latency = 0, ra_info = sample_range 15 5 0\<rparr>,
       Arg_Simm \<lparr>ia_signed = True, ia_id = 0, ia_info = sample_range 20 12 0\<rparr>],
     it_resource_id = -1, it_resource_latency = 0, it_resource_bandwidth = 0\<rparr>"

definition sample_isa :: decoder_item where
  "sample_isa = Group_Item 0 7 [(Some 0x13, Group_Item 12 3 [(Some 0, Insn_Item addi_item)])]"

text \<open>\<^verbatim>\<open>addi x10, x11, -3\<close> and an unknown opcode.\<close>

lemma addi_known: "known 0xFFD58513 sample_isa" "\<not> known 0xFFD59513 sample_isa"
  by (simp_all add: known_def sample_isa_def group_opcode_def addi_item_def)

lemma addi_fields:
  "decode_info 0xFFD58513 (sample_range 7 5 0) False = 10" "decode_info 0xFFD58513 (sample_range 15 5 0) False = 11"
  "decode_info 0xFFD58513 (sample_range 20 12 0) True = - 3"
  by code_simp+

text \<open>Bit \<open>n\<close> of an immediate is the bit of the opcode that one of the ranges puts there.\<close>

lemma decode_fields_bits:
  "bit (fst (decode_fields opcode rs v k)) n \<longleftrightarrow> bit v n \<or>
     n < 32 \<and> (\<exists>r\<in>set rs. rg_shift r \<le> n \<and> n < rg_shift r + rg_width r \<and> bit opcode (rg_bit r + (n - rg_shift r)))"
proof (induction opcode rs v k rule: decode_fields.induct)
  case (2 opcode r rs v k)
  have "bit (iss_get_field opcode b w) m \<longleftrightarrow> m < w \<and> bit opcode (b + m)" for b w m
    unfolding iss_get_field_def mask_word by (auto simp: bit_simps dest: bit_imp_le_length)
  then show ?case using 2 by (auto simp: bit_simps)
qed simp

text \<open>The witness decodes the entry of address 0.\<close>

definition addi_iss :: iss where
  "addi_iss = insn_put (\<lambda>i. i\<lparr>i_opcode := 0xFFD58513\<rparr>) (insn_ptr 0) (snd (iss_insn_get 0 sample_iss))"

lemma addi_iss_entry:
  "ic_inv (insn_cache addi_iss)" "\<exists>i. insn_at (insn_cache addi_iss) (insn_ptr 0) = Some i \<and> i_addr i = 0 \<and> i_opcode i = 0xFFD58513"
proof -
  let ?s = "snd (iss_insn_get 0 sample_iss)"
  have i: "ic_inv (insn_cache sample_iss)" by (simp add: sample_iss_def insn_cache_init_inv)
  have c: "insn_cache ?s = snd (insn_cache_get 0 (insn_cache sample_iss))" by (simp add: iss_insn_get_def split_def Let_def)
  then have "ic_inv (insn_cache ?s)" using insn_cache_get_inv [OF i] by simp
  then show "ic_inv (insn_cache addi_iss)" using cache_ext_inv [OF insn_put_ext] by (simp add: addi_iss_def)
  show "\<exists>i. insn_at (insn_cache addi_iss) (insn_ptr 0) = Some i \<and> i_addr i = 0 \<and> i_opcode i = 0xFFD58513"
    using insn_cache_get_entry [OF i, of 0] by (auto simp: addi_iss_def insn_put_def insn_at_update c)
qed


end
