(* ===== verification/Iss_Fetch.thy ===== *)
theory Iss_Fetch
  imports Iss_Decoder
begin

text \<open>
  The fetch of instructions: the prefetch buffer of 16 bytes (\<^verbatim>\<open>iss/include/prefetcher.hpp\<close>), the hardware loop hook and the
  interrupt vectors (\<^verbatim>\<open>iss/include/pulp_v2.hpp\<close>, \<^verbatim>\<open>irq.hpp\<close>) as far as a flush of the cache of decoded instructions (\<^verbatim>\<open>insn_cache.cpp\<close>)
  needs them. The target of the fetch port is an argument. The buffer \<^verbatim>\<open>decode_prefetcher\<close>, which no function reads, is left out.
\<close>

section \<open>Prefetch buffer\<close>

definition ISS_PREFETCHER_SIZE :: nat where "ISS_PREFETCHER_SIZE = 16"

text \<open>The flag says whether the request is pending.\<close>

definition iss_fetch_req :: "'w target_meth \<Rightarrow> u32 \<Rightarrow> iss \<Rightarrow> 'w \<Rightarrow> (bool \<times> iss \<times> 'w) option" where
  "iss_fetch_req ftgt addr s w = do {
     let rq = (rq_init (fetch_io_req s))\<lparr>rq_addr := ucast addr, rq_size := of_nat ISS_PREFETCHER_SIZE, rq_is_write := False, rq_data := Some 0,
                rq_buf := pf_data s, rq_resp_port := Some 0\<rparr>;
     (err, rq', w') \<leftarrow> ftgt 0 rq w;
     let s1 = s\<lparr>pf_data := rq_buf rq', fetch_io_req := rq'\<rparr>;
     Some (if err \<noteq> IO_REQ_OK then (err \<noteq> IO_REQ_INVALID, s1, w') else (False, s1\<lparr>fetch_cycles := ucast (rq_latency rq')\<rparr>, w'))
   }"

definition prefetcher_fill :: "'w target_meth \<Rightarrow> u32 \<Rightarrow> iss \<Rightarrow> 'w \<Rightarrow> (bool \<times> iss \<times> 'w) option" where
  "prefetcher_fill ftgt addr s w =
     (let aligned_addr = addr AND NOT 15 in iss_fetch_req ftgt aligned_addr (s\<lparr>pf_addr := aligned_addr\<rparr>) w)"

definition pf_word :: "iss \<Rightarrow> nat \<Rightarrow> u32" where
  "pf_word s index = bytes_word (take 4 (drop index (pf_data s)))"

definition opcode_decode :: "insn_decode \<Rightarrow> decoder_item list \<Rightarrow> iptr \<Rightarrow> u32 \<Rightarrow> iss \<Rightarrow> iss option" where
  "opcode_decode dec isas p opcode s = iss_decode_pc_noexec dec isas p (insn_put (\<lambda>i. i\<lparr>i_opcode := opcode\<rparr>) p s)"

text \<open>The bytes of an opcode that are in the first line, and the rest.\<close>

definition next_line :: "u32 \<Rightarrow> u32" where "next_line addr = (addr + 15) AND NOT 15"

definition first_part :: "iss \<Rightarrow> nat \<Rightarrow> nat \<Rightarrow> u32" where
  "first_part s index nb_bytes = bytes_word (patch (word_bytes 0) 0 (take nb_bytes (drop index (pf_data s))))"

definition prefetcher_fetch_value_after_fill_0 ::
    "insn_decode \<Rightarrow> decoder_item list \<Rightarrow> 'w target_meth \<Rightarrow> iptr \<Rightarrow> u32 \<Rightarrow> nat \<Rightarrow> iss \<Rightarrow> 'w \<Rightarrow> (iss \<times> 'w) option" where
  "prefetcher_fetch_value_after_fill_0 dec isas ftgt p addr index s w =
     (if index + 4 \<le> ISS_PREFETCHER_SIZE then map_option (\<lambda>s'. (s', w)) (opcode_decode dec isas p (pf_word s index) s)
      else do {
        let nb_bytes = unat (next_line addr - addr);
        let opcode = first_part s index nb_bytes;
        (pending, s1, w1) \<leftarrow> prefetcher_fill ftgt (next_line addr) s w;
        if pending
        then Some (s1\<lparr>fetch_stall_callback := Some Prefetcher_Fetch_Value_Resume_1, fetch_stall_opcode := opcode, prefetch_insn := Some p,
                     stalled := stalled s1 + 1\<rparr>, w1)
        else map_option (\<lambda>s'. (s', w1)) (opcode_decode dec isas p (opcode OR push_bit (nb_bytes * 8) (pf_word s1 0)) s1)
      })"

definition prefetcher_fetch_value ::
    "insn_decode \<Rightarrow> decoder_item list \<Rightarrow> 'w target_meth \<Rightarrow> iptr \<Rightarrow> iss \<Rightarrow> 'w \<Rightarrow> (iss \<times> 'w) option" where
  "prefetcher_fetch_value dec isas ftgt p s w = do {
     insn \<leftarrow> insn_of s (Some p);
     let addr = i_addr insn;
     let index = sint (addr - pf_addr s);
     if 0 \<le> index \<and> index \<le> 12 then map_option (\<lambda>s'. (s', w)) (opcode_decode dec isas p (pf_word s (nat index)) s)
     else if index < 0 \<or> index \<ge> 16 then do {
       (pending, s1, w1) \<leftarrow> prefetcher_fill ftgt addr s w;
       if pending
       then Some (s1\<lparr>fetch_stall_callback := Some Prefetcher_Fetch_Value_Resume_0, prefetch_insn := Some p, stalled := stalled s1 + 1\<rparr>, w1)
       else prefetcher_fetch_value_after_fill_0 dec isas ftgt p addr (nat (sint (addr - pf_addr s1))) s1 w1
     }
     else prefetcher_fetch_value_after_fill_0 dec isas ftgt p addr (nat index) s w
   }"

text \<open>When the answer of a pending fetch arrives.\<close>

definition prefetcher_fetch_value_resume_0 ::
    "insn_decode \<Rightarrow> decoder_item list \<Rightarrow> 'w target_meth \<Rightarrow> iss \<Rightarrow> 'w \<Rightarrow> (iss \<times> 'w) option" where
  "prefetcher_fetch_value_resume_0 dec isas ftgt s w = do {
     p \<leftarrow> prefetch_insn s;
     insn \<leftarrow> insn_of s (Some p);
     prefetcher_fetch_value_after_fill_0 dec isas ftgt p (i_addr insn) (nat (sint (i_addr insn - pf_addr s))) s w
   }"

definition prefetcher_fetch_value_resume_1 :: "insn_decode \<Rightarrow> decoder_item list \<Rightarrow> iss \<Rightarrow> iss option" where
  "prefetcher_fetch_value_resume_1 dec isas s = do {
     p \<leftarrow> prefetch_insn s;
     insn \<leftarrow> insn_of s (Some p);
     let nb_bytes = unat (next_line (i_addr insn) - i_addr insn);
     opcode_decode dec isas p (fetch_stall_opcode s OR push_bit (nb_bytes * 8) (pf_word s 0)) s
   }"

text \<open>Instructions that are already decoded are only fetched for the time it takes.\<close>

definition prefetcher_fetch_novalue_check_overflow :: "'w target_meth \<Rightarrow> iptr \<Rightarrow> int \<Rightarrow> iss \<Rightarrow> 'w \<Rightarrow> (iss \<times> 'w) option" where
  "prefetcher_fetch_novalue_check_overflow ftgt p index s w =
     (if index + 4 > 16 then do {
        (pending, s1, w1) \<leftarrow> prefetcher_fill ftgt (pf_addr s + 16) s w;
        Some (if pending then s1\<lparr>fetch_stall_callback := None, prefetch_insn := Some p, stalled := stalled s1 + 1\<rparr> else s1, w1)
      }
      else Some (s, w))"

definition prefetcher_fetch_novalue_resume_0 :: "'w target_meth \<Rightarrow> iss \<Rightarrow> 'w \<Rightarrow> (iss \<times> 'w) option" where
  "prefetcher_fetch_novalue_resume_0 ftgt s w = do {
     p \<leftarrow> prefetch_insn s;
     insn \<leftarrow> insn_of s (Some p);
     prefetcher_fetch_novalue_check_overflow ftgt p (sint (i_addr insn - pf_addr s)) s w
   }"

text \<open>The callback that would resume it is set and at once cleared by the code.\<close>

definition prefetcher_fetch_novalue :: "'w target_meth \<Rightarrow> iptr \<Rightarrow> iss \<Rightarrow> 'w \<Rightarrow> (iss \<times> 'w) option" where
  "prefetcher_fetch_novalue ftgt p s w = do {
     insn \<leftarrow> insn_of s (Some p);
     let addr = i_addr insn;
     let index = sint (addr - pf_addr s);
     if 0 \<le> index \<and> index \<le> 12 then Some (s, w)
     else if index < 0 \<or> index \<ge> 16 then do {
       (pending, s1, w1) \<leftarrow> prefetcher_fill ftgt addr s w;
       if pending
       then Some (s1\<lparr>fetch_stall_callback := None, prefetch_insn := Some p, stalled := stalled s1 + 1\<rparr>, w1)
       else prefetcher_fetch_novalue_check_overflow ftgt p (sint (addr - pf_addr s1)) s1 w1
     }
     else prefetcher_fetch_novalue_check_overflow ftgt p index s w
   }"

definition prefetcher_fetch ::
    "insn_decode \<Rightarrow> decoder_item list \<Rightarrow> 'w target_meth \<Rightarrow> iptr option \<Rightarrow> iss \<Rightarrow> 'w \<Rightarrow> (iss \<times> 'w) option" where
  "prefetcher_fetch dec isas ftgt q s w = do {
     p \<leftarrow> q;
     insn \<leftarrow> insn_of s (Some p);
     if fetched insn then prefetcher_fetch_novalue ftgt p s w
     else prefetcher_fetch_value dec isas ftgt p (insn_put (\<lambda>i. i\<lparr>fetched := True\<rparr>) p s) w
   }"

definition prefetcher_flush :: "iss \<Rightarrow> iss" where
  "prefetcher_flush s = s\<lparr>pf_addr := - 1\<rparr>"

definition prefetcher_init :: "iss \<Rightarrow> iss" where
  "prefetcher_init s = prefetcher_flush s"

definition prefetcher_refetch :: "iss \<Rightarrow> iss" where
  "prefetcher_refetch s = s\<lparr>do_fetch := True, is_active_reg := False, enqueued := (enqueued s)(current_event s := None)\<rparr>"

definition iss_pc_set :: "u32 \<Rightarrow> iss \<Rightarrow> iss" where
  "iss_pc_set value s = (let (p, s1) = iss_insn_get value s in prefetcher_refetch (s1\<lparr>current_insn := Some p\<rparr>))"

section \<open>Flush\<close>

definition hwloop_set_insn_end :: "iptr \<Rightarrow> iss \<Rightarrow> iss" where
  "hwloop_set_insn_end p s =
     insn_put (\<lambda>i. if fetched i then
                     if hwloop_handler i = None
                     then i\<lparr>hwloop_handler := handler i, handler := Some Hwloop_Check_Exec, fast_handler := Some Hwloop_Check_Exec\<rparr> else i
                   else i\<lparr>hwloop_handler := Some Hwloop_Check_Exec\<rparr>) p s"

fun set_vectors :: "u32 \<Rightarrow> nat list \<Rightarrow> iss \<Rightarrow> iss" where
  "set_vectors base [] s = s"
| "set_vectors base (i # is) s =
     (let (p, s1) = iss_insn_get (base + of_nat i * 4) s in set_vectors base is (s1\<lparr>vectors := (vectors s1)(i := Some p)\<rparr>))"

definition iss_irq_set_vector_table :: "u32 \<Rightarrow> iss \<Rightarrow> iss" where
  "iss_irq_set_vector_table base s = (set_vectors base ([0..<32] @ [32..<35]) s)\<lparr>vector_base := base\<rparr>"

definition set_debug_handler :: "iss \<Rightarrow> iss" where
  "set_debug_handler s =
     (if priv_1_10 s then let (p, s1) = iss_insn_get (cf_debug_handler s) s in s1\<lparr>debug_handler := Some p\<rparr> else s)"

definition iss_irq_flush :: "iss \<Rightarrow> iss" where
  "iss_irq_flush s = set_debug_handler (iss_irq_set_vector_table (vector_base s) s)"

text \<open>The address of the instruction a pointer that may be null points to.\<close>

definition addr_or_0 :: "iptr option \<Rightarrow> iss \<Rightarrow> u32" where
  "addr_or_0 q s = (case insn_of s q of None \<Rightarrow> 0 | Some i \<Rightarrow> i_addr i)"

definition flush_hwloop :: "nat \<Rightarrow> u32 \<Rightarrow> iss \<Rightarrow> iss" where
  "flush_hwloop k addr s =
     (if hwloop_end_insn s k \<noteq> None then
        let (p, s1) = iss_insn_get addr s in hwloop_set_insn_end p (s1\<lparr>hwloop_end_insn := (hwloop_end_insn s1)(k := Some p)\<rparr>)
      else s)"

definition flush_current :: "insn_decode \<Rightarrow> decoder_item list \<Rightarrow> u32 \<Rightarrow> u32 \<Rightarrow> iss \<Rightarrow> iss option" where
  "flush_current dec isas opcode addr s =
     (if current_insn s \<noteq> None then
        let (p, s1) = iss_insn_get addr s
        in iss_decode_pc_noexec dec isas p (insn_put (\<lambda>i. i\<lparr>i_opcode := opcode, fetched := True\<rparr>) p (s1\<lparr>current_insn := Some p\<rparr>))
      else Some s)"

definition iss_cache_flush :: "insn_decode \<Rightarrow> decoder_item list \<Rightarrow> iss \<Rightarrow> iss option" where
  "iss_cache_flush dec isas s = do {
     let opcode = (case insn_of s (current_insn s) of None \<Rightarrow> 0 | Some i \<Rightarrow> i_opcode i);
     let current_addr = addr_or_0 (current_insn s) s;
     let prev_addr = addr_or_0 (prev_insn s) s;
     let stall_addr = (if prefetch_insn s \<noteq> None then addr_or_0 (prefetch_insn s) s else addr_or_0 (stall_insn s) s);
     let end0 = addr_or_0 (hwloop_end_insn s 0) s;
     let end1 = addr_or_0 (hwloop_end_insn s 1) s;
     let s1 = (prefetcher_flush s)\<lparr>insn_cache := flush_blocks (insn_cache s)\<rparr>;
     s2 \<leftarrow> flush_current dec isas opcode current_addr s1;
     let s3 = (if prev_insn s2 \<noteq> None then let (p, t) = iss_insn_get prev_addr s2 in t\<lparr>prev_insn := Some p\<rparr> else s2);
     let s4 = (if stall_insn s3 \<noteq> None then let (p, t) = iss_insn_get stall_addr s3 in t\<lparr>stall_insn := Some p\<rparr> else s3);
     let s5 = (if prefetch_insn s4 \<noteq> None then let (p, t) = iss_insn_get stall_addr s4 in t\<lparr>prefetch_insn := Some p\<rparr> else s4);
     Some (iss_irq_flush (flush_hwloop 1 end1 (flush_hwloop 0 end0 s5)))
   }"

section \<open>The opcode is the word in memory\<close>

lemma unat_line: "unat (v AND NOT 15 :: u32) = 16 * (unat v div 16)"
proof -
  have "(15 :: u32) = mask 4" by (simp add: mask_eq_exp_minus_1)
  then show ?thesis using unat_align_mask [of v 4] by simp
qed

lemma next_line_parts:
  fixes addr :: u32
  assumes "unat addr + 15 < 2 ^ 32" "unat addr mod 16 \<noteq> 0"
  shows "unat (next_line addr) = 16 * (unat addr div 16) + 16" "unat (next_line addr - addr) = 16 - unat addr mod 16"
proof -
  let ?a = "unat addr"
  have "unat (addr + 15) = ?a + 15" using assms(1) by (simp add: unat_word_ariths)
  moreover have "?a + 15 = (?a mod 16 - 1) + (?a div 16 + 1) * 16" using assms(2) mult_div_mod_eq [of 16 ?a] by simp
  then have "(?a + 15) div 16 = ?a div 16 + 1" by (simp only: div_mult_self1)
  ultimately show n: "unat (next_line addr) = 16 * (?a div 16) + 16" unfolding next_line_def unat_line by simp
  have m: "16 * (?a div 16) + ?a mod 16 = ?a" "?a mod 16 < 16" by simp_all
  then have "addr \<le> next_line addr" unfolding word_le_nat_alt n by linarith
  then have "unat (next_line addr - addr) = 16 * (?a div 16) + 16 - ?a" unfolding n [symmetric] by (rule unat_sub)
  then show "unat (next_line addr - addr) = 16 - ?a mod 16" using m by linarith
qed

text \<open>The buffer holds a line of the memory, or nothing.\<close>

definition pf_coherent :: "u8 list \<Rightarrow> iss \<Rightarrow> bool" where
  "pf_coherent m s \<longleftrightarrow> length (pf_data s) = 16 \<and>
     (pf_addr s = - 1 \<or> unat (pf_addr s) mod 16 = 0 \<and> unat (pf_addr s) + 16 \<le> length m \<and> pf_data s = take 16 (drop (unat (pf_addr s)) m))"

definition mem_word :: "u8 list \<Rightarrow> nat \<Rightarrow> u32" where
  "mem_word m a = bytes_word (take 4 (drop a m))"

lemma bit_mem_word:
  assumes "a + 4 \<le> length m"
  shows "bit (mem_word m a) n \<longleftrightarrow> n < 32 \<and> bit (m ! (a + n div 8)) (n mod 8)"
proof (cases "n < 32")
  case True
  then have "n div 8 < 4" by simp
  then show ?thesis using assms bit_bytes_word [of "take 4 (drop a m)" n] by (simp add: mem_word_def)
qed (use assms bit_bytes_word [of "take 4 (drop a m)" n] in \<open>simp add: mem_word_def\<close>)

lemma pf_word_mem:
  assumes "pf_data s = take 16 (drop P m)" "i \<le> 12"
  shows "pf_word s i = mem_word m (P + i)"
  using assms by (simp add: pf_word_def mem_word_def drop_take add.commute min_def)

lemma two_parts:
  assumes "pf_data s = take 16 (drop P m)" "pf_data s1 = take 16 (drop (P + 16) m)" "P + 32 \<le> length m" "12 < i" "i < 16"
  shows "first_part s i (16 - i) OR push_bit ((16 - i) * 8) (pf_word s1 0) = mem_word m (P + i)"
proof (rule bit_eqI)
  fix n assume "possible_bit TYPE(u32) n"
  then have n: "n < 32" "n div 8 < 4" by (simp_all add: possible_bit_word)
  let ?nb = "16 - i"
  have nb: "?nb \<le> 3" "1 \<le> ?nb" using assms(4,5) by simp_all
  have l: "length (patch (word_bytes 0) 0 (take ?nb (drop i (pf_data s)))) = 4" using assms nb by simp
  define X where "X = take ?nb (drop i (pf_data s))"
  have X: "length X = ?nb" "\<And>k. k < ?nb \<Longrightarrow> X ! k = m ! (P + i + k)" using assms by (simp_all add: X_def add.assoc)
  have "n div 8 < ?nb \<longleftrightarrow> n < 8 * ?nb" by (simp add: div_less_iff_less_mult mult.commute)
  then have f: "bit (first_part s i ?nb) n \<longleftrightarrow> n < 8 * ?nb \<and> bit (m ! (P + i + n div 8)) (n mod 8)"
    using patch_nth [of 0 X "word_bytes 0" "n div 8"] n nb X bit_bytes_word [OF l, of n]
    by (auto simp: first_part_def word_bytes_nth simp flip: X_def)
  have q: "(n - 8 * ?nb) div 8 = n div 8 - ?nb" "(n - 8 * ?nb) mod 8 = n mod 8" if "8 * ?nb \<le> n"
    using that by (auto simp: le_iff_add)
  have g: "bit (push_bit (?nb * 8) (pf_word s1 0)) n \<longleftrightarrow> 8 * ?nb \<le> n \<and> bit (m ! (P + i + n div 8)) (n mod 8)"
  proof (cases "8 * ?nb \<le> n")
    case True
    then have "?nb \<le> n div 8" by (simp add: less_eq_div_iff_mult_less_eq mult.commute)
    then have "P + 16 + (n div 8 - ?nb) = P + i + n div 8" using n nb assms(4,5) by simp
    moreover have "P + 16 + 4 \<le> length m" using assms(3) by simp
    ultimately have "bit (mem_word m (P + 16)) (n - 8 * ?nb) \<longleftrightarrow> bit (m ! (P + i + n div 8)) (n mod 8)"
      using less_imp_diff_less [OF n(1), of "8 * ?nb"] by (simp only: bit_mem_word q [OF True]) simp
    then show ?thesis using True n pf_word_mem [OF assms(2), of 0] by (simp add: bit_simps mult.commute)
  qed (simp add: bit_simps mult.commute)
  have "bit (mem_word m (P + i)) n \<longleftrightarrow> bit (m ! (P + i + n div 8)) (n mod 8)"
    using n assms bit_mem_word [of "P + i" m n] by simp
  then show "bit (first_part s i ?nb OR push_bit (?nb * 8) (pf_word s1 0)) n \<longleftrightarrow> bit (mem_word m (P + i)) n"
    using f g by (auto simp: bit_or_iff)
qed

text \<open>The position in the buffer, as a number.\<close>

lemma index_cases:
  fixes y :: int and n :: nat
  assumes "y = int n \<or> y < 0 \<and> 2 ^ 31 \<le> n"
  shows "0 \<le> y \<and> y \<le> 12 \<longleftrightarrow> n \<le> 12" "y < 0 \<or> 16 \<le> y \<longleftrightarrow> 16 \<le> n" "n < 16 \<Longrightarrow> nat y = n"
  using assms by auto

lemma index_small:
  fixes x :: u32
  shows "0 \<le> sint x \<and> sint x \<le> 12 \<longleftrightarrow> unat x \<le> 12" "sint x < 0 \<or> 16 \<le> sint x \<longleftrightarrow> 16 \<le> unat x" "unat x < 16 \<Longrightarrow> nat (sint x) = unat x"
proof -
  have p: "sint x = int (unat x)" if "unat x < 2 ^ 31"
  proof -
    have "uint x < 2 ^ 31" using that by (metis of_nat_less_iff of_nat_numeral of_nat_power uint_nat)
    moreover have "- (2 ^ 31) \<le> uint x" using order_trans [of "- (2 ^ 31)" 0 "uint x"] by simp
    ultimately show ?thesis unfolding sint_uint by (simp add: signed_take_bit_int_eq_self)
  qed
  moreover have "unat x < 2 ^ 31" if "0 \<le> sint x"
  proof -
    have "take_bit 32 (sint x) = sint x" using that sint_less [of x] by (intro take_bit_int_eq_self) simp_all
    then have "uint x = sint x" unfolding uint_sint by simp
    then have "int (unat x) < 2 ^ 31" using sint_less [of x] by simp
    then show ?thesis by (metis of_nat_less_iff of_nat_numeral of_nat_power)
  qed
  ultimately have c: "sint x = int (unat x) \<or> sint x < 0 \<and> 2 ^ 31 \<le> unat x" by (meson not_le)
  show "0 \<le> sint x \<and> sint x \<le> 12 \<longleftrightarrow> unat x \<le> 12" "sint x < 0 \<or> 16 \<le> sint x \<longleftrightarrow> 16 \<le> unat x"
      "unat x < 16 \<Longrightarrow> nat (sint x) = unat x"
    by (fact index_cases [OF c])+
qed

text \<open>The line of an opcode is in a memory made of whole lines, and so is the next one when the opcode crosses it.\<close>

lemma line_inside:
  fixes a l :: nat
  assumes "l mod 16 = 0" "a + 4 \<le> l"
  shows "16 * (a div 16) + 16 \<le> l" "12 < a mod 16 \<Longrightarrow> 16 * (a div 16) + 32 \<le> l"
proof -
  obtain q where q: "l = 16 * q" using assms(1) by (metis mod_0_imp_dvd dvdE)
  have d: "16 * (a div 16) + a mod 16 = a" by simp
  have "16 * (a div 16) < 16 * q" using assms(2) d unfolding q by linarith
  then have "a div 16 < q" by simp
  then show "16 * (a div 16) + 16 \<le> l" unfolding q by simp
  assume "12 < a mod 16"
  then have "16 * (a div 16 + 1) < a + 4" using d by presburger
  then have "16 * (a div 16 + 1) < 16 * q" using assms(2) unfolding q by (rule less_le_trans)
  then have "a div 16 + 1 < q" by (simp only: mult_less_cancel1)
  then show "16 * (a div 16) + 32 \<le> l" unfolding q by simp
qed

lemma line_index:
  fixes addr P :: u32
  assumes "unat P + 16 \<le> 2 ^ 32" "unat (addr - P) < 16"
  shows "unat addr = unat P + unat (addr - P)"
proof -
  have "unat (P + (addr - P)) = (unat P + unat (addr - P)) mod 2 ^ 32" unfolding unat_word_ariths by simp
  also have "\<dots> = unat P + unat (addr - P)" using assms by (intro mod_less) linarith
  finally show ?thesis by simp
qed

text \<open>What a fetch that is answered at once may change, apart from the cache of instructions.\<close>

definition fetch_frame :: "iss \<Rightarrow> iss \<Rightarrow> bool" where
  "fetch_frame s s1 \<longleftrightarrow> (\<exists>d a r c. s1 = s\<lparr>pf_data := d, pf_addr := a, fetch_io_req := r, fetch_cycles := c\<rparr>)"

lemma fetch_frameI [simp]: "fetch_frame s (s\<lparr>pf_addr := a, pf_data := d, fetch_io_req := r, fetch_cycles := c\<rparr>)"
proof -
  have "s\<lparr>pf_addr := a, pf_data := d, fetch_io_req := r, fetch_cycles := c\<rparr> = s\<lparr>pf_data := d, pf_addr := a, fetch_io_req := r, fetch_cycles := c\<rparr>" by simp
  then show ?thesis unfolding fetch_frame_def by blast
qed

lemma fetch_frame_refl [simp]: "fetch_frame s s"
  using fetch_frameI [where s = s and a = "pf_addr s" and d = "pf_data s" and r = "fetch_io_req s" and c = "fetch_cycles s"] by simp

lemma fetch_frame_trans:
  assumes "fetch_frame s s1" "fetch_frame s1 s2"
  shows "fetch_frame s s2"
proof -
  obtain d a r c d' a' r' c' where "s1 = s\<lparr>pf_data := d, pf_addr := a, fetch_io_req := r, fetch_cycles := c\<rparr>"
      "s2 = s1\<lparr>pf_data := d', pf_addr := a', fetch_io_req := r', fetch_cycles := c'\<rparr>" using assms unfolding fetch_frame_def by blast
  then have "s2 = s\<lparr>pf_data := d', pf_addr := a', fetch_io_req := r', fetch_cycles := c'\<rparr>" by simp
  then show ?thesis unfolding fetch_frame_def by blast
qed

lemma fetch_frame_cache: "fetch_frame s s1 \<Longrightarrow> insn_cache s1 = insn_cache s"
  by (auto simp: fetch_frame_def)

context byte_target begin

lemma prefetcher_fill_ok:
  assumes "ready w" "length (pf_data s) = 16" "16 * (unat addr div 16) + 16 \<le> length (bytes 0 w)" "length (bytes 0 w) < 2 ^ 63"
  shows "\<exists>s1 w1. prefetcher_fill tgt addr s w = Some (False, s1, w1) \<and> ready w1 \<and> bytes 0 w1 = bytes 0 w \<and> fetch_frame s s1 \<and>
    unat (pf_addr s1) = 16 * (unat addr div 16) \<and> pf_data s1 = take 16 (drop (16 * (unat addr div 16)) (bytes 0 w))"
proof -
  let ?a = "addr AND NOT 15"
  let ?rq = "(rq_init (fetch_io_req s))\<lparr>rq_addr := ucast ?a, rq_size := of_nat ISS_PREFETCHER_SIZE, rq_is_write := False, rq_data := Some 0,
      rq_buf := pf_data s, rq_resp_port := Some 0\<rparr>"
  have sz: "unat (of_nat ISS_PREFETCHER_SIZE :: u64) = 16" by (simp add: ISS_PREFETCHER_SIZE_def)
  have ad: "unat (ucast ?a :: u64) = 16 * (unat addr div 16)"
    unfolding unat_line [symmetric] by (simp add: unsigned_ucast_eq take_bit_nat_eq_self [OF less_trans [OF unsigned_less]])
  obtain rq' w' where t: "tgt 0 ?rq w = Some (IO_REQ_OK, rq', w')" "ready w'" "bytes 0 w' = bytes 0 w"
      "rq_buf rq' = patch (pf_data s) 0 (take 16 (drop (16 * (unat addr div 16)) (bytes 0 w)))"
    using access [of w ?rq 0 0] assms sz ad by auto
  have "patch (pf_data s) 0 (take 16 (drop (16 * (unat addr div 16)) (bytes 0 w))) = take 16 (drop (16 * (unat addr div 16)) (bytes 0 w))"
    using assms(2,3) by (simp add: patch_def)
  then show ?thesis using t unat_line [of addr] by (simp add: prefetcher_fill_def iss_fetch_req_def Let_def del: not_numeral_eq)
qed

lemma after_fill_ok:
  assumes "ready w" "length (bytes 0 w) mod 16 = 0" "length (bytes 0 w) \<le> 2 ^ 32" "unat addr + 4 \<le> length (bytes 0 w)"
    "unat (pf_addr s) = 16 * (unat addr div 16)" "pf_data s = take 16 (drop (unat (pf_addr s)) (bytes 0 w))"
  shows "\<exists>s1 w1. prefetcher_fetch_value_after_fill_0 dec isas tgt p addr (unat addr mod 16) s w =
      map_option (\<lambda>s'. (s', w1)) (opcode_decode dec isas p (mem_word (bytes 0 w) (unat addr)) s1) \<and>
    ready w1 \<and> bytes 0 w1 = bytes 0 w \<and> fetch_frame s s1 \<and> pf_coherent (bytes 0 w) s1"
proof -
  let ?a = "unat addr" and ?m = "bytes 0 w"
  have d: "16 * (?a div 16) + ?a mod 16 = ?a" "?a mod 16 < 16" by simp_all
  note line = line_inside(1) [OF assms(2,4)]
  have coh: "pf_coherent ?m s" using assms(5,6) line by (simp add: pf_coherent_def)
  show ?thesis
  proof (cases "?a mod 16 \<le> 12")
    case True
    then show ?thesis using assms(1) coh pf_word_mem [OF assms(6) True] d(1) assms(5)
      by (intro exI [of _ s] exI [of _ w]) (simp add: prefetcher_fetch_value_after_fill_0_def ISS_PREFETCHER_SIZE_def)
  next
    case False
    have line2: "16 * (?a div 16) + 32 \<le> length ?m" using line_inside(2) [OF assms(2,4)] False by simp
    have big: "?a + 15 < 2 ^ 32" using line2 d assms(3) by linarith
    have nz: "?a mod 16 \<noteq> 0" using False by simp
    note nl = next_line_parts [OF big nz]
    have nd: "16 * (unat (next_line addr) div 16) = 16 * (?a div 16) + 16" unfolding nl(1) by simp
    have len: "length (pf_data s) = 16" using coh by (simp add: pf_coherent_def)
    have l63: "length ?m < 2 ^ 63" using assms(3) by simp
    obtain s1 w1 where f: "prefetcher_fill tgt (next_line addr) s w = Some (False, s1, w1)" "ready w1" "bytes 0 w1 = ?m"
        "fetch_frame s s1" "unat (pf_addr s1) = 16 * (?a div 16) + 16" "pf_data s1 = take 16 (drop (16 * (?a div 16) + 16) ?m)"
      using prefetcher_fill_ok [OF assms(1) len, of "next_line addr"] line2 l63 unfolding nd by auto
    have w: "first_part s (?a mod 16) (16 - ?a mod 16) OR push_bit ((16 - ?a mod 16) * 8) (pf_word s1 0) = mem_word ?m ?a"
      using two_parts [OF assms(6) [unfolded assms(5)] f(6) line2, of "?a mod 16"] False d by simp
    have "pf_coherent ?m s1" using f(5,6) line2 by (simp add: pf_coherent_def)
    then show ?thesis using f False nl(2) w
      by (intro exI [of _ s1] exI [of _ w1]) (simp add: prefetcher_fetch_value_after_fill_0_def ISS_PREFETCHER_SIZE_def Let_def)
  qed
qed

text \<open>The instruction is decoded with the word of the memory at its address.\<close>

lemma fetch_value_ok:
  assumes "ready w" "length (bytes 0 w) mod 16 = 0" "length (bytes 0 w) \<le> 2 ^ 32" "unat addr + 4 \<le> length (bytes 0 w)"
    "pf_coherent (bytes 0 w) s" "pf_addr s = - 1 \<longrightarrow> 15 \<le> unat addr" "insn_of s (Some p) = Some insn" "i_addr insn = addr"
  shows "\<exists>s1 w1. prefetcher_fetch_value dec isas tgt p s w =
      map_option (\<lambda>s'. (s', w1)) (opcode_decode dec isas p (mem_word (bytes 0 w) (unat addr)) s1) \<and>
    ready w1 \<and> bytes 0 w1 = bytes 0 w \<and> fetch_frame s s1 \<and> pf_coherent (bytes 0 w) s1"
proof -
  let ?a = "unat addr" and ?m = "bytes 0 w" and ?x = "addr - pf_addr s"
  have d: "16 * (?a div 16) + ?a mod 16 = ?a" "?a mod 16 < 16" by simp_all
  note line = line_inside(1) [OF assms(2,4)]
  have len: "length (pf_data s) = 16" and l63: "length ?m < 2 ^ 63" using assms(3,5) by (simp_all add: pf_coherent_def)
  show ?thesis
  proof (cases "unat ?x < 16")
    case True
    have "pf_addr s \<noteq> - 1"
    proof
      assume n: "pf_addr s = - 1"
      then have "?x = addr + 1" by simp
      moreover have "unat (addr + 1) = ?a + 1" using assms(3,4) by (simp add: unat_word_ariths)
      ultimately show False using True assms(6) n by simp
    qed
    then have c: "unat (pf_addr s) mod 16 = 0" "unat (pf_addr s) + 16 \<le> length ?m" "pf_data s = take 16 (drop (unat (pf_addr s)) ?m)"
      using assms(5) by (simp_all add: pf_coherent_def)
    have a: "?a = unat (pf_addr s) + unat ?x" using line_index [OF _ True] c(2) assms(3) by simp
    then have e: "unat (pf_addr s) = 16 * (?a div 16)" "unat ?x = ?a mod 16" using c(1) True by (auto simp: mod_0_imp_dvd)
    show ?thesis
    proof (cases "unat ?x \<le> 12")
      case t: True
      then show ?thesis using assms(1,5,7,8) pf_word_mem [OF c(3) t] a index_small(1,3) [of ?x] True
        by (intro exI [of _ s] exI [of _ w]) (simp add: prefetcher_fetch_value_def Let_def)
    next
      case f: False
      have "prefetcher_fetch_value dec isas tgt p s w = prefetcher_fetch_value_after_fill_0 dec isas tgt p addr (?a mod 16) s w"
        using assms(7,8) f True index_small [of ?x] e(2) by (auto simp: prefetcher_fetch_value_def Let_def)
      then show ?thesis using after_fill_ok [OF assms(1-4) e(1) c(3), of dec isas p] by simp
    qed
  next
    case False
    obtain s1 w1 where f: "prefetcher_fill tgt addr s w = Some (False, s1, w1)" "ready w1" "bytes 0 w1 = ?m" "fetch_frame s s1"
        "unat (pf_addr s1) = 16 * (?a div 16)" "pf_data s1 = take 16 (drop (unat (pf_addr s1)) ?m)"
      using prefetcher_fill_ok [OF assms(1) len line l63] by auto
    have le: "pf_addr s1 \<le> addr" unfolding word_le_nat_alt f(5) by simp
    have x: "unat (addr - pf_addr s1) = ?a mod 16" using f(5) d unat_sub [OF le] by linarith
    have "prefetcher_fetch_value dec isas tgt p s w = prefetcher_fetch_value_after_fill_0 dec isas tgt p addr (?a mod 16) s1 w1"
      using assms(7,8) False index_small [of ?x] index_small(3) [of "addr - pf_addr s1"] f(1) x d by (auto simp: prefetcher_fetch_value_def Let_def)
    then show ?thesis
      using after_fill_ok [of w1 addr s1 dec isas p] f assms(2-4) fetch_frame_trans [OF f(4)] by auto
  qed
qed

lemma first_fetch_ok:
  assumes "ready w" "length (bytes 0 w) mod 16 = 0" "length (bytes 0 w) \<le> 2 ^ 32" "unat (i_addr insn) + 4 \<le> length (bytes 0 w)"
    "pf_coherent (bytes 0 w) s" "pf_addr s = - 1 \<longrightarrow> 15 \<le> unat (i_addr insn)" "insn_at (insn_cache s) p = Some insn" "\<not> fetched insn"
  shows "\<exists>s1 w1. prefetcher_fetch dec isas tgt (Some p) s w =
      map_option (\<lambda>s'. (s', w1)) (opcode_decode dec isas p (mem_word (bytes 0 w) (unat (i_addr insn))) s1) \<and>
    ready w1 \<and> bytes 0 w1 = bytes 0 w \<and> fetch_frame (insn_put (\<lambda>i. i\<lparr>fetched := True\<rparr>) p s) s1 \<and> pf_coherent (bytes 0 w) s1"
proof -
  let ?s = "insn_put (\<lambda>i. i\<lparr>fetched := True\<rparr>) p s"
  have i: "insn_of ?s (Some p) = Some (insn\<lparr>fetched := True\<rparr>)" using assms(7) by (simp add: insn_of_Some insn_put_def insn_at_update)
  have c: "pf_coherent (bytes 0 w) ?s" "pf_addr ?s = - 1 \<longrightarrow> 15 \<le> unat (i_addr insn)"
    using assms(5,6) by (simp_all add: pf_coherent_def insn_put_def)
  have "prefetcher_fetch dec isas tgt (Some p) s w = prefetcher_fetch_value dec isas tgt p ?s w"
    using assms(7,8) by (simp add: prefetcher_fetch_def insn_of_Some)
  then show ?thesis using fetch_value_ok [OF assms(1-4) c i, of dec isas] by simp
qed

end


section \<open>Fetch and decode\<close>

text \<open>The decoder works on the cache of instructions, not on the buffer, if the decode functions of the instructions do.\<close>

definition pf :: "iss \<Rightarrow> u32 \<times> u8 list" where "pf s = (pf_addr s, pf_data s)"

definition dec_keeps_pf :: "insn_decode \<Rightarrow> bool" where
  "dec_keeps_pf dec \<longleftrightarrow> (\<forall>k p s. pf (dec k p s) = pf s)"

lemma dec_pf: "dec_keeps_pf dec \<Longrightarrow> pf (dec k p s) = pf s"
  unfolding dec_keeps_pf_def by blast

lemma insn_put_pf [simp]: "pf (insn_put f p s) = pf s"
  by (simp add: pf_def insn_put_def)

lemma iss_insn_get_pf [simp]: "pf (snd (iss_insn_get a s)) = pf s"
  by (simp add: pf_def iss_insn_get_def split_def Let_def)

lemma decode_arg_pf: "decode_arg p opcode arg s = Some s1 \<Longrightarrow> pf s1 = pf s"
  by (cases arg) (auto simp: decode_arg_def set_next_latency_def Let_def bind_eq_Some_conv split_def split: if_splits)

lemma decode_args_pf: "decode_args p opcode as s = Some s1 \<Longrightarrow> pf s1 = pf s"
  by (induction as arbitrary: s) (auto simp: bind_eq_Some_conv dest: decode_arg_pf)

lemma decode_insn_pf:
  assumes "dec_keeps_pf dec" "decode_insn dec p opcode it s = Some (ok, s1)"
  shows "pf s1 = pf s"
  using assms
  by (auto simp: decode_insn_def set_next_def dec_pf Let_def bind_eq_Some_conv split_def
      split: if_splits option.splits dest!: decode_args_pf)

lemma decode_opcode_pf: "dec_keeps_pf dec \<Longrightarrow> decode_opcode dec isas p opcode s = Some (ok, s1) \<Longrightarrow> pf s1 = pf s"
  by (induction isas arbitrary: s)
    (auto simp: decode_item_def bind_eq_Some_conv split: if_splits option.splits dest: decode_insn_pf)

lemma decode_pc_pf: "dec_keeps_pf dec \<Longrightarrow> iss_decode_pc_noexec dec isas p s = Some s1 \<Longrightarrow> pf s1 = pf s"
  by (auto simp: iss_decode_pc_noexec_def bind_eq_Some_conv Let_def split: if_splits dest: decode_opcode_pf)

lemma opcode_decode_ok:
  assumes "dec_ok dec" "dec_keeps_pf dec" "ic_inv (insn_cache s)" "insn_at (insn_cache s) p = Some insn"
  shows "\<exists>s' i. opcode_decode dec isas p opcode s = Some s' \<and> ic_inv (insn_cache s') \<and> pf s' = pf s \<and>
    (\<forall>q. insn_at (insn_cache s) q \<noteq> None \<longrightarrow> insn_at (insn_cache s') q \<noteq> None) \<and>
    insn_at (insn_cache s') p = Some i \<and> i_addr i = i_addr insn \<and> decoded isas opcode i"
proof -
  let ?f = "\<lambda>i. i\<lparr>i_opcode := opcode\<rparr>"
  have e: "cache_ext (insn_cache s) (insn_cache (insn_put ?f p s))" using insn_put_ext [OF assms(3)] by simp
  have i: "insn_at (insn_cache (insn_put ?f p s)) p = Some (?f insn)" using assms(4) by (simp add: insn_put_def insn_at_update)
  obtain s' j where "iss_decode_pc_noexec dec isas p (insn_put ?f p s) = Some s'" "ic_inv (insn_cache s')"
      "\<forall>q. insn_at (insn_cache (insn_put ?f p s)) q \<noteq> None \<longrightarrow> insn_at (insn_cache s') q \<noteq> None"
      "insn_at (insn_cache s') p = Some j" "i_addr j = i_addr insn" "decoded isas opcode j"
    using decode_pc_ok [OF assms(1) cache_ext_inv [OF e] i, of isas] by auto
  moreover from this(1) have "pf s' = pf s" using decode_pc_pf [OF assms(2)] by fastforce
  ultimately show ?thesis using cache_ext_valid [OF e] by (auto simp: opcode_decode_def)
qed


text \<open>A memory of three lines with an \<^verbatim>\<open>addi\<close> over the last two, at address 30.\<close>

definition fetch_mems :: "nat \<Rightarrow> memory" where
  "fetch_mems p = sample_memory\<lparr>mem_size := 48, mem_data := patch (replicate 48 0) 30 (word_bytes 0xFFD58513), check_mem := None\<rparr>"

lemma fetch_mems_ready: "mems_ready fetch_mems" "length (mem_data (fetch_mems p)) = 48"
  by (simp_all add: mems_ready_def fetch_mems_def mem_inv_def sample_memory_def mem_reset_def mem_start_def)

lemma fetch_mems_word: "mem_word (mem_data (fetch_mems 0)) 30 = 0xFFD58513"
proof -
  have "take 4 (drop 30 (mem_data (fetch_mems 0))) = word_bytes 0xFFD58513" by (simp add: fetch_mems_def patch_def)
  then show ?thesis by (simp add: mem_word_def)
qed


section \<open>What a flush leaves\<close>

text \<open>A flush marks the buffer with the address -1, and the offset from it of an address below 12 looks like a hit: the
  instruction is decoded with the bytes fetched before the flush.\<close>

lemma flushed_buffer_hits:
  assumes "insn_of s (Some p) = Some insn" "unat (i_addr insn) < 12"
  shows "prefetcher_fetch_value dec isas tgt p (prefetcher_flush s) w =
    map_option (\<lambda>s'. (s', w)) (opcode_decode dec isas p (pf_word s (unat (i_addr insn) + 1)) (prefetcher_flush s))"
proof -
  have x: "unat (i_addr insn + 1) = unat (i_addr insn) + 1" using assms(2) by (simp add: unat_word_ariths)
  then have "0 \<le> sint (i_addr insn + 1) \<and> sint (i_addr insn + 1) \<le> 12" "nat (sint (i_addr insn + 1)) = unat (i_addr insn) + 1"
    using index_small [of "i_addr insn + 1"] assms(2) by simp_all
  then show ?thesis using assms(1) by (simp add: prefetcher_fetch_value_def prefetcher_flush_def insn_of_def pf_word_def Let_def)
qed

text \<open>A flush takes the address of the instruction being fetched for the stalled instruction too: when there are both, the stalled
  instruction becomes the fetched one.\<close>

lemma stall_insn_kept [simp]:
  "stall_insn (snd (iss_insn_get a s)) = stall_insn s" "stall_insn (insn_put f p s) = stall_insn s"
  by (simp_all add: iss_insn_get_def insn_put_def split_def Let_def)

lemma set_vectors_stall: "stall_insn (set_vectors base is s) = stall_insn s"
  by (induction base "is" s rule: set_vectors.induct) (simp_all add: split_def Let_def)

lemma irq_flush_stall: "stall_insn (iss_irq_flush s) = stall_insn s"
  by (simp add: iss_irq_flush_def set_debug_handler_def iss_irq_set_vector_table_def set_vectors_stall split_def Let_def)

lemma flush_hwloop_stall: "stall_insn (flush_hwloop k a s) = stall_insn s"
  by (simp add: flush_hwloop_def hwloop_set_insn_end_def split_def Let_def)

lemma insn_get_ptr: "fst (iss_insn_get a s) = insn_ptr a"
  by (simp add: iss_insn_get_def insn_cache_get_def Let_def split_def split: sum.splits)

lemma flush_moves_stalled_insn:
  assumes "iss_cache_flush dec isas s = Some s'" "current_insn s = None" "stall_insn s \<noteq> None"
    "prefetch_insn s = Some p" "insn_of s (Some p) = Some insn"
  shows "stall_insn s' = Some (insn_ptr (i_addr insn))"
  using assms
  by (auto simp: iss_cache_flush_def flush_current_def prefetcher_flush_def addr_or_0_def irq_flush_stall flush_hwloop_stall insn_get_ptr split_def Let_def)

end
