(* ===== verification/Iss_Exec.thy ===== *)
theory Iss_Exec
  imports Iss_Fetch
begin

text \<open>
  The execution of instructions: interrupts (\<^verbatim>\<open>iss/include/irq.hpp\<close>), the handlers that stand in front of the handler of an
  instruction (\<^verbatim>\<open>exec.hpp\<close>, \<^verbatim>\<open>src/resource.cpp\<close>, \<^verbatim>\<open>src/trace.cpp\<close>, \<^verbatim>\<open>src/decoder.cpp\<close>), hardware loops (\<^verbatim>\<open>pulp_v2.hpp\<close>) and the step of the core.
  The handlers of the instruction set are an argument: a table from their numbers, with the flag of the fast variant, to their
  effect. A handler calls the handler it stands in front of, at most five of them deep; the recursion has fuel for eight.
\<close>

section \<open>Interrupts\<close>

definition iss_trigger_check_all :: "iss \<Rightarrow> iss" where
  "iss_trigger_check_all s = s\<lparr>current_event := Check_All_Event\<rparr>"

definition irq_check :: "iss \<Rightarrow> iss" where
  "irq_check s = s\<lparr>current_event := Check_All_Event\<rparr>"

definition iss_irq_ack :: "int \<Rightarrow> iss \<Rightarrow> iss" where
  "iss_irq_ack irq s = s\<lparr>irq_acks := irq_acks s @ [irq]\<rparr>"

definition irq_vector :: "int \<Rightarrow> iss \<Rightarrow> iptr option" where
  "irq_vector irq s = (if 0 \<le> irq \<and> irq < 35 then vectors s (nat irq) else None)"

text \<open>A pending \<^verbatim>\<open>elw\<close> is replayed after the interrupt.\<close>

definition interrupt_elw :: "iss \<Rightarrow> iss" where
  "interrupt_elw s = (if elw_insn s \<noteq> None then s\<lparr>current_insn := elw_insn s, elw_insn := None, elw_interrupted := True\<rparr> else s)"

definition irq_enter :: "int \<Rightarrow> u32 \<Rightarrow> iss \<Rightarrow> iss" where
  "irq_enter irq epc s =
     (iss_irq_ack irq (s\<lparr>csr_epc := epc, saved_irq_enable := irq_enable s, irq_enable := False, req_irq := -1,
        current_insn := irq_vector irq s, csr_mcause := push_bit 31 1 OR word_of_int irq\<rparr>))\<lparr>elw_insn := None\<rparr>"

definition debug_enter :: "u32 \<Rightarrow> iss \<Rightarrow> iss" where
  "debug_enter depc s = s\<lparr>debug_mode := True, csr_depc := depc, debug_saved_irq_enable := irq_enable s, irq_enable := False,
     req_debug := False, current_insn := debug_handler s\<rparr>"

text \<open>The flag says that the instruction cannot be executed now.\<close>

definition iss_irq_check :: "insn_decode \<Rightarrow> decoder_item list \<Rightarrow> 'w target_meth \<Rightarrow> iss \<Rightarrow> 'w \<Rightarrow> (bool \<times> iss \<times> 'w) option" where
  "iss_irq_check dec isas ftgt s w =
     (if req_debug s \<and> \<not> debug_mode s then do {
        insn \<leftarrow> insn_of s (current_insn s);
        Some (False, debug_enter (i_addr insn) s, w)
      }
      else if req_irq s \<noteq> -1 \<and> irq_enable s then do {
        let s1 = interrupt_elw s;
        insn \<leftarrow> insn_of s1 (current_insn s1);
        let s2 = irq_enter (req_irq s) (i_addr insn) s1;
        (s3, w3) \<leftarrow> prefetcher_fetch dec isas ftgt (current_insn s2) s2 w;
        Some (stalled s3 \<noteq> 0, s3, w3)
      }
      else Some (False, s\<lparr>elw_insn := None\<rparr>, w))"

definition iss_irq_handle_mret :: "iss \<Rightarrow> iptr option \<times> iss" where
  "iss_irq_handle_mret s =
     (let s1 = (iss_trigger_check_all s)\<lparr>irq_enable := saved_irq_enable s, csr_mcause := 0\<rparr>; (p, s2) = iss_insn_get (csr_epc s1) s1
      in (Some p, s2))"

definition iss_irq_handle_dret :: "iss \<Rightarrow> iptr option \<times> iss" where
  "iss_irq_handle_dret s =
     (let s1 = (iss_trigger_check_all s)\<lparr>irq_enable := debug_saved_irq_enable s, debug_mode := False\<rparr>; (p, s2) = iss_insn_get (csr_depc s1) s1
      in (Some p, s2))"

definition mret_exec :: "iss \<Rightarrow> iptr option \<times> iss" where
  "mret_exec s = iss_irq_handle_mret (iss_perf_account_dependency_stall 5 s)"

definition dret_exec :: "iss \<Rightarrow> iptr option \<times> iss" where
  "dret_exec s = iss_irq_handle_dret s"

definition iss_irq_enable :: "bool \<Rightarrow> iss \<Rightarrow> iss" where
  "iss_irq_enable enable s = irq_check (s\<lparr>irq_enable := enable\<rparr>)"

definition iss_irq_req :: "int \<Rightarrow> iss \<Rightarrow> iss" where
  "iss_irq_req irq s =
     (let s1 = s\<lparr>req_irq := irq\<rparr>
      in if elw_insn s1 \<noteq> None \<and> elw_stalled s1 then iss_unstall (s1\<lparr>elw_stalled := False\<rparr>) else s1)"

definition iss_irq_build :: "iss \<Rightarrow> iss" where
  "iss_irq_build s = s\<lparr>vectors := (\<lambda>i. if i < 32 then None else vectors s i)\<rparr>"

definition iss_irq_init :: "iss \<Rightarrow> iss" where
  "iss_irq_init s = set_debug_handler (s\<lparr>vector_base := 0, elw_interrupted := False, irq_enable := False, req_irq := -1, req_debug := False\<rparr>)"

section \<open>Hardware loops\<close>

definition PULPV2_HWLOOP_LPSTART :: "nat \<Rightarrow> nat" where "PULPV2_HWLOOP_LPSTART x = 0 + x * 4"
definition PULPV2_HWLOOP_LPEND :: "nat \<Rightarrow> nat" where "PULPV2_HWLOOP_LPEND x = 1 + x * 4"
definition PULPV2_HWLOOP_LPCOUNT :: "nat \<Rightarrow> nat" where "PULPV2_HWLOOP_LPCOUNT x = 2 + x * 4"

lemmas hwloop_index = PULPV2_HWLOOP_LPSTART_def PULPV2_HWLOOP_LPEND_def PULPV2_HWLOOP_LPCOUNT_def

definition hwloop_hit :: "nat \<Rightarrow> u32 \<Rightarrow> iss \<Rightarrow> bool" where
  "hwloop_hit k pc s \<longleftrightarrow> hwloop_regs s (PULPV2_HWLOOP_LPCOUNT k) \<noteq> 0 \<and> hwloop_regs s (PULPV2_HWLOOP_LPEND k) = pc"

definition hwloop_count :: "nat \<Rightarrow> u32 \<Rightarrow> iss \<Rightarrow> iss" where
  "hwloop_count k pc s =
     (if hwloop_hit k pc s
      then s\<lparr>hwloop_regs := (hwloop_regs s)(PULPV2_HWLOOP_LPCOUNT k := hwloop_regs s (PULPV2_HWLOOP_LPCOUNT k) - 1)\<rparr> else s)"

definition hwloop_back :: "nat \<Rightarrow> iss \<Rightarrow> iptr option \<times> iss" where
  "hwloop_back k s = (hwloop_start_insn s k, s\<lparr>hwloop_next_insn := hwloop_start_insn s k\<rparr>)"

definition hwloop_end :: "u32 \<Rightarrow> iptr option \<Rightarrow> iss \<Rightarrow> iptr option \<times> iss" where
  "hwloop_end pc insn_next s =
     (let s0 = hwloop_count 0 pc s in
      if hwloop_hit 0 pc s \<and> hwloop_regs s0 (PULPV2_HWLOOP_LPCOUNT 0) \<noteq> 0 then hwloop_back 0 s0
      else let s1 = hwloop_count 1 pc s0 in
        if hwloop_hit 1 pc s0 \<and> hwloop_regs s1 (PULPV2_HWLOOP_LPCOUNT 1) \<noteq> 0 then hwloop_back 1 s1
        else (insn_next, s1\<lparr>hwloop_next_insn := insn_next\<rparr>))"

type_synonym 'w handler_fun = "iptr \<Rightarrow> iss \<Rightarrow> 'w \<Rightarrow> (iptr option \<times> iss \<times> 'w) option"

text \<open>The argument calls a handler.\<close>

definition hwloop_check_exec :: "(iss_handler option \<Rightarrow> 'w handler_fun) \<Rightarrow> 'w handler_fun" where
  "hwloop_check_exec ex p s w = do {
     insn \<leftarrow> insn_of s (Some p);
     let pc = i_addr insn;
     let interrupted = elw_interrupted s;
     (insn_next, s1, w1) \<leftarrow> ex (hwloop_handler insn) p s w;
     let (q, s2) = (if interrupted then (hwloop_next_insn s1, s1) else hwloop_end pc insn_next s1);
     Some (q, s2, w1)
   }"

definition hwloop_set_start :: "nat \<Rightarrow> u32 \<Rightarrow> iss \<Rightarrow> iss" where
  "hwloop_set_start index start s =
     (let (p, s1) = iss_insn_get start (s\<lparr>hwloop_regs := (hwloop_regs s)(PULPV2_HWLOOP_LPSTART index := start)\<rparr>)
      in s1\<lparr>hwloop_start_insn := (hwloop_start_insn s1)(index := Some p)\<rparr>)"

definition hwloop_set_end :: "nat \<Rightarrow> u32 \<Rightarrow> iss \<Rightarrow> iss" where
  "hwloop_set_end index end s =
     (let (p, s1) = iss_insn_get end s;
          s2 = hwloop_set_insn_end p (s1\<lparr>hwloop_end_insn := (hwloop_end_insn s1)(index := Some p)\<rparr>)
      in s2\<lparr>hwloop_regs := (hwloop_regs s2)(PULPV2_HWLOOP_LPEND index := end)\<rparr>)"

definition hwloop_set_count :: "nat \<Rightarrow> u32 \<Rightarrow> iss \<Rightarrow> iss" where
  "hwloop_set_count index cnt s = s\<lparr>hwloop_regs := (hwloop_regs s)(PULPV2_HWLOOP_LPCOUNT index := cnt)\<rparr>"

definition hwloop_set_all :: "nat \<Rightarrow> u32 \<Rightarrow> u32 \<Rightarrow> u32 \<Rightarrow> iss \<Rightarrow> iss" where
  "hwloop_set_all index start end cnt s = hwloop_set_count index cnt (hwloop_set_start index start (hwloop_set_end index end s))"

section \<open>Handlers\<close>

text \<open>The time an instruction takes on the resource it uses.\<close>

definition CSR_PCER_INSN_CONT :: nat where "CSR_PCER_INSN_CONT = 30"

definition resource_account :: "iss_insn \<Rightarrow> iss \<Rightarrow> iss" where
  "resource_account insn s =
     (let k = resource_id insn; c = res_cycles s k in
      if clock_cycles s < c then
        let cycles = c - clock_cycles s;
            s1 = (iss_pccr_account_event CSR_PCER_INSN_CONT (word_of_int cycles) s)\<lparr>res_cycles := (res_cycles s)(k := c + resource_bandwidth insn)\<rparr>
        in s1\<lparr>insn_cycles := insn_cycles s1 + word_of_int (cycles + resource_latency insn - 1)\<rparr>
      else s\<lparr>res_cycles := (res_cycles s)(k := clock_cycles s + resource_bandwidth insn),
             insn_cycles := insn_cycles s + word_of_int (resource_latency insn - 1)\<rparr>)"

type_synonym 'w isa = "bool \<Rightarrow> nat \<Rightarrow> 'w handler_fun"

text \<open>The handlers, by name.\<close>

fun exec_handler :: "insn_decode \<Rightarrow> decoder_item list \<Rightarrow> 'w isa \<Rightarrow> nat \<Rightarrow> iss_handler option \<Rightarrow> 'w handler_fun" where
  "exec_handler dec isas isa 0 h p s w = None"
| "exec_handler dec isas isa (Suc n) None p s w = None"
| "exec_handler dec isas isa (Suc n) (Some Iss_Decode_Pc) p s w = do {
     s1 \<leftarrow> iss_decode_pc_noexec dec isas p s;
     insn \<leftarrow> insn_of s1 (Some p);
     exec_handler dec isas isa n (handler insn) p s1 w
   }"
| "exec_handler dec isas isa (Suc n) (Some Iss_Exec_Insn_Illegal) p s w = do {
     (q, s1) \<leftarrow> iss_except_raise ISS_EXCEPT_ILLEGAL s;
     Some (q, s1, w)
   }"
| "exec_handler dec isas isa (Suc n) (Some Iss_Resource_Offload) p s w = do {
     insn \<leftarrow> insn_of s (Some p);
     exec_handler dec isas isa n (resource_handler insn) p (resource_account insn s) w
   }"
| "exec_handler dec isas isa (Suc n) (Some Iss_Exec_Stalled_Insn) p s w = do {
     insn \<leftarrow> insn_of s (Some p);
     exec_handler dec isas isa n (stall_handler insn) p
       (iss_pccr_account_event CSR_PCER_LD_STALL 1 (iss_perf_account_dependency_stall (word_of_int (i_latency insn)) s)) w
   }"
| "exec_handler dec isas isa (Suc n) (Some Iss_Exec_Stalled_Insn_Fast) p s w = do {
     insn \<leftarrow> insn_of s (Some p);
     exec_handler dec isas isa n (stall_fast_handler insn) p (iss_perf_account_dependency_stall (word_of_int (i_latency insn)) s) w
   }"
| "exec_handler dec isas isa (Suc n) (Some Iss_Exec_Insn_With_Trace) p s w = do {
     insn \<leftarrow> insn_of s (Some p);
     exec_handler dec isas isa n (saved_handler insn) p s w
   }"
| "exec_handler dec isas isa (Suc n) (Some Hwloop_Check_Exec) p s w = hwloop_check_exec (exec_handler dec isas isa n) p s w"
| "exec_handler dec isas isa (Suc n) (Some (Isa_Exec k)) p s w = isa False k p s w"
| "exec_handler dec isas isa (Suc n) (Some (Isa_Exec_Fast k)) p s w = isa True k p s w"

definition handler_depth :: nat where "handler_depth = 8"

definition iss_exec_insn :: "insn_decode \<Rightarrow> decoder_item list \<Rightarrow> 'w isa \<Rightarrow> 'w handler_fun" where
  "iss_exec_insn dec isas isa p s w = do {
     insn \<leftarrow> insn_of s (Some p);
     exec_handler dec isas isa handler_depth (handler insn) p s w
   }"

definition iss_exec_insn_fast :: "insn_decode \<Rightarrow> decoder_item list \<Rightarrow> 'w isa \<Rightarrow> 'w handler_fun" where
  "iss_exec_insn_fast dec isas isa p s w = do {
     insn \<leftarrow> insn_of s (Some p);
     exec_handler dec isas isa handler_depth (fast_handler insn) p s w
   }"

section \<open>Steps\<close>

text \<open>The cycles of the fetch are cleared before they are counted as misses.\<close>

definition account_fetch :: "iss \<Rightarrow> iss" where
  "account_fetch s =
     (let s1 = s\<lparr>insn_cycles := 1\<rparr> in
      if fetch_cycles s1 \<noteq> 0 then
        let s2 = s1\<lparr>insn_cycles := insn_cycles s1 + fetch_cycles s1, fetch_cycles := 0\<rparr>
        in iss_pccr_account_event CSR_PCER_IMISS (fetch_cycles s2) s2
      else s1)"

definition iss_exec_no_fetch_common :: "'w handler_fun \<Rightarrow> iss \<Rightarrow> 'w \<Rightarrow> (iss \<times> 'w) option" where
  "iss_exec_no_fetch_common func s w = do {
     p \<leftarrow> current_insn s;
     (q, s1, w1) \<leftarrow> func p (account_fetch s) w;
     Some (s1\<lparr>current_insn := q, prev_insn := Some p\<rparr>, w1)
   }"

text \<open>The number of cycles, \<open>None\<close> when the instruction was not executed.\<close>

definition iss_exec_step_nofetch ::
    "insn_decode \<Rightarrow> decoder_item list \<Rightarrow> 'w isa \<Rightarrow> 'w target_meth \<Rightarrow> iss \<Rightarrow> 'w \<Rightarrow> (u32 \<times> iss \<times> 'w) option" where
  "iss_exec_step_nofetch dec isas isa ftgt s w = do {
     (s1, w1) \<leftarrow> iss_exec_no_fetch_common (iss_exec_insn_fast dec isas isa) s w;
     (s2, w2) \<leftarrow> prefetcher_fetch dec isas ftgt (current_insn s1) s1 w1;
     Some (insn_cycles s2, s2, w2)
   }"

definition count_instr :: "iss \<Rightarrow> iss" where
  "count_instr s = iss_pccr_account_event CSR_PCER_INSTR 1 s"

definition iss_exec_step_nofetch_perf ::
    "insn_decode \<Rightarrow> decoder_item list \<Rightarrow> 'w isa \<Rightarrow> 'w target_meth \<Rightarrow> iss \<Rightarrow> 'w \<Rightarrow> (u32 \<times> iss \<times> 'w) option" where
  "iss_exec_step_nofetch_perf dec isas isa ftgt s w = do {
     (wait, s0, w0) \<leftarrow> iss_irq_check dec isas ftgt s w;
     if wait then Some (- 1, s0, w0)
     else do {
       (s1, w1) \<leftarrow> iss_exec_no_fetch_common (iss_exec_insn dec isas isa) s0 w0;
       (s2, w2) \<leftarrow> prefetcher_fetch dec isas ftgt (current_insn s1) s1 w1;
       Some (insn_cycles s2, count_instr (iss_exec_account_cycles (insn_cycles s2) s2), w2)
     }
   }"

text \<open>With traces compiled in, the fast handlers are never used again.\<close>

definition iss_exec_switch_to_fast :: "bool \<Rightarrow> iss \<Rightarrow> bool" where
  "iss_exec_switch_to_fast vp_trace_active s \<longleftrightarrow> \<not> vp_trace_active \<and> pcmr s AND CSR_PCMR_ACTIVE = 0"

section \<open>Hardware loops repeat their body\<close>

text \<open>The end of a loop, visited again and again; \<open>body\<close> is what happens in between.\<close>

fun visits :: "'w handler_fun \<Rightarrow> (iss \<Rightarrow> 'w \<Rightarrow> iss \<times> 'w) \<Rightarrow> nat \<Rightarrow> iptr \<Rightarrow> iss \<Rightarrow> 'w \<Rightarrow> (iptr option list \<times> iss \<times> 'w) option" where
  "visits f body 0 p s w = Some ([], s, w)"
| "visits f body (Suc n) p s w = do {
     (q, s1, w1) \<leftarrow> (let (s0, w0) = body s w in f p s0 w0);
     (qs, s2, w2) \<leftarrow> visits f body n p s1 w1;
     Some (q # qs, s2, w2)
   }"

text \<open>What the end of a loop depends on.\<close>

definition loop_view :: "iptr \<Rightarrow> iss \<Rightarrow> (nat \<Rightarrow> u32) \<times> (nat \<Rightarrow> iptr option) \<times> bool \<times> iss_insn option" where
  "loop_view p s = (hwloop_regs s, hwloop_start_insn s, elw_interrupted s, insn_at (insn_cache s) p)"

definition body_ok :: "iptr \<Rightarrow> (iss \<Rightarrow> 'w \<Rightarrow> iss \<times> 'w) \<Rightarrow> bool" where
  "body_ok p body \<longleftrightarrow> (\<forall>s w. loop_view p (fst (body s w)) = loop_view p s)"

definition last_ok :: "iptr \<Rightarrow> iptr option \<Rightarrow> 'w handler_fun \<Rightarrow> bool" where
  "last_ok p nx h \<longleftrightarrow> (\<forall>s w. \<exists>s1 w1. h p s w = Some (nx, s1, w1) \<and> loop_view p s1 = loop_view p s)"

text \<open>One visit of the end of loop \<open>k\<close>, where the other loop does not end.\<close>

definition ends_only :: "nat \<Rightarrow> u32 \<Rightarrow> iss \<Rightarrow> bool" where
  "ends_only k pc s \<longleftrightarrow> k < 2 \<and> hwloop_regs s (PULPV2_HWLOOP_LPEND k) = pc \<and>
     (hwloop_regs s (PULPV2_HWLOOP_LPEND (1 - k)) \<noteq> pc \<or> hwloop_regs s (PULPV2_HWLOOP_LPCOUNT (1 - k)) = 0)"

lemma hwloop_end_once:
  assumes "ends_only k pc s" "hwloop_regs s (PULPV2_HWLOOP_LPCOUNT k) = c" "c \<noteq> 0"
  shows "\<exists>nx. hwloop_end pc next s =
    (if c = 1 then next else hwloop_start_insn s k, s\<lparr>hwloop_regs := (hwloop_regs s)(PULPV2_HWLOOP_LPCOUNT k := c - 1), hwloop_next_insn := nx\<rparr>)"
proof -
  let ?d = "s\<lparr>hwloop_regs := (hwloop_regs s)(PULPV2_HWLOOP_LPCOUNT k := c - 1)\<rparr>"
  have z: "hwloop_regs ?d (PULPV2_HWLOOP_LPCOUNT k) \<noteq> 0 \<longleftrightarrow> c \<noteq> 1" by simp
  have cnt: "hwloop_count k pc s = ?d" using assms by (simp add: ends_only_def hwloop_count_def hwloop_hit_def)
  have n: "hwloop_count j pc t = t" if "\<not> hwloop_hit j pc t" for j t using that by (simp add: hwloop_count_def)
  consider "k = 0" | "k = 1" using assms(1) less_2_cases [of k] by (auto simp: ends_only_def)
  then have "hwloop_end pc next s = (if c = 1 then (next, ?d\<lparr>hwloop_next_insn := next\<rparr>) else hwloop_back k ?d)"
  proof cases
    case 1
    have "hwloop_hit 0 pc s" "\<not> hwloop_hit 1 pc ?d" using assms 1 by (auto simp: ends_only_def hwloop_hit_def hwloop_index)
    then show ?thesis using z cnt n [of 1 ?d] unfolding hwloop_end_def 1 Let_def by (cases "c = 1") (simp_all only: simp_thms if_True if_False)
  next
    case 2
    have "\<not> hwloop_hit 0 pc s" "hwloop_hit 1 pc s" using assms 2 by (auto simp: ends_only_def hwloop_hit_def hwloop_index)
    then show ?thesis using z cnt n [of 0 s] unfolding hwloop_end_def 2 Let_def by (cases "c = 1") (simp_all only: simp_thms if_True if_False)
  qed
  then show ?thesis by (cases "c = 1") (auto simp: hwloop_back_def)
qed

lemma hwloop_check_once:
  assumes "last_ok p nx (ex (hwloop_handler insn))" "insn_at (insn_cache s) p = Some insn" "ends_only k (i_addr insn) s"
    "hwloop_regs s (PULPV2_HWLOOP_LPCOUNT k) = c" "c \<noteq> 0" "\<not> elw_interrupted s"
  shows "\<exists>s1 w1. hwloop_check_exec ex p s w = Some (if c = 1 then nx else hwloop_start_insn s k, s1, w1) \<and>
    loop_view p s1 = ((hwloop_regs s)(PULPV2_HWLOOP_LPCOUNT k := c - 1), hwloop_start_insn s, False, Some insn)"
proof -
  obtain s1 w1 where h: "ex (hwloop_handler insn) p s w = Some (nx, s1, w1)" "loop_view p s1 = loop_view p s"
    using assms(1) unfolding last_ok_def by blast
  then have v: "hwloop_regs s1 = hwloop_regs s" "hwloop_start_insn s1 = hwloop_start_insn s" "elw_interrupted s1 = elw_interrupted s"
      "insn_at (insn_cache s1) p = Some insn" using assms(2) by (simp_all add: loop_view_def)
  have "ends_only k (i_addr insn) s1" using assms(3) v(1) by (simp add: ends_only_def)
  then obtain y where "hwloop_end (i_addr insn) nx s1 = (if c = 1 then nx else hwloop_start_insn s1 k,
      s1\<lparr>hwloop_regs := (hwloop_regs s1)(PULPV2_HWLOOP_LPCOUNT k := c - 1), hwloop_next_insn := y\<rparr>)"
    using hwloop_end_once [of k "i_addr insn" s1 c nx] assms(4,5) v(1) by auto
  then show ?thesis using h(1) assms(2,6) v by (simp add: hwloop_check_exec_def insn_of_def loop_view_def)
qed

lemma hwloop_visits:
  assumes "body_ok p body" "last_ok p nx (ex (hwloop_handler insn))"
  shows "insn_at (insn_cache s) p = Some insn \<Longrightarrow> ends_only k (i_addr insn) s \<Longrightarrow> \<not> elw_interrupted s \<Longrightarrow>
    unat (hwloop_regs s (PULPV2_HWLOOP_LPCOUNT k)) = Suc n \<Longrightarrow>
    \<exists>s1 w1. visits (hwloop_check_exec ex) body (Suc n) p s w = Some (replicate n (hwloop_start_insn s k) @ [nx], s1, w1) \<and>
      loop_view p s1 = ((hwloop_regs s)(PULPV2_HWLOOP_LPCOUNT k := 0), hwloop_start_insn s, False, Some insn)"
proof (induction n arbitrary: s w)
  case (0 s w)
  obtain s0 w0 where b: "body s w = (s0, w0)" "loop_view p s0 = loop_view p s" using assms(1) unfolding body_ok_def by (metis fst_conv surj_pair)
  have c: "hwloop_regs s (PULPV2_HWLOOP_LPCOUNT k) = 1" using 0(4) by (metis One_nat_def unsigned_1 unsigned_word_eqI)
  have v: "insn_at (insn_cache s0) p = Some insn" "ends_only k (i_addr insn) s0" "\<not> elw_interrupted s0" "hwloop_regs s0 = hwloop_regs s"
      "hwloop_start_insn s0 = hwloop_start_insn s" using 0 b(2) by (simp_all add: loop_view_def ends_only_def)
  show ?case using hwloop_check_once [of p nx ex insn s0 k 1 w0, OF assms(2) v(1,2)] v(3-5) c b(1) by (auto simp: fun_eq_iff)
next
  case (Suc n s w)
  obtain s0 w0 where b: "body s w = (s0, w0)" "loop_view p s0 = loop_view p s" using assms(1) unfolding body_ok_def by (metis fst_conv surj_pair)
  let ?c = "hwloop_regs s (PULPV2_HWLOOP_LPCOUNT k)"
  have nz: "?c \<noteq> 0" "?c \<noteq> 1" using Suc.prems(4) by auto
  have v: "insn_at (insn_cache s0) p = Some insn" "ends_only k (i_addr insn) s0" "\<not> elw_interrupted s0" "hwloop_regs s0 = hwloop_regs s"
      "hwloop_start_insn s0 = hwloop_start_insn s" using Suc.prems b(2) by (simp_all add: loop_view_def ends_only_def)
  obtain s1 w1 where h: "hwloop_check_exec ex p s0 w0 = Some (hwloop_start_insn s k, s1, w1)"
      "loop_view p s1 = ((hwloop_regs s)(PULPV2_HWLOOP_LPCOUNT k := ?c - 1), hwloop_start_insn s, False, Some insn)"
    using hwloop_check_once [of p nx ex insn s0 k ?c w0, OF assms(2) v(1,2)] v(3-5) nz by auto
  have l: "hwloop_regs s1 = (hwloop_regs s)(PULPV2_HWLOOP_LPCOUNT k := ?c - 1)" "hwloop_start_insn s1 = hwloop_start_insn s"
      "\<not> elw_interrupted s1" "insn_at (insn_cache s1) p = Some insn" using h(2) by (simp_all add: loop_view_def)
  have e: "ends_only k (i_addr insn) s1" using Suc.prems(2) l(1) less_2_cases [of k] by (auto simp: ends_only_def hwloop_index)
  have "unat (hwloop_regs s1 (PULPV2_HWLOOP_LPCOUNT k)) = Suc n" using Suc.prems(4) nz(1) unfolding l(1) by (simp add: unat_minus_one)
  from Suc.IH [OF l(4) e l(3) this, of w1] obtain s2 w2 where i:
      "visits (hwloop_check_exec ex) body (Suc n) p s1 w1 = Some (replicate n (hwloop_start_insn s k) @ [nx], s2, w2)"
      "loop_view p s2 = ((hwloop_regs s)(PULPV2_HWLOOP_LPCOUNT k := 0), hwloop_start_insn s, False, Some insn)"
    unfolding l(1,2) fun_upd_upd by blast
  show ?case using i h(1) b(1) unfolding visits.simps(2) [of _ _ "Suc n"] by (simp add: fun_upd_def del: visits.simps)
qed

lemma hwloop_set_all_view:
  assumes "k < 2"
  shows "hwloop_regs (hwloop_set_all k start end cnt s) = (hwloop_regs s)(PULPV2_HWLOOP_LPEND k := end, PULPV2_HWLOOP_LPSTART k := start, PULPV2_HWLOOP_LPCOUNT k := cnt)"
    "hwloop_start_insn (hwloop_set_all k start end cnt s) k = Some (insn_ptr start)"
    "elw_interrupted (hwloop_set_all k start end cnt s) = elw_interrupted s"
  by (simp_all add: hwloop_set_all_def hwloop_set_count_def hwloop_set_start_def hwloop_set_end_def hwloop_set_insn_end_def iss_insn_get_def
      insn_put_def fst_insn_cache_get split_def Let_def)


text \<open>The last instruction has an entry.\<close>

lemma hwloop_set_all_entry:
  assumes "ic_inv (insn_cache s)"
  shows "\<exists>i. insn_at (insn_cache (hwloop_set_all k start end cnt s)) (insn_ptr end) = Some i \<and> i_addr i = end AND NOT 1"
proof -
  let ?f = "\<lambda>i. if fetched i then
                     if hwloop_handler i = None
                     then i\<lparr>hwloop_handler := handler i, handler := Some Hwloop_Check_Exec, fast_handler := Some Hwloop_Check_Exec\<rparr> else i
                   else i\<lparr>hwloop_handler := Some Hwloop_Check_Exec\<rparr>"
  define c where "c = snd (insn_cache_get end (insn_cache s))"
  obtain i where i: "insn_at c (insn_ptr end) = Some i" "i_addr i = end AND NOT 1"
    using insn_cache_get_entry [OF assms, of "end"] by (auto simp: c_def)
  have "ic_inv c" using insn_cache_get_inv [OF assms] by (simp add: c_def)
  then have "ic_inv (insn_update ?f (insn_ptr end) c)" by (intro cache_ext_inv [OF insn_update_ext]) simp_all
  moreover have "insn_at (insn_update ?f (insn_ptr end) c) (insn_ptr end) = Some (?f i)" using i(1) by (simp add: insn_at_update)
  ultimately have "insn_at (snd (insn_cache_get start (insn_update ?f (insn_ptr end) c))) (insn_ptr end) = Some (?f i)"
    by (rule insn_cache_get_keeps)
  moreover have "insn_cache (hwloop_set_all k start end cnt s) = snd (insn_cache_get start (insn_update ?f (insn_ptr end) c))"
    by (simp add: hwloop_set_all_def hwloop_set_count_def hwloop_set_start_def hwloop_set_end_def hwloop_set_insn_end_def iss_insn_get_def
      insn_put_def fst_insn_cache_get split_def Let_def c_def)
  moreover have "i_addr (?f i) = i_addr i" by simp
  ultimately show ?thesis using i(2) by auto
qed


text \<open>While the flag of an interrupted \<^verbatim>\<open>elw\<close> is set, which it is during the whole interrupt handler, the end of a loop neither counts
  nor goes to the start of the loop, but to the instruction another loop has left behind.\<close>

lemma loop_end_in_interrupt:
  assumes "elw_interrupted s" "insn_of s (Some p) = Some insn" "ex (hwloop_handler insn) p s w = Some (q, s1, w1)"
  shows "hwloop_check_exec ex p s w = Some (hwloop_next_insn s1, s1, w1)"
  using assms by (simp add: hwloop_check_exec_def)

text \<open>The entry into debug mode does not fetch the first instruction of the handler: it is executed with what its entry
  happens to contain.\<close>

lemma debug_entry_not_fetched:
  assumes "req_debug s" "\<not> debug_mode s" "insn_of s (current_insn s) = Some insn"
  shows "\<exists>s1. iss_irq_check dec isas ftgt s w = Some (False, s1, w) \<and> current_insn s1 = debug_handler s \<and> insn_cache s1 = insn_cache s"
  using assms by (simp add: iss_irq_check_def debug_enter_def)

end
