(* ===== verification/Iss_Csr.thy ===== *)
theory Iss_Csr
  imports Iss_Exec
begin

text \<open>
  The control and status registers (\<^verbatim>\<open>iss/src/csr.cpp\<close>) and the instructions that access them (\<^verbatim>\<open>iss/include/priv.hpp\<close>). Each register has a function that reads it and one
  that writes it; most of them do nothing, and a read that does nothing leaves the variable of the caller as it was, which is the argument of the
  reader. The two functions that dispatch on the number of the register return a flag that is set when they fail.
  The numbers of the counters and of the hardware loop registers depend on the version of two headers: they are the argument \<open>cm\<close>. The numbers of the first versions,
  which are in the repository, are \<open>csr_map_1_9\<close>; those of the hardware loop registers are not in it. External
  counters that are traced are not modelled, and the secure variant is a field of the configuration.
\<close>

section \<open>Registers\<close>

type_synonym csr_reader = "u32 \<Rightarrow> iss \<Rightarrow> bool \<times> u32 \<times> iss"
type_synonym csr_writer = "u32 \<Rightarrow> iss \<Rightarrow> bool \<times> iss"

definition ustatus_read :: csr_reader where "ustatus_read v s = (False, 0, s)"

definition ustatus_write :: csr_writer where "ustatus_write v s = (False, s)"

definition uie_read :: csr_reader where "uie_read v s = (False, v, s)"

definition uie_write :: csr_writer where "uie_write v s = (False, s)"

definition utvec_read :: csr_reader where "utvec_read v s = (False, 0, s)"

definition utvec_write :: csr_writer where "utvec_write v s = (False, s)"

definition uscratch_read :: csr_reader where "uscratch_read v s = (False, v, s)"

definition uscratch_write :: csr_writer where "uscratch_write v s = (False, s)"

definition uepc_read :: csr_reader where "uepc_read v s = (False, v, s)"

definition uepc_write :: csr_writer where "uepc_write v s = (False, s)"

definition ucause_read :: csr_reader where "ucause_read v s = (False, v, s)"

definition ucause_write :: csr_writer where "ucause_write v s = (False, s)"

definition ubadaddr_read :: csr_reader where "ubadaddr_read v s = (False, v, s)"

definition ubadaddr_write :: csr_writer where "ubadaddr_write v s = (False, s)"

definition uip_read :: csr_reader where "uip_read v s = (False, v, s)"

definition uip_write :: csr_writer where "uip_write v s = (False, s)"

definition fflags_read :: csr_reader where "fflags_read v s = (False, fcsr_raw s AND 0x1F, s)"

definition fflags_write :: csr_writer where "fflags_write v s = (False, s\<lparr>fcsr_raw := (fcsr_raw s AND NOT 0x1F) OR (v AND 0x1F)\<rparr>)"

definition frm_read :: csr_reader where "frm_read v s = (False, fcsr_frm s, s)"

definition frm_write :: csr_writer where "frm_write v s = (False, s\<lparr>fcsr_frm := v AND 7\<rparr>)"

definition fcsr_read :: csr_reader where "fcsr_read v s = (False, fcsr_raw s, s)"

definition fcsr_write :: csr_writer where "fcsr_write v s = (False, s\<lparr>fcsr_raw := v AND 0xFF\<rparr>)"

definition fprec_read :: csr_reader where "fprec_read v s = (False, fprec s, s)"

definition fprec_write :: csr_writer where "fprec_write v s = (False, s\<lparr>fprec := v AND 0x1F\<rparr>)"

definition cycle_read :: csr_reader where "cycle_read v s = (False, v, s)"

definition time_read :: csr_reader where "time_read v s = (False, v, s)"

definition instret_read :: csr_reader where "instret_read v s = (False, v, s)"

definition cycleh_read :: csr_reader where "cycleh_read v s = (False, v, s)"

definition timeh_read :: csr_reader where "timeh_read v s = (False, v, s)"

definition instreth_read :: csr_reader where "instreth_read v s = (False, v, s)"

definition sstatus_read :: csr_reader where "sstatus_read v s = (False, v, s)"

definition sstatus_write :: csr_writer where "sstatus_write v s = (False, s)"

definition sedeleg_read :: csr_reader where "sedeleg_read v s = (False, v, s)"

definition sedeleg_write :: csr_writer where "sedeleg_write v s = (False, s)"

definition sideleg_read :: csr_reader where "sideleg_read v s = (False, v, s)"

definition sideleg_write :: csr_writer where "sideleg_write v s = (False, s)"

definition sie_read :: csr_reader where "sie_read v s = (False, v, s)"

definition sie_write :: csr_writer where "sie_write v s = (False, s)"

definition stvec_read :: csr_reader where "stvec_read v s = (False, v, s)"

definition stvec_write :: csr_writer where "stvec_write v s = (False, s)"

definition sscratch_read :: csr_reader where "sscratch_read v s = (False, v, s)"

definition sscratch_write :: csr_writer where "sscratch_write v s = (False, s)"

definition sepc_read :: csr_reader where "sepc_read v s = (False, v, s)"

definition sepc_write :: csr_writer where "sepc_write v s = (False, s)"

definition scause_read :: csr_reader where "scause_read v s = (False, v, s)"

definition scause_write :: csr_writer where "scause_write v s = (False, s)"

definition sbadaddr_read :: csr_reader where "sbadaddr_read v s = (False, v, s)"

definition sbadaddr_write :: csr_writer where "sbadaddr_write v s = (False, s)"

definition sip_read :: csr_reader where "sip_read v s = (False, v, s)"

definition sip_write :: csr_writer where "sip_write v s = (False, s)"

definition sptbr_read :: csr_reader where "sptbr_read v s = (False, v, s)"

definition sptbr_write :: csr_writer where "sptbr_write v s = (False, s)"

definition hstatus_read :: csr_reader where "hstatus_read v s = (False, v, s)"

definition hstatus_write :: csr_writer where "hstatus_write v s = (False, s)"

definition hedeleg_read :: csr_reader where "hedeleg_read v s = (False, v, s)"

definition hedeleg_write :: csr_writer where "hedeleg_write v s = (False, s)"

definition hideleg_read :: csr_reader where "hideleg_read v s = (False, v, s)"

definition hideleg_write :: csr_writer where "hideleg_write v s = (False, s)"

definition hie_read :: csr_reader where "hie_read v s = (False, v, s)"

definition hie_write :: csr_writer where "hie_write v s = (False, s)"

definition htvec_read :: csr_reader where "htvec_read v s = (False, v, s)"

definition htvec_write :: csr_writer where "htvec_write v s = (False, s)"

definition hscratch_read :: csr_reader where "hscratch_read v s = (False, v, s)"

definition hscratch_write :: csr_writer where "hscratch_write v s = (False, s)"

definition hepc_read :: csr_reader where "hepc_read v s = (False, v, s)"

definition hepc_write :: csr_writer where "hepc_write v s = (False, s)"

definition hcause_read :: csr_reader where "hcause_read v s = (False, v, s)"

definition hcause_write :: csr_writer where "hcause_write v s = (False, s)"

definition hbadaddr_read :: csr_reader where "hbadaddr_read v s = (False, v, s)"

definition hbadaddr_write :: csr_writer where "hbadaddr_write v s = (False, s)"

definition misa_read :: csr_reader where "misa_read v s = (False, cf_misa s, s)"

definition misa_write :: csr_writer where "misa_write v s = (False, s)"

definition mvendorid_read :: csr_reader where "mvendorid_read v s = (False, v, s)"

definition marchid_read :: csr_reader where "marchid_read v s = (False, v, s)"

definition mimpid_read :: csr_reader where "mimpid_read v s = (False, 0, s)"

definition mhartid_read :: csr_reader where "mhartid_read v s = (False, cf_mhartid s, s)"

definition mstatus_read :: csr_reader where "mstatus_read v s = (False, (csr_status s AND NOT 8) OR push_bit 3 (of_bool (irq_enable s)) OR push_bit 7 (of_bool (saved_irq_enable s)), s)"

definition mstatus_mask :: "iss \<Rightarrow> u32" where "mstatus_mask s = (if cf_secure s then 0x21899 else 0x88)"

definition mstatus_or_mask :: "iss \<Rightarrow> u32" where "mstatus_or_mask s = (if cf_secure s then 0 else 0x1800)"

definition mstatus_write :: csr_writer where
  "mstatus_write v s =
     (False, (iss_irq_enable (bit v 3) (s\<lparr>csr_status := (v AND mstatus_mask s) OR mstatus_or_mask s\<rparr>))\<lparr>saved_irq_enable := bit v 7\<rparr>)"

definition medeleg_read :: csr_reader where "medeleg_read v s = (False, v, s)"

definition medeleg_write :: csr_writer where "medeleg_write v s = (False, s)"

definition mideleg_read :: csr_reader where "mideleg_read v s = (False, v, s)"

definition mideleg_write :: csr_writer where "mideleg_write v s = (False, s)"

definition mie_read :: csr_reader where "mie_read v s = (False, v, s)"

definition mie_write :: csr_writer where "mie_write v s = (False, s)"

definition mtvec_read :: csr_reader where "mtvec_read v s = (False, csr_mtvec s, s)"

definition mtvec_write :: csr_writer where "mtvec_write v s = (False, iss_irq_set_vector_table v (s\<lparr>csr_mtvec := v\<rparr>))"

definition mscratch_read :: csr_reader where "mscratch_read v s = (False, csr_mscratch s, s)"

definition mscratch_write :: csr_writer where "mscratch_write v s = (False, s\<lparr>csr_mscratch := v\<rparr>)"

definition mepc_read :: csr_reader where "mepc_read v s = (False, csr_epc s, s)"

definition mepc_write :: csr_writer where "mepc_write v s = (False, s\<lparr>csr_epc := v AND NOT 1\<rparr>)"

definition mcause_read :: csr_reader where "mcause_read v s = (False, csr_mcause s, s)"

definition mcause_write :: csr_writer where "mcause_write v s = (False, s\<lparr>csr_mcause := v\<rparr>)"

definition mbadaddr_read :: csr_reader where "mbadaddr_read v s = (False, v, s)"

definition mbadaddr_write :: csr_writer where "mbadaddr_write v s = (False, s)"

definition mip_read :: csr_reader where "mip_read v s = (False, v, s)"

definition mip_write :: csr_writer where "mip_write v s = (False, s)"

definition mbase_read :: csr_reader where "mbase_read v s = (False, v, s)"

definition mbase_write :: csr_writer where "mbase_write v s = (False, s)"

definition mbound_read :: csr_reader where "mbound_read v s = (False, v, s)"

definition mbound_write :: csr_writer where "mbound_write v s = (False, s)"

definition mibase_read :: csr_reader where "mibase_read v s = (False, v, s)"

definition mibase_write :: csr_writer where "mibase_write v s = (False, s)"

definition mibound_read :: csr_reader where "mibound_read v s = (False, v, s)"

definition mibound_write :: csr_writer where "mibound_write v s = (False, s)"

definition mdbase_read :: csr_reader where "mdbase_read v s = (False, v, s)"

definition mdbase_write :: csr_writer where "mdbase_write v s = (False, s)"

definition mdbound_read :: csr_reader where "mdbound_read v s = (False, v, s)"

definition mdbound_write :: csr_writer where "mdbound_write v s = (False, s)"

definition mcycle_read :: csr_reader where "mcycle_read v s = (False, v, s)"

definition mcycle_write :: csr_writer where "mcycle_write v s = (False, s)"

definition minstret_read :: csr_reader where "minstret_read v s = (False, v, s)"

definition minstret_write :: csr_writer where "minstret_write v s = (False, s)"

definition mcycleh_read :: csr_reader where "mcycleh_read v s = (False, v, s)"

definition mcycleh_write :: csr_writer where "mcycleh_write v s = (False, s)"

definition minstreth_read :: csr_reader where "minstreth_read v s = (False, v, s)"

definition minstreth_write :: csr_writer where "minstreth_write v s = (False, s)"

definition mucounteren_read :: csr_reader where "mucounteren_read v s = (False, v, s)"

definition mucounteren_write :: csr_writer where "mucounteren_write v s = (False, s)"

definition mscounteren_read :: csr_reader where "mscounteren_read v s = (False, v, s)"

definition mscounteren_write :: csr_writer where "mscounteren_write v s = (False, s)"

definition mhcounteren_read :: csr_reader where "mhcounteren_read v s = (False, v, s)"

definition mhcounteren_write :: csr_writer where "mhcounteren_write v s = (False, s)"

definition stack_conf_write :: csr_writer where "stack_conf_write v s = (False, s\<lparr>stack_conf := v\<rparr>)"

definition stack_conf_read :: csr_reader where "stack_conf_read v s = (False, stack_conf s, s)"

definition stack_start_write :: csr_writer where "stack_start_write v s = (False, s\<lparr>stack_start := v\<rparr>)"

definition stack_start_read :: csr_reader where "stack_start_read v s = (False, stack_start s, s)"

definition stack_end_write :: csr_writer where "stack_end_write v s = (False, s\<lparr>stack_end := v\<rparr>)"

definition stack_end_read :: csr_reader where "stack_end_read v s = (False, stack_end s, s)"

definition umode_read :: csr_reader where "umode_read v s = (False, 3, s)"

definition dcsr_read :: csr_reader where "dcsr_read v s = (False, csr_dcsr s, s)"

definition dcsr_write :: csr_writer where "dcsr_write v s = (False, s\<lparr>csr_dcsr := v, step_mode := bit v 2\<rparr>)"

definition depc_read :: csr_reader where "depc_read v s = (False, csr_depc s, s)"

definition depc_write :: csr_writer where "depc_write v s = (False, s\<lparr>csr_depc := v\<rparr>)"

definition scratch0_read :: csr_reader where "scratch0_read v s = (False, csr_scratch0 s, s)"

definition scratch0_write :: csr_writer where "scratch0_write v s = (False, s\<lparr>csr_scratch0 := v\<rparr>)"

definition scratch1_read :: csr_reader where "scratch1_read v s = (False, csr_scratch1 s, s)"

definition scratch1_write :: csr_writer where "scratch1_write v s = (False, s\<lparr>csr_scratch1 := v\<rparr>)"

section \<open>Performance counters and hardware loops\<close>

text \<open>The numbers; \<open>cm_stack\<close> has the three registers of the stack check, where they exist.\<close>

record csr_map =
  cm_pccr :: "nat \<Rightarrow> u32"
  cm_nb_pccr :: nat
  cm_pcer :: u32
  cm_pcmr :: u32
  cm_nb_internal :: nat
  cm_nb_events :: nat
  cm_event_mask :: "nat \<Rightarrow> u32"
  cm_hwloop0_start :: u32
  cm_hwloop1_counter :: u32
  cm_stack :: "(u32 \<times> u32 \<times> u32) option"

definition csr_map_1_9 :: "u32 \<Rightarrow> u32 \<Rightarrow> csr_map" where
  "csr_map_1_9 hwloop0_start hwloop1_counter =
     \<lparr>cm_pccr = (\<lambda>n. 0x780 + of_nat n), cm_nb_pccr = 31, cm_pcer = 0x7A0, cm_pcmr = 0x7A1, cm_nb_internal = 11, cm_nb_events = 17,
      cm_event_mask = (\<lambda>n. push_bit n 1), cm_hwloop0_start = hwloop0_start, cm_hwloop1_counter = hwloop1_counter, cm_stack = None\<rparr>"

definition iss_csr_ext_counter_is_bound :: "nat \<Rightarrow> iss \<Rightarrow> bool" where
  "iss_csr_ext_counter_is_bound k s \<longleftrightarrow> ext_counter s k \<noteq> None"

text \<open>A counter that is not connected leaves the variable of the caller alone.\<close>

definition iss_csr_ext_counter_get :: "nat \<Rightarrow> u32 \<Rightarrow> iss \<Rightarrow> u32" where
  "iss_csr_ext_counter_get k v s = (case ext_counter s k of None \<Rightarrow> v | Some c \<Rightarrow> c)"

definition iss_csr_ext_counter_set :: "nat \<Rightarrow> u32 \<Rightarrow> iss \<Rightarrow> iss" where
  "iss_csr_ext_counter_set k v s = (if ext_counter s k = None then s else s\<lparr>ext_counter := (ext_counter s)(k := Some v)\<rparr>)"

definition update_external_pccr :: "csr_map \<Rightarrow> nat \<Rightarrow> u32 \<Rightarrow> u32 \<Rightarrow> iss \<Rightarrow> iss" where
  "update_external_pccr cm k er mr s =
     (let s1 = (if er AND cm_event_mask cm k \<noteq> 0 \<and> mr AND CSR_PCMR_ACTIVE \<noteq> 0
                then s\<lparr>pccr := (pccr s)(k := pccr s k + iss_csr_ext_counter_get k 0 s)\<rparr> else s)
      in if iss_csr_ext_counter_is_bound k s1 then iss_csr_ext_counter_set k 0 s1 else s1)"

definition check_perf_config_change :: "csr_map \<Rightarrow> u32 \<Rightarrow> u32 \<Rightarrow> iss \<Rightarrow> iss" where
  "check_perf_config_change cm er mr s = fold (\<lambda>i. update_external_pccr cm i er mr) [cm_nb_internal cm..<cm_nb_events cm] s"

definition flushExternalCounters :: "csr_map \<Rightarrow> iss \<Rightarrow> iss" where
  "flushExternalCounters cm s = fold (\<lambda>i t. update_external_pccr cm i (pcer t) (pcmr t) t) [cm_nb_internal cm..<cm_nb_events cm] s"

definition pcer_write :: "csr_map \<Rightarrow> u32 \<Rightarrow> csr_writer" where
  "pcer_write cm prev_val v s = (let s1 = s\<lparr>pcer := v AND 0x7FFFFFFF\<rparr> in (False, check_perf_config_change cm prev_val (pcmr s1) s1))"

definition pcmr_write :: "csr_map \<Rightarrow> u32 \<Rightarrow> csr_writer" where
  "pcmr_write cm prev_val v s = (let s1 = s\<lparr>pcmr := v\<rparr> in (False, check_perf_config_change cm (pcer s1) prev_val s1))"

definition hwloop_read :: "nat \<Rightarrow> csr_reader" where
  "hwloop_read reg v s = (False, hwloop_regs s reg, s)"

definition hwloop_write :: "nat \<Rightarrow> csr_writer" where
  "hwloop_write reg v s =
     (let s1 = s\<lparr>hwloop_regs := (hwloop_regs s)(reg := v)\<rparr>
      in (False,
          if reg = 0 then let (p, t) = iss_insn_get v s1 in t\<lparr>hwloop_start_insn := (hwloop_start_insn t)(0 := Some p)\<rparr>
          else if reg = 4 then let (p, t) = iss_insn_get v s1 in t\<lparr>hwloop_start_insn := (hwloop_start_insn t)(1 := Some p)\<rparr>
          else s1))"

definition pccr_index :: "csr_map \<Rightarrow> u32 \<Rightarrow> nat" where
  "pccr_index cm reg = unat (reg - cm_pccr cm 0)"

definition is_external :: "csr_map \<Rightarrow> u32 \<Rightarrow> bool" where
  "is_external cm reg \<longleftrightarrow> cm_pccr cm (cm_nb_internal cm) \<le> reg \<and> reg < cm_pccr cm (cm_nb_pccr cm)"

definition perfCounters_read :: "csr_map \<Rightarrow> u32 \<Rightarrow> csr_reader" where
  "perfCounters_read cm reg v s =
     (if is_external cm reg then
        let s1 = update_external_pccr cm (pccr_index cm reg) (pcer s) (pcmr s) s in (False, pccr s1 (pccr_index cm reg), s1)
      else if reg = cm_pcer cm then (False, pcer s, s)
      else if reg = cm_pcmr cm then (False, pcmr s, s)
      else (False, pccr s (pccr_index cm reg), s))"

definition set_all_pccr :: "csr_map \<Rightarrow> u32 \<Rightarrow> iss \<Rightarrow> iss" where
  "set_all_pccr cm v s =
     fold (\<lambda>i t. let t1 = t\<lparr>pccr := (pccr t)(i := v)\<rparr>
                in if cm_nb_internal cm \<le> i \<and> i < cm_nb_events cm then update_external_pccr cm i 0 0 t1 else t1) [0..<31] s"

definition perfCounters_write :: "csr_map \<Rightarrow> u32 \<Rightarrow> csr_writer" where
  "perfCounters_write cm reg v s =
     (if reg = cm_pcer cm then pcer_write cm (pcer s) v s
      else if reg = cm_pcmr cm then pcmr_write cm (pcmr s) v s
      else if is_external cm reg then (False, update_external_pccr cm (pccr_index cm reg) (pcer s) (pcmr s) s)
      else if reg = cm_pccr cm (cm_nb_pccr cm) then (False, set_all_pccr cm v s)
      else (False, s\<lparr>pccr := (pccr s)(pccr_index cm reg := v)\<rparr>))"

section \<open>Dispatch\<close>

definition csr_readers :: "(u32 \<times> csr_reader) list" where
  "csr_readers =
    [(0x000, ustatus_read), (0x004, uie_read), (0x005, utvec_read), (0x040, uscratch_read), (0x041, uepc_read), (0x042, ucause_read),
     (0x043, ubadaddr_read), (0x044, uip_read), (0x001, fflags_read), (0x002, frm_read), (0x003, fcsr_read), (0x006, fprec_read),
     (0xC00, cycle_read), (0xC01, time_read), (0xC02, instret_read), (0xC80, cycleh_read), (0xC81, timeh_read),
     (0xC82, instreth_read), (0x100, sstatus_read), (0x102, sedeleg_read), (0x103, sideleg_read), (0x104, sie_read),
     (0x105, stvec_read), (0x140, sscratch_read), (0x141, sepc_read), (0x142, scause_read), (0x143, sbadaddr_read),
     (0x144, sip_read), (0x180, sptbr_read), (0x200, hstatus_read), (0x202, hedeleg_read), (0x203, hideleg_read), (0x204, hie_read),
     (0x205, htvec_read), (0x240, hscratch_read), (0x241, hepc_read), (0x242, hcause_read), (0x243, hbadaddr_read),
     (0xF11, mvendorid_read), (0xF12, marchid_read), (0xF13, mimpid_read), (0xF14, mhartid_read), (0x300, mstatus_read),
     (0x301, misa_read), (0x302, medeleg_read), (0x303, mideleg_read), (0x304, mie_read), (0x305, mtvec_read),
     (0x340, mscratch_read), (0x341, mepc_read), (0x342, mcause_read), (0x343, mbadaddr_read), (0x344, mip_read),
     (0x380, mbase_read), (0x381, mbound_read), (0x382, mibase_read), (0x383, mibound_read), (0x384, mdbase_read),
     (0x385, mdbound_read), (0xB00, mcycle_read), (0xB02, minstret_read), (0xB80, mcycleh_read), (0xB82, minstreth_read),
     (0x320, mucounteren_read), (0x321, mscounteren_read), (0x322, mhcounteren_read), (0xC10, umode_read), (0x014, mhartid_read)]"

definition debug_readers :: "csr_map \<Rightarrow> (u32 \<times> csr_reader) list" where
  "debug_readers cm = (if cm_hwloop0_start cm \<noteq> 0x7b0 then [(0x7b0, dcsr_read), (0x7b1, depc_read), (0x7b2, scratch0_read), (0x7b3, scratch1_read)] else [])"

definition stack_readers :: "csr_map \<Rightarrow> (u32 \<times> csr_reader) list" where
  "stack_readers cm = (case cm_stack cm of None \<Rightarrow> [] | Some (a, b, c) \<Rightarrow> [(a, stack_conf_read), (b, stack_start_read), (c, stack_end_read)])"

definition csr_writers :: "(u32 \<times> csr_writer) list" where
  "csr_writers =
    [(0x000, ustatus_write), (0x004, uie_write), (0x005, utvec_write), (0x040, uscratch_write), (0x041, uepc_write),
     (0x042, ucause_write), (0x043, ubadaddr_write), (0x044, uip_write), (0x001, fflags_write), (0x002, frm_write),
     (0x003, fcsr_write), (0x006, fprec_write), (0x100, sstatus_write), (0x102, sedeleg_write), (0x103, sideleg_write),
     (0x104, sie_write), (0x105, stvec_write), (0x140, sscratch_write), (0x141, sepc_write), (0x142, scause_write),
     (0x143, sbadaddr_write), (0x144, sip_write), (0x180, sptbr_write), (0x200, hstatus_write), (0x202, hedeleg_write),
     (0x203, hideleg_write), (0x204, hie_write), (0x205, htvec_write), (0x240, hscratch_write), (0x241, hepc_write),
     (0x242, hcause_write), (0x243, hbadaddr_write), (0x300, mstatus_write), (0x301, misa_write), (0x302, medeleg_write),
     (0x303, mideleg_write), (0x304, mie_write), (0x305, mtvec_write), (0x340, mscratch_write), (0x341, mepc_write),
     (0x342, mcause_write), (0x343, mbadaddr_write), (0x344, mip_write), (0x380, mbase_write), (0x381, mbound_write),
     (0x382, mibase_write), (0x383, mibound_write), (0x384, mdbase_write), (0x385, mdbound_write), (0xB00, mcycle_write),
     (0xB02, minstret_write), (0xB80, mcycleh_write), (0xB82, minstreth_write), (0x310, mucounteren_write),
     (0x311, mscounteren_write), (0x312, mhcounteren_write)]"

definition debug_writers :: "csr_map \<Rightarrow> (u32 \<times> csr_writer) list" where
  "debug_writers cm = (if cm_hwloop0_start cm \<noteq> 0x7b0 then [(0x7b0, dcsr_write), (0x7b1, depc_write), (0x7b2, scratch0_write), (0x7b3, scratch1_write)] else [])"

definition stack_writers :: "csr_map \<Rightarrow> (u32 \<times> csr_writer) list" where
  "stack_writers cm = (case cm_stack cm of None \<Rightarrow> [] | Some (a, b, c) \<Rightarrow> [(a, stack_conf_write), (b, stack_start_write), (c, stack_end_write)])"

definition is_perf_counter :: "csr_map \<Rightarrow> u32 \<Rightarrow> bool" where
  "is_perf_counter cm reg \<longleftrightarrow> cm_pccr cm 0 \<le> reg \<and> reg \<le> cm_pccr cm (cm_nb_pccr cm) \<or> reg = cm_pcer cm \<or> reg = cm_pcmr cm"

definition is_hwloop :: "csr_map \<Rightarrow> u32 \<Rightarrow> bool" where
  "is_hwloop cm reg \<longleftrightarrow> cm_hwloop0_start cm \<le> reg \<and> reg \<le> cm_hwloop1_counter cm"

text \<open>With hardware loops, the flag of a register that does not exist is a variable that is never set: \<open>junk\<close>.\<close>

definition iss_csr_read :: "csr_map \<Rightarrow> bool \<Rightarrow> u32 \<Rightarrow> csr_reader" where
  "iss_csr_read cm junk reg v s =
     (case map_of (csr_readers @ debug_readers cm @ stack_readers cm) reg of
        Some f \<Rightarrow> f v s
      | None \<Rightarrow>
          if is_perf_counter cm reg then perfCounters_read cm reg v s
          else if pulpv2_hwloop s then
            if is_hwloop cm reg then hwloop_read (unat (reg - cm_hwloop0_start cm)) v s else (junk, v, s)
          else (True, v, s))"

definition iss_csr_write :: "csr_map \<Rightarrow> u32 \<Rightarrow> csr_writer" where
  "iss_csr_write cm reg v s0 =
     (let s = iss_trigger_check_all s0 in
      case map_of (csr_writers @ debug_writers cm @ stack_writers cm) reg of
        Some f \<Rightarrow> f v s
      | None \<Rightarrow>
          if is_perf_counter cm reg then perfCounters_write cm reg v s
          else if pulpv2_hwloop s \<and> is_hwloop cm reg then hwloop_write (unat (reg - cm_hwloop0_start cm)) v s
          else (True, s))"

definition iss_csr_init :: "iss \<Rightarrow> iss" where
  "iss_csr_init s = s\<lparr>csr_status := push_bit 11 3, csr_mcause := 0, pcmr := 3, pcer := 3, stack_conf := 0, csr_dcsr := push_bit 28 4\<rparr>"

section \<open>Instructions\<close>

text \<open>The variable the register is read into is not initialised: its value is \<open>fst junk\<close>.\<close>

definition csr_to_reg :: "csr_map \<Rightarrow> u32 \<times> bool \<Rightarrow> iss_insn \<Rightarrow> iss \<Rightarrow> u32 \<times> iss" where
  "csr_to_reg cm junk insn s =
     (let (err, v, s1) = iss_csr_read cm (snd junk) (UIM_GET insn 0) (fst junk) s
      in (v, if \<not> err \<and> out_regs insn 0 \<noteq> 0 then REG_SET insn 0 v s1 else s1))"

definition csrrw_exec :: "csr_map \<Rightarrow> u32 \<times> bool \<Rightarrow> iss_insn \<Rightarrow> iss \<Rightarrow> (iptr option \<times> iss) option" where
  "csrrw_exec cm junk insn s =
     (let reg_value = REG_GET s insn 0; (v, s1) = csr_to_reg cm junk insn s
      in Some (i_next insn, snd (iss_csr_write cm (UIM_GET insn 0) (reg_value) s1)))"

definition csrrc_exec :: "csr_map \<Rightarrow> u32 \<times> bool \<Rightarrow> iss_insn \<Rightarrow> iss \<Rightarrow> (iptr option \<times> iss) option" where
  "csrrc_exec cm junk insn s =
     (let reg_value = REG_GET s insn 0; (v, s1) = csr_to_reg cm junk insn s
      in Some (i_next insn, snd (iss_csr_write cm (UIM_GET insn 0) (v AND NOT reg_value) s1)))"

definition csrrs_exec :: "csr_map \<Rightarrow> u32 \<times> bool \<Rightarrow> iss_insn \<Rightarrow> iss \<Rightarrow> (iptr option \<times> iss) option" where
  "csrrs_exec cm junk insn s =
     (let reg_value = REG_GET s insn 0; (v, s1) = csr_to_reg cm junk insn s
      in Some (i_next insn, snd (iss_csr_write cm (UIM_GET insn 0) (v OR reg_value) s1)))"

definition csrrwi_exec :: "csr_map \<Rightarrow> u32 \<times> bool \<Rightarrow> iss_insn \<Rightarrow> iss \<Rightarrow> (iptr option \<times> iss) option" where
  "csrrwi_exec cm junk insn s =
     (let (v, s1) = csr_to_reg cm junk insn s
      in Some (i_next insn, snd (iss_csr_write cm (UIM_GET insn 0) (UIM_GET insn 1) s1)))"

definition csrrci_exec :: "csr_map \<Rightarrow> u32 \<times> bool \<Rightarrow> iss_insn \<Rightarrow> iss \<Rightarrow> (iptr option \<times> iss) option" where
  "csrrci_exec cm junk insn s =
     (let (v, s1) = csr_to_reg cm junk insn s
      in Some (i_next insn, snd (iss_csr_write cm (UIM_GET insn 0) (v AND NOT (UIM_GET insn 1)) s1)))"

definition csrrsi_exec :: "csr_map \<Rightarrow> u32 \<times> bool \<Rightarrow> iss_insn \<Rightarrow> iss \<Rightarrow> (iptr option \<times> iss) option" where
  "csrrsi_exec cm junk insn s =
     (let (v, s1) = csr_to_reg cm junk insn s
      in Some (i_next insn, snd (iss_csr_write cm (UIM_GET insn 0) (v OR UIM_GET insn 1) s1)))"

section \<open>The registers that can be written\<close>

text \<open>The registers with a storage of their own, what they contain and what a write makes of a value.\<close>

definition csr_plain :: "u32 list" where
  "csr_plain = [0x002, 0x003, 0x006, 0x300, 0x305, 0x340, 0x341, 0x342, 0x7b0, 0x7b1, 0x7b2, 0x7b3]"

definition csr_get :: "iss \<Rightarrow> u32 \<Rightarrow> u32" where
  "csr_get s reg =
     (if reg = 0x002 then fcsr_frm s else if reg = 0x003 then fcsr_raw s else if reg = 0x006 then fprec s
      else if reg = 0x300 then (csr_status s AND NOT 8) OR push_bit 3 (of_bool (irq_enable s)) OR push_bit 7 (of_bool (saved_irq_enable s))
      else if reg = 0x305 then csr_mtvec s else if reg = 0x340 then csr_mscratch s else if reg = 0x341 then csr_epc s
      else if reg = 0x342 then csr_mcause s else if reg = 0x7b0 then csr_dcsr s else if reg = 0x7b1 then csr_depc s
      else if reg = 0x7b2 then csr_scratch0 s else if reg = 0x7b3 then csr_scratch1 s else 0)"

definition csr_legal :: "iss \<Rightarrow> u32 \<Rightarrow> u32 \<Rightarrow> u32" where
  "csr_legal s reg v =
     (if reg = 0x002 then v AND 7 else if reg = 0x003 then v AND 0xFF else if reg = 0x006 then v AND 0x1F
      else if reg = 0x300 then (v AND mstatus_mask s) OR mstatus_or_mask s
      else if reg = 0x341 then v AND NOT 1 else v)"

lemma csr_plain_cases:
  assumes "reg \<in> set csr_plain"
  obtains "reg = 0x002" | "reg = 0x003" | "reg = 0x006" | "reg = 0x300" | "reg = 0x305" | "reg = 0x340" | "reg = 0x341" | "reg = 0x342"
    | "reg = 0x7b0" | "reg = 0x7b1" | "reg = 0x7b2" | "reg = 0x7b3"
  using assms by (auto simp: csr_plain_def)

lemma mstatus_legal:
  fixes v m k :: u32
  assumes "m = 0x88 \<and> k = 0x1800 \<or> m = 0x21899 \<and> k = 0"
  shows "(((v AND m) OR k) AND NOT 8) OR push_bit 3 (of_bool (bit v 3)) OR push_bit 7 (of_bool (bit v 7)) = (v AND m) OR k"
proof -
  have m: "bit m 3" "bit m 7" "\<not> bit k 3" "\<not> bit k 7" using assms by (elim disjE conjE; simp)+
  have e: "bit (8 :: u32) n \<longleftrightarrow> n = 3" for n using bit_exp_iff [where 'a = u32, of 3 n] by auto
  have p: "bit (push_bit i (of_bool b) :: u32) n \<longleftrightarrow> n = i \<and> b" if "i < 32" for i n b
    using that by (cases b) (auto simp: bit_exp_iff)
  show ?thesis
  proof (rule bit_word_eqI)
    fix n assume "n < LENGTH(32)"
    then show "bit ((((v AND m) OR k) AND NOT 8) OR push_bit 3 (of_bool (bit v 3)) OR push_bit 7 (of_bool (bit v 7))) n = bit ((v AND m) OR k) n"
      using m p [of 3] p [of 7] unfolding bit_or_iff bit_and_iff bit_not_iff e by (cases "n = 3"; cases "n = 7") simp_all
  qed
qed

lemma csr_get_get [simp]: "csr_get (snd (iss_insn_get a s)) = csr_get s" "csr_get (s\<lparr>vectors := f\<rparr>) = csr_get s"
    "csr_get (s\<lparr>vector_base := b\<rparr>) = csr_get s" "csr_get (iss_trigger_check_all s) = csr_get s"
  by (simp_all add: csr_get_def iss_insn_get_def iss_trigger_check_all_def fun_eq_iff split_def Let_def)

lemma csr_legal_check [simp]: "csr_legal (iss_trigger_check_all s) reg v = csr_legal s reg v"
  by (simp add: csr_legal_def mstatus_mask_def mstatus_or_mask_def iss_trigger_check_all_def)

lemma csr_get_vectors [simp]: "csr_get (set_vectors base is s) = csr_get s"
  by (induction base "is" s rule: set_vectors.induct) (simp_all add: split_def Let_def)

lemma csr_get_vector_table [simp]: "csr_get (iss_irq_set_vector_table base s) = csr_get s"
  by (simp add: iss_irq_set_vector_table_def)

lemma csr_read_plain:
  assumes "cm_hwloop0_start cm \<noteq> 0x7b0" "reg \<in> set csr_plain"
  shows "iss_csr_read cm junk reg v s = (False, csr_get s reg, s)"
  using assms(2)
  by (cases rule: csr_plain_cases)
    (simp_all add: iss_csr_read_def csr_readers_def debug_readers_def assms(1) csr_get_def frm_read_def fcsr_read_def fprec_read_def mstatus_read_def
      mtvec_read_def mscratch_read_def mepc_read_def mcause_read_def dcsr_read_def depc_read_def scratch0_read_def scratch1_read_def)

definition csr_put :: "u32 \<Rightarrow> u32 \<Rightarrow> iss \<Rightarrow> iss" where
  "csr_put reg v s =
     snd ((if reg = 0x002 then frm_write else if reg = 0x003 then fcsr_write else if reg = 0x006 then fprec_write else if reg = 0x300 then mstatus_write
       else if reg = 0x305 then mtvec_write else if reg = 0x340 then mscratch_write else if reg = 0x341 then mepc_write else if reg = 0x342 then mcause_write
       else if reg = 0x7b0 then dcsr_write else if reg = 0x7b1 then depc_write else if reg = 0x7b2 then scratch0_write else scratch1_write) v s)"

lemmas csr_write_defs = frm_write_def fcsr_write_def fprec_write_def mstatus_write_def mtvec_write_def mscratch_write_def mepc_write_def mcause_write_def
  dcsr_write_def depc_write_def scratch0_write_def scratch1_write_def

lemma csr_write_plain:
  assumes "cm_hwloop0_start cm \<noteq> 0x7b0" "reg \<in> set csr_plain"
  shows "iss_csr_write cm reg v s = (False, csr_put reg v (iss_trigger_check_all s))"
  using assms(2)
  by (cases rule: csr_plain_cases)
    (simp_all add: iss_csr_write_def csr_writers_def debug_writers_def assms(1) csr_put_def csr_write_defs Let_def)

lemma csr_get_fields [simp]:
  "csr_get (s\<lparr>fcsr_frm := x\<rparr>) = (csr_get s)(0x002 := x)" "csr_get (s\<lparr>fcsr_raw := x\<rparr>) = (csr_get s)(0x003 := x)"
  "csr_get (s\<lparr>fprec := x\<rparr>) = (csr_get s)(0x006 := x)" "csr_get (s\<lparr>csr_mtvec := x\<rparr>) = (csr_get s)(0x305 := x)"
  "csr_get (s\<lparr>csr_mscratch := x\<rparr>) = (csr_get s)(0x340 := x)" "csr_get (s\<lparr>csr_epc := x\<rparr>) = (csr_get s)(0x341 := x)"
  "csr_get (s\<lparr>csr_mcause := x\<rparr>) = (csr_get s)(0x342 := x)" "csr_get (s\<lparr>csr_dcsr := x, step_mode := b\<rparr>) = (csr_get s)(0x7b0 := x)"
  "csr_get (s\<lparr>csr_depc := x\<rparr>) = (csr_get s)(0x7b1 := x)" "csr_get (s\<lparr>csr_scratch0 := x\<rparr>) = (csr_get s)(0x7b2 := x)"
  "csr_get (s\<lparr>csr_scratch1 := x\<rparr>) = (csr_get s)(0x7b3 := x)"
  by (simp_all add: csr_get_def fun_eq_iff)

lemma csr_get_mstatus: "csr_get (csr_put 0x300 v s) = (csr_get s)(0x300 := csr_legal s 0x300 v)"
proof
  fix reg
  show "csr_get (csr_put 0x300 v s) reg = ((csr_get s)(0x300 := csr_legal s 0x300 v)) reg"
    using mstatus_legal [of "mstatus_mask s" "mstatus_or_mask s" v]
    by (cases "reg = 0x300") (simp_all add: csr_put_def csr_legal_def csr_get_def mstatus_write_def iss_irq_enable_def irq_check_def mstatus_mask_def mstatus_or_mask_def)
qed

lemma csr_get_put:
  assumes "reg \<in> set csr_plain"
  shows "csr_get (csr_put reg v s) = (csr_get s)(reg := csr_legal s reg v)"
proof (cases "reg = 0x300")
  case True
  then show ?thesis using csr_get_mstatus by simp
next
  case False
  from assms show ?thesis by (cases rule: csr_plain_cases) (use False in \<open>simp_all add: csr_put_def csr_write_defs csr_legal_def\<close>)
qed

text \<open>C18. The control and status registers that hold a value of their own behave like an array of registers: a read returns the
  content and changes nothing, a write succeeds, changes the register that is written to the legal part of the value (bits that do not exist are dropped, the status register keeps
  its fixed bits and mirrors the interrupt flags) and leaves every other register alone.\<close>

theorem csr_file_refines_registers:
  assumes "cm_hwloop0_start cm \<noteq> 0x7b0" "reg \<in> set csr_plain"
  shows "iss_csr_read cm junk reg u s = (False, csr_get s reg, s) \<and>
    \<not> fst (iss_csr_write cm reg v s) \<and> csr_get (snd (iss_csr_write cm reg v s)) = (csr_get s)(reg := csr_legal s reg v)"
  using csr_read_plain [OF assms] csr_write_plain [OF assms] csr_get_put [OF assms(2), of v "iss_trigger_check_all s"]
  by simp

theorem csr_file_refines_registers_witness:
  "csr_get (snd (iss_csr_write (csr_map_1_9 0x7C0 0x7C6) 0x341 0x1C008081 sample_iss)) 0x341 = 0x1C008080 \<and>
   csr_get (snd (iss_csr_write (csr_map_1_9 0x7C0 0x7C6) 0x300 0xFFFFFFFF sample_iss)) 0x300 = 0x1888"
  using csr_file_refines_registers [of "csr_map_1_9 0x7C0 0x7C6" "0x341" False 0 sample_iss "0x1C008081"]
    csr_file_refines_registers [of "csr_map_1_9 0x7C0 0x7C6" "0x300" False 0 sample_iss "0xFFFFFFFF"]
  by (simp add: csr_map_1_9_def csr_plain_def csr_legal_def mstatus_mask_def mstatus_or_mask_def sample_iss_def)

text \<open>What the instructions write back.\<close>

datatype csr_op = Csr_Write | Csr_Set | Csr_Clear

definition csr_apply :: "csr_op \<Rightarrow> u32 \<Rightarrow> u32 \<Rightarrow> u32" where
  "csr_apply op old a = (case op of Csr_Write \<Rightarrow> a | Csr_Set \<Rightarrow> old OR a | Csr_Clear \<Rightarrow> old AND NOT a)"

definition csr_insn :: "csr_op \<Rightarrow> bool \<Rightarrow> csr_map \<Rightarrow> u32 \<times> bool \<Rightarrow> iss_insn \<Rightarrow> iss \<Rightarrow> (iptr option \<times> iss) option" where
  "csr_insn op imm =
     (case op of Csr_Write \<Rightarrow> if imm then csrrwi_exec else csrrw_exec
               | Csr_Set \<Rightarrow> if imm then csrrsi_exec else csrrs_exec
               | Csr_Clear \<Rightarrow> if imm then csrrci_exec else csrrc_exec)"

lemmas csr_exec_defs = csrrw_exec_def csrrs_exec_def csrrc_exec_def csrrwi_exec_def csrrsi_exec_def csrrci_exec_def

lemma csr_get_set [simp]: "csr_get (REG_SET insn k v s) = csr_get s" "csr_legal (REG_SET insn k v s) = csr_legal s"
  by (simp_all add: REG_SET_def iss_set_reg_def csr_get_def csr_legal_def mstatus_mask_def mstatus_or_mask_def fun_eq_iff)

lemma csr_to_reg_plain:
  assumes "cm_hwloop0_start cm \<noteq> 0x7b0" "UIM_GET insn 0 \<in> set csr_plain"
  shows "csr_to_reg cm junk insn s = (csr_get s (UIM_GET insn 0), REG_SET insn 0 (csr_get s (UIM_GET insn 0)) s)"
  using csr_read_plain [OF assms] by (simp add: csr_to_reg_def REG_SET_def iss_set_reg_def)

lemma csr_put_regs: "reg \<in> set csr_plain \<Longrightarrow> regs (csr_put reg v s) = regs s"
proof -
  have "regs (set_vectors base is t) = regs t" for base "is" t
    by (induction base "is" t rule: set_vectors.induct) (simp_all add: iss_insn_get_def split_def Let_def)
  then show ?thesis by (simp add: csr_put_def csr_write_defs iss_irq_enable_def irq_check_def iss_irq_set_vector_table_def)
qed


text \<open>\<^verbatim>\<open>csrrs x5, mscratch, x6\<close> with 3 in the register and 12 in \<^verbatim>\<open>mscratch\<close>.\<close>

definition csrrs_insn :: iss_insn where
  "csrrs_insn = sample_insn\<lparr>uim := (\<lambda>_. 0x340), in_regs := (\<lambda>_. 6), out_regs := (\<lambda>_. 5)\<rparr>"


section \<open>What the registers do not do\<close>

text \<open>A write to a counter of external events is lost: the counter is brought up to date, but the value is not stored.\<close>

lemma external_counter_write_lost:
  assumes "is_external cm reg" "reg \<noteq> cm_pcer cm" "reg \<noteq> cm_pcmr cm"
  shows "perfCounters_write cm reg v s = perfCounters_write cm reg v' s"
  using assms by (simp add: perfCounters_write_def)

text \<open>The rounding mode is not a part of \<^verbatim>\<open>fcsr\<close>.\<close>

lemma fcsr_without_rounding_mode: "fcsr_frm (snd (fcsr_write v s)) = fcsr_frm s" "fcsr_read u (snd (frm_write v s)) = (False, fcsr_raw s, snd (frm_write v s))"
  by (simp_all add: fcsr_write_def fcsr_read_def frm_write_def)

text \<open>The end of a hardware loop can be written through its register, but the instruction at the end does not get its handler.\<close>

lemma hwloop_end_write_no_hook: "insn_cache (snd (hwloop_write 1 v s)) = insn_cache s" "hwloop_regs (snd (hwloop_write 1 v s)) 1 = v"
  by (simp_all add: hwloop_write_def)

text \<open>The enable registers of the counters are read at 0x320, but written at 0x310: a write to 0x320 fails.\<close>

lemma counteren_write_fails:
  assumes "\<not> is_perf_counter cm 0x320" "\<not> pulpv2_hwloop s" "cm_hwloop0_start cm \<noteq> 0x7b0" "cm_stack cm = None"
  shows "fst (iss_csr_write cm 0x320 v s)" "\<not> fst (iss_csr_read cm junk 0x320 u s)"
  using assms
  by (simp_all add: iss_csr_write_def csr_writers_def debug_writers_def stack_writers_def iss_csr_read_def csr_readers_def mucounteren_read_def
      iss_trigger_check_all_def Let_def)

text \<open>A set or clear of a register that is not implemented writes a variable that was never set, here to the machine interrupt register, and
  gives it to the destination register.\<close>

lemma unimplemented_read_leaks:
  assumes "UIM_GET insn 0 = 0x004" "out_regs insn 0 \<noteq> 0"
  shows "fst (csr_to_reg cm junk insn s) = fst junk" "regs (snd (csr_to_reg cm junk insn s)) (out_regs insn 0) = fst junk"
  using assms by (simp_all add: csr_to_reg_def iss_csr_read_def csr_readers_def uie_read_def REG_SET_def iss_set_reg_def)

end
