(* ===== verification/Iss_Rv32.thy ===== *)
theory Iss_Rv32
  imports Iss_Lsu
begin

text \<open>
  The handlers of the base instruction set, the multiplications and divisions and the compressed instructions
  (\<^verbatim>\<open>iss/include/rv32i.hpp\<close>, \<^verbatim>\<open>rv32m.hpp\<close>, \<^verbatim>\<open>rv32c.hpp\<close>). A handler takes the decoded instruction and the state and gives the
  pointer to the next instruction and the new state; the ones that access memory also take the target of the data port and its state. \<open>None\<close> is a shift by
  32 or more, which has no meaning in C, or the end of the simulation. The first argument of the divisions is what \<^verbatim>\<open>__builtin_clz(0)\<close>
  happens to be.
\<close>

section \<open>Upper immediates and jumps\<close>

definition lui_exec :: "iss_insn \<Rightarrow> iss \<Rightarrow> (iptr option \<times> iss) option" where
  "lui_exec insn s = Some (i_next insn, REG_SET insn 0 (UIM_GET insn 0) s)"

definition auipc_exec :: "iss_insn \<Rightarrow> iss \<Rightarrow> (iptr option \<times> iss) option" where
  "auipc_exec insn s = Some (i_next insn, REG_SET insn 0 (UIM_GET insn 0) s)"

definition auipc_decode :: "iss_insn \<Rightarrow> iss_insn" where
  "auipc_decode insn = insn\<lparr>uim := (uim insn)(0 := uim insn 0 + i_addr insn)\<rparr>"

definition jal_exec_common :: "iss_insn \<Rightarrow> iss \<Rightarrow> bool \<Rightarrow> (iptr option \<times> iss) option" where
  "jal_exec_common insn s perf =
     (let s1 = (if out_regs insn 0 \<noteq> 0 then REG_SET insn 0 (i_addr insn + i_size insn) s else s);
          s2 = (if perf then iss_pccr_account_event CSR_PCER_JUMP 1 s1 else s1)
      in Some (i_next insn, iss_perf_account_jump s2))"

definition jal_exec_fast :: "iss_insn \<Rightarrow> iss \<Rightarrow> (iptr option \<times> iss) option" where
  "jal_exec_fast insn s = jal_exec_common insn s False"

definition jal_exec :: "iss_insn \<Rightarrow> iss \<Rightarrow> (iptr option \<times> iss) option" where
  "jal_exec insn s = jal_exec_common insn s True"

definition jal_decode :: "iss_insn \<Rightarrow> iss \<Rightarrow> iss_insn \<times> iss" where
  "jal_decode insn s =
     (let (p, s') = iss_insn_get (i_addr insn + sim insn 0) s in (insn\<lparr>i_next := Some p\<rparr>, s'))"

definition jalr_exec_common :: "iss_insn \<Rightarrow> iss \<Rightarrow> bool \<Rightarrow> (iptr option \<times> iss) option" where
  "jalr_exec_common insn s perf =
     (let (next_insn, s1) = iss_insn_get (sim insn 0 + iss_get_reg_for_jump s (in_regs insn 0)) s;
          s2 = (if out_regs insn 0 \<noteq> 0 then REG_SET insn 0 (i_addr insn + i_size insn) s1 else s1);
          s3 = (if perf then iss_pccr_account_event CSR_PCER_JUMP 1 s2 else s2)
      in Some (Some next_insn, iss_perf_account_jump s3))"

definition jalr_exec_fast :: "iss_insn \<Rightarrow> iss \<Rightarrow> (iptr option \<times> iss) option" where
  "jalr_exec_fast insn s = jalr_exec_common insn s False"

definition jalr_exec :: "iss_insn \<Rightarrow> iss \<Rightarrow> (iptr option \<times> iss) option" where
  "jalr_exec insn s = jalr_exec_common insn s True"

section \<open>Branches\<close>

definition bxx_decode :: "iss_insn \<Rightarrow> iss \<Rightarrow> iss_insn \<times> iss" where
  "bxx_decode insn s =
     (let (p, s') = iss_insn_get (i_addr insn + SIM_GET insn 0) s in (insn\<lparr>i_branch := Some p\<rparr>, s'))"

text \<open>The two branches, which all conditions have in common.\<close>

definition take_branch :: "iss_insn \<Rightarrow> bool \<Rightarrow> iss \<Rightarrow> (iptr option \<times> iss) option" where
  "take_branch insn perf s =
     (let s1 = (if perf then iss_pccr_account_event CSR_PCER_TAKEN_BRANCH 1 (iss_pccr_account_event CSR_PCER_BRANCH 1 s) else s)
      in Some (i_branch insn, iss_perf_account_taken_branch s1))"

definition no_branch :: "iss_insn \<Rightarrow> bool \<Rightarrow> iss \<Rightarrow> (iptr option \<times> iss) option" where
  "no_branch insn perf s =
     Some (i_next insn, if perf then iss_pccr_account_event CSR_PCER_BRANCH 1 s else s)"

definition beq_exec_common :: "iss_insn \<Rightarrow> iss \<Rightarrow> bool \<Rightarrow> (iptr option \<times> iss) option" where
  "beq_exec_common insn s perf =
     (if REG_GET s insn 0 = REG_GET s insn 1 then take_branch insn perf s else no_branch insn perf s)"

definition beq_exec_fast :: "iss_insn \<Rightarrow> iss \<Rightarrow> (iptr option \<times> iss) option" where
  "beq_exec_fast insn s = beq_exec_common insn s False"

definition beq_exec :: "iss_insn \<Rightarrow> iss \<Rightarrow> (iptr option \<times> iss) option" where
  "beq_exec insn s = beq_exec_common insn s True"

definition bne_exec_common :: "iss_insn \<Rightarrow> iss \<Rightarrow> bool \<Rightarrow> (iptr option \<times> iss) option" where
  "bne_exec_common insn s perf =
     (if REG_GET s insn 0 \<noteq> REG_GET s insn 1 then take_branch insn perf s else no_branch insn perf s)"

definition bne_exec_fast :: "iss_insn \<Rightarrow> iss \<Rightarrow> (iptr option \<times> iss) option" where
  "bne_exec_fast insn s = bne_exec_common insn s False"

definition bne_exec :: "iss_insn \<Rightarrow> iss \<Rightarrow> (iptr option \<times> iss) option" where
  "bne_exec insn s = bne_exec_common insn s True"

definition blt_exec_common :: "iss_insn \<Rightarrow> iss \<Rightarrow> bool \<Rightarrow> (iptr option \<times> iss) option" where
  "blt_exec_common insn s perf =
     (if sint (REG_GET s insn 0) < sint (REG_GET s insn 1) then take_branch insn perf s else no_branch insn perf s)"

definition blt_exec_fast :: "iss_insn \<Rightarrow> iss \<Rightarrow> (iptr option \<times> iss) option" where
  "blt_exec_fast insn s = blt_exec_common insn s False"

definition blt_exec :: "iss_insn \<Rightarrow> iss \<Rightarrow> (iptr option \<times> iss) option" where
  "blt_exec insn s = blt_exec_common insn s True"

definition bge_exec_common :: "iss_insn \<Rightarrow> iss \<Rightarrow> bool \<Rightarrow> (iptr option \<times> iss) option" where
  "bge_exec_common insn s perf =
     (if sint (REG_GET s insn 0) \<ge> sint (REG_GET s insn 1) then take_branch insn perf s else no_branch insn perf s)"

definition bge_exec_fast :: "iss_insn \<Rightarrow> iss \<Rightarrow> (iptr option \<times> iss) option" where
  "bge_exec_fast insn s = bge_exec_common insn s False"

definition bge_exec :: "iss_insn \<Rightarrow> iss \<Rightarrow> (iptr option \<times> iss) option" where
  "bge_exec insn s = bge_exec_common insn s True"

definition bltu_exec_common :: "iss_insn \<Rightarrow> iss \<Rightarrow> bool \<Rightarrow> (iptr option \<times> iss) option" where
  "bltu_exec_common insn s perf =
     (if REG_GET s insn 0 < REG_GET s insn 1 then take_branch insn perf s else no_branch insn perf s)"

definition bltu_exec_fast :: "iss_insn \<Rightarrow> iss \<Rightarrow> (iptr option \<times> iss) option" where
  "bltu_exec_fast insn s = bltu_exec_common insn s False"

definition bltu_exec :: "iss_insn \<Rightarrow> iss \<Rightarrow> (iptr option \<times> iss) option" where
  "bltu_exec insn s = bltu_exec_common insn s True"

definition bgeu_exec_common :: "iss_insn \<Rightarrow> iss \<Rightarrow> bool \<Rightarrow> (iptr option \<times> iss) option" where
  "bgeu_exec_common insn s perf =
     (if REG_GET s insn 0 \<ge> REG_GET s insn 1 then take_branch insn perf s else no_branch insn perf s)"

definition bgeu_exec_fast :: "iss_insn \<Rightarrow> iss \<Rightarrow> (iptr option \<times> iss) option" where
  "bgeu_exec_fast insn s = bgeu_exec_common insn s False"

definition bgeu_exec :: "iss_insn \<Rightarrow> iss \<Rightarrow> (iptr option \<times> iss) option" where
  "bgeu_exec insn s = bgeu_exec_common insn s True"

section \<open>Loads and stores\<close>

definition lb_exec_fast :: "'w target_meth \<Rightarrow> iss_insn \<Rightarrow> iss \<Rightarrow> 'w \<Rightarrow> (iptr option \<times> iss \<times> 'w) option" where
  "lb_exec_fast tgt insn s w = map_option (Pair (i_next insn)) (iss_lsu_load_signed tgt (REG_GET s insn 0 + SIM_GET insn 0) 1 (REG_OUT insn 0) s w)"

definition lb_exec :: "'w target_meth \<Rightarrow> iss_insn \<Rightarrow> iss \<Rightarrow> 'w \<Rightarrow> (iptr option \<times> iss \<times> 'w) option" where
  "lb_exec tgt insn s w = do {
     s1 \<leftarrow> iss_lsu_check_stack_access (REG_IN insn 0) (REG_GET s insn 0 + SIM_GET insn 0) s;
     map_option (Pair (i_next insn)) (iss_lsu_load_signed_perf tgt (REG_GET s insn 0 + SIM_GET insn 0) 1 (REG_OUT insn 0) s1 w)
   }"

definition lh_exec_fast :: "'w target_meth \<Rightarrow> iss_insn \<Rightarrow> iss \<Rightarrow> 'w \<Rightarrow> (iptr option \<times> iss \<times> 'w) option" where
  "lh_exec_fast tgt insn s w = map_option (Pair (i_next insn)) (iss_lsu_load_signed tgt (REG_GET s insn 0 + SIM_GET insn 0) 2 (REG_OUT insn 0) s w)"

definition lh_exec :: "'w target_meth \<Rightarrow> iss_insn \<Rightarrow> iss \<Rightarrow> 'w \<Rightarrow> (iptr option \<times> iss \<times> 'w) option" where
  "lh_exec tgt insn s w = do {
     s1 \<leftarrow> iss_lsu_check_stack_access (REG_IN insn 0) (REG_GET s insn 0 + SIM_GET insn 0) s;
     map_option (Pair (i_next insn)) (iss_lsu_load_signed_perf tgt (REG_GET s insn 0 + SIM_GET insn 0) 2 (REG_OUT insn 0) s1 w)
   }"

definition lw_exec_fast :: "'w target_meth \<Rightarrow> iss_insn \<Rightarrow> iss \<Rightarrow> 'w \<Rightarrow> (iptr option \<times> iss \<times> 'w) option" where
  "lw_exec_fast tgt insn s w = map_option (Pair (i_next insn)) (iss_lsu_load tgt (REG_GET s insn 0 + SIM_GET insn 0) 4 (REG_OUT insn 0) s w)"

definition lw_exec :: "'w target_meth \<Rightarrow> iss_insn \<Rightarrow> iss \<Rightarrow> 'w \<Rightarrow> (iptr option \<times> iss \<times> 'w) option" where
  "lw_exec tgt insn s w = do {
     s1 \<leftarrow> iss_lsu_check_stack_access (REG_IN insn 0) (REG_GET s insn 0 + SIM_GET insn 0) s;
     map_option (Pair (i_next insn)) (iss_lsu_load_perf tgt (REG_GET s insn 0 + SIM_GET insn 0) 4 (REG_OUT insn 0) s1 w)
   }"

definition lbu_exec_fast :: "'w target_meth \<Rightarrow> iss_insn \<Rightarrow> iss \<Rightarrow> 'w \<Rightarrow> (iptr option \<times> iss \<times> 'w) option" where
  "lbu_exec_fast tgt insn s w = map_option (Pair (i_next insn)) (iss_lsu_load tgt (REG_GET s insn 0 + SIM_GET insn 0) 1 (REG_OUT insn 0) s w)"

definition lbu_exec :: "'w target_meth \<Rightarrow> iss_insn \<Rightarrow> iss \<Rightarrow> 'w \<Rightarrow> (iptr option \<times> iss \<times> 'w) option" where
  "lbu_exec tgt insn s w = do {
     s1 \<leftarrow> iss_lsu_check_stack_access (REG_IN insn 0) (REG_GET s insn 0 + SIM_GET insn 0) s;
     map_option (Pair (i_next insn)) (iss_lsu_load_perf tgt (REG_GET s insn 0 + SIM_GET insn 0) 1 (REG_OUT insn 0) s1 w)
   }"

definition lhu_exec_fast :: "'w target_meth \<Rightarrow> iss_insn \<Rightarrow> iss \<Rightarrow> 'w \<Rightarrow> (iptr option \<times> iss \<times> 'w) option" where
  "lhu_exec_fast tgt insn s w = map_option (Pair (i_next insn)) (iss_lsu_load tgt (REG_GET s insn 0 + SIM_GET insn 0) 2 (REG_OUT insn 0) s w)"

definition lhu_exec :: "'w target_meth \<Rightarrow> iss_insn \<Rightarrow> iss \<Rightarrow> 'w \<Rightarrow> (iptr option \<times> iss \<times> 'w) option" where
  "lhu_exec tgt insn s w = do {
     s1 \<leftarrow> iss_lsu_check_stack_access (REG_IN insn 0) (REG_GET s insn 0 + SIM_GET insn 0) s;
     map_option (Pair (i_next insn)) (iss_lsu_load_perf tgt (REG_GET s insn 0 + SIM_GET insn 0) 2 (REG_OUT insn 0) s1 w)
   }"

definition sb_exec_fast :: "'w target_meth \<Rightarrow> iss_insn \<Rightarrow> iss \<Rightarrow> 'w \<Rightarrow> (iptr option \<times> iss \<times> 'w) option" where
  "sb_exec_fast tgt insn s w = map_option (Pair (i_next insn)) (iss_lsu_store tgt (REG_GET s insn 0 + SIM_GET insn 0) 1 (REG_IN insn 1) s w)"

definition sb_exec :: "'w target_meth \<Rightarrow> iss_insn \<Rightarrow> iss \<Rightarrow> 'w \<Rightarrow> (iptr option \<times> iss \<times> 'w) option" where
  "sb_exec tgt insn s w = do {
     s1 \<leftarrow> iss_lsu_check_stack_access (REG_OUT insn 0) (REG_GET s insn 0 + SIM_GET insn 0) s;
     map_option (Pair (i_next insn)) (iss_lsu_store_perf tgt (REG_GET s insn 0 + SIM_GET insn 0) 1 (REG_IN insn 1) s1 w)
   }"

definition sh_exec_fast :: "'w target_meth \<Rightarrow> iss_insn \<Rightarrow> iss \<Rightarrow> 'w \<Rightarrow> (iptr option \<times> iss \<times> 'w) option" where
  "sh_exec_fast tgt insn s w = map_option (Pair (i_next insn)) (iss_lsu_store tgt (REG_GET s insn 0 + SIM_GET insn 0) 2 (REG_IN insn 1) s w)"

definition sh_exec :: "'w target_meth \<Rightarrow> iss_insn \<Rightarrow> iss \<Rightarrow> 'w \<Rightarrow> (iptr option \<times> iss \<times> 'w) option" where
  "sh_exec tgt insn s w = do {
     s1 \<leftarrow> iss_lsu_check_stack_access (REG_OUT insn 0) (REG_GET s insn 0 + SIM_GET insn 0) s;
     map_option (Pair (i_next insn)) (iss_lsu_store_perf tgt (REG_GET s insn 0 + SIM_GET insn 0) 2 (REG_IN insn 1) s1 w)
   }"

definition sw_exec_fast :: "'w target_meth \<Rightarrow> iss_insn \<Rightarrow> iss \<Rightarrow> 'w \<Rightarrow> (iptr option \<times> iss \<times> 'w) option" where
  "sw_exec_fast tgt insn s w = map_option (Pair (i_next insn)) (iss_lsu_store tgt (REG_GET s insn 0 + SIM_GET insn 0) 4 (REG_IN insn 1) s w)"

definition sw_exec :: "'w target_meth \<Rightarrow> iss_insn \<Rightarrow> iss \<Rightarrow> 'w \<Rightarrow> (iptr option \<times> iss \<times> 'w) option" where
  "sw_exec tgt insn s w = do {
     s1 \<leftarrow> iss_lsu_check_stack_access (REG_OUT insn 0) (REG_GET s insn 0 + SIM_GET insn 0) s;
     map_option (Pair (i_next insn)) (iss_lsu_store_perf tgt (REG_GET s insn 0 + SIM_GET insn 0) 4 (REG_IN insn 1) s1 w)
   }"

section \<open>Arithmetic and logic\<close>

definition addi_exec :: "iss_insn \<Rightarrow> iss \<Rightarrow> (iptr option \<times> iss) option" where
  "addi_exec insn s = Some (i_next insn, REG_SET insn 0 (lib_ADD (REG_GET s insn 0) (SIM_GET insn 0)) s)"

definition nop_exec :: "iss_insn \<Rightarrow> iss \<Rightarrow> (iptr option \<times> iss) option" where
  "nop_exec insn s = Some (i_next insn, s)"

definition slti_exec :: "iss_insn \<Rightarrow> iss \<Rightarrow> (iptr option \<times> iss) option" where
  "slti_exec insn s = Some (i_next insn, REG_SET insn 0 (of_bool (sint (REG_GET s insn 0) < sint (SIM_GET insn 0))) s)"

definition sltiu_exec :: "iss_insn \<Rightarrow> iss \<Rightarrow> (iptr option \<times> iss) option" where
  "sltiu_exec insn s = Some (i_next insn, REG_SET insn 0 (of_bool (REG_GET s insn 0 < SIM_GET insn 0)) s)"

definition xori_exec :: "iss_insn \<Rightarrow> iss \<Rightarrow> (iptr option \<times> iss) option" where
  "xori_exec insn s = Some (i_next insn, REG_SET insn 0 (lib_XOR (REG_GET s insn 0) (SIM_GET insn 0)) s)"

definition ori_exec :: "iss_insn \<Rightarrow> iss \<Rightarrow> (iptr option \<times> iss) option" where
  "ori_exec insn s = Some (i_next insn, REG_SET insn 0 (lib_OR (REG_GET s insn 0) (SIM_GET insn 0)) s)"

definition andi_exec :: "iss_insn \<Rightarrow> iss \<Rightarrow> (iptr option \<times> iss) option" where
  "andi_exec insn s = Some (i_next insn, REG_SET insn 0 (lib_AND (REG_GET s insn 0) (SIM_GET insn 0)) s)"

definition slli_exec :: "iss_insn \<Rightarrow> iss \<Rightarrow> (iptr option \<times> iss) option" where
  "slli_exec insn s = map_option (\<lambda>v. (i_next insn, REG_SET insn 0 v s)) (lib_SLL (REG_GET s insn 0) (UIM_GET insn 0))"

definition srli_exec :: "iss_insn \<Rightarrow> iss \<Rightarrow> (iptr option \<times> iss) option" where
  "srli_exec insn s = map_option (\<lambda>v. (i_next insn, REG_SET insn 0 v s)) (lib_SRL (REG_GET s insn 0) (UIM_GET insn 0))"

definition srai_exec :: "iss_insn \<Rightarrow> iss \<Rightarrow> (iptr option \<times> iss) option" where
  "srai_exec insn s = map_option (\<lambda>v. (i_next insn, REG_SET insn 0 v s)) (lib_SRA (REG_GET s insn 0) (UIM_GET insn 0))"

definition add_exec :: "iss_insn \<Rightarrow> iss \<Rightarrow> (iptr option \<times> iss) option" where
  "add_exec insn s = Some (i_next insn, REG_SET insn 0 (lib_ADD (REG_GET s insn 0) (REG_GET s insn 1)) s)"

definition sub_exec :: "iss_insn \<Rightarrow> iss \<Rightarrow> (iptr option \<times> iss) option" where
  "sub_exec insn s = Some (i_next insn, REG_SET insn 0 (lib_SUB (REG_GET s insn 0) (REG_GET s insn 1)) s)"

definition sll_exec :: "iss_insn \<Rightarrow> iss \<Rightarrow> (iptr option \<times> iss) option" where
  "sll_exec insn s = map_option (\<lambda>v. (i_next insn, REG_SET insn 0 v s)) (lib_SLL (REG_GET s insn 0) (REG_GET s insn 1))"

definition slt_exec :: "iss_insn \<Rightarrow> iss \<Rightarrow> (iptr option \<times> iss) option" where
  "slt_exec insn s = Some (i_next insn, REG_SET insn 0 (of_bool (sint (REG_GET s insn 0) < sint (REG_GET s insn 1))) s)"

definition sltu_exec :: "iss_insn \<Rightarrow> iss \<Rightarrow> (iptr option \<times> iss) option" where
  "sltu_exec insn s = Some (i_next insn, REG_SET insn 0 (of_bool (REG_GET s insn 0 < REG_GET s insn 1)) s)"

definition xor_exec :: "iss_insn \<Rightarrow> iss \<Rightarrow> (iptr option \<times> iss) option" where
  "xor_exec insn s = Some (i_next insn, REG_SET insn 0 (lib_XOR (REG_GET s insn 0) (REG_GET s insn 1)) s)"

definition srl_exec :: "iss_insn \<Rightarrow> iss \<Rightarrow> (iptr option \<times> iss) option" where
  "srl_exec insn s = map_option (\<lambda>v. (i_next insn, REG_SET insn 0 v s)) (lib_SRL (REG_GET s insn 0) (REG_GET s insn 1))"

definition sra_exec :: "iss_insn \<Rightarrow> iss \<Rightarrow> (iptr option \<times> iss) option" where
  "sra_exec insn s = map_option (\<lambda>v. (i_next insn, REG_SET insn 0 v s)) (lib_SRA (REG_GET s insn 0) (REG_GET s insn 1))"

definition or_exec :: "iss_insn \<Rightarrow> iss \<Rightarrow> (iptr option \<times> iss) option" where
  "or_exec insn s = Some (i_next insn, REG_SET insn 0 (lib_OR (REG_GET s insn 0) (REG_GET s insn 1)) s)"

definition and_exec :: "iss_insn \<Rightarrow> iss \<Rightarrow> (iptr option \<times> iss) option" where
  "and_exec insn s = Some (i_next insn, REG_SET insn 0 (lib_AND (REG_GET s insn 0) (REG_GET s insn 1)) s)"

definition ecall_exec :: "iss_insn \<Rightarrow> iss \<Rightarrow> (iptr option \<times> iss) option" where
  "ecall_exec insn s = iss_except_raise ISS_EXCEPT_ECALL s"

section \<open>Multiplications and divisions\<close>

definition mul_exec :: "iss_insn \<Rightarrow> iss \<Rightarrow> (iptr option \<times> iss) option" where
  "mul_exec insn s = Some (i_next insn, REG_SET insn 0 (lib_MULU (REG_GET s insn 0) (REG_GET s insn 1)) s)"

definition mulh_exec :: "iss_insn \<Rightarrow> iss \<Rightarrow> (iptr option \<times> iss) option" where
  "mulh_exec insn s = Some (i_next insn, REG_SET insn 0 (ucast (signed_drop_bit 32 ((scast (REG_GET s insn 0) :: u64) * scast (REG_GET s insn 1)))) s)"

definition mulhsu_exec :: "iss_insn \<Rightarrow> iss \<Rightarrow> (iptr option \<times> iss) option" where
  "mulhsu_exec insn s = Some (i_next insn, REG_SET insn 0 (ucast (drop_bit 32 ((scast (REG_GET s insn 0) :: u64) * ucast (REG_GET s insn 1)))) s)"

definition mulhu_exec :: "iss_insn \<Rightarrow> iss \<Rightarrow> (iptr option \<times> iss) option" where
  "mulhu_exec insn s = Some (i_next insn, REG_SET insn 0 (ucast (drop_bit 32 ((ucast (REG_GET s insn 0) :: u64) * ucast (REG_GET s insn 1)))) s)"

definition builtin_clz :: "u32 \<Rightarrow> u32 \<Rightarrow> u32" where
  "builtin_clz clz0 x = (if x = 0 then clz0 else of_nat (length (takeWhile (\<lambda>i. \<not> bit x i) (rev [0..<32]))))"

definition div_exec :: "u32 \<Rightarrow> iss_insn \<Rightarrow> iss \<Rightarrow> (iptr option \<times> iss) option" where
  "div_exec clz0 insn s =
     (let divider = REG_GET s insn 1; dividend = REG_GET s insn 0;
          result = (if divider = 0 then - 1
                    else if divider = push_bit 31 1 \<and> dividend = - 1 then 0
                    else if dividend = push_bit 31 1 \<and> divider = - 1 then push_bit 31 1
                    else word_of_int (sint dividend sdiv sint divider));
          cycles = (if sint divider \<ge> 0 then builtin_clz clz0 divider + 3 else builtin_clz clz0 (NOT divider + 1) + 2)
      in Some (i_next insn, iss_perf_account_dependency_stall cycles (REG_SET insn 0 result s)))"

definition divu_exec :: "u32 \<Rightarrow> iss_insn \<Rightarrow> iss \<Rightarrow> (iptr option \<times> iss) option" where
  "divu_exec clz0 insn s =
     (let divider = REG_GET s insn 1; dividend = REG_GET s insn 0;
          result = (if divider = 0 then - 1 else dividend div divider)
      in Some (i_next insn, iss_perf_account_dependency_stall (builtin_clz clz0 divider + 3) (REG_SET insn 0 result s)))"

definition rem_exec :: "u32 \<Rightarrow> iss_insn \<Rightarrow> iss \<Rightarrow> (iptr option \<times> iss) option" where
  "rem_exec clz0 insn s =
     (let divider = REG_GET s insn 1; dividend = REG_GET s insn 0;
          result = (if divider = 0 then dividend
                    else if divider = push_bit 31 1 \<and> dividend = - 1 then - 1
                    else if dividend = push_bit 31 1 \<and> divider = - 1 then 0
                    else word_of_int (sint dividend smod sint divider));
          cycles = (if sint divider \<ge> 0 then builtin_clz clz0 divider + 3 else builtin_clz clz0 (NOT divider + 1) + 2)
      in Some (i_next insn, iss_perf_account_dependency_stall cycles (REG_SET insn 0 result s)))"

definition remu_exec :: "u32 \<Rightarrow> iss_insn \<Rightarrow> iss \<Rightarrow> (iptr option \<times> iss) option" where
  "remu_exec clz0 insn s =
     (let divider = REG_GET s insn 1; dividend = REG_GET s insn 0;
          result = (if divider = 0 then dividend else dividend mod divider)
      in Some (i_next insn, iss_perf_account_dependency_stall (builtin_clz clz0 divider + 3) (REG_SET insn 0 result s)))"

section \<open>Compressed instructions\<close>

definition c_addi4spn_exec_fast :: "iss_insn \<Rightarrow> iss \<Rightarrow> (iptr option \<times> iss) option" where
  "c_addi4spn_exec_fast insn s = addi_exec insn s"

definition c_addi4spn_exec :: "iss_insn \<Rightarrow> iss \<Rightarrow> (iptr option \<times> iss) option" where
  "c_addi4spn_exec insn s = addi_exec insn (iss_pccr_account_event CSR_PCER_RVC 1 s)"

definition c_lw_exec_fast :: "'w target_meth \<Rightarrow> iss_insn \<Rightarrow> iss \<Rightarrow> 'w \<Rightarrow> (iptr option \<times> iss \<times> 'w) option" where
  "c_lw_exec_fast tgt insn s w = lw_exec_fast tgt insn s w"

definition c_lw_exec :: "'w target_meth \<Rightarrow> iss_insn \<Rightarrow> iss \<Rightarrow> 'w \<Rightarrow> (iptr option \<times> iss \<times> 'w) option" where
  "c_lw_exec tgt insn s w = lw_exec tgt insn (iss_pccr_account_event CSR_PCER_RVC 1 s) w"

definition c_sw_exec_fast :: "'w target_meth \<Rightarrow> iss_insn \<Rightarrow> iss \<Rightarrow> 'w \<Rightarrow> (iptr option \<times> iss \<times> 'w) option" where
  "c_sw_exec_fast tgt insn s w = sw_exec_fast tgt insn s w"

definition c_sw_exec :: "'w target_meth \<Rightarrow> iss_insn \<Rightarrow> iss \<Rightarrow> 'w \<Rightarrow> (iptr option \<times> iss \<times> 'w) option" where
  "c_sw_exec tgt insn s w = sw_exec tgt insn (iss_pccr_account_event CSR_PCER_RVC 1 s) w"

definition c_swsp_exec_fast :: "'w target_meth \<Rightarrow> iss_insn \<Rightarrow> iss \<Rightarrow> 'w \<Rightarrow> (iptr option \<times> iss \<times> 'w) option" where
  "c_swsp_exec_fast tgt insn s w = sw_exec_fast tgt insn s w"

definition c_swsp_exec :: "'w target_meth \<Rightarrow> iss_insn \<Rightarrow> iss \<Rightarrow> 'w \<Rightarrow> (iptr option \<times> iss \<times> 'w) option" where
  "c_swsp_exec tgt insn s w = sw_exec tgt insn (iss_pccr_account_event CSR_PCER_RVC 1 s) w"

definition c_nop_exec_fast :: "iss_insn \<Rightarrow> iss \<Rightarrow> (iptr option \<times> iss) option" where
  "c_nop_exec_fast insn s = nop_exec insn s"

definition c_nop_exec :: "iss_insn \<Rightarrow> iss \<Rightarrow> (iptr option \<times> iss) option" where
  "c_nop_exec insn s = nop_exec insn (iss_pccr_account_event CSR_PCER_RVC 1 s)"

definition c_addi_exec_fast :: "iss_insn \<Rightarrow> iss \<Rightarrow> (iptr option \<times> iss) option" where
  "c_addi_exec_fast insn s = addi_exec insn s"

definition c_addi_exec :: "iss_insn \<Rightarrow> iss \<Rightarrow> (iptr option \<times> iss) option" where
  "c_addi_exec insn s = addi_exec insn (iss_pccr_account_event CSR_PCER_RVC 1 s)"

definition c_jal_exec_fast :: "iss_insn \<Rightarrow> iss \<Rightarrow> (iptr option \<times> iss) option" where
  "c_jal_exec_fast insn s = jal_exec_fast insn s"

definition c_jal_exec :: "iss_insn \<Rightarrow> iss \<Rightarrow> (iptr option \<times> iss) option" where
  "c_jal_exec insn s = jal_exec insn (iss_pccr_account_event CSR_PCER_RVC 1 s)"

definition c_li_exec_fast :: "iss_insn \<Rightarrow> iss \<Rightarrow> (iptr option \<times> iss) option" where
  "c_li_exec_fast insn s = addi_exec insn s"

definition c_li_exec :: "iss_insn \<Rightarrow> iss \<Rightarrow> (iptr option \<times> iss) option" where
  "c_li_exec insn s = addi_exec insn (iss_pccr_account_event CSR_PCER_RVC 1 s)"

definition c_addi16sp_exec_fast :: "iss_insn \<Rightarrow> iss \<Rightarrow> (iptr option \<times> iss) option" where
  "c_addi16sp_exec_fast insn s = addi_exec insn s"

definition c_addi16sp_exec :: "iss_insn \<Rightarrow> iss \<Rightarrow> (iptr option \<times> iss) option" where
  "c_addi16sp_exec insn s = addi_exec insn (iss_pccr_account_event CSR_PCER_RVC 1 s)"

definition c_jalr_exec_fast :: "iss_insn \<Rightarrow> iss \<Rightarrow> (iptr option \<times> iss) option" where
  "c_jalr_exec_fast insn s = jalr_exec_fast insn s"

definition c_jalr_exec :: "iss_insn \<Rightarrow> iss \<Rightarrow> (iptr option \<times> iss) option" where
  "c_jalr_exec insn s = jalr_exec insn (iss_pccr_account_event CSR_PCER_RVC 1 s)"

definition c_lui_exec_fast :: "iss_insn \<Rightarrow> iss \<Rightarrow> (iptr option \<times> iss) option" where
  "c_lui_exec_fast insn s = lui_exec insn s"

definition c_lui_exec :: "iss_insn \<Rightarrow> iss \<Rightarrow> (iptr option \<times> iss) option" where
  "c_lui_exec insn s = lui_exec insn (iss_pccr_account_event CSR_PCER_RVC 1 s)"

definition c_srli_exec_fast :: "iss_insn \<Rightarrow> iss \<Rightarrow> (iptr option \<times> iss) option" where
  "c_srli_exec_fast insn s = srli_exec insn s"

definition c_srli_exec :: "iss_insn \<Rightarrow> iss \<Rightarrow> (iptr option \<times> iss) option" where
  "c_srli_exec insn s = srli_exec insn (iss_pccr_account_event CSR_PCER_RVC 1 s)"

definition c_srai_exec_fast :: "iss_insn \<Rightarrow> iss \<Rightarrow> (iptr option \<times> iss) option" where
  "c_srai_exec_fast insn s = srai_exec insn s"

definition c_srai_exec :: "iss_insn \<Rightarrow> iss \<Rightarrow> (iptr option \<times> iss) option" where
  "c_srai_exec insn s = srai_exec insn (iss_pccr_account_event CSR_PCER_RVC 1 s)"

definition c_andi_exec_fast :: "iss_insn \<Rightarrow> iss \<Rightarrow> (iptr option \<times> iss) option" where
  "c_andi_exec_fast insn s = andi_exec insn s"

definition c_andi_exec :: "iss_insn \<Rightarrow> iss \<Rightarrow> (iptr option \<times> iss) option" where
  "c_andi_exec insn s = andi_exec insn (iss_pccr_account_event CSR_PCER_RVC 1 s)"

definition c_sub_exec_fast :: "iss_insn \<Rightarrow> iss \<Rightarrow> (iptr option \<times> iss) option" where
  "c_sub_exec_fast insn s = sub_exec insn s"

definition c_sub_exec :: "iss_insn \<Rightarrow> iss \<Rightarrow> (iptr option \<times> iss) option" where
  "c_sub_exec insn s = sub_exec insn (iss_pccr_account_event CSR_PCER_RVC 1 s)"

definition c_xor_exec_fast :: "iss_insn \<Rightarrow> iss \<Rightarrow> (iptr option \<times> iss) option" where
  "c_xor_exec_fast insn s = xor_exec insn s"

definition c_xor_exec :: "iss_insn \<Rightarrow> iss \<Rightarrow> (iptr option \<times> iss) option" where
  "c_xor_exec insn s = xor_exec insn (iss_pccr_account_event CSR_PCER_RVC 1 s)"

definition c_or_exec_fast :: "iss_insn \<Rightarrow> iss \<Rightarrow> (iptr option \<times> iss) option" where
  "c_or_exec_fast insn s = or_exec insn s"

definition c_or_exec :: "iss_insn \<Rightarrow> iss \<Rightarrow> (iptr option \<times> iss) option" where
  "c_or_exec insn s = or_exec insn (iss_pccr_account_event CSR_PCER_RVC 1 s)"

definition c_and_exec_fast :: "iss_insn \<Rightarrow> iss \<Rightarrow> (iptr option \<times> iss) option" where
  "c_and_exec_fast insn s = and_exec insn s"

definition c_and_exec :: "iss_insn \<Rightarrow> iss \<Rightarrow> (iptr option \<times> iss) option" where
  "c_and_exec insn s = and_exec insn (iss_pccr_account_event CSR_PCER_RVC 1 s)"

definition c_j_exec_fast :: "iss_insn \<Rightarrow> iss \<Rightarrow> (iptr option \<times> iss) option" where
  "c_j_exec_fast insn s = jal_exec_fast insn s"

definition c_j_exec :: "iss_insn \<Rightarrow> iss \<Rightarrow> (iptr option \<times> iss) option" where
  "c_j_exec insn s = jal_exec insn (iss_pccr_account_event CSR_PCER_RVC 1 s)"

definition c_beqz_exec_fast :: "iss_insn \<Rightarrow> iss \<Rightarrow> (iptr option \<times> iss) option" where
  "c_beqz_exec_fast insn s = beq_exec_fast insn s"

definition c_beqz_exec :: "iss_insn \<Rightarrow> iss \<Rightarrow> (iptr option \<times> iss) option" where
  "c_beqz_exec insn s = beq_exec insn (iss_pccr_account_event CSR_PCER_RVC 1 s)"

definition c_bnez_exec_fast :: "iss_insn \<Rightarrow> iss \<Rightarrow> (iptr option \<times> iss) option" where
  "c_bnez_exec_fast insn s = bne_exec_fast insn s"

definition c_bnez_exec :: "iss_insn \<Rightarrow> iss \<Rightarrow> (iptr option \<times> iss) option" where
  "c_bnez_exec insn s = bne_exec insn (iss_pccr_account_event CSR_PCER_RVC 1 s)"

definition c_slli_exec_fast :: "iss_insn \<Rightarrow> iss \<Rightarrow> (iptr option \<times> iss) option" where
  "c_slli_exec_fast insn s = slli_exec insn s"

definition c_slli_exec :: "iss_insn \<Rightarrow> iss \<Rightarrow> (iptr option \<times> iss) option" where
  "c_slli_exec insn s = slli_exec insn (iss_pccr_account_event CSR_PCER_RVC 1 s)"

definition c_lwsp_exec_fast :: "'w target_meth \<Rightarrow> iss_insn \<Rightarrow> iss \<Rightarrow> 'w \<Rightarrow> (iptr option \<times> iss \<times> 'w) option" where
  "c_lwsp_exec_fast tgt insn s w = lw_exec_fast tgt insn s w"

definition c_lwsp_exec :: "'w target_meth \<Rightarrow> iss_insn \<Rightarrow> iss \<Rightarrow> 'w \<Rightarrow> (iptr option \<times> iss \<times> 'w) option" where
  "c_lwsp_exec tgt insn s w = lw_exec tgt insn (iss_pccr_account_event CSR_PCER_RVC 1 s) w"

definition c_jr_exec_fast :: "iss_insn \<Rightarrow> iss \<Rightarrow> (iptr option \<times> iss) option" where
  "c_jr_exec_fast insn s = jalr_exec_fast insn s"

definition c_jr_exec :: "iss_insn \<Rightarrow> iss \<Rightarrow> (iptr option \<times> iss) option" where
  "c_jr_exec insn s = jalr_exec insn (iss_pccr_account_event CSR_PCER_RVC 1 s)"

definition c_mv_exec_fast :: "iss_insn \<Rightarrow> iss \<Rightarrow> (iptr option \<times> iss) option" where
  "c_mv_exec_fast insn s = add_exec insn s"

definition c_mv_exec :: "iss_insn \<Rightarrow> iss \<Rightarrow> (iptr option \<times> iss) option" where
  "c_mv_exec insn s = add_exec insn (iss_pccr_account_event CSR_PCER_RVC 1 s)"

definition c_add_exec_fast :: "iss_insn \<Rightarrow> iss \<Rightarrow> (iptr option \<times> iss) option" where
  "c_add_exec_fast insn s = add_exec insn s"

definition c_add_exec :: "iss_insn \<Rightarrow> iss \<Rightarrow> (iptr option \<times> iss) option" where
  "c_add_exec insn s = add_exec insn (iss_pccr_account_event CSR_PCER_RVC 1 s)"

section \<open>The instruction set manual\<close>

text \<open>The results of the register to register instructions as the RISC-V manual gives them, over numbers.\<close>

datatype rv_op = RV_ADD | RV_SUB | RV_SLL | RV_SLT | RV_SLTU | RV_XOR | RV_SRL | RV_SRA | RV_OR | RV_AND
  | RV_MUL | RV_MULH | RV_MULHSU | RV_MULHU | RV_DIV | RV_DIVU | RV_REM | RV_REMU

fun rv_result :: "rv_op \<Rightarrow> u32 \<Rightarrow> u32 \<Rightarrow> u32" where
  "rv_result RV_ADD a b = word_of_int (sint a + sint b)"
| "rv_result RV_SUB a b = word_of_int (sint a - sint b)"
| "rv_result RV_SLL a b = word_of_int (uint a * 2 ^ (unat b mod 32))"
| "rv_result RV_SLT a b = (if sint a < sint b then 1 else 0)"
| "rv_result RV_SLTU a b = (if uint a < uint b then 1 else 0)"
| "rv_result RV_XOR a b = a XOR b"
| "rv_result RV_SRL a b = word_of_int (uint a div 2 ^ (unat b mod 32))"
| "rv_result RV_SRA a b = word_of_int (sint a div 2 ^ (unat b mod 32))"
| "rv_result RV_OR a b = a OR b"
| "rv_result RV_AND a b = a AND b"
| "rv_result RV_MUL a b = word_of_int (sint a * sint b)"
| "rv_result RV_MULH a b = word_of_int ((sint a * sint b) div 2 ^ 32)"
| "rv_result RV_MULHSU a b = word_of_int ((sint a * uint b) div 2 ^ 32)"
| "rv_result RV_MULHU a b = word_of_int ((uint a * uint b) div 2 ^ 32)"
| "rv_result RV_DIV a b = (if b = 0 then word_of_int (- 1) else word_of_int (cdiv (sint a) (sint b)))"
| "rv_result RV_DIVU a b = (if b = 0 then word_of_int (2 ^ 32 - 1) else word_of_int (uint a div uint b))"
| "rv_result RV_REM a b = (if b = 0 then a else word_of_int (sint a - sint b * cdiv (sint a) (sint b)))"
| "rv_result RV_REMU a b = (if b = 0 then a else word_of_int (uint a mod uint b))"

text \<open>The handlers.\<close>

fun rv_exec :: "u32 \<Rightarrow> rv_op \<Rightarrow> iss_insn \<Rightarrow> iss \<Rightarrow> (iptr option \<times> iss) option" where
  "rv_exec clz0 RV_ADD = add_exec"
| "rv_exec clz0 RV_SUB = sub_exec"
| "rv_exec clz0 RV_SLL = sll_exec"
| "rv_exec clz0 RV_SLT = slt_exec"
| "rv_exec clz0 RV_SLTU = sltu_exec"
| "rv_exec clz0 RV_XOR = xor_exec"
| "rv_exec clz0 RV_SRL = srl_exec"
| "rv_exec clz0 RV_SRA = sra_exec"
| "rv_exec clz0 RV_OR = or_exec"
| "rv_exec clz0 RV_AND = and_exec"
| "rv_exec clz0 RV_MUL = mul_exec"
| "rv_exec clz0 RV_MULH = mulh_exec"
| "rv_exec clz0 RV_MULHSU = mulhsu_exec"
| "rv_exec clz0 RV_MULHU = mulhu_exec"
| "rv_exec clz0 RV_DIV = div_exec clz0"
| "rv_exec clz0 RV_DIVU = divu_exec clz0"
| "rv_exec clz0 RV_REM = rem_exec clz0"
| "rv_exec clz0 RV_REMU = remu_exec clz0"

text \<open>The instructions with an immediate operand, and the operand.\<close>

fun rv_imm_exec :: "rv_op \<Rightarrow> (iss_insn \<Rightarrow> iss \<Rightarrow> (iptr option \<times> iss) option) option" where
  "rv_imm_exec RV_ADD = Some addi_exec"
| "rv_imm_exec RV_SLL = Some slli_exec"
| "rv_imm_exec RV_SLT = Some slti_exec"
| "rv_imm_exec RV_SLTU = Some sltiu_exec"
| "rv_imm_exec RV_XOR = Some xori_exec"
| "rv_imm_exec RV_SRL = Some srli_exec"
| "rv_imm_exec RV_SRA = Some srai_exec"
| "rv_imm_exec RV_OR = Some ori_exec"
| "rv_imm_exec RV_AND = Some andi_exec"
| "rv_imm_exec _ = None"

definition is_shift :: "rv_op \<Rightarrow> bool" where "is_shift x \<longleftrightarrow> x \<in> {RV_SLL, RV_SRL, RV_SRA}"

definition is_division :: "rv_op \<Rightarrow> bool" where "is_division x \<longleftrightarrow> x \<in> {RV_DIV, RV_DIVU, RV_REM, RV_REMU}"

definition imm_operand :: "rv_op \<Rightarrow> iss_insn \<Rightarrow> u32" where
  "imm_operand x insn = (if is_shift x then UIM_GET insn 0 else SIM_GET insn 0)"

lemma shift_results:
  fixes a b :: u32
  assumes "b < 32"
  shows "push_bit (unat b) a = rv_result RV_SLL a b" "drop_bit (unat b) a = rv_result RV_SRL a b" "signed_drop_bit (unat b) a = rv_result RV_SRA a b"
proof -
  have n: "unat b mod 32 = unat b" "unat b < 32" using assms by (simp_all add: word_less_nat_alt)
  show "push_bit (unat b) a = rv_result RV_SLL a b" by (simp add: n push_bit_eq_mult)
  have "uint (drop_bit (unat b) a) = uint a div 2 ^ unat b" unfolding drop_bit_eq_div [symmetric]
    by (rule bit_eqI) (auto simp: bit_simps dest: bit_imp_le_length)
  then show "drop_bit (unat b) a = rv_result RV_SRL a b" unfolding rv_result.simps n(1) by (metis word_of_int_uint)
  have "sint (signed_drop_bit (unat b) a) = sint a div 2 ^ unat b" by (simp add: sint_signed_drop_bit_eq drop_bit_eq_div)
  then show "signed_drop_bit (unat b) a = rv_result RV_SRA a b" unfolding rv_result.simps n(1) by (metis of_int_sint scast_id)
qed

lemma high_word:
  fixes p :: int
  shows "(ucast (drop_bit 32 (word_of_int p :: u64)) :: u32) = word_of_int (p div 2 ^ 32)"
    "(ucast (signed_drop_bit 32 (word_of_int p :: u64)) :: u32) = word_of_int (p div 2 ^ 32)"
proof -
  have d: "p div 2 ^ 32 = drop_bit 32 p" by (simp add: drop_bit_eq_div)
  show "(ucast (drop_bit 32 (word_of_int p :: u64)) :: u32) = word_of_int (p div 2 ^ 32)"
    unfolding d by (rule bit_eqI) (simp add: bit_simps)
  show "(ucast (signed_drop_bit 32 (word_of_int p :: u64)) :: u32) = word_of_int (p div 2 ^ 32)"
    unfolding d by (rule bit_eqI) (auto simp: bit_simps)
qed

lemma products:
  "(scast a :: u64) * scast b = word_of_int (sint a * sint b)" "(scast a :: u64) * ucast b = word_of_int (sint a * uint b)"
  "(ucast a :: u64) * ucast b = word_of_int (uint a * uint b)" for a b :: u32
  by simp_all

lemma signed_division_results:
  fixes a b :: u32
  shows "(if b = 0 then - 1 else if b = push_bit 31 1 \<and> a = - 1 then 0 else if a = push_bit 31 1 \<and> b = - 1 then push_bit 31 1
      else word_of_int (sint a sdiv sint b)) = rv_result RV_DIV a b"
    "(if b = 0 then a else if b = push_bit 31 1 \<and> a = - 1 then - 1 else if a = push_bit 31 1 \<and> b = - 1 then 0
      else word_of_int (sint a smod sint b)) = rv_result RV_REM a b"
proof -
  have s: "sint (push_bit 31 1 :: u32) = - 2147483648" "sint (- 1 :: u32) = - 1" by simp_all
  have q: "sint a sdiv sint b = cdiv (sint a) (sint b)" by (simp add: signed_divide_int_def cdiv_def)
  have r: "sint a smod sint b = sint a - sint b * cdiv (sint a) (sint b)" unfolding q [symmetric] by (rule minus_mult_sdiv_eq_smod [symmetric])
  show "(if b = 0 then - 1 else if b = push_bit 31 1 \<and> a = - 1 then 0 else if a = push_bit 31 1 \<and> b = - 1 then push_bit 31 1
      else word_of_int (sint a sdiv sint b)) = rv_result RV_DIV a b"
    by (auto simp: s q cdiv_def)
  show "(if b = 0 then a else if b = push_bit 31 1 \<and> a = - 1 then - 1 else if a = push_bit 31 1 \<and> b = - 1 then 0
      else word_of_int (sint a smod sint b)) = rv_result RV_REM a b"
    by (auto simp: s r cdiv_def)
qed

lemma unsigned_division_results:
  fixes a b :: u32
  shows "(if b = 0 then - 1 else a div b) = rv_result RV_DIVU a b" "(if b = 0 then a else a mod b) = rv_result RV_REMU a b"
proof -
  have "uint (a div b) = uint a div uint b" "uint (a mod b) = uint a mod uint b" by (simp_all add: uint_div_distrib uint_mod_distrib)
  then have "a div b = word_of_int (uint a div uint b)" "a mod b = word_of_int (uint a mod uint b)" by (metis word_of_int_uint)+
  then show "(if b = 0 then - 1 else a div b) = rv_result RV_DIVU a b" "(if b = 0 then a else a mod b) = rv_result RV_REMU a b" by simp_all
qed

lemmas rv_handler_defs = add_exec_def sub_exec_def sll_exec_def slt_exec_def sltu_exec_def xor_exec_def srl_exec_def sra_exec_def or_exec_def and_exec_def
  mul_exec_def mulh_exec_def mulhsu_exec_def mulhu_exec_def div_exec_def divu_exec_def rem_exec_def remu_exec_def
  addi_exec_def slli_exec_def slti_exec_def sltiu_exec_def xori_exec_def srli_exec_def srai_exec_def ori_exec_def andi_exec_def

lemma lib_results:
  fixes a b :: u32
  shows "lib_ADD a b = rv_result RV_ADD a b" "lib_SUB a b = rv_result RV_SUB a b" "lib_XOR a b = rv_result RV_XOR a b"
    "lib_OR a b = rv_result RV_OR a b" "lib_AND a b = rv_result RV_AND a b" "lib_MULU a b = rv_result RV_MUL a b"
    "of_bool (sint a < sint b) = rv_result RV_SLT a b" "of_bool (a < b) = rv_result RV_SLTU a b"
    "ucast (signed_drop_bit 32 ((scast a :: u64) * scast b)) = rv_result RV_MULH a b"
    "ucast (drop_bit 32 ((scast a :: u64) * ucast b)) = rv_result RV_MULHSU a b"
    "ucast (drop_bit 32 ((ucast a :: u64) * ucast b)) = rv_result RV_MULHU a b"
  unfolding products high_word rv_result.simps
  by (simp_all add: lib_ADD_def lib_SUB_def lib_XOR_def lib_OR_def lib_AND_def lib_MULU_def word_less_def of_bool_def)

lemma lib_shift_results:
  fixes a b :: u32
  assumes "b < 32"
  shows "lib_SLL a b = Some (rv_result RV_SLL a b)" "lib_SRL a b = Some (rv_result RV_SRL a b)" "lib_SRA a b = Some (rv_result RV_SRA a b)"
proof -
  have "unat b < 32" using assms by (simp add: word_less_nat_alt)
  then show "lib_SLL a b = Some (rv_result RV_SLL a b)" "lib_SRL a b = Some (rv_result RV_SRL a b)" "lib_SRA a b = Some (rv_result RV_SRA a b)"
    unfolding lib_SLL_def lib_SRL_def lib_SRA_def shl32_def shr32_def sar32_def shift_results [OF assms, of a] by simp_all
qed

text \<open>What a handler may do: return the next instruction, set one register, and change the cycles of a division.\<close>

lemma rv_exec_result:
  assumes "is_shift x \<longrightarrow> REG_GET s insn 1 < 32"
  shows "\<exists>c. rv_exec clz0 x insn s =
      Some (i_next insn, (iss_set_reg (out_regs insn 0) (rv_result x (REG_GET s insn 0) (REG_GET s insn 1)) s)\<lparr>insn_cycles := c\<rparr>) \<and>
    (\<not> is_division x \<longrightarrow> c = insn_cycles s)"
proof (cases "is_division x")
  case True
  then have x: "x \<in> {RV_DIV, RV_DIVU, RV_REM, RV_REMU}" by (simp add: is_division_def)
  have "\<exists>c. rv_exec clz0 x insn s = Some (i_next insn, iss_perf_account_dependency_stall c
      (iss_set_reg (out_regs insn 0) (rv_result x (REG_GET s insn 0) (REG_GET s insn 1)) s))"
    using x unfolding insert_iff empty_iff
    by (elim disjE; hypsubst?) (unfold rv_exec.simps rv_handler_defs Let_def signed_division_results unsigned_division_results REG_SET_def, blast+)
  then show ?thesis using True by (auto simp: iss_perf_account_dependency_stall_def)
next
  case False
  have "rv_exec clz0 x insn s = Some (i_next insn, iss_set_reg (out_regs insn 0) (rv_result x (REG_GET s insn 0) (REG_GET s insn 1)) s)"
    using False assms
    by (cases x) (simp_all only: rv_exec.simps rv_handler_defs REG_SET_def lib_results lib_shift_results is_shift_def is_division_def insert_iff simp_thms option.map)
  moreover have "iss_set_reg r v s = (iss_set_reg r v s)\<lparr>insn_cycles := insn_cycles s\<rparr>" for r v by (simp add: iss_set_reg_def)
  ultimately show ?thesis by metis
qed

lemma rv_imm_exec_result:
  assumes "rv_imm_exec x = Some h" "is_shift x \<longrightarrow> UIM_GET insn 0 < 32"
  shows "h insn s = Some (i_next insn, iss_set_reg (out_regs insn 0) (rv_result x (REG_GET s insn 0) (imm_operand x insn)) s)"
  using assms
  by (cases x) (simp_all only: rv_imm_exec.simps option.inject option.distinct rv_handler_defs REG_SET_def lib_results lib_shift_results imm_operand_def is_shift_def
      insert_iff simp_thms option.map rv_op.distinct if_True if_False empty_iff, (auto simp only: rv_handler_defs REG_SET_def lib_results lib_shift_results option.map)?)

section \<open>Control flow\<close>

text \<open>The conditions of the branches.\<close>

datatype rv_branch = RV_BEQ | RV_BNE | RV_BLT | RV_BGE | RV_BLTU | RV_BGEU

fun rv_cond :: "rv_branch \<Rightarrow> u32 \<Rightarrow> u32 \<Rightarrow> bool" where
  "rv_cond RV_BEQ a b \<longleftrightarrow> a = b"
| "rv_cond RV_BNE a b \<longleftrightarrow> a \<noteq> b"
| "rv_cond RV_BLT a b \<longleftrightarrow> sint a < sint b"
| "rv_cond RV_BGE a b \<longleftrightarrow> sint b \<le> sint a"
| "rv_cond RV_BLTU a b \<longleftrightarrow> uint a < uint b"
| "rv_cond RV_BGEU a b \<longleftrightarrow> uint b \<le> uint a"

fun rv_branch_exec :: "rv_branch \<Rightarrow> bool \<Rightarrow> iss_insn \<Rightarrow> iss \<Rightarrow> (iptr option \<times> iss) option" where
  "rv_branch_exec RV_BEQ perf = (if perf then beq_exec else beq_exec_fast)"
| "rv_branch_exec RV_BNE perf = (if perf then bne_exec else bne_exec_fast)"
| "rv_branch_exec RV_BLT perf = (if perf then blt_exec else blt_exec_fast)"
| "rv_branch_exec RV_BGE perf = (if perf then bge_exec else bge_exec_fast)"
| "rv_branch_exec RV_BLTU perf = (if perf then bltu_exec else bltu_exec_fast)"
| "rv_branch_exec RV_BGEU perf = (if perf then bgeu_exec else bgeu_exec_fast)"

lemmas rv_branch_defs = beq_exec_def bne_exec_def blt_exec_def bge_exec_def bltu_exec_def bgeu_exec_def
  beq_exec_fast_def bne_exec_fast_def blt_exec_fast_def bge_exec_fast_def bltu_exec_fast_def bgeu_exec_fast_def
  beq_exec_common_def bne_exec_common_def blt_exec_common_def bge_exec_common_def bltu_exec_common_def bgeu_exec_common_def

lemma rv_branch_common:
  "rv_branch_exec x perf insn s =
     (if rv_cond x (REG_GET s insn 0) (REG_GET s insn 1) then take_branch insn perf s else no_branch insn perf s)"
  by (cases x) (simp_all add: rv_branch_defs word_less_def word_le_def)

text \<open>What the counters and the cycles do has no effect on the registers and the instructions.\<close>

definition arch_view :: "iss \<Rightarrow> (int \<Rightarrow> u32) \<times> iss_insn_cache" where
  "arch_view s = (regs s, insn_cache s)"

lemma account_views [simp]:
  "arch_view (iss_pccr_account_event e k s) = arch_view s" "arch_view (iss_perf_account_taken_branch s) = arch_view s"
  "arch_view (iss_perf_account_jump s) = arch_view s"
  by (simp_all add: arch_view_def iss_pccr_account_event_def iss_perf_account_taken_branch_def iss_perf_account_jump_def)

lemma rv_branch_result:
  "\<exists>s'. rv_branch_exec x perf insn s = Some (if rv_cond x (REG_GET s insn 0) (REG_GET s insn 1) then i_branch insn else i_next insn, s') \<and>
     arch_view s' = arch_view s"
  by (simp add: rv_branch_common take_branch_def no_branch_def)

lemma jal_result:
  "\<exists>s'. jal_exec_common insn s perf = Some (i_next insn, s') \<and> arch_view s' = arch_view (iss_set_reg (out_regs insn 0) (i_addr insn + i_size insn) s)"
  by (simp add: jal_exec_common_def REG_SET_def iss_set_reg_def)

text \<open>The target is read before the link register is written.\<close>

lemma jalr_result:
  "\<exists>s'. jalr_exec_common insn s perf = Some (Some (insn_ptr (regs s (in_regs insn 0) + sim insn 0)), s') \<and>
     arch_view s' = ((if out_regs insn 0 = 0 then regs s else (regs s)(out_regs insn 0 := i_addr insn + i_size insn)),
       snd (insn_cache_get (regs s (in_regs insn 0) + sim insn 0) (insn_cache s)))"
proof -
  let ?pc = "regs s (in_regs insn 0) + sim insn 0"
  have g: "iss_insn_get ?pc s = (insn_ptr ?pc, s\<lparr>insn_cache := snd (insn_cache_get ?pc (insn_cache s))\<rparr>)"
    using fst_insn_cache_get [of ?pc "insn_cache s"] by (simp add: iss_insn_get_def split_def)
  show ?thesis
    by (simp add: jalr_exec_common_def iss_get_reg_for_jump_def iss_get_reg_untimed_def add.commute [of "sim insn 0"] g REG_SET_def iss_set_reg_def
        arch_view_def Let_def iss_perf_account_jump_def iss_pccr_account_event_def)
qed


definition div_insn :: iss_insn where
  "div_insn = sample_insn\<lparr>in_regs := (\<lambda>k. [10, 11, 12] ! k), out_regs := (\<lambda>_. 10), sim := (\<lambda>_. - 3)\<rparr>"

definition div_iss :: iss where
  "div_iss = sample_iss\<lparr>regs := (\<lambda>r. if r = 10 then 0x80000000 else if r = 11 then 0xFFFFFFFF else 0)\<rparr>"


text \<open>A shift by a register that holds 32 or more: the manual uses the low five bits, the handler shifts by the whole
  register, which C leaves undefined.\<close>

lemma shift_amount_not_masked: "REG_GET s insn 1 \<ge> 32 \<Longrightarrow> sll_exec insn s = None"
  by (simp add: sll_exec_def lib_SLL_def shl32_def word_le_nat_alt)

text \<open>The stores check the stack with the number of an output register, which they do not have, where the loads use the base
  register: an access relative to the stack pointer is not checked unless that number happens to be 2.\<close>

lemma store_stack_check_misses:
  "out_regs insn 0 \<noteq> 2 \<Longrightarrow> sw_exec tgt insn s w = map_option (Pair (i_next insn)) (iss_lsu_store_perf tgt (REG_GET s insn 0 + SIM_GET insn 0) 4 (REG_IN insn 1) s w)"
  by (simp add: sw_exec_def iss_lsu_check_stack_access_def)

end
