(* ===== verification/Iss_Step.thy ===== *)
theory Iss_Step
  imports Iss_Exec Iss_Rv32
begin

text \<open>
  From the memory to the handler: what a decoded instruction executes. The decoder chains handlers in front of the handler of an
  instruction (trace, stall, resource, hardware loop); here the chain is followed and its effect
  compared with the description of the instruction the decoder found.
\<close>

section \<open>Decoding changes the cache of instructions only\<close>

definition cache_only :: "iss \<Rightarrow> iss \<Rightarrow> bool" where
  "cache_only s s1 \<longleftrightarrow> (\<exists>c. s1 = s\<lparr>insn_cache := c\<rparr>)"

lemma cache_onlyI [simp]: "cache_only s (s\<lparr>insn_cache := c\<rparr>)"
  unfolding cache_only_def by blast

lemma cache_only_refl [simp]: "cache_only s s"
  using cache_onlyI [of s "insn_cache s"] by simp

lemma cache_only_trans: "cache_only s s1 \<Longrightarrow> cache_only s1 s2 \<Longrightarrow> cache_only s s2"
  unfolding cache_only_def by fastforce

lemma cache_only_put [simp]: "cache_only s (insn_put f p s)"
  by (simp add: insn_put_def)

lemma cache_only_get [simp]: "cache_only s (snd (iss_insn_get a s))"
  by (simp add: iss_insn_get_def split_def Let_def)

definition dec_local :: "insn_decode \<Rightarrow> bool" where
  "dec_local dec \<longleftrightarrow> (\<forall>k p s. cache_only s (dec k p s))"

lemma dec_localD: "dec_local dec \<Longrightarrow> cache_only s (dec k p s)"
  unfolding dec_local_def by blast

lemma put_of_get_only [simp]: "cache_only s (insn_put f p (snd (iss_insn_get a s)))"
  by (rule cache_only_trans [OF cache_only_get cache_only_put])

lemma put_of_get_of_put_only [simp]: "cache_only s (insn_put f p (snd (iss_insn_get a (insn_put g q s))))"
  by (rule cache_only_trans [OF cache_only_put put_of_get_only])

lemma decode_arg_only: "decode_arg p opcode arg s = Some s1 \<Longrightarrow> cache_only s s1"
proof (cases arg)
  case (Arg_Out_Reg ra)
  then show "decode_arg p opcode arg s = Some s1 \<Longrightarrow> cache_only s s1"
    by (auto simp: decode_arg_def set_next_latency_def Let_def bind_eq_Some_conv split_def split: if_splits)
qed (auto simp: decode_arg_def intro: cache_only_trans [OF cache_only_put cache_only_put])

lemma decode_args_only: "decode_args p opcode as s = Some s1 \<Longrightarrow> cache_only s s1"
proof (induction as arbitrary: s)
  case (Cons a as)
  then obtain t where t: "decode_arg p opcode a s = Some t" "decode_args p opcode as t = Some s1" by (auto simp: bind_eq_Some_conv)
  show ?case using cache_only_trans [OF decode_arg_only [OF t(1)] Cons.IH [OF t(2)]] .
qed simp

lemma set_next_only: "set_next p s = Some s1 \<Longrightarrow> cache_only s s1"
  by (auto simp: set_next_def Let_def bind_eq_Some_conv split_def)

lemma decode_insn_only:
  assumes "dec_local dec" "decode_insn dec p opcode it s = Some (ok, s1)"
  shows "cache_only s s1"
proof (cases "it_active it")
  case True
  then obtain t u where t: "decode_args p opcode (it_args it) (insn_put (set_handlers it) p s) = Some t"
      "set_next p (insn_put (add_input_latency (pipeline_stages t)) p t) = Some u"
      "s1 = insn_put set_stall_handlers p (case it_decode it of None \<Rightarrow> u | Some k \<Rightarrow> dec k p u)"
    using assms(2) by (auto simp: decode_insn_def bind_eq_Some_conv Let_def)
  have "cache_only u (case it_decode it of None \<Rightarrow> u | Some k \<Rightarrow> dec k p u)" using dec_localD [OF assms(1)] by (simp split: option.split)
  then have "cache_only u s1" unfolding t(3) by (rule cache_only_trans [OF _ cache_only_put])
  then show ?thesis
    using cache_only_trans [OF cache_only_put cache_only_trans [OF decode_args_only [OF t(1)]
          cache_only_trans [OF cache_only_put cache_only_trans [OF set_next_only [OF t(2)]]]]] by blast
qed (use assms(2) in \<open>simp add: decode_insn_def\<close>)

lemma decode_opcode_only: "dec_local dec \<Longrightarrow> decode_opcode dec isas p opcode s = Some (ok, s1) \<Longrightarrow> cache_only s s1"
proof (induction isas arbitrary: s)
  case (Cons isa isas)
  then obtain b t where t: "decode_item dec p opcode isa s = Some (b, t)" "if b then ok \<and> t = s1 else decode_opcode dec isas p opcode t = Some (ok, s1)"
    by (auto simp: bind_eq_Some_conv split: if_splits)
  have "cache_only s t" using t(1) decode_insn_only [OF Cons.prems(1)] by (auto simp: decode_item_def split: option.splits)
  then show ?case using t(2) Cons.IH [OF Cons.prems(1)] cache_only_trans by (cases b) auto
qed simp

section \<open>The chain of handlers\<close>

text \<open>The first instruction set that has an active description for the opcode decides.\<close>

fun first_item :: "u32 \<Rightarrow> decoder_item list \<Rightarrow> insn_item option" where
  "first_item opcode [] = None"
| "first_item opcode (isa # isas) =
     (case find_item opcode isa of None \<Rightarrow> first_item opcode isas | Some it \<Rightarrow> if it_active it then Some it else first_item opcode isas)"

text \<open>The handlers the decoder has chained, from the innermost to the outermost.\<close>

definition loop_handler :: "insn_item \<Rightarrow> iss_insn \<Rightarrow> bool \<Rightarrow> iss_handler" where
  "loop_handler it i fast = (if hwloop_handler i \<noteq> None then Hwloop_Check_Exec else if fast then Isa_Exec_Fast (it_label it) else Isa_Exec (it_label it))"

definition offload_handler :: "insn_item \<Rightarrow> iss_insn \<Rightarrow> bool \<Rightarrow> iss_handler" where
  "offload_handler it i fast = (if it_resource_id it \<noteq> -1 then Iss_Resource_Offload else loop_handler it i fast)"

definition chain_handler :: "insn_item \<Rightarrow> iss_insn \<Rightarrow> bool \<Rightarrow> iss_handler" where
  "chain_handler it i fast =
     (if i_latency i \<noteq> 0 then if fast then Iss_Exec_Stalled_Insn_Fast else Iss_Exec_Stalled_Insn else offload_handler it i fast)"

definition chained :: "insn_item \<Rightarrow> iss_insn \<Rightarrow> bool" where
  "chained it i \<longleftrightarrow> (hwloop_handler i = None \<or> hwloop_handler i = Some (Isa_Exec (it_label it))) \<and>
     (it_resource_id it \<noteq> -1 \<longrightarrow> resource_handler i = Some (loop_handler it i False)) \<and>
     (i_latency i \<noteq> 0 \<longrightarrow> stall_handler i = Some (offload_handler it i False) \<and> stall_fast_handler i = Some (offload_handler it i True))"

definition entry_ok :: "insn_item \<Rightarrow> bool \<Rightarrow> iss_insn \<Rightarrow> bool" where
  "entry_ok it traced i \<longleftrightarrow> chained it i \<and>
     (if traced then saved_handler i = Some (chain_handler it i False) \<and> handler i = Some Iss_Exec_Insn_With_Trace \<and> fast_handler i = Some Iss_Exec_Insn_With_Trace
      else handler i = Some (chain_handler it i False) \<and> fast_handler i = Some (chain_handler it i True))"

text \<open>What the instruction is meant to do: account for the stall and for the resource, then its handler, then the end of the loop.\<close>

definition loop_effect :: "'w isa \<Rightarrow> bool \<Rightarrow> insn_item \<Rightarrow> iss_insn \<Rightarrow> 'w handler_fun" where
  "loop_effect isa fast it i = (if hwloop_handler i \<noteq> None then hwloop_check_exec (\<lambda>_. isa False (it_label it)) else isa fast (it_label it))"

definition offload_effect :: "'w isa \<Rightarrow> bool \<Rightarrow> insn_item \<Rightarrow> iss_insn \<Rightarrow> 'w handler_fun" where
  "offload_effect isa fast it i p s =
     (if it_resource_id it \<noteq> -1 then loop_effect isa False it i p (resource_account i s) else loop_effect isa fast it i p s)"

definition stall_account :: "bool \<Rightarrow> iss_insn \<Rightarrow> iss \<Rightarrow> iss" where
  "stall_account fast i s =
     (if i_latency i \<noteq> 0 then
        let t = iss_perf_account_dependency_stall (word_of_int (i_latency i)) s
        in if fast then t else iss_pccr_account_event CSR_PCER_LD_STALL 1 t
      else s)"

definition insn_effect :: "'w isa \<Rightarrow> bool \<Rightarrow> insn_item \<Rightarrow> iss_insn \<Rightarrow> 'w handler_fun" where
  "insn_effect isa fast it i p s = offload_effect isa fast it i p (stall_account fast i s)"

lemma insn_of_accounts [simp]:
  "insn_of (iss_perf_account_dependency_stall l s) q = insn_of s q" "insn_of (iss_pccr_account_event e n s) q = insn_of s q"
  "insn_of (resource_account i s) q = insn_of s q"
  by (simp_all add: insn_of_def iss_perf_account_dependency_stall_def iss_pccr_account_event_def resource_account_def Let_def split: option.split)

text \<open>The chain is followed with fuel for five handlers.\<close>

lemma loop_exec:
  assumes "chained it i" "insn_of s (Some p) = Some i"
  shows "exec_handler dec isas isa (Suc (Suc n)) (Some (loop_handler it i fast)) p s w = loop_effect isa fast it i p s w"
proof -
  have "hwloop_handler i \<noteq> None \<Longrightarrow> hwloop_handler i = Some (Isa_Exec (it_label it))" using assms(1) by (auto simp: chained_def)
  then show ?thesis using assms(2) by (cases fast; cases "hwloop_handler i") (simp_all add: loop_handler_def loop_effect_def hwloop_check_exec_def)
qed

lemma offload_exec:
  assumes "chained it i" "insn_of s (Some p) = Some i"
  shows "exec_handler dec isas isa (Suc (Suc (Suc n))) (Some (offload_handler it i fast)) p s w = offload_effect isa fast it i p s w"
proof (cases "it_resource_id it = -1")
  case True
  then show ?thesis using loop_exec [OF assms] by (simp only: offload_handler_def offload_effect_def simp_thms if_False)
next
  case False
  then have "resource_handler i = Some (loop_handler it i False)" using assms(1) by (simp add: chained_def)
  then show ?thesis
    using False assms(2) loop_exec [of it i "resource_account i s" p dec isas isa n False w, OF assms(1)]
    by (simp add: offload_handler_def offload_effect_def del: exec_handler.simps add: exec_handler.simps(5))
qed

lemma chain_exec:
  assumes "chained it i" "insn_of s (Some p) = Some i"
  shows "exec_handler dec isas isa (Suc (Suc (Suc (Suc n)))) (Some (chain_handler it i fast)) p s w = insn_effect isa fast it i p s w"
proof (cases "i_latency i = 0")
  case True
  then show ?thesis using offload_exec [OF assms] by (simp only: chain_handler_def insn_effect_def stall_account_def simp_thms if_False)
next
  case False
  then have "stall_handler i = Some (offload_handler it i False)" "stall_fast_handler i = Some (offload_handler it i True)"
    using assms(1) by (simp_all add: chained_def)
  moreover have "insn_of (stall_account fast i s) (Some p) = Some i" using assms(2) by (simp add: stall_account_def Let_def)
  ultimately show ?thesis
    using False assms(2) offload_exec [of it i "stall_account fast i s" p dec isas isa n fast w, OF assms(1)]
    by (cases fast) (simp_all add: chain_handler_def insn_effect_def stall_account_def Let_def del: exec_handler.simps add: exec_handler.simps(6,7))
qed

lemma depth_Suc: "handler_depth = Suc (Suc (Suc (Suc (Suc 3))))" "Suc (Suc (Suc (Suc 3))) = Suc (Suc (Suc (Suc (Suc 2))))"
  by (simp_all add: handler_depth_def)

lemma entry_exec:
  assumes "entry_ok it traced i" "insn_of s (Some p) = Some i"
  shows "iss_exec_insn dec isas isa p s w = insn_effect isa False it i p s w"
    "iss_exec_insn_fast dec isas isa p s w = insn_effect isa (\<not> traced) it i p s w"
proof -
  have c: "chained it i" using assms(1) by (simp add: entry_ok_def)
  note e = chain_exec [OF c assms(2), of dec isas isa _ _ w]
  show "iss_exec_insn dec isas isa p s w = insn_effect isa False it i p s w"
    using assms e [of 3 False] e [of 4 False] by (cases traced) (simp_all add: entry_ok_def iss_exec_insn_def depth_Suc(1) eval_nat_numeral del: exec_handler.simps add: exec_handler.simps(8))
  show "iss_exec_insn_fast dec isas isa p s w = insn_effect isa (\<not> traced) it i p s w"
    using assms e [of 3 False] e [of 4 True] by (cases traced) (simp_all add: entry_ok_def iss_exec_insn_fast_def depth_Suc(1) eval_nat_numeral del: exec_handler.simps add: exec_handler.simps(8))
qed

section \<open>The decoder builds the chain\<close>

definition handler_view :: "iss_insn \<Rightarrow> iss_handler option \<times> iss_handler option \<times> iss_handler option \<times> iss_handler option" where
  "handler_view i = (handler i, fast_handler i, hwloop_handler i, resource_handler i)"

definition keeps_view :: "iptr \<Rightarrow> iss \<Rightarrow> iss \<Rightarrow> bool" where
  "keeps_view p s s1 \<longleftrightarrow> ic_inv (insn_cache s) \<longrightarrow> ic_inv (insn_cache s1) \<and>
     (\<forall>i. insn_at (insn_cache s) p = Some i \<longrightarrow> (\<exists>j. insn_at (insn_cache s1) p = Some j \<and> handler_view j = handler_view i))"

lemma keeps_view_refl: "keeps_view p s s"
  by (simp add: keeps_view_def)

lemma keeps_view_trans: "keeps_view p s s1 \<Longrightarrow> keeps_view p s1 s2 \<Longrightarrow> keeps_view p s s2"
  unfolding keeps_view_def by metis

lemma keeps_view_put:
  assumes "\<And>i. i_addr (f i) = i_addr i" "\<And>i. handler_view (f i) = handler_view i"
  shows "keeps_view p s (insn_put f q s)"
  using cache_ext_inv [OF insn_put_ext [OF _ assms(1), of s]] assms(2)
  by (auto simp: keeps_view_def insn_put_def insn_at_update)

lemma keeps_view_get: "keeps_view p s (snd (iss_insn_get a s))"
  using insn_cache_get_inv insn_cache_get_keeps by (auto simp: keeps_view_def iss_insn_get_def split_def Let_def)

lemma entry_fun_view [simp]:
  "handler_view (set_in_reg k v i) = handler_view i" "handler_view (set_out_reg k v i) = handler_view i"
  "handler_view (add_input_latency n i) = handler_view i" "handler_view (i\<lparr>uim := u\<rparr>) = handler_view i" "handler_view (i\<lparr>sim := u\<rparr>) = handler_view i"
  "handler_view (i\<lparr>i_next := x\<rparr>) = handler_view i" "handler_view (i\<lparr>input_latency_reg := r, input_latency := l\<rparr>) = handler_view i"
  by (simp_all add: handler_view_def set_in_reg_def set_out_reg_def add_input_latency_def)

lemmas keeps_view_intros = keeps_view_refl keeps_view_put keeps_view_trans [OF keeps_view_put keeps_view_put] keeps_view_trans [OF keeps_view_get keeps_view_put]

lemma set_next_latency_view: "set_next_latency p r l s = Some s1 \<Longrightarrow> keeps_view q s s1"
  by (auto simp: set_next_latency_def Let_def bind_eq_Some_conv split_def intro!: keeps_view_intros)

lemma decode_arg_view: "decode_arg p opcode arg s = Some s1 \<Longrightarrow> keeps_view p s s1"
proof (cases arg)
  case (Arg_Out_Reg ra)
  then show "decode_arg p opcode arg s = Some s1 \<Longrightarrow> keeps_view p s s1"
    using keeps_view_put [of "set_out_reg (ra_id ra) (full_index opcode ra s)" p s p]
    by (auto simp: decode_arg_def Let_def split: if_splits dest!: set_next_latency_view [of p _ _ _ _ p] elim: keeps_view_trans)
qed (auto simp: decode_arg_def intro!: keeps_view_intros)

lemma decode_args_view: "decode_args p opcode as s = Some s1 \<Longrightarrow> keeps_view p s s1"
proof (induction as arbitrary: s)
  case (Cons a as)
  then obtain t where t: "decode_arg p opcode a s = Some t" "decode_args p opcode as t = Some s1" by (auto simp: bind_eq_Some_conv)
  show ?case using keeps_view_trans [OF decode_arg_view [OF t(1)] Cons.IH [OF t(2)]] .
qed (simp add: keeps_view_refl)

lemma set_next_view: "set_next p s = Some s1 \<Longrightarrow> keeps_view p s s1"
  by (auto simp: set_next_def Let_def bind_eq_Some_conv split_def intro!: keeps_view_intros)

text \<open>What is asked of the decode functions.\<close>

definition dec_keeps_view :: "insn_decode \<Rightarrow> bool" where
  "dec_keeps_view dec \<longleftrightarrow> (\<forall>k p s. keeps_view p s (dec k p s))"

lemma dec_view: "dec_keeps_view dec \<Longrightarrow> keeps_view p s (case d of None \<Rightarrow> s | Some k \<Rightarrow> dec k p s)"
  unfolding dec_keeps_view_def by (cases d) (simp_all only: keeps_view_refl option.case)

definition fresh_loop :: "iss_insn \<Rightarrow> bool" where
  "fresh_loop i \<longleftrightarrow> hwloop_handler i = None \<or> hwloop_handler i = Some Hwloop_Check_Exec"

lemma set_handlers_view:
  assumes "fresh_loop i" "handler_view j = handler_view (set_handlers it i)"
  shows "chained it (set_stall_handlers j)" "handler (set_stall_handlers j) = Some (chain_handler it (set_stall_handlers j) False)"
    "fast_handler (set_stall_handlers j) = Some (chain_handler it (set_stall_handlers j) True)"
  using assms
  by (auto simp: fresh_loop_def handler_view_def set_handlers_def set_stall_handlers_def chained_def chain_handler_def offload_handler_def
      loop_handler_def Let_def split: if_splits)

lemma decode_insn_chain:
  assumes "dec_keeps_view dec" "it_active it" "ic_inv (insn_cache s)" "insn_at (insn_cache s) p = Some insn" "fresh_loop insn"
    "decode_insn dec p opcode it s = Some (ok, s1)"
  shows "\<exists>i. insn_at (insn_cache s1) p = Some i \<and> chained it i \<and> handler i = Some (chain_handler it i False) \<and>
    fast_handler i = Some (chain_handler it i True)"
proof -
  let ?s = "insn_put (set_handlers it) p s"
  obtain t u where t: "decode_args p opcode (it_args it) ?s = Some t" "set_next p (insn_put (add_input_latency (pipeline_stages t)) p t) = Some u"
      "s1 = insn_put set_stall_handlers p (case it_decode it of None \<Rightarrow> u | Some k \<Rightarrow> dec k p u)"
    using assms(2,6) by (auto simp: decode_insn_def bind_eq_Some_conv Let_def)
  have "keeps_view p ?s (case it_decode it of None \<Rightarrow> u | Some k \<Rightarrow> dec k p u)"
    using keeps_view_trans [OF decode_args_view [OF t(1)] keeps_view_trans [OF keeps_view_put keeps_view_trans [OF set_next_view [OF t(2)] dec_view [OF assms(1)]]]]
    by simp
  moreover have "ic_inv (insn_cache ?s)" using cache_ext_inv [OF insn_put_ext [OF assms(3)]] by simp
  moreover have "insn_at (insn_cache ?s) p = Some (set_handlers it insn)" using assms(4) by (simp add: insn_put_def insn_at_update)
  ultimately obtain j where "insn_at (insn_cache (case it_decode it of None \<Rightarrow> u | Some k \<Rightarrow> dec k p u)) p = Some j"
      "handler_view j = handler_view (set_handlers it insn)" unfolding keeps_view_def by blast
  then show ?thesis using set_handlers_view [OF assms(5)] unfolding t(3) by (simp add: insn_put_def insn_at_update)
qed

lemma decode_opcode_first:
  "decode_opcode dec isas p opcode s =
     (case first_item opcode isas of None \<Rightarrow> Some (False, s) | Some it \<Rightarrow> map_option (\<lambda>(_, s1). (True, s1)) (decode_insn dec p opcode it s))"
proof (induction isas)
  case (Cons isa isas)
  have active: "map_option (\<lambda>(_, s1). (True, s1)) (decode_insn dec p opcode it s) = decode_insn dec p opcode it s" if "it_active it" for it
    using that by (auto simp: decode_insn_def Let_def split: bind_splits)
  have inactive: "decode_insn dec p opcode it s = Some (False, s)" if "\<not> it_active it" for it
    using that by (simp add: decode_insn_def)
  have ok: "fst x" if "decode_insn dec p opcode it s = Some x" "it_active it" for it x
    using that by (auto simp: decode_insn_def Let_def split: bind_splits)
  show ?case
  proof (cases "find_item opcode isa")
    case (Some it)
    then show ?thesis
      using Cons inactive [of it] active [of it] ok [of it] by (cases "it_active it"; cases "decode_insn dec p opcode it s") (auto simp: decode_item_def)
  qed (simp add: decode_item_def Cons)
qed simp

text \<open>The entry that decoding leaves, and what executing it does.\<close>

definition executes_as :: "insn_decode \<Rightarrow> decoder_item list \<Rightarrow> u32 \<Rightarrow> iptr \<Rightarrow> iss \<Rightarrow> 'w isa \<Rightarrow> 'w \<Rightarrow> bool" where
  "executes_as dec isas opcode p s isa w \<longleftrightarrow>
     (case first_item opcode isas of
        None \<Rightarrow> iss_exec_insn dec isas isa p s w = map_option (\<lambda>(q, s1). (q, s1, w)) (iss_except_raise ISS_EXCEPT_ILLEGAL s) \<and>
          iss_exec_insn_fast dec isas isa p s w = map_option (\<lambda>(q, s1). (q, s1, w)) (iss_except_raise ISS_EXCEPT_ILLEGAL s)
      | Some it \<Rightarrow> (\<exists>i. insn_of s (Some p) = Some i \<and> i_opcode i = opcode \<and>
          iss_exec_insn dec isas isa p s w = insn_effect isa False it i p s w \<and>
          iss_exec_insn_fast dec isas isa p s w = insn_effect isa (\<not> insn_traced s) it i p s w))"

lemma first_item_active: "first_item opcode isas = Some it \<Longrightarrow> it_active it"
  by (induction isas) (auto split: option.splits if_splits)

lemma entry_ok_traced: "chained it i \<Longrightarrow> handler i = Some (chain_handler it i False) \<Longrightarrow>
    entry_ok it True (i\<lparr>i_opcode := opc, saved_handler := handler i, handler := Some Iss_Exec_Insn_With_Trace, fast_handler := Some Iss_Exec_Insn_With_Trace\<rparr>)"
  by (simp add: entry_ok_def chained_def chain_handler_def offload_handler_def loop_handler_def)

lemma entry_ok_plain: "chained it i \<Longrightarrow> handler i = Some (chain_handler it i False) \<Longrightarrow> fast_handler i = Some (chain_handler it i True) \<Longrightarrow>
    entry_ok it False (i\<lparr>i_opcode := opc\<rparr>)"
  by (simp add: entry_ok_def chained_def chain_handler_def offload_handler_def loop_handler_def)

lemma illegal_exec:
  assumes "insn_of s (Some p) = Some i" "handler i = Some Iss_Exec_Insn_Illegal" "fast_handler i = Some Iss_Exec_Insn_Illegal"
  shows "iss_exec_insn dec isas isa p s w = map_option (\<lambda>(q, s1). (q, s1, w)) (iss_except_raise ISS_EXCEPT_ILLEGAL s)"
    "iss_exec_insn_fast dec isas isa p s w = map_option (\<lambda>(q, s1). (q, s1, w)) (iss_except_raise ISS_EXCEPT_ILLEGAL s)"
  using assms by (simp_all add: iss_exec_insn_def iss_exec_insn_fast_def handler_depth_def eval_nat_numeral map_option_case split: bind_split option.split prod.split)

lemma decode_pc_executes:
  assumes "dec_keeps_view dec" "ic_inv (insn_cache s)" "insn_at (insn_cache s) p = Some insn" "fresh_loop insn"
    "iss_decode_pc_noexec dec isas p s = Some s1"
  shows "executes_as dec isas (i_opcode insn) p s1 isa w"
proof (cases "first_item (i_opcode insn) isas")
  case None
  then have "insn_of s1 (Some p) = Some (insn\<lparr>handler := Some Iss_Exec_Insn_Illegal, fast_handler := Some Iss_Exec_Insn_Illegal\<rparr>)"
    using assms(3,5) by (auto simp: iss_decode_pc_noexec_def insn_of_Some decode_opcode_first insn_put_def insn_at_update)
  then show ?thesis using None illegal_exec [of s1 p _ dec isas isa w] by (simp add: executes_as_def)
next
  case (Some it)
  let ?o = "\<lambda>i. i\<lparr>i_opcode := i_opcode insn\<rparr>"
  let ?t = "\<lambda>i. i\<lparr>saved_handler := handler i, handler := Some Iss_Exec_Insn_With_Trace, fast_handler := Some Iss_Exec_Insn_With_Trace\<rparr>"
  obtain ok u where u: "decode_insn dec p (i_opcode insn) it s = Some (ok, u)"
      "s1 = (if insn_traced u then insn_put ?t p (insn_put ?o p u) else insn_put ?o p u)"
    using assms(3,5) Some by (auto simp: iss_decode_pc_noexec_def insn_of_Some decode_opcode_first bind_eq_Some_conv Let_def insn_put_def split: if_splits)
  obtain i where i: "insn_at (insn_cache u) p = Some i" "chained it i" "handler i = Some (chain_handler it i False)" "fast_handler i = Some (chain_handler it i True)"
    using decode_insn_chain [OF assms(1) first_item_active [OF Some] assms(2-4) u(1)] by blast
  let ?i = "if insn_traced u then ?t (?o i) else ?o i"
  have "insn_of s1 (Some p) = Some ?i" using i(1) unfolding u(2) by (simp add: insn_of_Some insn_put_def insn_at_update)
  moreover have "entry_ok it (insn_traced u) ?i" using entry_ok_traced [OF i(2,3)] entry_ok_plain [OF i(2-4)] by simp
  moreover have "insn_traced s1 = insn_traced u" unfolding u(2) by (simp add: insn_put_def)
  moreover have "i_opcode ?i = i_opcode insn" by simp
  ultimately show ?thesis using entry_exec [of it "insn_traced u" ?i s1 p dec isas isa w] Some unfolding executes_as_def by auto
qed


text \<open>The \<^verbatim>\<open>addi\<close> at address 30 of the memory of three lines, with the handler of \<^verbatim>\<open>addi\<close> for every number.\<close>

definition addi_isa :: "nat isa" where
  "addi_isa fast k p s w = do {
     i \<leftarrow> insn_of s (Some p);
     (q, s1) \<leftarrow> addi_exec i s;
     Some (q, s1, w)
   }"

lemma first_addi: "first_item 0xFFD58513 [sample_isa] = Some addi_item"
  by (simp add: sample_isa_def group_opcode_def addi_item_def)


section \<open>Interrupts return\<close>

text \<open>What an interrupt and the return from it touch, and what says whether the core runs: a fetch touches none of it.\<close>

definition wr_view :: "iss \<Rightarrow> bool \<times> bool \<times> bool \<times> bool \<times> int \<times> bool \<times> (iss_event \<Rightarrow> u64 option) \<times> iss_event" where
  "wr_view s = (is_active_reg s, halted s, fetch_enable_reg s, wfi s, wr_irq_req s, debug_mode s, enqueued s, current_event s)"

definition irq_view :: "iss \<Rightarrow> (u32 \<times> bool \<times> bool \<times> int \<times> int list \<times> u32 \<times> iptr option) \<times> bool \<times> bool \<times> bool \<times> bool \<times> int \<times> bool \<times> (iss_event \<Rightarrow> u64 option) \<times> iss_event" where
  "irq_view s = ((csr_epc s, saved_irq_enable s, irq_enable s, req_irq s, irq_acks s, csr_mcause s, current_insn s), wr_view s)"

lemma cache_only_irq: "cache_only s s1 \<Longrightarrow> irq_view s1 = irq_view s"
  by (auto simp: cache_only_def irq_view_def wr_view_def)

lemma irq_view_updates [simp]:
  "irq_view (s\<lparr>insn_cache := c\<rparr>) = irq_view s" "irq_view (s\<lparr>pf_addr := a\<rparr>) = irq_view s" "irq_view (insn_put f p s) = irq_view s"
  "irq_view (s\<lparr>fetch_stall_callback := cb, prefetch_insn := q, stalled := n\<rparr>) = irq_view s"
  "irq_view (s\<lparr>fetch_stall_callback := cb, fetch_stall_opcode := v, prefetch_insn := q, stalled := n\<rparr>) = irq_view s"
  by (simp_all add: irq_view_def wr_view_def insn_put_def)

lemma decode_pc_only:
  assumes "dec_local dec" "iss_decode_pc_noexec dec isas p s = Some s1"
  shows "cache_only s s1"
proof -
  obtain insn where i: "insn_of s (Some p) = Some insn" using assms(2) by (cases "insn_of s (Some p)") (simp_all add: iss_decode_pc_noexec_def)
  obtain ok u where d: "decode_opcode dec isas p (i_opcode insn) s = Some (ok, u)"
    using assms(2) i by (cases "decode_opcode dec isas p (i_opcode insn) s") (auto simp: iss_decode_pc_noexec_def)
  have "cache_only u s1" using assms(2) i d unfolding iss_decode_pc_noexec_def
    by (cases ok) (auto simp: Let_def intro: cache_only_trans [OF cache_only_put cache_only_put])
  then show ?thesis using cache_only_trans [OF decode_opcode_only [OF assms(1) d]] by blast
qed

lemma decode_pc_irq: "dec_local dec \<Longrightarrow> iss_decode_pc_noexec dec isas p s = Some s1 \<Longrightarrow> irq_view s1 = irq_view s"
  by (rule cache_only_irq [OF decode_pc_only])

lemma opcode_decode_irq: "dec_local dec \<Longrightarrow> opcode_decode dec isas p v s = Some s1 \<Longrightarrow> irq_view s1 = irq_view s"
  using decode_pc_irq [of dec isas p "insn_put (\<lambda>i. i\<lparr>i_opcode := v\<rparr>) p s" s1] by (simp add: opcode_decode_def)

lemma prefetcher_fill_irq:
  assumes "prefetcher_fill ftgt a s w = Some (b, s1, w1)"
  shows "irq_view s1 = irq_view s"
proof -
  let ?rq = "(rq_init (fetch_io_req s))\<lparr>rq_addr := ucast (a AND NOT 15), rq_size := of_nat ISS_PREFETCHER_SIZE, rq_is_write := False, rq_data := Some 0,
                rq_buf := pf_data s, rq_resp_port := Some 0\<rparr>"
  obtain err rq' w' where "ftgt 0 ?rq w = Some (err, rq', w')" using assms by (cases "ftgt 0 ?rq w") (auto simp: prefetcher_fill_def iss_fetch_req_def Let_def)
  then show ?thesis using assms by (cases "err = IO_REQ_OK") (auto simp: prefetcher_fill_def iss_fetch_req_def irq_view_def wr_view_def Let_def)
qed

lemma after_fill_irq:
  assumes "dec_local dec"
  shows "prefetcher_fetch_value_after_fill_0 dec isas ftgt p a k s w = Some (s1, w1) \<Longrightarrow> irq_view s1 = irq_view s"
  by (auto simp: prefetcher_fetch_value_after_fill_0_def bind_eq_Some_conv Let_def split: if_splits
      dest!: prefetcher_fill_irq opcode_decode_irq [OF assms])

lemma check_overflow_irq:
  "prefetcher_fetch_novalue_check_overflow ftgt p k s w = Some (s1, w1) \<Longrightarrow> irq_view s1 = irq_view s"
  by (auto simp: prefetcher_fetch_novalue_check_overflow_def bind_eq_Some_conv split: if_splits dest!: prefetcher_fill_irq)

lemma prefetcher_fetch_irq:
  assumes "dec_local dec" "prefetcher_fetch dec isas ftgt q s w = Some (s1, w1)"
  shows "irq_view s1 = irq_view s"
proof -
  have "prefetcher_fetch_novalue ftgt p t w = Some (s1, w1) \<Longrightarrow> irq_view s1 = irq_view t" for p t
    by (auto simp: prefetcher_fetch_novalue_def bind_eq_Some_conv Let_def split: if_splits dest!: check_overflow_irq prefetcher_fill_irq)
  moreover have "prefetcher_fetch_value dec isas ftgt p t w = Some (s1, w1) \<Longrightarrow> irq_view s1 = irq_view t" for p t
    by (auto simp: prefetcher_fetch_value_def bind_eq_Some_conv Let_def split: if_splits dest!: after_fill_irq [OF assms(1)] prefetcher_fill_irq opcode_decode_irq [OF assms(1)])
  ultimately show ?thesis using assms(2) by (auto simp: prefetcher_fetch_def bind_eq_Some_conv split: if_splits)
qed

text \<open>The instruction the interrupt comes back to: the one that is executed next, or the \<^verbatim>\<open>elw\<close> the core waits in.\<close>

definition irq_point :: "iss \<Rightarrow> iptr option" where
  "irq_point s = (if elw_insn s \<noteq> None then elw_insn s else current_insn s)"

lemma ptr_of_entry:
  assumes "ic_inv c" "insn_at c (insn_ptr pc) = Some i"
  shows "insn_ptr (i_addr i) = insn_ptr pc"
  using insn_at_addr(1) [OF assms] by (simp add: entry_addr insn_ptr_inj)

text \<open>C16. An interrupt that is requested while interrupts are enabled, and no debug request comes first, is acknowledged once and its handler
  is entered with interrupts disabled, also when the fetch of the handler has to wait. Whatever the handler does to the rest of the state, as long
  as it keeps the saved program counter and enable flag, \<^verbatim>\<open>mret\<close> then goes back to the instruction that was interrupted, the waiting
  \<^verbatim>\<open>elw\<close> when there is one, with interrupts enabled again.\<close>

theorem interrupt_returns:
  assumes "dec_local dec" "\<not> (req_debug s \<and> \<not> debug_mode s)" "req_irq s \<noteq> - 1" "irq_enable s"
    "ic_inv (insn_cache s)" "irq_point s = Some (insn_ptr pc)" "insn_of s (irq_point s) = Some insn"
    "iss_irq_check dec isas ftgt s w = Some (wait, s1, w1)"
    "csr_epc t = csr_epc s1" "saved_irq_enable t = saved_irq_enable s1"
  shows "irq_acks s1 = irq_acks s @ [req_irq s] \<and> req_irq s1 = - 1 \<and> \<not> irq_enable s1 \<and> current_insn s1 = irq_vector (req_irq s) s \<and>
    csr_mcause s1 = push_bit 31 1 OR word_of_int (req_irq s) \<and>
    fst (mret_exec t) = Some (insn_ptr pc) \<and> irq_enable (snd (mret_exec t))"
proof -
  let ?s = "interrupt_elw s"
  have e: "current_insn ?s = irq_point s" "irq_enable ?s = irq_enable s" "irq_acks ?s = irq_acks s" "irq_vector r ?s = irq_vector r s"
      "insn_of ?s q = insn_of s q" for r q
    by (simp_all add: interrupt_elw_def irq_point_def irq_vector_def insn_of_def split: option.split)
  let ?t = "irq_enter (req_irq s) (i_addr insn) ?s"
  have "prefetcher_fetch dec isas ftgt (current_insn ?t) ?t w = Some (s1, w1)"
    using assms(2-4,7,8) e by (auto simp: iss_irq_check_def bind_eq_Some_conv Let_def split: if_splits)
  then have "irq_view s1 = irq_view ?t" by (rule prefetcher_fetch_irq [OF assms(1)])
  then have k: "csr_epc s1 = i_addr insn" "saved_irq_enable s1" "irq_acks s1 = irq_acks s @ [req_irq s] \<and> req_irq s1 = - 1 \<and> \<not> irq_enable s1 \<and>
      current_insn s1 = irq_vector (req_irq s) s \<and> csr_mcause s1 = push_bit 31 1 OR word_of_int (req_irq s)"
    using assms(4) e by (simp_all add: irq_view_def irq_enter_def iss_irq_ack_def)
  have "insn_ptr (i_addr insn) = insn_ptr pc" using ptr_of_entry [OF assms(5)] assms(6,7) by (simp add: insn_of_def)
  then have "fst (mret_exec t) = Some (insn_ptr pc)" "irq_enable (snd (mret_exec t))"
    using assms(9,10) k(1,2)
    by (simp_all add: mret_exec_def iss_irq_handle_mret_def iss_trigger_check_all_def iss_perf_account_dependency_stall_def
        iss_pccr_account_event_def iss_insn_get_def fst_insn_cache_get split_def Let_def split: option.split)
  then show ?thesis using k(3) by blast
qed

text \<open>Interrupt 3 at address 8; the fetch of its handler at address 0x8C is pending.\<close>

definition irq_iss :: iss where
  "irq_iss = (snd (iss_insn_get 0x8C (snd (iss_insn_get 8 sample_iss))))\<lparr>vectors := (\<lambda>_. Some (insn_ptr 0x8C)), irq_enable := True, req_irq := 3,
     current_insn := Some (insn_ptr 8)\<rparr>"

definition slow_target :: "nat target_meth" where
  "slow_target p rq w = Some (IO_REQ_PENDING, rq, w)"

lemma irq_iss_entries:
  "ic_inv (insn_cache irq_iss)" "\<exists>i. insn_at (insn_cache irq_iss) (insn_ptr 8) = Some i \<and> i_addr i = 8"
  "\<exists>i. insn_at (insn_cache irq_iss) (insn_ptr 0x8C) = Some i \<and> i_addr i = 0x8C"
proof -
  let ?c = "snd (insn_cache_get 8 (insn_cache sample_iss))"
  have c: "insn_cache irq_iss = snd (insn_cache_get 0x8C ?c)" by (simp add: irq_iss_def iss_insn_get_def split_def Let_def)
  have s: "ic_inv (insn_cache sample_iss)" by (simp add: sample_iss_def insn_cache_init_inv)
  then have i: "ic_inv ?c" by (rule insn_cache_get_inv)
  then show "ic_inv (insn_cache irq_iss)" unfolding c by (rule insn_cache_get_inv)
  show "\<exists>i. insn_at (insn_cache irq_iss) (insn_ptr 8) = Some i \<and> i_addr i = 8"
    using insn_cache_get_entry [OF s, of 8] insn_cache_get_keeps [OF i, of "insn_ptr 8" _ "0x8C"] unfolding c by fastforce
  show "\<exists>i. insn_at (insn_cache irq_iss) (insn_ptr 0x8C) = Some i \<and> i_addr i = 0x8C"
    using insn_cache_get_entry [OF i, of "0x8C"] unfolding c by auto
qed

text \<open>A fetch that is not in the buffer.\<close>

lemma slow_fetch:
  assumes "insn_at (insn_cache s) p = Some k" "pf_addr s = - 1" "15 < sint (i_addr k + 1)"
  shows "\<exists>s1. prefetcher_fetch dec isas slow_target (Some p) s w = Some (s1, w) \<and> stalled s1 = stalled s + 1"
proof -
  have f: "\<exists>u1. prefetcher_fetch_value dec isas slow_target p u w = Some (u1, w) \<and> stalled u1 = stalled u + 1"
      "\<exists>u1. prefetcher_fetch_novalue slow_target p u w = Some (u1, w) \<and> stalled u1 = stalled u + 1"
    if "insn_of u (Some p) = Some k'" "i_addr k' = i_addr k" "pf_addr u = - 1" for u k'
    using that assms(3) by (auto simp: prefetcher_fetch_value_def prefetcher_fetch_novalue_def prefetcher_fill_def iss_fetch_req_def slow_target_def Let_def)
  show ?thesis
    using f(1) [of "insn_put (\<lambda>i. i\<lparr>fetched := True\<rparr>) p s" "k\<lparr>fetched := True\<rparr>"] f(2) [of s k] assms(1,2)
    by (simp add: prefetcher_fetch_def insn_of_def insn_put_def insn_at_update)
qed

lemma irq_iss_check: "\<exists>s1. iss_irq_check (\<lambda>_ _ s. s) [] slow_target irq_iss 0 = Some (True, s1, 0)"
proof -
  obtain i j where i: "insn_at (insn_cache irq_iss) (insn_ptr 8) = Some i" "insn_at (insn_cache irq_iss) (insn_ptr 0x8C) = Some j" "i_addr j = 0x8C"
    using irq_iss_entries by blast
  have f: "\<not> req_debug irq_iss" "req_irq irq_iss = 3" "irq_enable irq_iss" "interrupt_elw irq_iss = irq_iss" "current_insn irq_iss = Some (insn_ptr 8)"
      "pf_addr irq_iss = - 1" "stalled irq_iss = 0" "irq_vector 3 irq_iss = Some (insn_ptr 0x8C)"
    by (simp_all add: irq_iss_def iss_insn_get_def interrupt_elw_def sample_iss_def irq_vector_def split_def Let_def)
  let ?t = "irq_enter 3 (i_addr i) irq_iss"
  have t: "current_insn ?t = Some (insn_ptr 0x8C)" "insn_cache ?t = insn_cache irq_iss" "pf_addr ?t = - 1" "stalled ?t = 0"
    using f by (simp_all add: irq_enter_def iss_irq_ack_def)
  have "\<exists>s1. prefetcher_fetch (\<lambda>_ _ s. s) [] slow_target (current_insn ?t) ?t 0 = Some (s1, 0) \<and> stalled s1 = 1"
    using slow_fetch [of ?t "insn_ptr 0x8C" j "\<lambda>_ _ s. s" "[]" 0] i t by simp
  then show ?thesis using f i(1) by (auto simp: iss_irq_check_def insn_of_def)
qed

theorem interrupt_returns_witness:
  "\<exists>s1. iss_irq_check (\<lambda>_ _ s. s) [] slow_target irq_iss 0 = Some (True, s1, 0) \<and> irq_acks s1 = [3] \<and> \<not> irq_enable s1 \<and>
     current_insn s1 = Some (insn_ptr 0x8C) \<and> fst (mret_exec (s1\<lparr>regs := \<lambda>_. 7\<rparr>)) = Some (insn_ptr 8)"
proof -
  obtain s1 where s1: "iss_irq_check (\<lambda>_ _ s. s) [] slow_target irq_iss 0 = Some (True, s1, 0)" using irq_iss_check by blast
  obtain i where "insn_at (insn_cache irq_iss) (insn_ptr 8) = Some i" using irq_iss_entries by blast
  then have p: "irq_point irq_iss = Some (insn_ptr 8)" "insn_of irq_iss (irq_point irq_iss) = Some i"
    by (simp_all add: irq_point_def insn_of_def irq_iss_def iss_insn_get_def sample_iss_def split_def Let_def)
  have d: "dec_local (\<lambda>_ _ s. s)" by (simp add: dec_local_def)
  have f: "\<not> (req_debug irq_iss \<and> \<not> debug_mode irq_iss)" "req_irq irq_iss \<noteq> - 1" "irq_enable irq_iss" "req_irq irq_iss = 3" "irq_acks irq_iss = []"
      "irq_vector 3 irq_iss = Some (insn_ptr 0x8C)"
    by (simp_all add: irq_iss_def iss_insn_get_def sample_iss_def irq_vector_def split_def Let_def)
  show ?thesis
    using interrupt_returns [OF d f(1-3) irq_iss_entries(1) p s1, of "s1\<lparr>regs := \<lambda>_. 7\<rparr>"] s1 f(4-6) by simp
qed

end
