(* ===== verification/Iss_Wrapper.thy ===== *)
theory Iss_Wrapper
  imports Iss_Csr Iss_Step
begin

text \<open>
  The wrapper around the instruction set simulator (\<^verbatim>\<open>iss/vp/src/iss_wrapper.cpp\<close>): when instructions are executed. The core is active or not, and \<^verbatim>\<open>check_state\<close> brings this in line
  with the rest of the state: halted, fetch enabled, stalled, waiting for an interrupt. The callbacks of the ports and of the clock events, the debug
  unit, the interface of the debugger and the reset are here, and the handlers of the instructions that reach the wrapper (\<^verbatim>\<open>rv32i.hpp\<close>, \<^verbatim>\<open>rv32c.hpp\<close>, \<^verbatim>\<open>priv.hpp\<close>).
  Traces, power and statistics are left out, as is the semihosting, which is the argument of \<^verbatim>\<open>ebreak\<close>; its variant for the old convention only prints a warning. Registers of the
  wrapper are reset by the engine. The first event of the core, \<^verbatim>\<open>exec_first_instr\<close>, is replaced by the first call of \<^verbatim>\<open>check_state\<close> and never runs.
\<close>

section \<open>The state of the core\<close>

definition HALT_CAUSE_HALT :: u32 where "HALT_CAUSE_HALT = 3"
definition HALT_CAUSE_STEP :: u32 where "HALT_CAUSE_STEP = 4"

definition halt_core :: "iss \<Rightarrow> iss option" where
  "halt_core s = do {
     prev \<leftarrow> (case prev_insn s of None \<Rightarrow> Some 0 | Some p \<Rightarrow> map_option i_addr (insn_of s (Some p)));
     insn \<leftarrow> insn_of s (current_insn s);
     Some (s\<lparr>ppc := prev, npc := i_addr insn\<rparr>)
   }"

text \<open>The core has a reason to run.\<close>

definition runnable :: "iss \<Rightarrow> bool" where
  "runnable s \<longleftrightarrow> \<not> halted s \<and> fetch_enable_reg s \<and> stalled s = 0 \<and> (\<not> wfi s \<or> wr_irq_req s \<noteq> -1 \<or> debug_mode s)"

definition core_activate :: "iss \<Rightarrow> iss" where
  "core_activate s =
     (let s1 = s\<lparr>wfi := False, is_active_reg := True\<rparr>;
          s2 = (if step_mode s1 \<and> \<not> debug_mode s1 then s1\<lparr>do_step := True\<rparr> else s1);
          s3 = (if pccr_active s2 CSR_PCER_CYCLES
                then s2\<lparr>pccr := (pccr s2)(CSR_PCER_CYCLES := pccr s2 CSR_PCER_CYCLES + (1 + ucast (wakeup_latency s2)))\<rparr> else s2)
      in (enqueue_next_instr (1 + wakeup_latency s3) s3)\<lparr>wakeup_latency := 0\<rparr>)"

definition core_deactivate :: "iss \<Rightarrow> iss option" where
  "core_deactivate s =
     (if halted s \<and> \<not> do_step s then halt_core (s\<lparr>is_active_reg := False\<rparr>)
      else if wfi s then Some (if wr_irq_req s = -1 then s\<lparr>is_active_reg := False\<rparr> else s\<lparr>wfi := False\<rparr>)
      else Some s)"

definition check_state :: "insn_decode \<Rightarrow> decoder_item list \<Rightarrow> 'w target_meth \<Rightarrow> iss \<Rightarrow> 'w \<Rightarrow> (iss \<times> 'w) option" where
  "check_state dec isas ftgt s0 w =
     (let event = current_event s0; s = s0\<lparr>current_event := Check_All_Event\<rparr> in
      if \<not> is_active_reg s then
        if runnable s then do {
          (s1, w1) \<leftarrow> (if do_fetch s then prefetcher_fetch dec isas ftgt (current_insn s) s w else Some (s, w));
          Some (if do_fetch s \<and> stalled s1 \<noteq> 0 then s1 else core_activate s1, w1)
        }
        else Some (s, w)
      else do {
        s1 \<leftarrow> core_deactivate s;
        Some (if \<not> is_active_reg s1 then s1\<lparr>enqueued := (enqueued s1)(event := None)\<rparr> else s1, w)
      })"

definition debug_req :: "insn_decode \<Rightarrow> decoder_item list \<Rightarrow> 'w target_meth \<Rightarrow> iss \<Rightarrow> 'w \<Rightarrow> (iss \<times> 'w) option" where
  "debug_req dec isas ftgt s w = check_state dec isas ftgt ((irq_check (s\<lparr>req_debug := True\<rparr>))\<lparr>wfi := False\<rparr>) w"

definition set_halt_mode :: "insn_decode \<Rightarrow> decoder_item list \<Rightarrow> 'w target_meth \<Rightarrow> bool \<Rightarrow> u32 \<Rightarrow> iss \<Rightarrow> 'w \<Rightarrow> (iss \<times> 'w) option" where
  "set_halt_mode dec isas ftgt halt cause s w =
     (if riscv_dbg_unit s then
        if \<not> debug_mode s then debug_req dec isas ftgt (s\<lparr>csr_dcsr := (csr_dcsr s AND NOT (push_bit 6 7)) OR push_bit 6 cause\<rparr>) w
        else Some (s, w)
      else
        Some (s\<lparr>halt_cause := cause,
               clock_retained := (if halted s \<and> \<not> halt then clock_retained s - 1 else if \<not> halted s \<and> halt then clock_retained s + 1 else clock_retained s),
               halted := halt, halt_status := halt_status s @ [halt]\<rparr>, w))"

definition iss_set_halt_mode :: "insn_decode \<Rightarrow> decoder_item list \<Rightarrow> 'w target_meth \<Rightarrow> bool \<Rightarrow> u32 \<Rightarrow> iss \<Rightarrow> 'w \<Rightarrow> (iss \<times> 'w) option" where
  "iss_set_halt_mode dec isas ftgt halt cause s w = do {
     (s1, w1) \<leftarrow> set_halt_mode dec isas ftgt halt cause s w;
     check_state dec isas ftgt s1 w1
   }"

definition wait_for_interrupt :: "insn_decode \<Rightarrow> decoder_item list \<Rightarrow> 'w target_meth \<Rightarrow> iss \<Rightarrow> 'w \<Rightarrow> (iss \<times> 'w) option" where
  "wait_for_interrupt dec isas ftgt s w = check_state dec isas ftgt (s\<lparr>wfi := True\<rparr>) w"

section \<open>Clock events\<close>

text \<open>What is done with the cycles of the step.\<close>

definition after_step :: "u32 \<Rightarrow> iss \<Rightarrow> iss" where
  "after_step cycles s =
     (if stalled s = 0 then enqueue_next_instr (scast cycles) s
      else if misaligned_access s then s\<lparr>enqueued := (enqueued s)(Misaligned_Event := Some (misaligned_latency s))\<rparr>
      else s\<lparr>is_active_reg := False\<rparr>)"

definition exec_instr :: "insn_decode \<Rightarrow> decoder_item list \<Rightarrow> 'w isa \<Rightarrow> 'w target_meth \<Rightarrow> iss \<Rightarrow> 'w \<Rightarrow> (iss \<times> 'w) option" where
  "exec_instr dec isas isa ftgt s w = do {
     (cycles, s1, w1) \<leftarrow> iss_exec_step_nofetch dec isas isa ftgt s w;
     Some (after_step cycles s1, w1)
   }"

definition end_of_step :: "insn_decode \<Rightarrow> decoder_item list \<Rightarrow> 'w target_meth \<Rightarrow> iss \<Rightarrow> 'w \<Rightarrow> (iss \<times> 'w) option" where
  "end_of_step dec isas ftgt s w = do {
     let s1 = s\<lparr>do_step := False, hit_reg := hit_reg s OR 1\<rparr>;
     (s2, w2) \<leftarrow> (if gdbserver s1 then Some (s1\<lparr>halted := True, gdb_signals := gdb_signals s1 + 1\<rparr>, w)
                 else set_halt_mode dec isas ftgt True HALT_CAUSE_STEP s1 w);
     check_state dec isas ftgt s2 w2
   }"

definition exec_instr_check_all ::
    "bool \<Rightarrow> insn_decode \<Rightarrow> decoder_item list \<Rightarrow> 'w isa \<Rightarrow> 'w target_meth \<Rightarrow> iss \<Rightarrow> 'w \<Rightarrow> (iss \<times> 'w) option" where
  "exec_instr_check_all vp_trace_active dec isas isa ftgt s w = do {
     let s0 = (if iss_exec_switch_to_fast vp_trace_active s then s\<lparr>current_event := Instr_Event\<rparr> else s);
     (cycles, s1, w1) \<leftarrow> iss_exec_step_nofetch_perf dec isas isa ftgt s0 w;
     let s2 = after_step cycles s1;
     if step_mode s2 \<and> \<not> debug_mode s0 then end_of_step dec isas ftgt s2 w1 else Some (s2, w1)
   }"

definition irq_req_sync_handler :: "insn_decode \<Rightarrow> decoder_item list \<Rightarrow> 'w target_meth \<Rightarrow> iss \<Rightarrow> 'w \<Rightarrow> (iss \<times> 'w) option" where
  "irq_req_sync_handler dec isas ftgt s w =
     (let s1 = irq_check (s\<lparr>wr_irq_req := wr_irq_req_value s\<rparr>)
      in check_state dec isas ftgt ((iss_irq_req (wr_irq_req s1) s1)\<lparr>wfi := False\<rparr>) w)"

section \<open>Ports\<close>

text \<open>The latency is the one of the answer.\<close>

definition data_response :: "insn_decode \<Rightarrow> decoder_item list \<Rightarrow> 'w target_meth \<Rightarrow> u64 \<Rightarrow> iss \<Rightarrow> 'w \<Rightarrow> (iss \<times> 'w) option" where
  "data_response dec isas ftgt latency s w = do {
     let s1 = (iss_unstall s)\<lparr>wakeup_latency := latency\<rparr>;
     s2 \<leftarrow> (if misaligned_access s1 then Some (s1\<lparr>misaligned_access := False\<rparr>)
           else map_option iss_exec_insn_terminate (stall_resume (stall_callback s1) s1));
     check_state dec isas ftgt s2 w
   }"

definition fetch_response :: "insn_decode \<Rightarrow> decoder_item list \<Rightarrow> 'w target_meth \<Rightarrow> iss \<Rightarrow> 'w \<Rightarrow> (iss \<times> 'w) option" where
  "fetch_response dec isas ftgt s w = do {
     let s1 = iss_unstall s;
     (s2, w2) \<leftarrow> (case fetch_stall_callback s1 of
                    None \<Rightarrow> Some (s1, w)
                  | Some Prefetcher_Fetch_Value_Resume_0 \<Rightarrow> prefetcher_fetch_value_resume_0 dec isas ftgt s1 w
                  | Some Prefetcher_Fetch_Value_Resume_1 \<Rightarrow> map_option (\<lambda>t. (t, w)) (prefetcher_fetch_value_resume_1 dec isas s1));
     check_state dec isas ftgt s2 w2
   }"

definition bootaddr_sync :: "u32 \<Rightarrow> iss \<Rightarrow> iss" where
  "bootaddr_sync v s = (let s1 = s\<lparr>bootaddr_reg := v\<rparr> in iss_irq_set_vector_table (bootaddr_reg s1 AND NOT 0xFF) s1)"

definition fetchen_sync :: "insn_decode \<Rightarrow> decoder_item list \<Rightarrow> 'w target_meth \<Rightarrow> bool \<Rightarrow> iss \<Rightarrow> 'w \<Rightarrow> (iss \<times> 'w) option" where
  "fetchen_sync dec isas ftgt active s w =
     (let s1 = s\<lparr>fetch_enable_reg := active\<rparr>;
          s2 = (if \<not> fetch_enable_reg s \<and> active then iss_pc_set (bootaddr_reg s1 + bootaddr_offset s1) s1 else s1)
      in check_state dec isas ftgt s2 w)"

definition flush_cache_sync :: "insn_decode \<Rightarrow> decoder_item list \<Rightarrow> iss \<Rightarrow> iss option" where
  "flush_cache_sync dec isas s = (if iss_opened s then iss_cache_flush dec isas s else Some s)"

definition flush_cache_ack_sync :: "insn_decode \<Rightarrow> decoder_item list \<Rightarrow> 'w target_meth \<Rightarrow> iss \<Rightarrow> 'w \<Rightarrow> (iss \<times> 'w) option" where
  "flush_cache_ack_sync dec isas ftgt s w = check_state dec isas ftgt (iss_exec_insn_terminate s) w"

definition halt_sync :: "insn_decode \<Rightarrow> decoder_item list \<Rightarrow> 'w target_meth \<Rightarrow> bool \<Rightarrow> iss \<Rightarrow> 'w \<Rightarrow> (iss \<times> 'w) option" where
  "halt_sync dec isas ftgt halt s w = do {
     (s1, w1) \<leftarrow> set_halt_mode dec isas ftgt halt HALT_CAUSE_HALT s w;
     check_state dec isas ftgt s1 w1
   }"

definition irq_req_sync :: "int \<Rightarrow> iss \<Rightarrow> iss" where
  "irq_req_sync irq s =
     (let s1 = s\<lparr>wr_irq_req_value := irq\<rparr>
      in if enqueued s1 Irq_Sync_Event = None then s1\<lparr>enqueued := (enqueued s1)(Irq_Sync_Event := Some 0)\<rparr> else s1)"

section \<open>Debug unit\<close>

type_synonym 'w dbg_res = "(io_req_status_e \<times> u32 \<times> iss \<times> 'w) option"

text \<open>The data of the request is a word.\<close>

definition dbg_csr_access :: "csr_map \<Rightarrow> bool \<Rightarrow> u64 \<Rightarrow> bool \<Rightarrow> u32 \<Rightarrow> iss \<Rightarrow> 'w \<Rightarrow> 'w dbg_res" where
  "dbg_csr_access cm junk offset is_write v s w =
     (let reg = ucast (drop_bit 2 (offset - 0x4000));
          (err, v1, s1) = (if is_write then let (e, t) = iss_csr_write cm reg v s in (e, v, t) else iss_csr_read cm junk reg v s)
      in Some (if err then IO_REQ_INVALID else IO_REQ_OK, v1, s1, w))"

definition dbg_pc_access :: "insn_decode \<Rightarrow> decoder_item list \<Rightarrow> 'w target_meth \<Rightarrow> u64 \<Rightarrow> bool \<Rightarrow> u32 \<Rightarrow> iss \<Rightarrow> 'w \<Rightarrow> 'w dbg_res" where
  "dbg_pc_access dec isas ftgt offset is_write v s w =
     (if \<not> halted s then Some (IO_REQ_INVALID, v, s, w)
      else if offset = 0x2000 then
        if is_write then do {
          s1 \<leftarrow> iss_cache_flush dec isas s;
          let s2 = s1\<lparr>npc := v\<rparr>;
          (s3, w3) \<leftarrow> check_state dec isas ftgt ((iss_pc_set (npc s2) s2)\<lparr>wfi := False\<rparr>) w;
          Some (IO_REQ_OK, v, s3, w3)
        }
        else Some (IO_REQ_OK, npc s, s, w)
      else if offset = 0x2004 then Some (IO_REQ_OK, if is_write then v else ppc s, s, w)
      else Some (IO_REQ_INVALID, v, s, w))"

definition dbg_reg_access :: "u64 \<Rightarrow> bool \<Rightarrow> u32 \<Rightarrow> iss \<Rightarrow> 'w \<Rightarrow> 'w dbg_res" where
  "dbg_reg_access offset is_write v s w =
     (let reg_id = uint (drop_bit 2 (offset - 0x400)) in
      if \<not> halted s \<or> reg_id \<ge> 32 then Some (IO_REQ_INVALID, v, s, w)
      else if is_write then Some (IO_REQ_OK, v, iss_set_reg reg_id v s, w)
      else Some (IO_REQ_OK, iss_get_reg s reg_id, s, w))"

definition dbg_ctrl_access :: "insn_decode \<Rightarrow> decoder_item list \<Rightarrow> 'w target_meth \<Rightarrow> u64 \<Rightarrow> bool \<Rightarrow> u32 \<Rightarrow> iss \<Rightarrow> 'w \<Rightarrow> 'w dbg_res" where
  "dbg_ctrl_access dec isas ftgt offset is_write v s w =
     (if offset = 0 then
        if is_write then do {
          (s1, w1) \<leftarrow> set_halt_mode dec isas ftgt (bit v 16) HALT_CAUSE_HALT s w;
          (s2, w2) \<leftarrow> check_state dec isas ftgt (s1\<lparr>step_mode := bit v 0\<rparr>) w1;
          Some (IO_REQ_OK, v, s2, w2)
        }
        else Some (IO_REQ_OK, push_bit 16 (of_bool (halted s)) OR of_bool (step_mode s), s, w)
      else if offset = 4 then
        Some (if is_write then (IO_REQ_OK, v, s\<lparr>hit_reg := v\<rparr>, w) else (IO_REQ_OK, hit_reg s, s, w))
      else if offset = 0xC then
        Some (if is_write then (IO_REQ_INVALID, v, s, w) else (IO_REQ_OK, halt_cause s, s, w))
      else Some (IO_REQ_OK, v, s, w))"

definition dbg_unit_req ::
    "csr_map \<Rightarrow> bool \<Rightarrow> insn_decode \<Rightarrow> decoder_item list \<Rightarrow> 'w target_meth \<Rightarrow> u64 \<Rightarrow> u64 \<Rightarrow> bool \<Rightarrow> u32 \<Rightarrow> iss \<Rightarrow> 'w \<Rightarrow> 'w dbg_res" where
  "dbg_unit_req cm junk dec isas ftgt offset sz is_write v s w =
     (if sz \<noteq> 4 then Some (IO_REQ_INVALID, v, s, w)
      else if 0x4000 \<le> offset then dbg_csr_access cm junk offset is_write v s w
      else if 0x2000 \<le> offset then dbg_pc_access dec isas ftgt offset is_write v s w
      else if 0x400 \<le> offset then dbg_reg_access offset is_write v s w
      else if offset < 0x80 then dbg_ctrl_access dec isas ftgt offset is_write v s w
      else Some (IO_REQ_INVALID, v, s, w))"

section \<open>Debugger\<close>

definition gdbserver_get_id :: "iss \<Rightarrow> u32" where
  "gdbserver_get_id s = cf_mhartid s"

definition gdbserver_reg_set :: "int \<Rightarrow> u32 \<Rightarrow> iss \<Rightarrow> iss" where
  "gdbserver_reg_set reg v s = (if reg = 32 then iss_pc_set v s else s)"

definition gdbserver_regs_get :: "iss \<Rightarrow> u32 list option" where
  "gdbserver_regs_get s = do {
     pc \<leftarrow> (case current_insn s of None \<Rightarrow> Some 0 | Some p \<Rightarrow> map_option i_addr (insn_of s (Some p)));
     Some (map (\<lambda>i. iss_get_reg s (int i)) [0..<32] @ [pc])
   }"

definition gdbserver_stop :: "insn_decode \<Rightarrow> decoder_item list \<Rightarrow> 'w target_meth \<Rightarrow> iss \<Rightarrow> 'w \<Rightarrow> (iss \<times> 'w) option" where
  "gdbserver_stop dec isas ftgt s w = check_state dec isas ftgt (s\<lparr>halted := True, gdb_signals := gdb_signals s + 1\<rparr>) w"

definition gdbserver_cont :: "insn_decode \<Rightarrow> decoder_item list \<Rightarrow> 'w target_meth \<Rightarrow> iss \<Rightarrow> 'w \<Rightarrow> (iss \<times> 'w) option" where
  "gdbserver_cont dec isas ftgt s w = check_state dec isas ftgt (s\<lparr>halted := False\<rparr>) w"

definition gdbserver_stepi :: "insn_decode \<Rightarrow> decoder_item list \<Rightarrow> 'w target_meth \<Rightarrow> iss \<Rightarrow> 'w \<Rightarrow> (iss \<times> 'w) option" where
  "gdbserver_stepi dec isas ftgt s w = check_state dec isas ftgt (s\<lparr>step_mode := True, halted := False\<rparr>) w"

section \<open>Reset\<close>

definition iss_reset :: "insn_decode \<Rightarrow> decoder_item list \<Rightarrow> bool \<Rightarrow> iss \<Rightarrow> iss option" where
  "iss_reset dec isas active s = do {
     s1 \<leftarrow> (if active then do {
              t \<leftarrow> iss_cache_flush dec isas (iss_irq_init (s\<lparr>regs := (\<lambda>i. if i = 0 then 0 else if 0 < i \<and> i < 64 then 0x57575757 else regs s i)\<rparr>));
              Some (t\<lparr>prev_insn := None, elw_insn := None, elw_stalled := False, do_fetch := False, hwloop_end_insn := (hwloop_end_insn t)(0 := None, 1 := None)\<rparr>)
            }
           else Some s);
     Some (iss_csr_init s1)
   }"

definition pre_reset :: "iss \<Rightarrow> iss" where
  "pre_reset s = (if is_active_reg s then s\<lparr>enqueued := (enqueued s)(current_event s := None)\<rparr> else s)"

definition wrapper_reset :: "insn_decode \<Rightarrow> decoder_item list \<Rightarrow> 'w target_meth \<Rightarrow> bool \<Rightarrow> iss \<Rightarrow> 'w \<Rightarrow> (iss \<times> 'w) option" where
  "wrapper_reset dec isas ftgt active s w =
     (if active then do {
        s1 \<leftarrow> iss_reset dec isas True (s\<lparr>wr_irq_req := -1, wakeup_latency := 0\<rparr>);
        Some (s1, w)
      }
      else do {
        s1 \<leftarrow> iss_reset dec isas False s;
        let s2 = iss_pc_set (bootaddr_reg s1 + bootaddr_offset s1) s1;
        let s3 = iss_irq_set_vector_table (bootaddr_reg s2 AND NOT 0xFF) s2;
        check_state dec isas ftgt (if gdbserver s3 then s3\<lparr>halted := True\<rparr> else s3) w
      })"

section \<open>Handlers that reach the wrapper\<close>

definition wfi_exec :: "insn_decode \<Rightarrow> decoder_item list \<Rightarrow> 'w target_meth \<Rightarrow> iss_insn \<Rightarrow> iss \<Rightarrow> 'w \<Rightarrow> (iptr option \<times> iss \<times> 'w) option" where
  "wfi_exec dec isas ftgt insn s w = do {
     (s1, w1) \<leftarrow> wait_for_interrupt dec isas ftgt s w;
     Some (i_next insn, s1, w1)
   }"

definition iss_fence_i :: "insn_decode \<Rightarrow> decoder_item list \<Rightarrow> iss \<Rightarrow> iss option" where
  "iss_fence_i dec isas s =
     (if flush_bound s then let s1 = iss_exec_insn_stall s in iss_cache_flush dec isas (s1\<lparr>flush_reqs := flush_reqs s1 + 1\<rparr>) else Some s)"

text \<open>The entry is read after the flush, which keeps its place.\<close>

definition fence_i_exec :: "insn_decode \<Rightarrow> decoder_item list \<Rightarrow> iptr \<Rightarrow> iss \<Rightarrow> (iptr option \<times> iss) option" where
  "fence_i_exec dec isas p s = do {
     s1 \<leftarrow> iss_fence_i dec isas s;
     insn \<leftarrow> insn_of s1 (Some p);
     Some (i_next insn, s1)
   }"

definition fence_exec :: "insn_decode \<Rightarrow> decoder_item list \<Rightarrow> iptr \<Rightarrow> iss \<Rightarrow> (iptr option \<times> iss) option" where
  "fence_exec dec isas p s = do {
     (q, s1) \<leftarrow> fence_i_exec dec isas p s;
     insn \<leftarrow> insn_of s1 (Some p);
     Some (i_next insn, s1)
   }"

definition ebreak_exec :: "(iss \<Rightarrow> 'w \<Rightarrow> (iss \<times> 'w) option) \<Rightarrow> iss_insn \<Rightarrow> iss \<Rightarrow> 'w \<Rightarrow> (iptr option \<times> iss \<times> 'w) option" where
  "ebreak_exec semihosting insn s w =
     (if (case insn_of s (prev_insn s) of None \<Rightarrow> False | Some prev \<Rightarrow> fetched prev \<and> i_opcode prev = 0x01F01013)
      then map_option (\<lambda>(s1, w1). (i_next insn, s1, w1)) (semihosting s w)
      else if debug_mode s then Some (debug_handler s, s, w)
      else Some (i_next insn, s, w))"

definition c_ebreak_exec :: "insn_decode \<Rightarrow> decoder_item list \<Rightarrow> 'w target_meth \<Rightarrow> iss_insn \<Rightarrow> iss \<Rightarrow> 'w \<Rightarrow> (iptr option \<times> iss \<times> 'w) option" where
  "c_ebreak_exec dec isas ftgt insn s w = do {
     let s0 = iss_pccr_account_event CSR_PCER_RVC 1 s;
     (s1, w1) \<leftarrow> (if bit (csr_dcsr s0) 15 then iss_set_halt_mode dec isas ftgt True 1 s0 w else Some (s0, w));
     Some (i_next insn, s1, w1)
   }"

definition c_sbreak_exec :: "insn_decode \<Rightarrow> decoder_item list \<Rightarrow> 'w target_meth \<Rightarrow> iss_insn \<Rightarrow> iss \<Rightarrow> 'w \<Rightarrow> (iptr option \<times> iss \<times> 'w) option" where
  "c_sbreak_exec dec isas ftgt insn s w = do {
     (s1, w1) \<leftarrow> iss_set_halt_mode dec isas ftgt True 3 (iss_pccr_account_event CSR_PCER_RVC 1 s) w;
     Some (i_next insn, s1, w1)
   }"

section \<open>No wake-up is lost\<close>

text \<open>The reasons not to run apart from a stall.\<close>

definition asleep :: "iss \<Rightarrow> bool" where
  "asleep s \<longleftrightarrow> halted s \<or> \<not> fetch_enable_reg s \<or> (wfi s \<and> wr_irq_req s = -1 \<and> \<not> debug_mode s)"

lemma runnable_asleep: "runnable s \<longleftrightarrow> \<not> asleep s \<and> stalled s = 0"
  by (auto simp: runnable_def asleep_def)

definition scheduled :: "iss \<Rightarrow> bool" where
  "scheduled s \<longleftrightarrow> enqueued s Instr_Event \<noteq> None \<or> enqueued s Check_All_Event \<noteq> None \<or> enqueued s Misaligned_Event \<noteq> None"

definition ev_ok :: "iss \<Rightarrow> bool" where
  "ev_ok s \<longleftrightarrow> current_event s = Instr_Event \<or> current_event s = Check_All_Event"

definition act_ok :: "iss \<Rightarrow> bool" where
  "act_ok s \<longleftrightarrow> ev_ok s \<and> (is_active_reg s \<longrightarrow> scheduled s \<and> \<not> wfi s)"

definition wr_inv :: "iss \<Rightarrow> bool" where
  "wr_inv s \<longleftrightarrow> act_ok s \<and> (runnable s \<longrightarrow> is_active_reg s)"

lemma view_ok:
  assumes "wr_view s = wr_view t"
  shows "act_ok s = act_ok t" "asleep s = asleep t" "is_active_reg s = is_active_reg t" "scheduled s = scheduled t" "wfi s = wfi t" "ev_ok s = ev_ok t"
  using assms by (simp_all add: wr_view_def act_ok_def asleep_def scheduled_def ev_ok_def)

lemma view_inv: "wr_view s = wr_view t \<Longrightarrow> stalled s = stalled t \<Longrightarrow> wr_inv s = wr_inv t"
  using view_ok [of s t] by (simp add: wr_inv_def runnable_asleep)

lemma fetch_view: "dec_local dec \<Longrightarrow> prefetcher_fetch dec isas ftgt q s w = Some (s1, w1) \<Longrightarrow> wr_view s1 = wr_view s"
  using prefetcher_fetch_irq [of dec isas ftgt q s w s1 w1] by (simp add: irq_view_def)

lemma fetch_event: "dec_local dec \<Longrightarrow> prefetcher_fetch dec isas ftgt q s w = Some (s1, w1) \<Longrightarrow> current_event s1 = current_event s"
  using prefetcher_fetch_irq [of dec isas ftgt q s w s1 w1] by (simp add: irq_view_def wr_view_def)

lemma core_activate_inv: "current_event s = Check_All_Event \<Longrightarrow> wr_inv (core_activate s)"
  by (simp add: core_activate_def enqueue_next_instr_def scheduled_def wr_inv_def act_ok_def ev_ok_def runnable_def Let_def)

lemma core_deactivate_ok:
  assumes "core_deactivate s = Some s1" "is_active_reg s" "\<not> wfi s"
  shows "enqueued s1 = enqueued s" "\<not> wfi s1" "is_active_reg s1 \<or> asleep s1" "current_event s1 = current_event s"
  using assms by (auto simp: core_deactivate_def halt_core_def asleep_def bind_eq_Some_conv split: if_splits)

text \<open>The two halves of the check.\<close>

lemma check_state_active:
  "is_active_reg s \<Longrightarrow> check_state dec isas ftgt s w =
    map_option (\<lambda>t. (if is_active_reg t then t else t\<lparr>enqueued := (enqueued t)(current_event s := None)\<rparr>, w)) (core_deactivate (s\<lparr>current_event := Check_All_Event\<rparr>))"
  by (cases "core_deactivate (s\<lparr>current_event := Check_All_Event\<rparr>)") (simp_all add: check_state_def Let_def)

lemma check_state_idle:
  "\<not> is_active_reg s \<Longrightarrow> check_state dec isas ftgt s w =
    (let t = s\<lparr>current_event := Check_All_Event\<rparr> in
     if \<not> runnable t then Some (t, w)
     else if do_fetch s then map_option (\<lambda>(u, w1). (if stalled u \<noteq> 0 then u else core_activate u, w1)) (prefetcher_fetch dec isas ftgt (current_insn t) t w)
     else Some (core_activate t, w))"
  by (cases "prefetcher_fetch dec isas ftgt (current_insn s) (s\<lparr>current_event := Check_All_Event\<rparr>) w")
    (simp_all add: check_state_def Let_def split_def)

text \<open>Whatever changed before it, after the check the core is active when it can run.\<close>

lemma check_state_inv:
  assumes "dec_local dec" "act_ok s" "check_state dec isas ftgt s w = Some (s1, w1)"
  shows "wr_inv s1"
proof (cases "is_active_reg s")
  case True
  let ?s = "s\<lparr>current_event := Check_All_Event\<rparr>"
  obtain t where t: "core_deactivate ?s = Some t" "s1 = (if is_active_reg t then t else t\<lparr>enqueued := (enqueued t)(current_event s := None)\<rparr>)"
    using assms(3) unfolding check_state_active [OF True] by blast
  have s: "\<not> wfi ?s" "is_active_reg ?s" "scheduled s" using assms(2) True by (simp_all add: act_ok_def)
  note d = core_deactivate_ok [OF t(1) s(2,1)]
  show ?thesis
  proof (cases "is_active_reg t")
    case True
    then show ?thesis using d(1,2,4) s(3) t(2) by (simp add: wr_inv_def act_ok_def ev_ok_def scheduled_def)
  next
    case False
    then show ?thesis using d(3,4) t(2) by (simp add: wr_inv_def act_ok_def ev_ok_def runnable_asleep asleep_def)
  qed
next
  case False
  let ?s = "s\<lparr>current_event := Check_All_Event\<rparr>"
  note c = assms(3) [unfolded check_state_idle [OF False] Let_def]
  have act: "wr_inv (core_activate ?s)" by (rule core_activate_inv) simp
  consider "\<not> runnable ?s" | "runnable ?s" "\<not> do_fetch s" | "runnable ?s" "do_fetch s" by blast
  then show ?thesis
  proof cases
    case 1
    then have "s1 = ?s" using c by simp
    then show ?thesis using 1 False by (simp add: wr_inv_def act_ok_def ev_ok_def)
  next
    case 2
    then show ?thesis using c act by simp
  next
    case 3
    then obtain t where t: "prefetcher_fetch dec isas ftgt (current_insn ?s) ?s w = Some (t, w1)" "s1 = (if stalled t \<noteq> 0 then t else core_activate t)"
      using c by auto
    have "\<not> is_active_reg t" "current_event t = Check_All_Event"
      using view_ok(3) [OF fetch_view [OF assms(1) t(1)]] False fetch_event [OF assms(1) t(1)] by simp_all
    then show ?thesis using t(2) core_activate_inv [of t] by (cases "stalled t = 0") (simp_all add: wr_inv_def act_ok_def ev_ok_def runnable_def)
  qed
qed

lemma debug_req_inv: "dec_local dec \<Longrightarrow> act_ok s \<Longrightarrow> debug_req dec isas ftgt s w = Some (s1, w1) \<Longrightarrow> wr_inv s1"
  unfolding debug_req_def by (erule check_state_inv) (auto simp: act_ok_def ev_ok_def scheduled_def irq_check_def)

lemma set_halt_mode_ok:
  assumes "dec_local dec" "act_ok s" "set_halt_mode dec isas ftgt h c s w = Some (s1, w1)"
  shows "act_ok s1"
proof (cases "riscv_dbg_unit s \<and> \<not> debug_mode s")
  case True
  have "act_ok (s\<lparr>csr_dcsr := x\<rparr>)" for x using assms(2) by (simp add: act_ok_def ev_ok_def scheduled_def)
  moreover have "debug_req dec isas ftgt (s\<lparr>csr_dcsr := (csr_dcsr s AND NOT (push_bit 6 7)) OR push_bit 6 c\<rparr>) w = Some (s1, w1)"
    using assms(3) True by (simp add: set_halt_mode_def)
  ultimately have "wr_inv s1" by (rule debug_req_inv [OF assms(1)])
  then show ?thesis by (simp add: wr_inv_def)
qed (use assms(2,3) in \<open>auto simp: set_halt_mode_def act_ok_def ev_ok_def scheduled_def split: if_splits\<close>)

lemma halt_then_check_inv:
  assumes "dec_local dec" "act_ok s" "set_halt_mode dec isas ftgt h c s w = Some (s1, w1)" "check_state dec isas ftgt (s1\<lparr>step_mode := b\<rparr>) w1 = Some (s2, w2)"
  shows "wr_inv s2"
  using check_state_inv [OF assms(1) _ assms(4)] set_halt_mode_ok [OF assms(1-3)] by (simp add: act_ok_def ev_ok_def scheduled_def)

section \<open>Instructions and the state of the core\<close>

text \<open>What is asked of the handler of an instruction: an active core stays active, or goes to sleep for a reason.\<close>

definition live_step :: "iss \<Rightarrow> iss \<Rightarrow> bool" where
  "live_step s t \<longleftrightarrow> (is_active_reg s \<and> \<not> wfi s \<and> ev_ok s \<longrightarrow> ev_ok t \<and> (if is_active_reg t then \<not> wfi t else asleep t))"

definition isa_live :: "'w isa \<Rightarrow> bool" where
  "isa_live isa \<longleftrightarrow> (\<forall>fast k p s w q t w'. isa fast k p s w = Some (q, t, w') \<longrightarrow> live_step s t)"

lemma isa_liveD: "isa_live isa \<Longrightarrow> isa fast k p s w = Some (q, t, w') \<Longrightarrow> live_step s t"
  unfolding isa_live_def by blast

lemma live_step_before: "live_step s' t \<Longrightarrow> is_active_reg s = is_active_reg s' \<Longrightarrow> wfi s = wfi s' \<Longrightarrow> ev_ok s = ev_ok s' \<Longrightarrow> live_step s t"
  by (simp add: live_step_def)

lemma live_step_after: "live_step s t' \<Longrightarrow> wr_view t = wr_view t' \<Longrightarrow> live_step s t"
  using view_ok [of t t'] by (simp add: live_step_def)

lemma live_step_view: "wr_view t = wr_view s \<Longrightarrow> live_step s t"
  using view_ok [of t s] by (simp add: live_step_def)

lemma account_view [simp]:
  "wr_view (iss_pccr_account_event e n s) = wr_view s" "wr_view (iss_perf_account_dependency_stall l s) = wr_view s"
  "wr_view (resource_account i s) = wr_view s" "wr_view (account_fetch s) = wr_view s" "wr_view (iss_exec_account_cycles c s) = wr_view s"
  "wr_view (insn_put f p s) = wr_view s" "wr_view (snd (iss_insn_get a s)) = wr_view s"
  by (simp_all add: wr_view_def iss_pccr_account_event_def iss_perf_account_dependency_stall_def resource_account_def account_fetch_def
      iss_exec_account_cycles_def insn_put_def iss_insn_get_def split_def Let_def)

lemma vector_view: "wr_view (snd (vector_or_first k s)) = wr_view s"
  by (simp add: vector_or_first_def split_def Let_def split: option.split)

lemma except_view:
  assumes "iss_except_raise e s = Some (q, t)"
  shows "wr_view t = wr_view s"
proof -
  obtain insn where i: "insn_of s (current_insn s) = Some insn" using assms by (cases "insn_of s (current_insn s)") (simp_all add: iss_except_raise_def)
  let ?u = "s\<lparr>csr_epc := i_addr insn, saved_irq_enable := irq_enable s, irq_enable := False, csr_mcause := 0xb\<rparr>"
  have "t = s\<lparr>csr_depc := i_addr insn, debug_saved_irq_enable := irq_enable s, irq_enable := False\<rparr> \<or>
      (\<exists>k. t = snd (vector_or_first k ?u))"
    using assms i unfolding iss_except_raise_def by (cases "priv_1_10 s \<and> e = ISS_EXCEPT_DEBUG") (auto, (metis snd_conv)+)
  moreover have "wr_view ?u = wr_view s" by (simp add: wr_view_def)
  ultimately show ?thesis using vector_view by (auto simp: wr_view_def)
qed

lemma decode_pc_view: "dec_local dec \<Longrightarrow> iss_decode_pc_noexec dec isas p s = Some t \<Longrightarrow> wr_view t = wr_view s"
  using decode_pc_irq [of dec isas p s t] by (simp add: irq_view_def)

lemma hwloop_count_view: "wr_view (hwloop_count k pc s) = wr_view s"
  by (simp add: hwloop_count_def wr_view_def)

lemma hwloop_back_view: "wr_view (snd (hwloop_back k s)) = wr_view s" "wr_view (s\<lparr>hwloop_next_insn := q\<rparr>) = wr_view s"
  by (simp_all add: hwloop_back_def wr_view_def)

lemma hwloop_end_view: "wr_view (snd (hwloop_end pc q s)) = wr_view s"
  unfolding hwloop_end_def Let_def by (simp add: hwloop_count_view hwloop_back_view if_distrib [of snd] if_distrib [of wr_view] del: if_image_distrib)

lemma hwloop_check_live:
  assumes "\<And>h q t w1. ex h p s w = Some (q, t, w1) \<Longrightarrow> live_step s t" "hwloop_check_exec ex p s w = Some (q, t, w1)"
  shows "live_step s t"
proof -
  obtain insn where i: "insn_of s (Some p) = Some insn" using assms(2) by (cases "insn_of s (Some p)") (simp_all add: hwloop_check_exec_def)
  obtain q1 t1 w2 where e: "ex (hwloop_handler insn) p s w = Some (q1, t1, w2)"
    using assms(2) i by (cases "ex (hwloop_handler insn) p s w") (auto simp: hwloop_check_exec_def)
  have "wr_view t = wr_view t1"
    using assms(2) i e hwloop_end_view [of "i_addr insn" q1 t1] by (auto simp: hwloop_check_exec_def split_def Let_def split: if_splits)
  then show ?thesis using assms(1) [OF e] live_step_after by blast
qed

lemma exec_handler_live:
  assumes "isa_live isa" "dec_local dec"
  shows "exec_handler dec isas isa n h p s w = Some (q, t, w1) \<Longrightarrow> live_step s t"
proof (induction n arbitrary: h s w q t w1)
  case (Suc n)
  have pre: "exec_handler dec isas isa n h' p s' w' = Some (q, t, w1) \<Longrightarrow> wr_view s' = wr_view s \<Longrightarrow> live_step s t" for h' s' w'
    using Suc.IH live_step_before [of s' t s] view_ok [of s' s] by blast
  obtain k where h: "h = Some k" using Suc.prems by (cases h) auto
  show ?case
  proof (cases k)
    case Hwloop_Check_Exec
    then show ?thesis using Suc.prems hwloop_check_live [of "exec_handler dec isas isa n" p s w q t w1, OF Suc.IH] by (simp add: h)
  next
    case Iss_Exec_Insn_Illegal
    then show ?thesis using Suc.prems except_view live_step_view by (auto simp: h bind_eq_Some_conv)
  next
    case (Isa_Exec j)
    then show ?thesis using Suc.prems isa_liveD [OF assms(1)] by (simp add: h)
  next
    case (Isa_Exec_Fast j)
    then show ?thesis using Suc.prems isa_liveD [OF assms(1)] by (simp add: h)
  next
    case Iss_Decode_Pc
    then show ?thesis using Suc.prems pre decode_pc_view [OF assms(2)] by (fastforce simp: h bind_eq_Some_conv)
  qed (use Suc.prems pre in \<open>auto simp: h bind_eq_Some_conv\<close>)
qed simp

lemma no_fetch_live:
  assumes "\<And>p s w q t w1. func p s w = Some (q, t, w1) \<Longrightarrow> live_step s t" "iss_exec_no_fetch_common func s w = Some (t, w1)"
  shows "live_step s t"
proof -
  obtain p where p: "current_insn s = Some p" using assms(2) by (cases "current_insn s") (simp_all add: iss_exec_no_fetch_common_def)
  obtain q u where u: "func p (account_fetch s) w = Some (q, u, w1)" "t = u\<lparr>current_insn := q, prev_insn := Some p\<rparr>"
    using assms(2) p by (cases "func p (account_fetch s) w") (auto simp: iss_exec_no_fetch_common_def)
  have "live_step s u" using live_step_before [OF assms(1) [OF u(1)], of s] view_ok [of "account_fetch s" s] by simp
  then show ?thesis by (rule live_step_after) (simp add: u(2) wr_view_def)
qed

lemma exec_insn_live:
  assumes "isa_live isa" "dec_local dec"
  shows "iss_exec_insn dec isas isa p s w = Some (q, t, w1) \<Longrightarrow> live_step s t" "iss_exec_insn_fast dec isas isa p s w = Some (q, t, w1) \<Longrightarrow> live_step s t"
  using exec_handler_live [OF assms] by (cases "insn_of s (Some p)"; simp add: iss_exec_insn_def iss_exec_insn_fast_def)+

lemma step_nofetch_live:
  assumes "isa_live isa" "dec_local dec" "iss_exec_step_nofetch dec isas isa ftgt s w = Some (c, t, w1)"
  shows "live_step s t"
proof -
  obtain u w2 where u: "iss_exec_no_fetch_common (iss_exec_insn_fast dec isas isa) s w = Some (u, w2)"
      "prefetcher_fetch dec isas ftgt (current_insn u) u w2 = Some (t, w1)"
    using assms(3) by (auto simp: iss_exec_step_nofetch_def bind_eq_Some_conv)
  show ?thesis using live_step_after [OF no_fetch_live [OF exec_insn_live(2) [OF assms(1,2)] u(1)] fetch_view [OF assms(2) u(2)]] .
qed

text \<open>The check for interrupts keeps an active core active.\<close>

lemma irq_check_keeps:
  assumes "dec_local dec" "iss_irq_check dec isas ftgt s w = Some (b, t, w1)"
  shows "is_active_reg t = is_active_reg s \<and> wfi t = wfi s \<and> current_event t = current_event s"
proof -
  consider "req_debug s \<and> \<not> debug_mode s" | "\<not> (req_debug s \<and> \<not> debug_mode s)" "req_irq s \<noteq> -1 \<and> irq_enable s"
    | "\<not> (req_debug s \<and> \<not> debug_mode s)" "\<not> (req_irq s \<noteq> -1 \<and> irq_enable s)" by blast
  then show ?thesis
  proof cases
    case 1
    then show ?thesis using assms(2) by (cases "insn_of s (current_insn s)") (auto simp: iss_irq_check_def debug_enter_def)
  next
    case 2
    let ?s = "interrupt_elw s"
    obtain insn where i: "insn_of ?s (current_insn ?s) = Some insn"
      using assms(2) 2 by (cases "insn_of ?s (current_insn ?s)") (simp_all add: iss_irq_check_def Let_def)
    let ?u = "irq_enter (req_irq s) (i_addr insn) ?s"
    have "prefetcher_fetch dec isas ftgt (current_insn ?u) ?u w = Some (t, w1)"
      using assms(2) 2 i by (cases "prefetcher_fetch dec isas ftgt (current_insn ?u) ?u w") (auto simp: iss_irq_check_def Let_def)
    then have "wr_view t = wr_view ?u" by (rule fetch_view [OF assms(1)])
    moreover have "wr_view ?u = wr_view s" by (simp add: irq_enter_def iss_irq_ack_def interrupt_elw_def wr_view_def)
    ultimately show ?thesis by (simp add: wr_view_def)
  next
    case 3
    then show ?thesis using assms(2) by (auto simp: iss_irq_check_def)
  qed
qed

lemma step_perf_live:
  assumes "isa_live isa" "dec_local dec" "iss_exec_step_nofetch_perf dec isas isa ftgt s w = Some (c, t, w1)"
  shows "live_step s t"
proof -
  obtain b s0 w0 where b: "iss_irq_check dec isas ftgt s w = Some (b, s0, w0)"
    using assms(3) by (cases "iss_irq_check dec isas ftgt s w") (auto simp: iss_exec_step_nofetch_perf_def)
  note k = irq_check_keeps [OF assms(2) b]
  show ?thesis
  proof (cases b)
    case True
    then have "t = s0" using assms(3) b by (simp add: iss_exec_step_nofetch_perf_def)
    then show ?thesis using k by (simp add: live_step_def ev_ok_def)
  next
    case False
    then obtain u w2 v where u: "iss_exec_no_fetch_common (iss_exec_insn dec isas isa) s0 w0 = Some (u, w2)"
        "prefetcher_fetch dec isas ftgt (current_insn u) u w2 = Some (v, w1)" "wr_view t = wr_view v"
      using assms(3) b by (auto simp: iss_exec_step_nofetch_perf_def bind_eq_Some_conv count_instr_def)
    have "live_step s0 v" using live_step_after [OF no_fetch_live [OF exec_insn_live(1) [OF assms(1,2)] u(1)] fetch_view [OF assms(2) u(2)]] .
    then show ?thesis using k live_step_before [OF live_step_after [OF _ u(3)]] by (simp add: ev_ok_def)
  qed
qed

section \<open>Runs of the wrapper\<close>

lemma after_step_inv:
  assumes "live_step s t" "is_active_reg s" "\<not> wfi s" "ev_ok s"
  shows "wr_inv (after_step c t)"
proof -
  have t: "ev_ok t" "if is_active_reg t then \<not> wfi t else asleep t" using assms by (simp_all add: live_step_def)
  show ?thesis
  proof (cases "stalled t = 0")
    case True
    then show ?thesis using t
      by (auto simp: after_step_def enqueue_next_instr_def wr_inv_def act_ok_def ev_ok_def scheduled_def runnable_asleep asleep_def split: if_splits)
  next
    case False
    then show ?thesis using t
      by (auto simp: after_step_def wr_inv_def act_ok_def ev_ok_def scheduled_def runnable_def split: if_splits)
  qed
qed

text \<open>The event has been taken out of the queue when its callback runs.\<close>

definition fired :: "iss_event \<Rightarrow> iss \<Rightarrow> iss" where
  "fired e s = s\<lparr>enqueued := (enqueued s)(e := None)\<rparr>"

lemma fired_simps [simp]: "is_active_reg (fired e s) = is_active_reg s" "wfi (fired e s) = wfi s" "ev_ok (fired e s) = ev_ok s"
  "asleep (fired e s) = asleep s" "stalled (fired e s) = stalled s"
  by (simp_all add: fired_def ev_ok_def asleep_def)

lemma exec_instr_inv:
  assumes "isa_live isa" "dec_local dec" "is_active_reg s" "\<not> wfi s" "ev_ok s" "exec_instr dec isas isa ftgt s w = Some (t, w1)"
  shows "wr_inv t"
proof -
  obtain c u where u: "iss_exec_step_nofetch dec isas isa ftgt s w = Some (c, u, w1)" "t = after_step c u"
    using assms(6) by (cases "iss_exec_step_nofetch dec isas isa ftgt s w") (auto simp: exec_instr_def)
  show ?thesis unfolding u(2) by (rule after_step_inv [OF step_nofetch_live [OF assms(1,2) u(1)] assms(3-5)])
qed

lemma end_of_step_inv:
  assumes "dec_local dec" "act_ok s" "end_of_step dec isas ftgt s w = Some (t, w1)"
  shows "wr_inv t"
proof -
  let ?s = "s\<lparr>do_step := False, hit_reg := hit_reg s OR 1\<rparr>"
  have a: "act_ok ?s" "act_ok (?s\<lparr>halted := True, gdb_signals := n\<rparr>)" for n using assms(2) by (simp_all add: act_ok_def ev_ok_def scheduled_def)
  show ?thesis
  proof (cases "gdbserver s")
    case True
    then show ?thesis using assms(3) check_state_inv [OF assms(1) a(2)] by (simp add: end_of_step_def)
  next
    case False
    then obtain u w2 where u: "set_halt_mode dec isas ftgt True HALT_CAUSE_STEP ?s w = Some (u, w2)" "check_state dec isas ftgt u w2 = Some (t, w1)"
      using assms(3) by (cases "set_halt_mode dec isas ftgt True HALT_CAUSE_STEP ?s w") (auto simp: end_of_step_def)
    show ?thesis by (rule check_state_inv [OF assms(1) set_halt_mode_ok [OF assms(1) a(1) u(1)] u(2)])
  qed
qed

lemma exec_instr_check_all_inv:
  assumes "isa_live isa" "dec_local dec" "is_active_reg s" "\<not> wfi s" "ev_ok s" "exec_instr_check_all vp dec isas isa ftgt s w = Some (t, w1)"
  shows "wr_inv t"
proof -
  let ?s = "if iss_exec_switch_to_fast vp s then s\<lparr>current_event := Instr_Event\<rparr> else s"
  have s: "is_active_reg ?s" "\<not> wfi ?s" "ev_ok ?s" using assms(3-5) by (simp_all add: ev_ok_def)
  obtain c u w2 where u: "iss_exec_step_nofetch_perf dec isas isa ftgt ?s w = Some (c, u, w2)"
    using assms(6) by (cases "iss_exec_step_nofetch_perf dec isas isa ftgt ?s w") (auto simp: exec_instr_check_all_def Let_def)
  have i: "wr_inv (after_step c u)" by (rule after_step_inv [OF step_perf_live [OF assms(1,2) u] s])
  show ?thesis
  proof (cases "step_mode (after_step c u) \<and> \<not> debug_mode ?s")
    case True
    then have "end_of_step dec isas ftgt (after_step c u) w2 = Some (t, w1)" using assms(6) u by (simp add: exec_instr_check_all_def Let_def)
    moreover have "act_ok (after_step c u)" using i by (simp add: wr_inv_def)
    ultimately show ?thesis by (intro end_of_step_inv [OF assms(2)])
  next
    case False
    then have "t = after_step c u" using assms(6) u by (auto simp: exec_instr_check_all_def Let_def)
    then show ?thesis using i by simp
  qed
qed

lemma vectors_view: "wr_view (set_vectors base is s) = wr_view s" "stalled (set_vectors base is s) = stalled s"
    "hwloop_regs (set_vectors base is s) = hwloop_regs s"
  by (induction base "is" s rule: set_vectors.induct) (simp_all add: split_def Let_def iss_insn_get_def wr_view_def)

lemma vector_table_view: "wr_view (iss_irq_set_vector_table base s) = wr_view s" "stalled (iss_irq_set_vector_table base s) = stalled s"
    "hwloop_regs (iss_irq_set_vector_table base s) = hwloop_regs s"
  using vectors_view [of base "[0..<32] @ [32..<35]" s] unfolding iss_irq_set_vector_table_def by (simp_all add: wr_view_def)

text \<open>A flush of the decoded instructions does not touch the state of the core.\<close>

definition flush_view :: "iss \<Rightarrow> (bool \<times> bool \<times> bool \<times> bool \<times> int \<times> bool \<times> (iss_event \<Rightarrow> u64 option) \<times> iss_event) \<times> u8 \<times> (nat \<Rightarrow> u32)" where
  "flush_view s = (wr_view s, stalled s, hwloop_regs s)"

lemma flush_view_simps [simp]:
  "flush_view (s\<lparr>prev_insn := q\<rparr>) = flush_view s" "flush_view (s\<lparr>stall_insn := q\<rparr>) = flush_view s" "flush_view (s\<lparr>prefetch_insn := q\<rparr>) = flush_view s"
  "flush_view (s\<lparr>current_insn := q\<rparr>) = flush_view s" "flush_view (s\<lparr>debug_handler := q\<rparr>) = flush_view s" "flush_view (s\<lparr>hwloop_end_insn := f\<rparr>) = flush_view s"
  "flush_view (s\<lparr>insn_cache := c\<rparr>) = flush_view s" "flush_view (prefetcher_flush s) = flush_view s"
  "flush_view (insn_put g p s) = flush_view s" "flush_view (snd (iss_insn_get a s)) = flush_view s" "flush_view (iss_irq_set_vector_table base s) = flush_view s"
  by (simp_all add: flush_view_def vector_table_view)
    (simp_all add: wr_view_def prefetcher_flush_def insn_put_def iss_insn_get_def split_def Let_def)

lemma flush_current_view:
  assumes "dec_local dec" "flush_current dec isas v a s = Some t"
  shows "flush_view t = flush_view s"
proof (cases "current_insn s = None")
  case False
  let ?p = "fst (iss_insn_get a s)" and ?s = "(snd (iss_insn_get a s))\<lparr>current_insn := Some (fst (iss_insn_get a s))\<rparr>"
  have "iss_decode_pc_noexec dec isas ?p (insn_put (\<lambda>i. i\<lparr>i_opcode := v, fetched := True\<rparr>) ?p ?s) = Some t"
    using assms(2) False by (simp add: flush_current_def split_def Let_def)
  from decode_pc_only [OF assms(1) this] show ?thesis by (auto simp: cache_only_def)
qed (use assms(2) in \<open>simp add: flush_current_def\<close>)

lemma flush_hwloop_view [simp]: "flush_view (flush_hwloop k a s) = flush_view s"
  by (simp add: flush_hwloop_def hwloop_set_insn_end_def split_def Let_def)

lemma irq_flush_view [simp]: "flush_view (iss_irq_flush s) = flush_view s"
  by (simp add: iss_irq_flush_def set_debug_handler_def split_def Let_def)

lemma get_if_view [simp]:
  "flush_view (if b then let (p, t) = iss_insn_get a s in t\<lparr>prev_insn := Some p\<rparr> else s) = flush_view s"
  "flush_view (if b then let (p, t) = iss_insn_get a s in t\<lparr>stall_insn := Some p\<rparr> else s) = flush_view s"
  "flush_view (if b then let (p, t) = iss_insn_get a s in t\<lparr>prefetch_insn := Some p\<rparr> else s) = flush_view s"
  by (simp_all add: split_def Let_def)

lemma cache_flush_view:
  assumes "dec_local dec" "iss_cache_flush dec isas s = Some t"
  shows "flush_view t = flush_view s"
proof -
  let ?s = "(prefetcher_flush s)\<lparr>insn_cache := flush_blocks (insn_cache s)\<rparr>"
  obtain v a u where u: "flush_current dec isas v a ?s = Some u" "flush_view t = flush_view u"
    using assms(2) unfolding iss_cache_flush_def Let_def
    by (cases "flush_current dec isas (case insn_of s (current_insn s) of None \<Rightarrow> 0 | Some i \<Rightarrow> i_opcode i) (addr_or_0 (current_insn s) s) ?s")
      (auto simp only: bind.simps option.inject option.distinct irq_flush_view flush_hwloop_view get_if_view [unfolded Let_def])
  show ?thesis using flush_current_view [OF assms(1) u(1)] u(2) by simp
qed

lemma act_ok_updates [simp]:
  "act_ok (s\<lparr>halted := b\<rparr>) = act_ok s" "act_ok (s\<lparr>halted := b, gdb_signals := n\<rparr>) = act_ok s" "act_ok (s\<lparr>step_mode := c, halted := b\<rparr>) = act_ok s"
  "act_ok (s\<lparr>step_mode := b\<rparr>) = act_ok s" "act_ok (s\<lparr>fetch_enable_reg := b\<rparr>) = act_ok s" "act_ok (s\<lparr>misaligned_access := b\<rparr>) = act_ok s"
  "act_ok (s\<lparr>wakeup_latency := l\<rparr>) = act_ok s" "act_ok (iss_unstall s) = act_ok s" "act_ok (iss_exec_insn_terminate s) = act_ok s"
  "ev_ok (s\<lparr>fetch_enable_reg := b\<rparr>) = ev_ok s" "ev_ok (s\<lparr>npc := v\<rparr>) = ev_ok s"
  by (simp_all add: act_ok_def ev_ok_def scheduled_def iss_unstall_def iss_exec_insn_terminate_def iss_exec_account_cycles_def)

lemma act_ok_wake: "act_ok s \<Longrightarrow> act_ok (s\<lparr>wfi := False\<rparr>)"
  by (simp add: act_ok_def ev_ok_def scheduled_def)

lemma pc_set_ok: "ev_ok s \<Longrightarrow> act_ok (iss_pc_set a s)" "ev_ok (iss_pc_set a s) = ev_ok s" "halted (iss_pc_set a s) = halted s"
  by (simp_all add: iss_pc_set_def prefetcher_refetch_def act_ok_def ev_ok_def iss_insn_get_def split_def Let_def)

lemma flush_view_ok: "flush_view t = flush_view s \<Longrightarrow> act_ok t = act_ok s" "flush_view t = flush_view s \<Longrightarrow> wr_inv t = wr_inv s"
    "flush_view t = flush_view s \<Longrightarrow> ev_ok t = ev_ok s"
  using view_ok [of t s] view_inv [of t s] by (simp_all add: flush_view_def)

lemma set_reg_ok [simp]: "act_ok (iss_set_reg r v s) = act_ok s" "act_ok (s\<lparr>elw_insn := q\<rparr>) = act_ok s" "wr_view (iss_set_reg r v s) = wr_view s"
  by (simp_all add: iss_set_reg_def act_ok_def ev_ok_def scheduled_def wr_view_def)

lemma resume_ok: "stall_resume cb s = Some t \<Longrightarrow> act_ok t = act_ok s"
  by (auto simp: stall_resume_def iss_lsu_load_resume_def iss_lsu_elw_resume_def iss_lsu_load_signed_resume_def iss_lsu_store_resume_def
      split: option.splits stall_cb.splits)

lemma data_response_inv:
  assumes "dec_local dec" "act_ok s" "data_response dec isas ftgt l s w = Some (t, w1)"
  shows "wr_inv t"
proof -
  let ?s = "(iss_unstall s)\<lparr>wakeup_latency := l\<rparr>"
  obtain u where u: "(if misaligned_access ?s then Some (?s\<lparr>misaligned_access := False\<rparr>)
      else map_option iss_exec_insn_terminate (stall_resume (stall_callback ?s) ?s)) = Some u" "check_state dec isas ftgt u w = Some (t, w1)"
    using assms(3) unfolding data_response_def Let_def bind_eq_Some_conv by blast
  have "act_ok u" using u(1) assms(2) resume_ok [of "stall_callback ?s" ?s] by (auto split: if_splits)
  then show ?thesis using check_state_inv [OF assms(1) _ u(2)] by blast
qed

lemma fetch_response_inv:
  assumes "dec_local dec" "act_ok s" "fetch_response dec isas ftgt s w = Some (t, w1)"
  shows "wr_inv t"
proof -
  let ?s = "iss_unstall s"
  obtain u w2 where u: "(case fetch_stall_callback ?s of None \<Rightarrow> Some (?s, w)
        | Some Prefetcher_Fetch_Value_Resume_0 \<Rightarrow> prefetcher_fetch_value_resume_0 dec isas ftgt ?s w
        | Some Prefetcher_Fetch_Value_Resume_1 \<Rightarrow> map_option (\<lambda>t. (t, w)) (prefetcher_fetch_value_resume_1 dec isas ?s)) = Some (u, w2)"
      "check_state dec isas ftgt u w2 = Some (t, w1)"
    using assms(3) unfolding fetch_response_def Let_def bind_eq_Some_conv by (clarsimp simp only: split_paired_all prod.case)
  have r0: "irq_view u = irq_view ?s" if "prefetcher_fetch_value_resume_0 dec isas ftgt ?s w = Some (u, w2)"
    using that after_fill_irq [OF assms(1)] by (auto simp: prefetcher_fetch_value_resume_0_def bind_eq_Some_conv)
  have r1: "irq_view v = irq_view ?s" if "prefetcher_fetch_value_resume_1 dec isas ?s = Some v" for v
    using that opcode_decode_irq [OF assms(1)] by (auto simp: prefetcher_fetch_value_resume_1_def bind_eq_Some_conv Let_def)
  have "irq_view u = irq_view ?s" using u(1) r0 r1 by (auto split: option.splits fetch_cb.splits)
  then have "act_ok u" using view_ok(1) [of u ?s] assms(2) by (simp add: irq_view_def)
  then show ?thesis using check_state_inv [OF assms(1) _ u(2)] by blast
qed

lemma exec_misaligned_inv:
  assumes "is_active_reg s" "\<not> wfi s" "ev_ok s" "exec_misaligned tgt s w = Some (t, w1)" "\<not> misaligned_access t" "misaligned_access s"
  shows "wr_inv t"
proof -
  let ?s = "iss_pccr_account_event CSR_PCER_LD 1 ((iss_unstall s)\<lparr>insn_cycles := insn_cycles (iss_unstall s) + 1\<rparr>)"
  obtain err u where u: "data_req_aligned tgt (misaligned_addr ?s) (data_ref ?s) (misaligned_data ?s) (misaligned_size ?s) (misaligned_is_write ?s) ?s w = Some (err, u, w1)"
      "t = (if err = IO_REQ_OK then let v = (iss_exec_insn_terminate u)\<lparr>misaligned_access := False\<rparr> in enqueue_next_instr (rq_latency (data_io_req v) + 1) v else u)"
    using assms(4) unfolding exec_misaligned_def Let_def bind_eq_Some_conv by (auto split: if_splits)
  have v: "is_active_reg u = is_active_reg s" "wfi u = wfi s" "current_event u = current_event s" "misaligned_access u = misaligned_access s"
    using u(1) by (auto simp: data_req_aligned_def bind_eq_Some_conv ref_put_def iss_pccr_account_event_def iss_unstall_def Let_def split: if_splits reg_ref.splits)
  have "err = IO_REQ_OK" using u(2) v(4) assms(5,6) by (auto split: if_splits)
  then show ?thesis using u(2) v assms(1-3)
    by (auto simp: enqueue_next_instr_def iss_exec_insn_terminate_def iss_exec_account_cycles_def wr_inv_def act_ok_def ev_ok_def scheduled_def Let_def)
qed

lemma irq_handler_inv:
  assumes "dec_local dec" "act_ok s" "irq_req_sync_handler dec isas ftgt s w = Some (t, w1)"
  shows "wr_inv t"
proof -
  let ?s = "irq_check (s\<lparr>wr_irq_req := wr_irq_req_value s\<rparr>)"
  have "act_ok ((iss_irq_req (wr_irq_req ?s) ?s)\<lparr>wfi := False\<rparr>)"
    using assms(2) by (auto simp: irq_check_def iss_irq_req_def iss_unstall_def act_ok_def ev_ok_def scheduled_def Let_def)
  then show ?thesis using assms(3) check_state_inv [OF assms(1)] by (simp add: irq_req_sync_handler_def Let_def)
qed

lemma fetchen_inv:
  assumes "dec_local dec" "act_ok s" "fetchen_sync dec isas ftgt b s w = Some (t, w1)"
  shows "wr_inv t"
proof -
  have "ev_ok s" using assms(2) by (simp add: act_ok_def)
  then have "act_ok (if \<not> fetch_enable_reg s \<and> b then iss_pc_set (bootaddr_reg (s\<lparr>fetch_enable_reg := b\<rparr>) + bootaddr_offset (s\<lparr>fetch_enable_reg := b\<rparr>))
      (s\<lparr>fetch_enable_reg := b\<rparr>) else s\<lparr>fetch_enable_reg := b\<rparr>)" using assms(2) pc_set_ok(1) by simp
  from check_state_inv [OF assms(1) this assms(3) [unfolded fetchen_sync_def Let_def]] show ?thesis .
qed

text \<open>Control and status registers do not say whether the core runs; a write selects the event with all checks.\<close>

definition core_view :: "iss \<Rightarrow> bool \<times> bool \<times> bool \<times> bool \<times> int \<times> bool \<times> (iss_event \<Rightarrow> u64 option) \<times> u8" where
  "core_view s = (is_active_reg s, halted s, fetch_enable_reg s, wfi s, wr_irq_req s, debug_mode s, enqueued s, stalled s)"

lemma core_view_table [simp]: "core_view (iss_irq_set_vector_table base s) = core_view s" "current_event (iss_irq_set_vector_table base s) = current_event s"
    "core_view (snd (iss_insn_get a s)) = core_view s" "current_event (snd (iss_insn_get a s)) = current_event s"
  using vector_table_view [of base s] by (simp_all add: core_view_def wr_view_def iss_insn_get_def split_def Let_def)

lemma core_view_updates [simp]:
  "core_view (s\<lparr>csr_mtvec := v\<rparr>) = core_view s" "core_view (s\<lparr>hwloop_start_insn := f\<rparr>) = core_view s" "core_view (s\<lparr>hwloop_regs := g\<rparr>) = core_view s"
  by (simp_all add: core_view_def)

lemmas csr_writer_defs = ustatus_write_def uie_write_def utvec_write_def uscratch_write_def uepc_write_def ucause_write_def ubadaddr_write_def uip_write_def fflags_write_def frm_write_def fcsr_write_def fprec_write_def sstatus_write_def sedeleg_write_def sideleg_write_def sie_write_def stvec_write_def sscratch_write_def sepc_write_def scause_write_def sbadaddr_write_def sip_write_def sptbr_write_def hstatus_write_def hedeleg_write_def hideleg_write_def hie_write_def htvec_write_def hscratch_write_def hepc_write_def hcause_write_def hbadaddr_write_def misa_write_def mstatus_write_def medeleg_write_def mideleg_write_def mie_write_def mtvec_write_def mscratch_write_def mepc_write_def mcause_write_def mbadaddr_write_def mip_write_def mbase_write_def mbound_write_def mibase_write_def mibound_write_def mdbase_write_def mdbound_write_def mcycle_write_def minstret_write_def mcycleh_write_def minstreth_write_def mucounteren_write_def mscounteren_write_def mhcounteren_write_def stack_conf_write_def stack_start_write_def stack_end_write_def dcsr_write_def depc_write_def scratch0_write_def scratch1_write_def

lemma csr_writers_view:
  assumes "(reg, f) \<in> set (csr_writers @ debug_writers cm @ stack_writers cm)" "current_event s = Check_All_Event"
  shows "core_view (snd (f v s)) = core_view s \<and> current_event (snd (f v s)) = Check_All_Event"
  using assms
  by (auto simp: csr_writers_def debug_writers_def stack_writers_def csr_writer_defs iss_irq_enable_def irq_check_def split: if_splits option.splits)
    (auto simp: core_view_def)

lemma external_view: "core_view (update_external_pccr cm k er mr s) = core_view s" "current_event (update_external_pccr cm k er mr s) = current_event s"
  by (simp_all add: update_external_pccr_def iss_csr_ext_counter_set_def core_view_def Let_def)

lemma fold_view:
  assumes "\<And>i t. core_view (f i t) = core_view t \<and> current_event (f i t) = current_event t"
  shows "core_view (fold f is s) = core_view s \<and> current_event (fold f is s) = current_event s"
  using assms by (induction "is" arbitrary: s) simp_all

lemma perf_write_view:
  "core_view (snd (perfCounters_write cm reg v s)) = core_view s \<and> current_event (snd (perfCounters_write cm reg v s)) = current_event s"
proof -
  have c: "core_view (check_perf_config_change cm er mr t) = core_view t \<and> current_event (check_perf_config_change cm er mr t) = current_event t" for er mr t
    unfolding check_perf_config_change_def by (rule fold_view) (simp add: external_view)
  have a: "core_view (set_all_pccr cm v t) = core_view t \<and> current_event (set_all_pccr cm v t) = current_event t" for t
    unfolding set_all_pccr_def by (rule fold_view) (simp add: external_view Let_def, simp add: core_view_def)
  have "core_view (s\<lparr>pccr := f\<rparr>) = core_view s" "core_view (s\<lparr>pcer := x\<rparr>) = core_view s" "core_view (s\<lparr>pcmr := x\<rparr>) = core_view s" for f x
    by (simp_all add: core_view_def)
  then show ?thesis using c a by (simp add: perfCounters_write_def pcer_write_def pcmr_write_def external_view Let_def)
qed

lemma csr_write_view: "core_view (snd (iss_csr_write cm reg v s)) = core_view s \<and> current_event (snd (iss_csr_write cm reg v s)) = Check_All_Event"
proof -
  let ?s = "iss_trigger_check_all s"
  have s: "core_view ?s = core_view s" "current_event ?s = Check_All_Event" by (simp_all add: iss_trigger_check_all_def core_view_def)
  show ?thesis
  proof (cases "map_of (csr_writers @ debug_writers cm @ stack_writers cm) reg")
    case (Some f)
    then show ?thesis using csr_writers_view [OF map_of_SomeD [OF Some] s(2)] s(1) by (simp add: iss_csr_write_def Let_def)
  next
    case None
    then show ?thesis using perf_write_view [of cm reg v ?s] s by (simp add: iss_csr_write_def Let_def hwloop_write_def split_def del: map_of_append)
  qed
qed

lemma csr_read_view: "core_view (snd (snd (iss_csr_read cm junk reg v s))) = core_view s \<and> current_event (snd (snd (iss_csr_read cm junk reg v s))) = current_event s"
proof (cases "map_of (csr_readers @ debug_readers cm @ stack_readers cm) reg")
  case (Some f)
  have "snd (snd (f v s)) = s" using map_of_SomeD [OF Some]
    by (auto simp: csr_readers_def debug_readers_def stack_readers_def ustatus_read_def uie_read_def utvec_read_def uscratch_read_def uepc_read_def ucause_read_def ubadaddr_read_def uip_read_def fflags_read_def frm_read_def fcsr_read_def fprec_read_def cycle_read_def time_read_def instret_read_def cycleh_read_def timeh_read_def instreth_read_def sstatus_read_def sedeleg_read_def sideleg_read_def sie_read_def stvec_read_def sscratch_read_def sepc_read_def scause_read_def sbadaddr_read_def sip_read_def sptbr_read_def hstatus_read_def hedeleg_read_def hideleg_read_def hie_read_def htvec_read_def hscratch_read_def hepc_read_def hcause_read_def hbadaddr_read_def misa_read_def mvendorid_read_def marchid_read_def mimpid_read_def mhartid_read_def mstatus_read_def medeleg_read_def mideleg_read_def mie_read_def mtvec_read_def mscratch_read_def mepc_read_def mcause_read_def mbadaddr_read_def mip_read_def mbase_read_def mbound_read_def mibase_read_def mibound_read_def mdbase_read_def mdbound_read_def mcycle_read_def minstret_read_def mcycleh_read_def minstreth_read_def mucounteren_read_def mscounteren_read_def mhcounteren_read_def stack_conf_read_def stack_start_read_def stack_end_read_def umode_read_def dcsr_read_def depc_read_def scratch0_read_def scratch1_read_def split: if_splits option.splits)
  then show ?thesis using Some by (simp add: iss_csr_read_def)
next
  case None
  then show ?thesis by (simp add: iss_csr_read_def perfCounters_read_def hwloop_read_def external_view Let_def del: map_of_append)
qed

lemma core_view_ok: "core_view t = core_view s \<Longrightarrow> ev_ok t = ev_ok s \<Longrightarrow> wr_inv t = wr_inv s"
  by (simp add: core_view_def wr_inv_def act_ok_def scheduled_def runnable_def)

lemma dbg_csr_inv:
  assumes "wr_inv s" "dbg_csr_access cm junk offset is_write v s w = Some (e, v1, t, w1)"
  shows "wr_inv t"
proof -
  have "t = (if is_write then snd (iss_csr_write cm (ucast (drop_bit 2 (offset - 0x4000))) v s)
      else snd (snd (iss_csr_read cm junk (ucast (drop_bit 2 (offset - 0x4000))) v s)))"
    using assms(2) by (auto simp: dbg_csr_access_def split_def Let_def split: if_splits)
  then have "core_view t = core_view s \<and> ev_ok t" using csr_write_view csr_read_view assms(1) by (simp add: ev_ok_def wr_inv_def act_ok_def)
  then show ?thesis using assms(1) core_view_ok [of t s] by (simp add: wr_inv_def act_ok_def)
qed

text \<open>What can happen to the wrapper. Instruction events fire while the core is active, the second half of an access succeeds, and the debugger writes the program counter of a halted
  core.\<close>

inductive wr_step ::
    "bool \<Rightarrow> csr_map \<Rightarrow> insn_decode \<Rightarrow> decoder_item list \<Rightarrow> 'w isa \<Rightarrow> 'w target_meth \<Rightarrow> 'w target_meth \<Rightarrow> iss \<times> 'w \<Rightarrow> iss \<times> 'w \<Rightarrow> bool"
  for vp cm dec isas isa tgt ftgt where
  instr: "enqueued s Instr_Event \<noteq> None \<Longrightarrow> is_active_reg s \<Longrightarrow> exec_instr dec isas isa ftgt (fired Instr_Event s) w = Some (t, w1) \<Longrightarrow>
    wr_step vp cm dec isas isa tgt ftgt (s, w) (t, w1)"
| check_all: "enqueued s Check_All_Event \<noteq> None \<Longrightarrow> is_active_reg s \<Longrightarrow>
    exec_instr_check_all vp dec isas isa ftgt (fired Check_All_Event s) w = Some (t, w1) \<Longrightarrow> wr_step vp cm dec isas isa tgt ftgt (s, w) (t, w1)"
| misaligned: "enqueued s Misaligned_Event \<noteq> None \<Longrightarrow> is_active_reg s \<Longrightarrow> misaligned_access s \<Longrightarrow>
    exec_misaligned tgt (fired Misaligned_Event s) w = Some (t, w1) \<Longrightarrow> \<not> misaligned_access t \<Longrightarrow> wr_step vp cm dec isas isa tgt ftgt (s, w) (t, w1)"
| irq_sync: "enqueued s Irq_Sync_Event \<noteq> None \<Longrightarrow> irq_req_sync_handler dec isas ftgt (fired Irq_Sync_Event s) w = Some (t, w1) \<Longrightarrow>
    wr_step vp cm dec isas isa tgt ftgt (s, w) (t, w1)"
| data_resp: "data_response dec isas ftgt latency s w = Some (t, w1) \<Longrightarrow> wr_step vp cm dec isas isa tgt ftgt (s, w) (t, w1)"
| fetch_resp: "fetch_response dec isas ftgt s w = Some (t, w1) \<Longrightarrow> wr_step vp cm dec isas isa tgt ftgt (s, w) (t, w1)"
| bootaddr: "wr_step vp cm dec isas isa tgt ftgt (s, w) (bootaddr_sync v s, w)"
| fetchen: "fetchen_sync dec isas ftgt b s w = Some (t, w1) \<Longrightarrow> wr_step vp cm dec isas isa tgt ftgt (s, w) (t, w1)"
| flush: "flush_cache_sync dec isas s = Some t \<Longrightarrow> wr_step vp cm dec isas isa tgt ftgt (s, w) (t, w)"
| flush_ack: "flush_cache_ack_sync dec isas ftgt s w = Some (t, w1) \<Longrightarrow> wr_step vp cm dec isas isa tgt ftgt (s, w) (t, w1)"
| halt: "halt_sync dec isas ftgt b s w = Some (t, w1) \<Longrightarrow> wr_step vp cm dec isas isa tgt ftgt (s, w) (t, w1)"
| irq: "wr_step vp cm dec isas isa tgt ftgt (s, w) (irq_req_sync n s, w)"
| dbg: "dbg_unit_req cm junk dec isas ftgt offset sz is_write v s w = Some (e, v1, t, w1) \<Longrightarrow> wr_step vp cm dec isas isa tgt ftgt (s, w) (t, w1)"
| gdb_stop: "gdbserver_stop dec isas ftgt s w = Some (t, w1) \<Longrightarrow> wr_step vp cm dec isas isa tgt ftgt (s, w) (t, w1)"
| gdb_cont: "gdbserver_cont dec isas ftgt s w = Some (t, w1) \<Longrightarrow> wr_step vp cm dec isas isa tgt ftgt (s, w) (t, w1)"
| gdb_stepi: "gdbserver_stepi dec isas ftgt s w = Some (t, w1) \<Longrightarrow> wr_step vp cm dec isas isa tgt ftgt (s, w) (t, w1)"
| gdb_reg: "halted s \<Longrightarrow> wr_step vp cm dec isas isa tgt ftgt (s, w) (gdbserver_reg_set reg v s, w)"
| reset: "wrapper_reset dec isas ftgt False s w = Some (t, w1) \<Longrightarrow> wr_step vp cm dec isas isa tgt ftgt (s, w) (t, w1)"

lemma dbg_unit_inv:
  assumes "dec_local dec" "wr_inv s" "dbg_unit_req cm junk dec isas ftgt offset sz is_write v s w = Some (e, v1, t, w1)"
  shows "wr_inv t"
proof -
  have a: "act_ok s" "ev_ok s" using assms(2) by (simp_all add: wr_inv_def act_ok_def)
  have pc: "wr_inv t" if p: "dbg_pc_access dec isas ftgt offset is_write v s w = Some (e, v1, t, w1)"
  proof (cases "halted s \<and> offset = 0x2000 \<and> is_write")
    case True
    then obtain u where u: "iss_cache_flush dec isas s = Some u" "check_state dec isas ftgt ((iss_pc_set v (u\<lparr>npc := v\<rparr>))\<lparr>wfi := False\<rparr>) w = Some (t, w1)"
      using p by (auto simp: dbg_pc_access_def bind_eq_Some_conv Let_def)
    have "ev_ok u" using flush_view_ok(3) [OF cache_flush_view [OF assms(1) u(1)]] a(2) by simp
    then have "act_ok ((iss_pc_set v (u\<lparr>npc := v\<rparr>))\<lparr>wfi := False\<rparr>)" by (intro act_ok_wake pc_set_ok(1)) simp
    then show ?thesis by (rule check_state_inv [OF assms(1) _ u(2)])
  qed (use p assms(2) in \<open>auto simp: dbg_pc_access_def split: if_splits\<close>)
  have reg: "wr_inv t" if "dbg_reg_access offset is_write v s w = Some (e, v1, t, w1)"
  proof -
    have "t = s \<or> (\<exists>r x. t = iss_set_reg r x s)" using that by (auto simp: dbg_reg_access_def Let_def split: if_splits)
    moreover have "stalled (iss_set_reg r x s) = stalled s" for r x by (simp add: iss_set_reg_def)
    ultimately show ?thesis using assms(2) view_inv [of t s] by auto
  qed
  have ctrl: "wr_inv t" if c: "dbg_ctrl_access dec isas ftgt offset is_write v s w = Some (e, v1, t, w1)"
  proof (cases "offset = 0 \<and> is_write")
    case True
    then obtain u w2 where "set_halt_mode dec isas ftgt (bit v 16) HALT_CAUSE_HALT s w = Some (u, w2)"
        "check_state dec isas ftgt (u\<lparr>step_mode := bit v 0\<rparr>) w2 = Some (t, w1)"
      using c by (auto simp: dbg_ctrl_access_def bind_eq_Some_conv)
    then show ?thesis by (rule halt_then_check_inv [OF assms(1) a(1)])
  next
    case False
    then have "t = s \<or> t = s\<lparr>hit_reg := v\<rparr>" using c by (auto simp: dbg_ctrl_access_def split: if_splits)
    then show ?thesis using assms(2) by (auto simp: wr_inv_def act_ok_def ev_ok_def scheduled_def runnable_def)
  qed
  show ?thesis using assms(3) pc reg ctrl dbg_csr_inv [OF assms(2), of cm junk offset is_write v w e v1 t w1] assms(2)
    unfolding dbg_unit_req_def by (auto split: if_splits)
qed

lemma reset_inv:
  assumes "dec_local dec" "ev_ok s" "wrapper_reset dec isas ftgt False s w = Some (t, w1)"
  shows "wr_inv t"
proof -
  let ?s = "iss_csr_init s"
  let ?u = "iss_irq_set_vector_table (bootaddr_reg (iss_pc_set (bootaddr_reg ?s + bootaddr_offset ?s) ?s) AND NOT 0xFF) (iss_pc_set (bootaddr_reg ?s + bootaddr_offset ?s) ?s)"
  have "ev_ok ?s" using assms(2) by (simp add: ev_ok_def iss_csr_init_def)
  then have "act_ok ?u" using view_ok(1) [OF vector_table_view(1)] pc_set_ok(1) by metis
  then have "act_ok (if gdbserver ?u then ?u\<lparr>halted := True\<rparr> else ?u)" by simp
  moreover have "check_state dec isas ftgt (if gdbserver ?u then ?u\<lparr>halted := True\<rparr> else ?u) w = Some (t, w1)"
    using assms(3) by (cases "gdbserver ?u") (simp_all add: wrapper_reset_def iss_reset_def Let_def)
  ultimately show ?thesis by (rule check_state_inv [OF assms(1)])
qed

lemma wr_step_inv:
  assumes "isa_live isa" "dec_local dec" "wr_step vp cm dec isas isa tgt ftgt (s, w) (t, w1)" "wr_inv s"
  shows "wr_inv t"
proof -
  have a: "act_ok s" "ev_ok s" "is_active_reg s \<Longrightarrow> \<not> wfi s" using assms(4) by (auto simp: wr_inv_def act_ok_def)
  from assms(3) show ?thesis
  proof (cases rule: wr_step.cases)
    case instr
    then show ?thesis using exec_instr_inv [OF assms(1,2) _ _ _ instr(3)] a by simp
  next
    case check_all
    then show ?thesis using exec_instr_check_all_inv [OF assms(1,2) _ _ _ check_all(3)] a by simp
  next
    case misaligned
    then show ?thesis using exec_misaligned_inv [OF _ _ _ misaligned(4,5)] a by (simp add: fired_def ev_ok_def)
  next
    case irq_sync
    have "act_ok (fired Irq_Sync_Event s)" using a(1) by (simp add: act_ok_def ev_ok_def scheduled_def fired_def)
    then show ?thesis by (rule irq_handler_inv [OF assms(2) _ irq_sync(2)])
  next
    case data_resp
    show ?thesis by (rule data_response_inv [OF assms(2) a(1) data_resp])
  next
    case fetch_resp
    show ?thesis by (rule fetch_response_inv [OF assms(2) a(1) fetch_resp])
  next
    case (bootaddr v)
    have "wr_view t = wr_view s" "stalled t = stalled s" unfolding bootaddr bootaddr_sync_def Let_def by (simp_all add: vector_table_view) (simp add: wr_view_def)
    then show ?thesis using view_inv assms(4) by blast
  next
    case fetchen
    show ?thesis by (rule fetchen_inv [OF assms(2) a(1) fetchen])
  next
    case flush
    then show ?thesis using assms(4) flush_view_ok(2) [OF cache_flush_view [OF assms(2)]] by (auto simp: flush_cache_sync_def split: if_splits)
  next
    case flush_ack
    then show ?thesis using check_state_inv [OF assms(2) _ flush_ack [unfolded flush_cache_ack_sync_def]] a(1) by simp
  next
    case (halt b)
    then obtain u w2 where u: "set_halt_mode dec isas ftgt b HALT_CAUSE_HALT s w = Some (u, w2)" "check_state dec isas ftgt u w2 = Some (t, w1)"
      by (cases "set_halt_mode dec isas ftgt b HALT_CAUSE_HALT s w") (auto simp: halt_sync_def)
    show ?thesis by (rule check_state_inv [OF assms(2) set_halt_mode_ok [OF assms(2) a(1) u(1)] u(2)])
  next
    case irq
    then show ?thesis using assms(4) by (auto simp: irq_req_sync_def wr_inv_def act_ok_def ev_ok_def scheduled_def runnable_def Let_def)
  next
    case dbg
    show ?thesis by (rule dbg_unit_inv [OF assms(2,4) dbg])
  next
    case gdb_stop
    then show ?thesis using check_state_inv [OF assms(2) _ gdb_stop [unfolded gdbserver_stop_def]] a(1) by simp
  next
    case gdb_cont
    then show ?thesis using check_state_inv [OF assms(2) _ gdb_cont [unfolded gdbserver_cont_def]] a(1) by simp
  next
    case gdb_stepi
    then show ?thesis using check_state_inv [OF assms(2) _ gdb_stepi [unfolded gdbserver_stepi_def]] a(1) by simp
  next
    case (gdb_reg reg v)
    then show ?thesis using assms(4) pc_set_ok(1) [OF a(2)] pc_set_ok(3) by (auto simp: gdbserver_reg_set_def wr_inv_def runnable_def)
  next
    case reset
    then show ?thesis by (rule reset_inv [OF assms(2) a(2)])
  qed
qed


text \<open>A core that starts at address 0x80 waits for its first fetch; an interrupt arrives.\<close>

definition boot_iss :: iss where
  "boot_iss = sample_iss\<lparr>current_event := Check_All_Event, bootaddr_reg := 0x80, is_active_reg := False\<rparr>"

lemma boot_iss_reset: "\<exists>s. wrapper_reset (\<lambda>_ _ s. s) [] slow_target False boot_iss (0 :: nat) = Some (s, 0) \<and> stalled s = 1"
proof -
  let ?s = "iss_pc_set 0x80 (iss_csr_init boot_iss)"
  define u where "u = iss_irq_set_vector_table 0 ?s"
  define v where "v = u\<lparr>current_event := Check_All_Event\<rparr>"
  have keep: "current_insn (set_vectors b is x) = current_insn x \<and> pf_addr (set_vectors b is x) = pf_addr x \<and> do_fetch (set_vectors b is x) = do_fetch x \<and>
      gdbserver (set_vectors b is x) = gdbserver x" for b "is" x
    by (induction b "is" x rule: set_vectors.induct) (simp_all add: iss_insn_get_def split_def Let_def)
  have cache: "ic_inv (insn_cache x) \<Longrightarrow> insn_at (insn_cache x) p = Some i \<Longrightarrow> insn_at (insn_cache (set_vectors b is x)) p = Some i" for b "is" x p i
  proof (induction b "is" x rule: set_vectors.induct)
    case (2 b i "is" x)
    then show ?case using insn_cache_get_inv insn_cache_get_keeps by (simp add: iss_insn_get_def split_def Let_def)
  qed simp
  have i: "ic_inv (insn_cache sample_iss)" by (simp add: sample_iss_def insn_cache_init_inv)
  have c: "insn_cache ?s = snd (insn_cache_get 0x80 (insn_cache sample_iss))" "current_insn ?s = Some (insn_ptr 0x80)" "pf_addr ?s = - 1" "do_fetch ?s"
      "\<not> is_active_reg ?s" "\<not> gdbserver ?s" "bootaddr_reg ?s = 0x80" "stalled ?s = 0" "\<not> halted ?s" "fetch_enable_reg ?s" "\<not> wfi ?s"
    by (simp_all add: iss_pc_set_def iss_csr_init_def boot_iss_def prefetcher_refetch_def iss_insn_get_def fst_insn_cache_get split_def Let_def sample_iss_def)
  obtain k where k: "insn_at (insn_cache ?s) (insn_ptr 0x80) = Some k" "i_addr k = 0x80" using insn_cache_get_entry [OF i, of "0x80"] c(1) by auto
  have "insn_at (insn_cache u) (insn_ptr 0x80) = Some k"
    unfolding u_def iss_irq_set_vector_table_def using cache [OF _ k(1)] insn_cache_get_inv [OF i, of "0x80"] c(1) by simp
  moreover have "current_insn u = Some (insn_ptr 0x80)" "pf_addr u = - 1" "do_fetch u" "\<not> gdbserver u"
    unfolding u_def iss_irq_set_vector_table_def using keep c by simp_all
  moreover have w: "wr_view u = wr_view ?s" "stalled u = stalled ?s" unfolding u_def by (simp_all only: vector_table_view)
  ultimately have v: "insn_at (insn_cache v) (insn_ptr 0x80) = Some k" "pf_addr v = - 1" "current_insn v = Some (insn_ptr 0x80)" "stalled v = 0" "runnable v"
      "do_fetch u" "\<not> gdbserver u" "\<not> is_active_reg u"
    using c by (simp_all add: v_def runnable_def wr_view_def)
  obtain s where "prefetcher_fetch (\<lambda>_ _ s. s) [] slow_target (current_insn v) v (0 :: nat) = Some (s, 0)" "stalled s = 1"
    using slow_fetch [OF v(1,2), of "\<lambda>_ _ s. s" "[]" 0] k(2) v(3,4) by auto
  then have "check_state (\<lambda>_ _ s. s) [] slow_target u (0 :: nat) = Some (s, 0)" "stalled s = 1"
    using check_state_idle [OF v(8), of "\<lambda>_ _ s. s" "[]" slow_target 0] v(5,6) by (simp_all add: v_def Let_def)
  moreover have "wrapper_reset (\<lambda>_ _ s. s) [] slow_target False boot_iss (0 :: nat) = check_state (\<lambda>_ _ s. s) [] slow_target u 0"
    using v(7) c(7) by (simp add: wrapper_reset_def iss_reset_def u_def Let_def iss_csr_init_def boot_iss_def sample_iss_def)
  ultimately show ?thesis by auto
qed


text \<open>The handler of \<^verbatim>\<open>wfi\<close> is as asked, outside of debug mode.\<close>

lemma check_state_live:
  assumes "check_state dec isas ftgt s w = Some (t, w1)" "is_active_reg s" "wfi s \<longrightarrow> \<not> debug_mode s"
  shows "ev_ok t \<and> (if is_active_reg t then \<not> wfi t else asleep t)"
proof -
  let ?s = "s\<lparr>current_event := Check_All_Event\<rparr>"
  obtain u where u: "core_deactivate ?s = Some u" "t = (if is_active_reg u then u else u\<lparr>enqueued := (enqueued u)(current_event s := None)\<rparr>)"
    using assms(1) unfolding check_state_active [OF assms(2)] by blast
  have "current_event u = Check_All_Event" "if is_active_reg u then \<not> wfi u else asleep u"
    using u(1) assms(2,3) by (auto simp: core_deactivate_def halt_core_def asleep_def bind_eq_Some_conv split: if_splits)
  then show ?thesis unfolding u(2) by (cases "is_active_reg u") (simp_all add: ev_ok_def asleep_def)
qed

lemma wfi_exec_live:
  assumes "wfi_exec dec isas ftgt insn s w = Some (q, t, w1)" "\<not> debug_mode s"
  shows "live_step s t"
proof -
  have "check_state dec isas ftgt (s\<lparr>wfi := True\<rparr>) w = Some (t, w1)"
    using assms(1) by (cases "check_state dec isas ftgt (s\<lparr>wfi := True\<rparr>) w") (auto simp: wfi_exec_def wait_for_interrupt_def)
  then show ?thesis using check_state_live [of dec isas ftgt "s\<lparr>wfi := True\<rparr>" w t w1] assms(2) by (simp add: live_step_def)
qed

section \<open>What the wrapper gets wrong\<close>

text \<open>A \<^verbatim>\<open>wfi\<close> in debug mode puts the core to sleep although it can run.\<close>

lemma wfi_sleeps_in_debug_mode:
  assumes "is_active_reg s" "debug_mode s" "\<not> halted s" "fetch_enable_reg s" "stalled s = 0" "wr_irq_req s = -1"
  shows "\<exists>t. wait_for_interrupt dec isas ftgt s w = Some (t, w) \<and> runnable t \<and> \<not> is_active_reg t"
  using assms by (simp add: wait_for_interrupt_def check_state_active core_deactivate_def runnable_def)

text \<open>When the event was changed while the other one is in the queue, a halt cancels the wrong one: the instruction is still executed.\<close>

lemma halt_leaves_event:
  assumes "is_active_reg s" "halted s" "\<not> do_step s" "prev_insn s = None" "current_insn s = Some p" "insn_at (insn_cache s) p = Some insn" "enqueued s Instr_Event = Some n"
  shows "\<exists>t. check_state dec isas ftgt (irq_check s) w = Some (t, w) \<and> \<not> is_active_reg t \<and> enqueued t Instr_Event = Some n"
  using assms by (simp add: check_state_active irq_check_def core_deactivate_def halt_core_def insn_of_def)

text \<open>The acknowledge of a flush does not end the stall of the instruction that asked for it.\<close>

lemma flush_ack_keeps_stall:
  assumes "stalled s \<noteq> 0" "\<not> is_active_reg s"
  shows "\<exists>t. flush_cache_ack_sync dec isas ftgt s w = Some (t, w) \<and> stalled t = stalled s \<and> \<not> is_active_reg t"
  using assms by (simp add: flush_cache_ack_sync_def check_state_idle runnable_def iss_exec_insn_terminate_def iss_exec_account_cycles_def Let_def)

text \<open>A reset keeps the registers of the hardware loops, and with them a loop that was running.\<close>

lemma reset_keeps_hwloop_regs:
  assumes "dec_local dec" "iss_reset dec isas active s = Some t"
  shows "hwloop_regs t = hwloop_regs s"
proof (cases active)
  case True
  let ?s = "iss_irq_init (s\<lparr>regs := (\<lambda>i. if i = 0 then 0 else if 0 < i \<and> i < 64 then 0x57575757 else regs s i)\<rparr>)"
  obtain u where u: "iss_cache_flush dec isas ?s = Some u" "hwloop_regs t = hwloop_regs u"
    using assms(2) True by (cases "iss_cache_flush dec isas ?s") (auto simp: iss_reset_def iss_csr_init_def)
  have "hwloop_regs ?s = hwloop_regs s" by (simp add: iss_irq_init_def set_debug_handler_def iss_insn_get_def split_def Let_def)
  then show ?thesis using cache_flush_view [OF assms(1) u(1)] u(2) by (simp add: flush_view_def)
qed (use assms(2) in \<open>auto simp: iss_reset_def iss_csr_init_def\<close>)

end
