(* ===== verification/Spec2Isabelle.thy ===== *)
theory Spec2Isabelle
  imports Time_Scheduler Clock_Gen Isa_Nn Isa_Float Memory_Map Interleaver Vp_Queue Cache Iss_Wrapper
begin

text \<open>
  A verification development for GVSoC, the instruction-accurate simulator of PULP systems.

  \<^bold>\<open>The program.\<close> The engine (\<^verbatim>\<open>engine/\<close>) advances time: a time engine holds a list of clients ordered by the time of their next
  event; clients are clock engines, which run the events of a clock domain cycle by cycle, and time schedulers.
  Components (\<^verbatim>\<open>models/\<close>) talk through ports; memory-mapped accesses are IO requests that initiators send through routers,
  interleavers and caches to memories. The processor model (\<^verbatim>\<open>models/cpu/iss\<close>) decodes instructions and computes their results with a
  library of integer, packed and floating-point helpers, the last on top of the flexfloat library.

  \<^bold>\<open>The theories.\<close>
  \<^item> \<open>Gv_Prelude\<close>: word types, ordered insertion into lists, lemmas on options and lists shared by the components.
  \<^item> \<open>Time_Engine\<close>, \<open>Time_Scheduler\<close> (\<^verbatim>\<open>engine/include/vp/time\<close>, \<^verbatim>\<open>engine/src/vp.cpp\<close>): the list of clients, the run loop with its shortcut for a
  client that stays first, and the scheduler that runs timed events, with its stop event. The run loop
  refines an agenda, a map from clients to times; no event is passed over, and \<open>step\<close> stops at the requested time.
  \<^item> \<open>Clock_Engine\<close>, \<open>Clock_Gen\<close> (\<^verbatim>\<open>engine/src/vp.cpp\<close>, \<^verbatim>\<open>engine/include/vp/clock\<close>, \<^verbatim>\<open>engine/src/clock\<close>): the circular buffer of 32 slots and the
  queue of later events, synchronization of an idle engine, frequency changes, and the clock generator as a client.
  Events run in their cycle, enqueueing and cancelling touch exactly the given event.
  \<^item> \<open>Isa_Lanes\<close>, \<open>Isa_Scalar\<close>, \<open>Isa_Vector\<close>, \<open>Isa_Nn\<close> (\<^verbatim>\<open>models/cpu/iss/include/isa_lib/int.h\<close>): the integer helpers on registers, on bytes and
  half-words, and on nibbles and crumbs, against lane-wise and arithmetic specifications.
  \<^item> \<open>Ieee_Double\<close>, \<open>Flexfloat\<close>, \<open>Flexfloat_Round\<close>, \<open>Isa_Float\<close> (\<^verbatim>\<open>models/cpu/iss/flexfloat\<close>, \<^verbatim>\<open>int.h\<close>): the double arithmetic of the host with exact
  rounding, the custom formats kept in doubles, their rounding, and the helpers of the instruction set.
  \<^item> \<open>Io_Req\<close> (\<^verbatim>\<open>engine/include/vp/itf/io.hpp\<close>): requests, their argument stack, and the locale \<open>byte_target\<close>, the contract between an
  interconnect and what is behind it; address spaces and the effect of an access on them.
  \<^item> \<open>Memory\<close>, \<open>Router\<close>, \<open>Memory_Map\<close>, \<open>Interleaver\<close>, \<open>Cache\<close> (\<^verbatim>\<open>models/memory/memory_impl.cpp\<close>, \<^verbatim>\<open>models/interco\<close>, \<^verbatim>\<open>models/cache\<close>): memories interpret
  \<open>byte_target\<close>; the lemmas on the router, the interleaver and the cache are proved once in the locale and then
  hold for memories: each shows one flat address space, whatever pieces a request is cut into.
  \<^item> \<open>Vp_Queue\<close> (\<^verbatim>\<open>engine/src/queue.cpp\<close>): the intrusive queue with its pointers; the locale \<open>list_queue\<close> is its contract.
  \<^item> \<open>Insn_Cache\<close> (\<^verbatim>\<open>models/cpu/iss/src/insn_cache.cpp\<close>): the cache of decoded instructions; pointers into it are pairs of a block and an index, and
  they stay valid and keep their address over lookups and flushes.
  \<^item> \<open>Iss_Core\<close>, \<open>Iss_Lsu\<close> (\<^verbatim>\<open>regs.hpp\<close>, \<^verbatim>\<open>perf.hpp\<close>, \<^verbatim>\<open>exceptions.hpp\<close>, \<^verbatim>\<open>lsu.hpp\<close>, \<^verbatim>\<open>vp/\<close>): the state of a core, its registers and counters, and the accesses of the
  load-store unit, cut in two at a word boundary; loads give back what stores put behind a \<open>byte_target\<close>.
  \<^item> \<open>Iss_Rv32\<close> (\<^verbatim>\<open>rv32i.hpp\<close>, \<^verbatim>\<open>rv32m.hpp\<close>, \<^verbatim>\<open>rv32c.hpp\<close>): the handlers of RV32IMC, against the results of the RISC-V manual.
  \<^item> \<open>Iss_Decoder\<close>, \<open>Iss_Fetch\<close> (\<^verbatim>\<open>src/decoder.cpp\<close>, \<^verbatim>\<open>prefetcher.hpp\<close>, \<^verbatim>\<open>irq.hpp\<close>): the decoder over a given tree of descriptions, which always succeeds and loses no
  entry of the cache, and the prefetch buffer: an instruction is decoded with the word at its address in memory.
  \<^item> \<open>Iss_Exec\<close>, \<open>Iss_Step\<close> (\<^verbatim>\<open>exec.hpp\<close>, \<^verbatim>\<open>irq.hpp\<close>, \<^verbatim>\<open>pulp_v2.hpp\<close>, \<^verbatim>\<open>src/resource.cpp\<close>): interrupts and debug requests, hardware loops, and the chain of handlers
  an instruction goes through (decoding, offloading, stalls, end of a loop). A loop runs its body the given number of times, an interrupt goes back to
  where it came from, and a fetched instruction executes as the word in memory. The handlers of the instructions are the argument \<open>isa\<close>.
  \<^item> \<open>Iss_Csr\<close> (\<^verbatim>\<open>src/csr.cpp\<close>, \<^verbatim>\<open>priv.hpp\<close>): the control and status registers, which refine an array of registers, and their instructions.
  \<^item> \<open>Iss_Wrapper\<close> (\<^verbatim>\<open>vp/src/iss_wrapper.cpp\<close>): clock events, ports, debug unit, debugger and reset as steps of one relation; the invariant is that a
  core that can run is active and has an event enqueued, so that no wake-up is lost.

  \<^bold>\<open>Choices.\<close> Times and cycle counts, 64 bits wide in the code, are unbounded integers: a simulation does not get near
  the bound. Intrusive lists are lists except in \<open>Vp_Queue\<close>, whose behaviour depends on the pointers. Registers and other machine
  integers are words; signed C integers that stay in a register wrap around like \<^verbatim>\<open>uint32_t\<close>. A shift by the width or more, a null pointer,
  an index outside an array and an uninitialized value are \<open>None\<close>, and so is a loop that does not end
  (\<open>partial_function\<close>); theorems on these functions say that they return. Doubles are 64-bit words with operations that round exactly, the
  host is x86 with its codes of the rounding modes and without contraction of expressions; flags that conversions to
  integers raise on the host are not modelled. Formats have 2 to 10 exponent and 1 to 31 fraction bits. Ports are numbers; the data pointer
  of a request is an index into the buffer of its initiator. Calls into the power model are logs. The chain of handlers of an
  instruction is followed to depth 8, which is more than the hooks the decoder can install on one entry.

  \<^bold>\<open>Not modelled.\<close> Reading the configuration, loading and binding of components, traces and waveforms (partly vendored writers),
  the GDB server and the proxy (sockets and threads), the power model, SystemC and DPI bridges, models of
  external devices, the standalone simulator; of the processor model, the tree of the decoder, which is generated, the
  handlers of the floating-point and PULP extensions (their arithmetic is modelled), traces, and the semihosting, which calls the operating system and is an
  argument of \<^verbatim>\<open>ebreak\<close>.
\<close>

end
